(* ===== verification/H2Prelude.thy ===== *)
theory H2Prelude
  imports Main "HOL-Library.Word" "HOL-Library.Code_Target_Numeral"
begin

text \<open>
  Shared types, automation and generic lemmas of the development.

  Conventions. Source text and memory are lists of \<open>byte\<close>s (8-bit words). The
  \<open>uint32_t\<close> positions, lengths and indices of the C code are \<open>nat\<close>; where a C
  expression on them could leave the 32-bit range, the reduction modulo \<open>2 ^ 32\<close> is
  written out with \<open>u32\<close>, or the model stops with the explicit outcome
  \<open>Stuck\<close>. Values whose bits matter (runes, 64-bit integers, flags) are words.
  \<open>Stuck\<close> stands for a step the C code may take only outside the memory it owns
  or with a wrapped index: theorems that exclude it are memory-safety statements.
\<close>

unbundle bit_operations_syntax

type_synonym byte = "8 word"

abbreviation (input) UINT32_MAX :: nat where
  "UINT32_MAX \<equiv> 4294967295"

definition u32 :: "nat \<Rightarrow> nat" where
  "u32 n = n mod 4294967296"

definition ch :: "char \<Rightarrow> byte" where
  "ch c = of_char c"

definition cstr :: "string \<Rightarrow> byte list" where
  "cstr s = map ch s"

datatype (plugins only: code size) ('e, 'a) outcome = Ok 'a | Err 'e | Stuck

text \<open>Reads of the byte at a position, and the guarded reads of \<open>cond && P(src[i])\<close>.\<close>

definition peek :: "byte list \<Rightarrow> nat \<Rightarrow> (byte \<Rightarrow> ('e, 'a) outcome) \<Rightarrow> ('e, 'a) outcome" where
  "peek src i k = (if i < length src then k (src ! i) else Stuck)"

definition peekIf ::
  "bool \<Rightarrow> byte list \<Rightarrow> nat \<Rightarrow> (byte \<Rightarrow> bool) \<Rightarrow> (bool \<Rightarrow> ('e, 'a) outcome) \<Rightarrow> ('e, 'a) outcome" where
  "peekIf cond src i P k = (if cond then peek src i (\<lambda>b. k (P b)) else k False)"

fun obind :: "('e, 'a) outcome \<Rightarrow> ('a \<Rightarrow> ('e, 'b) outcome) \<Rightarrow> ('e, 'b) outcome" where
  "obind (Ok x) k = k x"
| "obind (Err e) k = Err e"
| "obind Stuck k = Stuck"

lemma peek_in [simp]: "i < length src \<Longrightarrow> peek src i k = k (src ! i)"
  by (simp add: peek_def)

lemma peek_out [simp]: "\<not> i < length src \<Longrightarrow> peek src i k = Stuck"
  by (simp add: peek_def)

lemma peekIf_False [simp]: "peekIf False src i P k = k False"
  by (simp add: peekIf_def)

lemma peekIf_in: "(c \<Longrightarrow> i < length src) \<Longrightarrow> peekIf c src i P k = k (c \<and> P (src ! i))"
  by (simp add: peekIf_def peek_def)

lemma peekIf_cases:
  obtains "peekIf c src i P k = k True" "c" "i < length src" "P (src ! i)"
  | "peekIf c src i P k = k False"
  | "peekIf c src i P k = Stuck" "c" "\<not> i < length src"
  by (cases c; cases "i < length src"; cases "P (src ! i)") (auto simp: peekIf_def)

named_theorems u32_simps \<open>removes the wrap-around of 32-bit arithmetic that stays in range\<close>

lemma u32_id [u32_simps, simp]: "n \<le> UINT32_MAX \<Longrightarrow> u32 n = n"
  by (simp add: u32_def)

lemma u32_le [simp, intro]: "u32 n \<le> UINT32_MAX"
  by (simp add: u32_def less_Suc_eq_le [symmetric])

lemma u32_le_self: "u32 n \<le> n"
  by (simp add: u32_def)

lemma length_cstr [simp]: "length (cstr s) = length s"
  by (simp add: cstr_def)

lemma ch_eq [simp]: "ch a = ch b \<longleftrightarrow> a = b"
proof
  have n: "unat (ch c) = of_char c" for c
  proof -
    have "ch c = of_nat (of_char c)" unfolding ch_def by (rule of_nat_of_char [symmetric])
    then show ?thesis by (simp only: unat_of_nat) simp
  qed
  assume "ch a = ch b"
  then have "(of_char a :: nat) = of_char b" by (metis n)
  then show "a = b" by simp
qed simp

lemma cstr_eq [simp]: "cstr a = cstr b \<longleftrightarrow> a = b"
  unfolding cstr_def by (rule inj_map_eq_map) (simp add: inj_def)

lemma ifI: "(c \<Longrightarrow> P a) \<Longrightarrow> (\<not> c \<Longrightarrow> P b) \<Longrightarrow> P (if c then a else b)"
  by simp

lemma list_update_ball: "\<forall>x\<in>set xs. P x \<Longrightarrow> P y \<Longrightarrow> \<forall>x\<in>set (xs[k := y]). P x"
  using set_update_subset_insert [of xs k y] by blast

lemma list_update_forall_nth:
  "(\<And>i. i < length xs \<Longrightarrow> P i (xs ! i)) \<Longrightarrow> P k y \<Longrightarrow> i < length xs \<Longrightarrow> P i (xs[k := y] ! i)"
  by (cases "i = k") simp_all

subsection \<open>Bit tricks on alignments\<close>

text \<open>
  The allocator tests \<open>(align & (align - 1)) != 0\<close> and rounds up with
  \<open>(x + (align - 1)) & ~(align - 1)\<close>. The first is the test for a power of two, the
  second then rounds up to the next multiple.
\<close>

lemma and_pred_zero_power2:
  assumes "0 < (n::nat)" "n AND (n - 1) = 0"
  shows "\<exists>k. n = 2 ^ k"
  using assms
proof (induction n rule: less_induct)
  case (less n)
  show ?case
  proof (cases "even n")
    case True
    then obtain m where n: "n = 2 * m" by blast
    with less.prems have m: "0 < m" "m < n" by auto
    have "(2 * m) AND (2 * m - 1) = 2 * (m AND (m - 1))"
    proof -
      have "2 * m - 1 = 1 + 2 * (m - 1)" using m by simp
      then show ?thesis by (simp add: and_nat_unfold [of "2 * m"] )
    qed
    with less.prems n have "m AND (m - 1) = 0" by simp
    with less.IH [OF m(2,1)] obtain k where "m = 2 ^ k" by blast
    with n have "n = 2 ^ Suc k" by simp
    then show ?thesis by blast
  next
    case False
    then obtain m where n: "n = Suc (2 * m)" by (metis oddE Suc_eq_plus1)
    have "n AND (n - 1) = 2 * m"
      unfolding n by (simp add: and_nat_unfold [of "Suc (2 * m)"])
    with less.prems have "m = 0" by simp
    with n show ?thesis by (intro exI [of _ 0]) simp
  qed
qed

lemma unat_round_down:
  "unat ((x :: 'a::len word) AND NOT (mask k)) = unat x div 2 ^ k * 2 ^ k"
proof -
  have "x AND NOT (mask k) = push_bit k (drop_bit k x)"
    by (rule bit_word_eqI) (auto simp: bit_simps)
  also have "\<dots> = x - take_bit k x"
    by (metis bits_ident add_diff_cancel_right')
  finally have "unat (x AND NOT (mask k)) = unat (x - take_bit k x)" by simp
  also have "\<dots> = unat x - take_bit k (unat x)"
    by (simp add: unat_sub_if' unsigned_take_bit_eq take_bit_nat_less_eq_self)
  finally show ?thesis
    by (simp add: take_bit_eq_mod minus_mod_eq_div_mult)
qed

subsection \<open>The capacity doubling loop\<close>

text \<open>
  Three growable buffers of the code compute their new capacity with the same loop:
  start from the old capacity (or a minimum when it is 0), double while it is below what
  is needed, and fall back to exactly the need when doubling would leave 32 bits. No
  caller starts it at 0 (where the C loop would not end); there the model answers the need.
\<close>

function growCap :: "nat \<Rightarrow> nat \<Rightarrow> nat" where
  "growCap newCap need =
     (if newCap < need then
        (if newCap > UINT32_MAX div 2 \<or> newCap = 0 then need else growCap (newCap * 2) need)
      else newCap)"
  by pat_completeness auto
termination
  by (relation "measure (\<lambda>(c, n). n - c)") auto

declare growCap.simps [simp del]

lemma growCap_ge_need: "need \<le> growCap c need"
  by (induction c need rule: growCap.induct) (subst growCap.simps, auto)

lemma growCap_ge: "c \<le> growCap c need"
proof (induction c need rule: growCap.induct)
  case (1 c need)
  then show ?case by (subst growCap.simps) (auto intro: order_trans)
qed

lemma growCap_bound: "c \<le> UINT32_MAX \<Longrightarrow> need \<le> UINT32_MAX \<Longrightarrow> growCap c need \<le> UINT32_MAX"
proof (induction c need rule: growCap.induct)
  case (1 c need)
  then show ?case by (subst growCap.simps) auto
qed

lemma growCap_less_double: "0 < c \<Longrightarrow> c < need \<Longrightarrow> growCap c need < 2 * need"
proof (induction c need rule: growCap.induct)
  case (1 c need)
  show ?case
  proof (cases "c > UINT32_MAX div 2")
    case True
    with 1 show ?thesis by (subst growCap.simps) simp
  next
    case False
    with 1 show ?thesis
      by (subst growCap.simps) (cases "c * 2 < need"; simp add: growCap.simps [of "c * 2" need])
  qed
qed

end
