(* ===== verification/H2Syntax.thy ===== *)
theory H2Syntax
  imports H2Prelude
begin

text \<open>
  The token kinds, AST node kinds, AST nodes and flags of \<open>src/libhop.h\<close>, shared by the
  lexer, the MIR builder and the MIR interpreter, with the name tables the AST dump prints.
  The C enums are numbered in order from 0; \<open>tokNum\<close> and \<open>tokOf\<close> convert between a token
  kind and the number that is stored in 16-bit fields (\<open>H2AstNode.op\<close>, \<open>H2MirInst.tok\<close>).
\<close>

datatype (plugins only: code size) H2TokenKind =
  H2Tok_INVALID | H2Tok_EOF | H2Tok_IDENT | H2Tok_INT | H2Tok_FLOAT | H2Tok_STRING | H2Tok_RUNE
  | H2Tok_IMPORT | H2Tok_PUB | H2Tok_STRUCT | H2Tok_UNION | H2Tok_ENUM | H2Tok_FN | H2Tok_VAR
  | H2Tok_CONST | H2Tok_TYPE | H2Tok_MUT | H2Tok_IF | H2Tok_ELSE | H2Tok_FOR | H2Tok_SWITCH
  | H2Tok_CASE | H2Tok_DEFAULT | H2Tok_BREAK | H2Tok_CONTINUE | H2Tok_RETURN | H2Tok_DEFER
  | H2Tok_ASSERT | H2Tok_SIZEOF | H2Tok_ALLOC | H2Tok_DEALLOC | H2Tok_TRUE | H2Tok_FALSE
  | H2Tok_IN | H2Tok_AS | H2Tok_CONTEXT | H2Tok_ANYTYPE | H2Tok_LPAREN | H2Tok_RPAREN
  | H2Tok_LBRACE | H2Tok_RBRACE | H2Tok_LBRACK | H2Tok_RBRACK | H2Tok_COMMA | H2Tok_DOT
  | H2Tok_ELLIPSIS | H2Tok_SEMICOLON | H2Tok_COLON | H2Tok_AT | H2Tok_SHORT_ASSIGN
  | H2Tok_ASSIGN | H2Tok_ADD | H2Tok_SUB | H2Tok_MUL | H2Tok_DIV | H2Tok_MOD | H2Tok_AND
  | H2Tok_OR | H2Tok_XOR | H2Tok_NOT | H2Tok_LSHIFT | H2Tok_RSHIFT | H2Tok_EQ | H2Tok_NEQ
  | H2Tok_LT | H2Tok_GT | H2Tok_LTE | H2Tok_GTE | H2Tok_LOGICAL_AND | H2Tok_LOGICAL_OR
  | H2Tok_ADD_ASSIGN | H2Tok_SUB_ASSIGN | H2Tok_MUL_ASSIGN | H2Tok_DIV_ASSIGN | H2Tok_MOD_ASSIGN
  | H2Tok_AND_ASSIGN | H2Tok_OR_ASSIGN | H2Tok_XOR_ASSIGN | H2Tok_LSHIFT_ASSIGN
  | H2Tok_RSHIFT_ASSIGN | H2Tok_QUESTION | H2Tok_NULL

datatype (plugins only: code size) H2AstKind =
  H2Ast_FILE | H2Ast_IMPORT | H2Ast_IMPORT_SYMBOL | H2Ast_DIRECTIVE | H2Ast_PUB | H2Ast_FN
  | H2Ast_ANON_FN | H2Ast_PARAM | H2Ast_TYPE_PARAM | H2Ast_CONTEXT_CLAUSE | H2Ast_TYPE_NAME
  | H2Ast_TYPE_PTR | H2Ast_TYPE_REF | H2Ast_TYPE_MUTREF | H2Ast_TYPE_ARRAY | H2Ast_TYPE_VARRAY
  | H2Ast_TYPE_SLICE | H2Ast_TYPE_MUTSLICE | H2Ast_TYPE_OPTIONAL | H2Ast_TYPE_FN
  | H2Ast_TYPE_ALIAS | H2Ast_TYPE_ANON_STRUCT | H2Ast_TYPE_ANON_UNION | H2Ast_TYPE_TUPLE
  | H2Ast_STRUCT | H2Ast_UNION | H2Ast_ENUM | H2Ast_FIELD | H2Ast_BLOCK | H2Ast_VAR
  | H2Ast_CONST | H2Ast_CONST_BLOCK | H2Ast_IF | H2Ast_FOR | H2Ast_SWITCH | H2Ast_CASE
  | H2Ast_CASE_PATTERN | H2Ast_DEFAULT | H2Ast_RETURN | H2Ast_BREAK | H2Ast_CONTINUE
  | H2Ast_DEFER | H2Ast_ASSERT | H2Ast_DEALLOC | H2Ast_EXPR_STMT | H2Ast_MULTI_ASSIGN
  | H2Ast_SHORT_ASSIGN | H2Ast_NAME_LIST | H2Ast_EXPR_LIST | H2Ast_TUPLE_EXPR | H2Ast_TYPE_VALUE
  | H2Ast_IDENT | H2Ast_INT | H2Ast_FLOAT | H2Ast_STRING | H2Ast_RUNE | H2Ast_BOOL | H2Ast_UNARY
  | H2Ast_BINARY | H2Ast_CALL | H2Ast_CALL_ARG | H2Ast_CALL_WITH_CONTEXT | H2Ast_CONTEXT_OVERLAY
  | H2Ast_CONTEXT_BIND | H2Ast_COMPOUND_LIT | H2Ast_COMPOUND_FIELD | H2Ast_ARRAY_LIT
  | H2Ast_INDEX | H2Ast_FIELD_EXPR | H2Ast_CAST | H2Ast_SIZEOF | H2Ast_ALLOC | H2Ast_NULL
  | H2Ast_UNWRAP

definition allTok :: "H2TokenKind list" where
  "allTok = [
    H2Tok_INVALID, H2Tok_EOF, H2Tok_IDENT, H2Tok_INT, H2Tok_FLOAT, H2Tok_STRING, H2Tok_RUNE
    , H2Tok_IMPORT, H2Tok_PUB, H2Tok_STRUCT, H2Tok_UNION, H2Tok_ENUM, H2Tok_FN, H2Tok_VAR
    , H2Tok_CONST, H2Tok_TYPE, H2Tok_MUT, H2Tok_IF, H2Tok_ELSE, H2Tok_FOR, H2Tok_SWITCH
    , H2Tok_CASE, H2Tok_DEFAULT, H2Tok_BREAK, H2Tok_CONTINUE, H2Tok_RETURN, H2Tok_DEFER
    , H2Tok_ASSERT, H2Tok_SIZEOF, H2Tok_ALLOC, H2Tok_DEALLOC, H2Tok_TRUE, H2Tok_FALSE, H2Tok_IN
    , H2Tok_AS, H2Tok_CONTEXT, H2Tok_ANYTYPE, H2Tok_LPAREN, H2Tok_RPAREN, H2Tok_LBRACE
    , H2Tok_RBRACE, H2Tok_LBRACK, H2Tok_RBRACK, H2Tok_COMMA, H2Tok_DOT, H2Tok_ELLIPSIS
    , H2Tok_SEMICOLON, H2Tok_COLON, H2Tok_AT, H2Tok_SHORT_ASSIGN, H2Tok_ASSIGN, H2Tok_ADD
    , H2Tok_SUB, H2Tok_MUL, H2Tok_DIV, H2Tok_MOD, H2Tok_AND, H2Tok_OR, H2Tok_XOR, H2Tok_NOT
    , H2Tok_LSHIFT, H2Tok_RSHIFT, H2Tok_EQ, H2Tok_NEQ, H2Tok_LT, H2Tok_GT, H2Tok_LTE, H2Tok_GTE
    , H2Tok_LOGICAL_AND, H2Tok_LOGICAL_OR, H2Tok_ADD_ASSIGN, H2Tok_SUB_ASSIGN, H2Tok_MUL_ASSIGN
    , H2Tok_DIV_ASSIGN, H2Tok_MOD_ASSIGN, H2Tok_AND_ASSIGN, H2Tok_OR_ASSIGN, H2Tok_XOR_ASSIGN
    , H2Tok_LSHIFT_ASSIGN, H2Tok_RSHIFT_ASSIGN, H2Tok_QUESTION, H2Tok_NULL]"

definition tokNum :: "H2TokenKind \<Rightarrow> nat" where
  "tokNum k = (case k of
    H2Tok_INVALID \<Rightarrow> 0 | H2Tok_EOF \<Rightarrow> 1 | H2Tok_IDENT \<Rightarrow> 2
    | H2Tok_INT \<Rightarrow> 3 | H2Tok_FLOAT \<Rightarrow> 4 | H2Tok_STRING \<Rightarrow> 5
    | H2Tok_RUNE \<Rightarrow> 6 | H2Tok_IMPORT \<Rightarrow> 7 | H2Tok_PUB \<Rightarrow> 8
    | H2Tok_STRUCT \<Rightarrow> 9 | H2Tok_UNION \<Rightarrow> 10 | H2Tok_ENUM \<Rightarrow> 11
    | H2Tok_FN \<Rightarrow> 12 | H2Tok_VAR \<Rightarrow> 13 | H2Tok_CONST \<Rightarrow> 14
    | H2Tok_TYPE \<Rightarrow> 15 | H2Tok_MUT \<Rightarrow> 16 | H2Tok_IF \<Rightarrow> 17
    | H2Tok_ELSE \<Rightarrow> 18 | H2Tok_FOR \<Rightarrow> 19 | H2Tok_SWITCH \<Rightarrow> 20
    | H2Tok_CASE \<Rightarrow> 21 | H2Tok_DEFAULT \<Rightarrow> 22
    | H2Tok_BREAK \<Rightarrow> 23 | H2Tok_CONTINUE \<Rightarrow> 24
    | H2Tok_RETURN \<Rightarrow> 25 | H2Tok_DEFER \<Rightarrow> 26
    | H2Tok_ASSERT \<Rightarrow> 27 | H2Tok_SIZEOF \<Rightarrow> 28
    | H2Tok_ALLOC \<Rightarrow> 29 | H2Tok_DEALLOC \<Rightarrow> 30
    | H2Tok_TRUE \<Rightarrow> 31 | H2Tok_FALSE \<Rightarrow> 32 | H2Tok_IN \<Rightarrow> 33
    | H2Tok_AS \<Rightarrow> 34 | H2Tok_CONTEXT \<Rightarrow> 35
    | H2Tok_ANYTYPE \<Rightarrow> 36 | H2Tok_LPAREN \<Rightarrow> 37
    | H2Tok_RPAREN \<Rightarrow> 38 | H2Tok_LBRACE \<Rightarrow> 39
    | H2Tok_RBRACE \<Rightarrow> 40 | H2Tok_LBRACK \<Rightarrow> 41
    | H2Tok_RBRACK \<Rightarrow> 42 | H2Tok_COMMA \<Rightarrow> 43 | H2Tok_DOT \<Rightarrow> 44
    | H2Tok_ELLIPSIS \<Rightarrow> 45 | H2Tok_SEMICOLON \<Rightarrow> 46
    | H2Tok_COLON \<Rightarrow> 47 | H2Tok_AT \<Rightarrow> 48
    | H2Tok_SHORT_ASSIGN \<Rightarrow> 49 | H2Tok_ASSIGN \<Rightarrow> 50
    | H2Tok_ADD \<Rightarrow> 51 | H2Tok_SUB \<Rightarrow> 52 | H2Tok_MUL \<Rightarrow> 53
    | H2Tok_DIV \<Rightarrow> 54 | H2Tok_MOD \<Rightarrow> 55 | H2Tok_AND \<Rightarrow> 56
    | H2Tok_OR \<Rightarrow> 57 | H2Tok_XOR \<Rightarrow> 58 | H2Tok_NOT \<Rightarrow> 59
    | H2Tok_LSHIFT \<Rightarrow> 60 | H2Tok_RSHIFT \<Rightarrow> 61 | H2Tok_EQ \<Rightarrow> 62
    | H2Tok_NEQ \<Rightarrow> 63 | H2Tok_LT \<Rightarrow> 64 | H2Tok_GT \<Rightarrow> 65
    | H2Tok_LTE \<Rightarrow> 66 | H2Tok_GTE \<Rightarrow> 67
    | H2Tok_LOGICAL_AND \<Rightarrow> 68 | H2Tok_LOGICAL_OR \<Rightarrow> 69
    | H2Tok_ADD_ASSIGN \<Rightarrow> 70 | H2Tok_SUB_ASSIGN \<Rightarrow> 71
    | H2Tok_MUL_ASSIGN \<Rightarrow> 72 | H2Tok_DIV_ASSIGN \<Rightarrow> 73
    | H2Tok_MOD_ASSIGN \<Rightarrow> 74 | H2Tok_AND_ASSIGN \<Rightarrow> 75
    | H2Tok_OR_ASSIGN \<Rightarrow> 76 | H2Tok_XOR_ASSIGN \<Rightarrow> 77
    | H2Tok_LSHIFT_ASSIGN \<Rightarrow> 78 | H2Tok_RSHIFT_ASSIGN \<Rightarrow> 79
    | H2Tok_QUESTION \<Rightarrow> 80 | H2Tok_NULL \<Rightarrow> 81)"

definition tokOf :: "nat \<Rightarrow> H2TokenKind option" where
  "tokOf n = (if n < length allTok then Some (allTok ! n) else None)"

definition H2TokenKindName :: "H2TokenKind \<Rightarrow> string" where
  "H2TokenKindName kind = (case kind of
    H2Tok_INVALID \<Rightarrow> ''INVALID'' | H2Tok_EOF \<Rightarrow> ''EOF''
    | H2Tok_IDENT \<Rightarrow> ''IDENT'' | H2Tok_INT \<Rightarrow> ''INT''
    | H2Tok_FLOAT \<Rightarrow> ''FLOAT'' | H2Tok_STRING \<Rightarrow> ''STRING''
    | H2Tok_RUNE \<Rightarrow> ''RUNE'' | H2Tok_IMPORT \<Rightarrow> ''IMPORT''
    | H2Tok_PUB \<Rightarrow> ''PUB'' | H2Tok_STRUCT \<Rightarrow> ''STRUCT''
    | H2Tok_UNION \<Rightarrow> ''UNION'' | H2Tok_ENUM \<Rightarrow> ''ENUM''
    | H2Tok_FN \<Rightarrow> ''FN'' | H2Tok_VAR \<Rightarrow> ''VAR''
    | H2Tok_CONST \<Rightarrow> ''CONST'' | H2Tok_TYPE \<Rightarrow> ''TYPE''
    | H2Tok_MUT \<Rightarrow> ''MUT'' | H2Tok_IF \<Rightarrow> ''IF''
    | H2Tok_ELSE \<Rightarrow> ''ELSE'' | H2Tok_FOR \<Rightarrow> ''FOR''
    | H2Tok_SWITCH \<Rightarrow> ''SWITCH'' | H2Tok_CASE \<Rightarrow> ''CASE''
    | H2Tok_DEFAULT \<Rightarrow> ''DEFAULT'' | H2Tok_BREAK \<Rightarrow> ''BREAK''
    | H2Tok_CONTINUE \<Rightarrow> ''CONTINUE'' | H2Tok_RETURN \<Rightarrow> ''RETURN''
    | H2Tok_DEFER \<Rightarrow> ''DEFER'' | H2Tok_ASSERT \<Rightarrow> ''ASSERT''
    | H2Tok_SIZEOF \<Rightarrow> ''SIZEOF'' | H2Tok_ALLOC \<Rightarrow> ''ALLOC''
    | H2Tok_DEALLOC \<Rightarrow> ''DEALLOC'' | H2Tok_TRUE \<Rightarrow> ''TRUE''
    | H2Tok_FALSE \<Rightarrow> ''FALSE'' | H2Tok_IN \<Rightarrow> ''IN''
    | H2Tok_AS \<Rightarrow> ''AS'' | H2Tok_CONTEXT \<Rightarrow> ''CONTEXT''
    | H2Tok_ANYTYPE \<Rightarrow> ''ANYTYPE'' | H2Tok_LPAREN \<Rightarrow> ''LPAREN''
    | H2Tok_RPAREN \<Rightarrow> ''RPAREN'' | H2Tok_LBRACE \<Rightarrow> ''LBRACE''
    | H2Tok_RBRACE \<Rightarrow> ''RBRACE'' | H2Tok_LBRACK \<Rightarrow> ''LBRACK''
    | H2Tok_RBRACK \<Rightarrow> ''RBRACK'' | H2Tok_COMMA \<Rightarrow> ''COMMA''
    | H2Tok_DOT \<Rightarrow> ''DOT'' | H2Tok_ELLIPSIS \<Rightarrow> ''ELLIPSIS''
    | H2Tok_SEMICOLON \<Rightarrow> ''SEMICOLON'' | H2Tok_COLON \<Rightarrow> ''COLON''
    | H2Tok_AT \<Rightarrow> ''AT'' | H2Tok_SHORT_ASSIGN \<Rightarrow> ''SHORT_ASSIGN''
    | H2Tok_ASSIGN \<Rightarrow> ''ASSIGN'' | H2Tok_ADD \<Rightarrow> ''ADD''
    | H2Tok_SUB \<Rightarrow> ''SUB'' | H2Tok_MUL \<Rightarrow> ''MUL''
    | H2Tok_DIV \<Rightarrow> ''DIV'' | H2Tok_MOD \<Rightarrow> ''MOD''
    | H2Tok_AND \<Rightarrow> ''AND'' | H2Tok_OR \<Rightarrow> ''OR''
    | H2Tok_XOR \<Rightarrow> ''XOR'' | H2Tok_NOT \<Rightarrow> ''NOT''
    | H2Tok_LSHIFT \<Rightarrow> ''LSHIFT'' | H2Tok_RSHIFT \<Rightarrow> ''RSHIFT''
    | H2Tok_EQ \<Rightarrow> ''EQ'' | H2Tok_NEQ \<Rightarrow> ''NEQ''
    | H2Tok_LT \<Rightarrow> ''LT'' | H2Tok_GT \<Rightarrow> ''GT''
    | H2Tok_LTE \<Rightarrow> ''LTE'' | H2Tok_GTE \<Rightarrow> ''GTE''
    | H2Tok_LOGICAL_AND \<Rightarrow> ''LOGICAL_AND''
    | H2Tok_LOGICAL_OR \<Rightarrow> ''LOGICAL_OR''
    | H2Tok_ADD_ASSIGN \<Rightarrow> ''ADD_ASSIGN''
    | H2Tok_SUB_ASSIGN \<Rightarrow> ''SUB_ASSIGN''
    | H2Tok_MUL_ASSIGN \<Rightarrow> ''MUL_ASSIGN''
    | H2Tok_DIV_ASSIGN \<Rightarrow> ''DIV_ASSIGN''
    | H2Tok_MOD_ASSIGN \<Rightarrow> ''MOD_ASSIGN''
    | H2Tok_AND_ASSIGN \<Rightarrow> ''AND_ASSIGN''
    | H2Tok_OR_ASSIGN \<Rightarrow> ''OR_ASSIGN''
    | H2Tok_XOR_ASSIGN \<Rightarrow> ''XOR_ASSIGN''
    | H2Tok_LSHIFT_ASSIGN \<Rightarrow> ''LSHIFT_ASSIGN''
    | H2Tok_RSHIFT_ASSIGN \<Rightarrow> ''RSHIFT_ASSIGN''
    | H2Tok_QUESTION \<Rightarrow> ''QUESTION'' | H2Tok_NULL \<Rightarrow> ''NULL'')"

definition H2AstKindName :: "H2AstKind \<Rightarrow> string" where
  "H2AstKindName kind = (case kind of
    H2Ast_FILE \<Rightarrow> ''FILE'' | H2Ast_IMPORT \<Rightarrow> ''IMPORT''
    | H2Ast_IMPORT_SYMBOL \<Rightarrow> ''IMPORT_SYMBOL''
    | H2Ast_DIRECTIVE \<Rightarrow> ''DIRECTIVE'' | H2Ast_PUB \<Rightarrow> ''PUB''
    | H2Ast_FN \<Rightarrow> ''FN'' | H2Ast_ANON_FN \<Rightarrow> ''ANON_FN''
    | H2Ast_PARAM \<Rightarrow> ''PARAM'' | H2Ast_TYPE_PARAM \<Rightarrow> ''TYPE_PARAM''
    | H2Ast_CONTEXT_CLAUSE \<Rightarrow> ''CONTEXT_CLAUSE''
    | H2Ast_TYPE_NAME \<Rightarrow> ''TYPE_NAME'' | H2Ast_TYPE_PTR \<Rightarrow> ''TYPE_PTR''
    | H2Ast_TYPE_REF \<Rightarrow> ''TYPE_REF''
    | H2Ast_TYPE_MUTREF \<Rightarrow> ''TYPE_MUTREF''
    | H2Ast_TYPE_ARRAY \<Rightarrow> ''TYPE_ARRAY''
    | H2Ast_TYPE_VARRAY \<Rightarrow> ''TYPE_VARRAY''
    | H2Ast_TYPE_SLICE \<Rightarrow> ''TYPE_SLICE''
    | H2Ast_TYPE_MUTSLICE \<Rightarrow> ''TYPE_MUTSLICE''
    | H2Ast_TYPE_OPTIONAL \<Rightarrow> ''TYPE_OPTIONAL''
    | H2Ast_TYPE_FN \<Rightarrow> ''TYPE_FN'' | H2Ast_TYPE_ALIAS \<Rightarrow> ''TYPE_ALIAS''
    | H2Ast_TYPE_ANON_STRUCT \<Rightarrow> ''TYPE_ANON_STRUCT''
    | H2Ast_TYPE_ANON_UNION \<Rightarrow> ''TYPE_ANON_UNION''
    | H2Ast_TYPE_TUPLE \<Rightarrow> ''TYPE_TUPLE'' | H2Ast_STRUCT \<Rightarrow> ''STRUCT''
    | H2Ast_UNION \<Rightarrow> ''UNION'' | H2Ast_ENUM \<Rightarrow> ''ENUM''
    | H2Ast_FIELD \<Rightarrow> ''FIELD'' | H2Ast_BLOCK \<Rightarrow> ''BLOCK''
    | H2Ast_VAR \<Rightarrow> ''VAR'' | H2Ast_CONST \<Rightarrow> ''CONST''
    | H2Ast_CONST_BLOCK \<Rightarrow> ''CONST_BLOCK'' | H2Ast_IF \<Rightarrow> ''IF''
    | H2Ast_FOR \<Rightarrow> ''FOR'' | H2Ast_SWITCH \<Rightarrow> ''SWITCH''
    | H2Ast_CASE \<Rightarrow> ''CASE'' | H2Ast_CASE_PATTERN \<Rightarrow> ''CASE_PATTERN''
    | H2Ast_DEFAULT \<Rightarrow> ''DEFAULT'' | H2Ast_RETURN \<Rightarrow> ''RETURN''
    | H2Ast_BREAK \<Rightarrow> ''BREAK'' | H2Ast_CONTINUE \<Rightarrow> ''CONTINUE''
    | H2Ast_DEFER \<Rightarrow> ''DEFER'' | H2Ast_ASSERT \<Rightarrow> ''ASSERT''
    | H2Ast_DEALLOC \<Rightarrow> ''DEALLOC'' | H2Ast_EXPR_STMT \<Rightarrow> ''EXPR_STMT''
    | H2Ast_MULTI_ASSIGN \<Rightarrow> ''MULTI_ASSIGN''
    | H2Ast_SHORT_ASSIGN \<Rightarrow> ''SHORT_ASSIGN''
    | H2Ast_NAME_LIST \<Rightarrow> ''NAME_LIST'' | H2Ast_EXPR_LIST \<Rightarrow> ''EXPR_LIST''
    | H2Ast_TUPLE_EXPR \<Rightarrow> ''TUPLE_EXPR''
    | H2Ast_TYPE_VALUE \<Rightarrow> ''TYPE_VALUE'' | H2Ast_IDENT \<Rightarrow> ''IDENT''
    | H2Ast_INT \<Rightarrow> ''INT'' | H2Ast_FLOAT \<Rightarrow> ''FLOAT''
    | H2Ast_STRING \<Rightarrow> ''STRING'' | H2Ast_RUNE \<Rightarrow> ''RUNE''
    | H2Ast_BOOL \<Rightarrow> ''BOOL'' | H2Ast_UNARY \<Rightarrow> ''UNARY''
    | H2Ast_BINARY \<Rightarrow> ''BINARY'' | H2Ast_CALL \<Rightarrow> ''CALL''
    | H2Ast_CALL_ARG \<Rightarrow> ''CALL_ARG''
    | H2Ast_CALL_WITH_CONTEXT \<Rightarrow> ''CALL_WITH_CONTEXT''
    | H2Ast_CONTEXT_OVERLAY \<Rightarrow> ''CONTEXT_OVERLAY''
    | H2Ast_CONTEXT_BIND \<Rightarrow> ''CONTEXT_BIND''
    | H2Ast_COMPOUND_LIT \<Rightarrow> ''COMPOUND_LIT''
    | H2Ast_COMPOUND_FIELD \<Rightarrow> ''COMPOUND_FIELD''
    | H2Ast_ARRAY_LIT \<Rightarrow> ''ARRAY_LIT'' | H2Ast_INDEX \<Rightarrow> ''INDEX''
    | H2Ast_FIELD_EXPR \<Rightarrow> ''FIELD_EXPR'' | H2Ast_CAST \<Rightarrow> ''CAST''
    | H2Ast_SIZEOF \<Rightarrow> ''SIZEOF'' | H2Ast_ALLOC \<Rightarrow> ''ALLOC''
    | H2Ast_NULL \<Rightarrow> ''NULL'' | H2Ast_UNWRAP \<Rightarrow> ''UNWRAP'')"

record H2Token =
  tkind :: H2TokenKind
  tstart :: nat
  tend :: nat

text \<open>
  Child and sibling links are \<open>int32_t\<close> node ids, negative for none.
\<close>

record H2AstNode =
  nstart :: nat
  nend :: nat
  firstChild :: int
  nextSibling :: int
  dataStart :: nat
  dataEnd :: nat
  nop :: H2TokenKind
  nkind :: H2AstKind
  nflags :: "32 word"

abbreviation (input) H2AstFlag_INDEX_SLICE :: "32 word" where
  "H2AstFlag_INDEX_SLICE \<equiv> 0x0001"

abbreviation (input) H2AstFlag_INDEX_HAS_START :: "32 word" where
  "H2AstFlag_INDEX_HAS_START \<equiv> 0x0002"

abbreviation (input) H2AstFlag_INDEX_HAS_END :: "32 word" where
  "H2AstFlag_INDEX_HAS_END \<equiv> 0x0004"

abbreviation (input) H2AstFlag_PAREN :: "32 word" where
  "H2AstFlag_PAREN \<equiv> 0x0200"

abbreviation (input) H2AstFlag_CALL_ARG_SPREAD :: "32 word" where
  "H2AstFlag_CALL_ARG_SPREAD \<equiv> 0x2000"

lemma tokOf_tokNum [simp]: "tokOf (tokNum k) = Some k"
  by (cases k) (simp_all add: tokOf_def tokNum_def allTok_def)

lemma tokNum_inj [simp]: "tokNum a = tokNum b \<longleftrightarrow> a = b"
  by (metis option.inject tokOf_tokNum)

lemma tokNum_less: "tokNum k < 256"
  by (cases k) (simp_all add: tokNum_def)

end
