(* ===== verification/H2Arena.thy ===== *)
theory H2Arena
  imports H2Prelude "HOL-Library.Multiset"
begin

text \<open>
  The arena allocator of \<open>src/libhop.c\<close> (\<open>H2ArenaInit\<close> to \<open>H2ArenaAlloc\<close>). The chain of
  blocks that the C code links through \<open>next\<close> is the list \<open>ablocks\<close>, whose head is
  \<open>inlineBlock\<close>; \<open>current\<close> is an index into it. Addresses are \<open>nat\<close>. The embedder's
  \<open>grow\<close> callback is a parameter: it answers from its context, modelled as the number of
  calls it has received, and the requested sz, with the address and the sz it granted,
  or \<open>None\<close> for NULL. Calls of the \<open>free\<close> callback are logged in \<open>afreed\<close>.
  Sizes of C types are those of a 64-bit target.
\<close>

record H2ArenaBlock =
  bmem :: "nat option"
  bcap :: nat
  blen :: nat
  ballocSize :: nat
  bowned :: bool

record H2Arena =
  allocatorCtx :: nat
  agrow :: "(nat \<Rightarrow> nat \<Rightarrow> (nat \<times> nat) option) option"
  afree :: bool
  afreed :: "(nat \<times> nat) list"
  ablocks :: "H2ArenaBlock list"
  acurrent :: "nat option"

abbreviation (input) sizeof_H2ArenaBlock :: nat where
  "sizeof_H2ArenaBlock \<equiv> 40"

abbreviation (input) alignof_max_align :: nat where
  "alignof_max_align \<equiv> 16"

text \<open>Both \<open>H2ArenaAlignUpU32\<close> and \<open>H2ArenaTryAllocInBlock\<close> round up in 64 bits.\<close>

definition alignUp64 :: "nat \<Rightarrow> nat \<Rightarrow> nat" where
  "alignUp64 value align =
     unat (((of_nat value :: 64 word) + of_nat (align - 1)) AND NOT (of_nat align - 1))"

definition H2ArenaAlignUpU32 :: "nat \<Rightarrow> nat \<Rightarrow> nat" where
  "H2ArenaAlignUpU32 value align =
     (let align = (if align = 0 then 1 else align);
          aligned = alignUp64 value align
      in if aligned > UINT32_MAX then UINT32_MAX else aligned)"

definition H2ArenaGrowHeaderSize :: nat where
  "H2ArenaGrowHeaderSize = H2ArenaAlignUpU32 sizeof_H2ArenaBlock alignof_max_align"

definition H2ArenaInitBlock :: "nat option \<Rightarrow> nat \<Rightarrow> nat \<Rightarrow> bool \<Rightarrow> H2ArenaBlock" where
  "H2ArenaInitBlock mem cap allocSize owned =
     \<lparr>bmem = mem, bcap = cap, blen = 0, ballocSize = allocSize, bowned = owned\<rparr>"

definition H2ArenaTryAllocInBlock ::
  "H2ArenaBlock \<Rightarrow> nat \<Rightarrow> nat \<Rightarrow> (nat \<times> H2ArenaBlock) option" where
  "H2ArenaTryAllocInBlock block sz align =
     (case bmem block of
        None \<Rightarrow> None
      | Some mem \<Rightarrow>
          (let aligned = alignUp64 (blen block) align;
               endPos = aligned + sz
           in if endPos > bcap block then None
              else Some (mem + aligned, block\<lparr>blen := endPos\<rparr>)))"

definition H2ArenaInitEx ::
  "nat option \<Rightarrow> nat \<Rightarrow> nat \<Rightarrow> (nat \<Rightarrow> nat \<Rightarrow> (nat \<times> nat) option) option \<Rightarrow> bool \<Rightarrow> H2Arena" where
  "H2ArenaInitEx storage storageSize ctx growFn freeFn =
     \<lparr>allocatorCtx = ctx, agrow = growFn, afree = freeFn, afreed = [],
      ablocks = [H2ArenaInitBlock storage storageSize storageSize False],
      acurrent = Some 0\<rparr>"

definition H2ArenaInit :: "nat \<Rightarrow> nat \<Rightarrow> H2Arena" where
  "H2ArenaInit storage storageSize = H2ArenaInitEx (Some storage) storageSize 0 None False"

definition H2ArenaSetAllocator ::
  "H2Arena \<Rightarrow> nat \<Rightarrow> (nat \<Rightarrow> nat \<Rightarrow> (nat \<times> nat) option) option \<Rightarrow> bool \<Rightarrow> H2Arena" where
  "H2ArenaSetAllocator arena ctx growFn freeFn =
     arena\<lparr>allocatorCtx := ctx, agrow := growFn, afree := freeFn\<rparr>"

definition H2ArenaReset :: "H2Arena \<Rightarrow> H2Arena" where
  "H2ArenaReset arena =
     arena\<lparr>ablocks := map (\<lambda>b. b\<lparr>blen := 0\<rparr>) (ablocks arena),
           acurrent := (if ablocks arena = [] then None else Some 0)\<rparr>"

text \<open>
  \<open>free\<close> receives the start of the block header, which precedes the payload by the header
  sz, and the sz \<open>grow\<close> reported.
\<close>

fun H2ArenaDisposeBlocks :: "bool \<Rightarrow> H2ArenaBlock list \<Rightarrow> (nat \<times> nat) list" where
  "H2ArenaDisposeBlocks hasFree [] = []"
| "H2ArenaDisposeBlocks hasFree (block # next) =
     (if bowned block \<and> hasFree
      then [(the (bmem block) - H2ArenaGrowHeaderSize, ballocSize block)] else [])
     @ H2ArenaDisposeBlocks hasFree next"

definition H2ArenaDispose :: "H2Arena \<Rightarrow> H2Arena" where
  "H2ArenaDispose arena =
     (case ablocks arena of
        [] \<Rightarrow> arena
      | inlineBlock # rest \<Rightarrow>
          arena\<lparr>afreed := afreed arena @ H2ArenaDisposeBlocks (afree arena) rest,
                ablocks := [inlineBlock\<lparr>blen := 0\<rparr>],
                acurrent := Some 0\<rparr>)"

text \<open>The search loop: the first block from \<open>current\<close> on with room.\<close>

fun H2ArenaScan ::
  "H2ArenaBlock list \<Rightarrow> nat \<Rightarrow> nat \<Rightarrow> (nat \<times> nat \<times> H2ArenaBlock) option" where
  "H2ArenaScan [] sz align = None"
| "H2ArenaScan (block # next) sz align =
     (case H2ArenaTryAllocInBlock block sz align of
        Some (p, block') \<Rightarrow> Some (0, p, block')
      | None \<Rightarrow>
          (case H2ArenaScan next sz align of
             None \<Rightarrow> None
           | Some (i, p, block') \<Rightarrow> Some (Suc i, p, block')))"

definition H2ArenaTargetPayload :: "nat \<Rightarrow> nat \<Rightarrow> nat" where
  "H2ArenaTargetPayload blockCap minPayload =
     (if blockCap > 0 \<and> blockCap > minPayload
      then (let t = (if blockCap \<le> UINT32_MAX div 2 then blockCap * 2 else UINT32_MAX)
            in if t < minPayload then minPayload else t)
      else minPayload)"

text \<open>The slow path, entered with the last block of the chain.\<close>

definition H2ArenaAllocGrow ::
  "H2Arena \<Rightarrow> H2ArenaBlock \<Rightarrow> nat \<Rightarrow> nat \<Rightarrow> nat option \<times> H2Arena" where
  "H2ArenaAllocGrow arena block sz align =
     (case agrow arena of
        None \<Rightarrow> (None, arena)
      | Some grow \<Rightarrow>
          (if sz > UINT32_MAX - (align - 1) then (None, arena)
           else
             (let headerSize = H2ArenaGrowHeaderSize;
                  minPayload = sz + align - 1;
                  requestedSize = headerSize + H2ArenaTargetPayload (bcap block) minPayload
              in if requestedSize > UINT32_MAX then (None, arena)
                 else
                   (let arena1 = arena\<lparr>allocatorCtx := Suc (allocatorCtx arena)\<rparr>
                    in case grow (allocatorCtx arena) requestedSize of
                         None \<Rightarrow> (None, arena1)
                       | Some (allocMem, allocSize) \<Rightarrow>
                           (if allocSize < headerSize + minPayload
                            then (None, (if afree arena
                                         then arena1\<lparr>afreed := afreed arena1 @ [(allocMem, allocSize)]\<rparr>
                                         else arena1))
                            else
                              (let newBlock = H2ArenaInitBlock (Some (allocMem + headerSize))
                                                (allocSize - headerSize) allocSize True;
                                   n = length (ablocks arena)
                               in case H2ArenaTryAllocInBlock newBlock sz align of
                                    None \<Rightarrow> (None, arena1\<lparr>ablocks := ablocks arena @ [newBlock],
                                                          acurrent := Some n\<rparr>)
                                  | Some (p, newBlock') \<Rightarrow>
                                      (Some p, arena1\<lparr>ablocks := ablocks arena @ [newBlock'],
                                                      acurrent := Some n\<rparr>)))))))"

definition H2ArenaAlloc :: "H2Arena \<Rightarrow> nat \<Rightarrow> nat \<Rightarrow> nat option \<times> H2Arena" where
  "H2ArenaAlloc arena sz align0 =
     (let align = (if align0 = 0 then 1 else align0)
      in if align AND (align - 1) \<noteq> 0 then (None, arena)
         else if ablocks arena = [] then (None, arena)
         else
           (let b = (case acurrent arena of Some c \<Rightarrow> c | None \<Rightarrow> 0)
            in case H2ArenaScan (drop b (ablocks arena)) sz align of
                 Some (i, p, block') \<Rightarrow>
                   (Some p, arena\<lparr>ablocks := (ablocks arena)[b + i := block'],
                                  acurrent := Some (b + i)\<rparr>)
               | None \<Rightarrow> H2ArenaAllocGrow arena (last (ablocks arena)) sz align))"

subsection \<open>Sequences of allocations, and the interface of an allocator\<close>

text \<open>
  The contract the rest of the compiler relies on: an allocation never overlaps memory
  handed out before. It is stated once, as an interface over an abstract state, and
  proved for arbitrary sequences of requests.
\<close>

fun runAllocs ::
  "('s \<Rightarrow> nat \<Rightarrow> nat \<Rightarrow> nat option \<times> 's) \<Rightarrow> 's \<Rightarrow> (nat \<times> nat) list \<Rightarrow> (nat \<times> nat) list \<times> 's" where
  "runAllocs alloc s [] = ([], s)"
| "runAllocs alloc s ((sz, align) # reqs) =
     (case alloc s sz align of
        (None, s') \<Rightarrow> runAllocs alloc s' reqs
      | (Some p, s') \<Rightarrow>
          (let (regions, s'') = runAllocs alloc s' reqs in ((p, sz) # regions, s'')))"

definition region :: "nat \<times> nat \<Rightarrow> nat set" where
  "region r = {fst r..<fst r + snd r}"

locale bump_memory =
  fixes alloc :: "'s \<Rightarrow> nat \<Rightarrow> nat \<Rightarrow> nat option \<times> 's"
    and used :: "'s \<Rightarrow> nat set"
    and ok :: "'s \<Rightarrow> bool"
    and legal :: "nat \<Rightarrow> nat \<Rightarrow> bool"
  assumes alloc_ok: "ok s \<Longrightarrow> legal n a \<Longrightarrow> alloc s n a = (r, s') \<Longrightarrow> ok s'"
    and alloc_fail_used: "ok s \<Longrightarrow> legal n a \<Longrightarrow> alloc s n a = (None, s') \<Longrightarrow> used s \<subseteq> used s'"
    and alloc_used: "ok s \<Longrightarrow> legal n a \<Longrightarrow> alloc s n a = (Some p, s') \<Longrightarrow> used s \<union> region (p, n) \<subseteq> used s'"
    and alloc_fresh: "ok s \<Longrightarrow> legal n a \<Longrightarrow> alloc s n a = (Some p, s') \<Longrightarrow> region (p, n) \<inter> used s = {}"
begin

lemma run_ok: "ok s \<Longrightarrow> (\<forall>(n, a) \<in> set reqs. legal n a) \<Longrightarrow> runAllocs alloc s reqs = (rs, s') \<Longrightarrow> ok s'"
proof (induction reqs arbitrary: s rs s')
  case Nil
  then show ?case by simp
next
  case (Cons q reqs)
  obtain n a where q: "q = (n, a)" by (cases q)
  obtain r s1 where al: "alloc s n a = (r, s1)" by (cases "alloc s n a")
  from Cons.prems(2) q have lg: "legal n a" and lgs: "\<forall>(n, a) \<in> set reqs. legal n a" by auto
  from Cons.prems(3) al q obtain rs1 where "runAllocs alloc s1 reqs = (rs1, s')"
    by (auto split: option.splits prod.splits)
  from Cons.IH [OF alloc_ok [OF Cons.prems(1) lg al] lgs this] show ?case .
qed

lemma run_used:
  "ok s \<Longrightarrow> (\<forall>(n, a) \<in> set reqs. legal n a) \<Longrightarrow> runAllocs alloc s reqs = (rs, s')
   \<Longrightarrow> used s \<union> \<Union> (region ` set rs) \<subseteq> used s'"
proof (induction reqs arbitrary: s rs s')
  case Nil
  then show ?case by simp
next
  case (Cons q reqs)
  obtain n a where q: "q = (n, a)" by (cases q)
  obtain r s1 where al: "alloc s n a = (r, s1)" by (cases "alloc s n a")
  from Cons.prems(2) q have lg: "legal n a" and lgs: "\<forall>(n, a) \<in> set reqs. legal n a" by auto
  note ok1 = alloc_ok [OF Cons.prems(1) lg al]
  show ?case
  proof (cases r)
    case None
    with Cons.prems al q have "runAllocs alloc s1 reqs = (rs, s')" by simp
    from Cons.IH [OF ok1 lgs this] None al alloc_fail_used [OF _ lg, of s s1] Cons.prems(1) show ?thesis by blast
  next
    case (Some p)
    obtain rs1 s2 where run: "runAllocs alloc s1 reqs = (rs1, s2)" by (cases "runAllocs alloc s1 reqs")
    with Cons.prems al q Some have "rs = (p, n) # rs1" "s' = s2" by auto
    with Cons.IH [OF ok1 lgs run] alloc_used [OF _ lg, of s p s1] Cons.prems(1) al Some show ?thesis by auto
  qed
qed

lemma run_disjoint:
  assumes "ok s" "\<forall>(n, a) \<in> set reqs. legal n a" "runAllocs alloc s reqs = (rs, s')"
  shows "(\<forall>i<length rs. region (rs ! i) \<inter> used s = {}) \<and>
         (\<forall>i j. i < j \<longrightarrow> j < length rs \<longrightarrow> region (rs ! i) \<inter> region (rs ! j) = {})"
  using assms
proof (induction reqs arbitrary: s rs s')
  case Nil
  then show ?case by simp
next
  case (Cons q reqs)
  obtain n a where q: "q = (n, a)" by (cases q)
  obtain r s1 where al: "alloc s n a = (r, s1)" by (cases "alloc s n a")
  from Cons.prems(2) q have lg: "legal n a" and lgs: "\<forall>(n, a) \<in> set reqs. legal n a" by auto
  note ok1 = alloc_ok [OF Cons.prems(1) lg al]
  show ?case
  proof (cases r)
    case None
    with Cons.prems al q have "runAllocs alloc s1 reqs = (rs, s')" by simp
    with Cons.IH [OF ok1 lgs this] None al alloc_fail_used [OF _ lg, of s s1] Cons.prems(1) show ?thesis by blast
  next
    case (Some p)
    obtain rs1 s2 where run: "runAllocs alloc s1 reqs = (rs1, s2)" by (cases "runAllocs alloc s1 reqs")
    with Cons.prems al q Some have rs: "rs = (p, n) # rs1" by auto
    note ih = Cons.IH [OF ok1 lgs run]
    have sub: "used s \<union> region (p, n) \<subseteq> used s1"
      using alloc_used [OF _ lg, of s p s1] Cons.prems(1) al Some by simp
    have fr: "region (p, n) \<inter> used s = {}"
      using alloc_fresh [OF _ lg, of s p s1] Cons.prems(1) al Some by simp
    show ?thesis unfolding rs
    proof (intro conjI allI impI)
      fix i assume "i < length ((p, n) # rs1)"
      then show "region (((p, n) # rs1) ! i) \<inter> used s = {}"
      proof (cases i)
        case 0
        with fr show ?thesis by simp
      next
        case (Suc k)
        with ih \<open>i < length ((p, n) # rs1)\<close> have "region (rs1 ! k) \<inter> used s1 = {}" by simp
        with sub Suc show ?thesis by (simp add: Int_Un_distrib) blast
      qed
    next
      fix i j assume "i < j" "j < length ((p, n) # rs1)"
      then show "region (((p, n) # rs1) ! i) \<inter> region (((p, n) # rs1) ! j) = {}"
        using ih sub by (cases i; cases j) auto
    qed
  qed
qed

end

subsection \<open>Well-formed arenas\<close>

definition blockSpan :: "H2ArenaBlock \<Rightarrow> nat set" where
  "blockSpan b = (case bmem b of None \<Rightarrow> {} | Some m \<Rightarrow> {m..<m + bcap b})"

definition blockUsed :: "H2ArenaBlock \<Rightarrow> nat set" where
  "blockUsed b = (case bmem b of None \<Rightarrow> {} | Some m \<Rightarrow> {m..<m + blen b})"

definition arenaUsed :: "H2Arena \<Rightarrow> nat set" where
  "arenaUsed a = \<Union> (blockUsed ` set (ablocks a))"

definition blockOk :: "H2ArenaBlock \<Rightarrow> bool" where
  "blockOk b \<longleftrightarrow> blen b \<le> bcap b \<and> bcap b \<le> UINT32_MAX"

text \<open>The documented contract of \<open>grow\<close>: what it returns is new memory, of a size the
  \<open>uint32_t\<close> out-parameter can hold.\<close>

definition growGrant :: "(nat \<Rightarrow> nat \<Rightarrow> (nat \<times> nat) option) \<Rightarrow> nat \<Rightarrow> nat set \<Rightarrow> bool" where
  "growGrant g n R \<longleftrightarrow> (\<exists>req m s. g n req = Some (m, s) \<and> R \<subseteq> {m..<m + s})"

definition growContract :: "nat set \<Rightarrow> (nat \<Rightarrow> nat \<Rightarrow> (nat \<times> nat) option) \<Rightarrow> bool" where
  "growContract storage g \<longleftrightarrow>
     (\<forall>n req m s. g n req = Some (m, s) \<longrightarrow> s \<le> UINT32_MAX \<and> {m..<m + s} \<inter> storage = {}) \<and>
     (\<forall>n n' R R'. n < n' \<longrightarrow> growGrant g n R \<longrightarrow> growGrant g n' R' \<longrightarrow> R \<inter> R' = {})"

text \<open>
  Invariant: every block is within its capacity, the spans of different blocks are
  disjoint, the head is the inline block with the caller's storage, every other block
  lies in memory one earlier call of \<open>grow\<close> returned.
\<close>

definition arenaWf :: "nat set \<Rightarrow> H2Arena \<Rightarrow> bool" where
  "arenaWf storage a \<longleftrightarrow>
     (\<forall>b\<in>set (ablocks a). blockOk b) \<and>
     (\<forall>i j. i < j \<longrightarrow> j < length (ablocks a) \<longrightarrow> blockSpan (ablocks a ! i) \<inter> blockSpan (ablocks a ! j) = {}) \<and>
     (\<forall>g. agrow a = Some g \<longrightarrow>
        growContract storage g \<and>
        (\<forall>b\<in>set (ablocks a). blockSpan b \<subseteq> storage \<or> (\<exists>n<allocatorCtx a. growGrant g n (blockSpan b))))"

definition legalRequest :: "nat \<Rightarrow> nat \<Rightarrow> bool" where
  "legalRequest n a \<longleftrightarrow> n \<le> UINT32_MAX \<and> a \<le> UINT32_MAX"

lemma alignUp64_power2:
  assumes "v \<le> UINT32_MAX" "2 ^ k \<le> UINT32_MAX"
  shows "alignUp64 v (2 ^ k) = (v + (2 ^ k - 1)) div 2 ^ k * 2 ^ k"
proof -
  have m: "(of_nat (2 ^ k) - 1 :: 64 word) = mask k"
    by (simp add: mask_eq_exp_minus_1)
  have "(of_nat v + of_nat (2 ^ k - 1) :: 64 word) = of_nat (v + (2 ^ k - 1))"
    by (simp only: of_nat_add)
  moreover have "v + (2 ^ k - 1) < 2 ^ 64"
    using assms by simp
  ultimately have "unat (of_nat v + of_nat (2 ^ k - 1) :: 64 word) = v + (2 ^ k - 1)"
    by (simp only: unat_of_nat take_bit_nat_def) simp
  then show ?thesis
    unfolding alignUp64_def m unat_round_down by simp
qed

lemma alignUp64_bounds:
  assumes "v \<le> UINT32_MAX" "a \<le> UINT32_MAX" "0 < a" "a AND (a - 1) = 0"
  shows "v \<le> alignUp64 v a" "alignUp64 v a < v + a" "a dvd alignUp64 v a"
proof -
  from and_pred_zero_power2 [OF assms(3,4)] obtain k where k: "a = 2 ^ k" by blast
  have e: "alignUp64 v a = (v + (a - 1)) div a * a"
    using alignUp64_power2 [of v k] assms(1,2) unfolding k by simp
  have d: "(v + (a - 1)) div a * a + (v + (a - 1)) mod a = v + (a - 1)" by simp
  have r: "(v + (a - 1)) mod a \<le> a - 1" using assms(3) by (simp add: less_Suc_eq_le [symmetric])
  show "v \<le> alignUp64 v a" "alignUp64 v a < v + a" "a dvd alignUp64 v a"
    using d r assms(3) unfolding e by (linarith, linarith, simp)
qed

lemma grow_header_size: "H2ArenaGrowHeaderSize = 48"
  unfolding H2ArenaGrowHeaderSize_def H2ArenaAlignUpU32_def
  using alignUp64_power2 [of 40 4] by simp

text \<open>A successful bump stays inside the block, above everything used so far.\<close>

lemma tryAlloc_some:
  assumes "H2ArenaTryAllocInBlock b n a = Some (p, b')" "blockOk b" "a \<le> UINT32_MAX"
    "0 < a" "a AND (a - 1) = 0"
  obtains m where "bmem b = Some m" "m + blen b \<le> p" "p + n \<le> m + bcap b" "a dvd p - m"
    "b' = b\<lparr>blen := p + n - m\<rparr>" "blockOk b'"
proof -
  have v: "blen b \<le> UINT32_MAX" using assms(2) by (simp add: blockOk_def)
  note al = alignUp64_bounds [OF v assms(3-5)]
  from assms(1,2) al show ?thesis
    by (intro that [of "the (bmem b)"])
      (auto simp: H2ArenaTryAllocInBlock_def Let_def blockOk_def split: option.splits if_splits)
qed

lemma tryAlloc_fresh_block:
  assumes "n + a - 1 \<le> c" "c \<le> UINT32_MAX" "a \<le> UINT32_MAX" "0 < a" "a AND (a - 1) = 0"
  shows "H2ArenaTryAllocInBlock (H2ArenaInitBlock (Some m) c s ow) n a \<noteq> None"
  using alignUp64_bounds [of 0 a] assms
  by (auto simp: H2ArenaTryAllocInBlock_def H2ArenaInitBlock_def Let_def)

lemma scan_some:
  "H2ArenaScan bs n a = Some (i, p, b') \<Longrightarrow>
   i < length bs \<and> H2ArenaTryAllocInBlock (bs ! i) n a = Some (p, b')"
  by (induction bs arbitrary: i) (auto split: option.splits)

lemma scan_none:
  "H2ArenaScan bs n a = None \<Longrightarrow> b \<in> set bs \<Longrightarrow> H2ArenaTryAllocInBlock b n a = None"
  by (induction bs) (auto split: option.splits)

lemma blockUsed_span: "blockOk b \<Longrightarrow> blockUsed b \<subseteq> blockSpan b"
  by (auto simp: blockUsed_def blockSpan_def blockOk_def split: option.splits)

subsection \<open>What an allocation does\<close>

text \<open>
  The two ways an allocation succeeds: in a block of the chain, or in a block just grown.
  The case rule below is the only place the definitions of the fast and the slow path are
  opened.
\<close>

lemma alloc_cases:
  assumes "H2ArenaAlloc ar n a0 = (r, ar')"
  obtains
    (unchanged) "r = None" "ar' = ar"
  | (bump) a i p b' where "a = (if a0 = 0 then 1 else a0)" "a AND (a - 1) = 0" "r = Some p"
      "i < length (ablocks ar)" "H2ArenaTryAllocInBlock (ablocks ar ! i) n a = Some (p, b')"
      "ar' = ar\<lparr>ablocks := (ablocks ar)[i := b'], acurrent := Some i\<rparr>"
  | (refused) g req where "r = None" "agrow ar = Some g"
      "ar' = ar\<lparr>allocatorCtx := Suc (allocatorCtx ar),
                afreed := (case g (allocatorCtx ar) req of None \<Rightarrow> afreed ar
                           | Some blk \<Rightarrow> if afree ar then afreed ar @ [blk] else afreed ar)\<rparr>"
  | (grown) g a req m s nb r' nb' where "a = (if a0 = 0 then 1 else a0)" "a AND (a - 1) = 0"
      "agrow ar = Some g" "g (allocatorCtx ar) req = Some (m, s)" "48 + (n + a - 1) \<le> s"
      "nb = H2ArenaInitBlock (Some (m + 48)) (s - 48) s True"
      "H2ArenaTryAllocInBlock nb n a = r'"
      "nb' = (case r' of None \<Rightarrow> nb | Some (p, b') \<Rightarrow> b')"
      "r = map_option fst r'"
      "ar' = ar\<lparr>allocatorCtx := Suc (allocatorCtx ar), ablocks := ablocks ar @ [nb'],
                acurrent := Some (length (ablocks ar))\<rparr>"
proof -
  let ?a = "if a0 = 0 then 1 else a0"
  let ?b = "case acurrent ar of Some c \<Rightarrow> c | None \<Rightarrow> 0"
  consider "?a AND (?a - 1) \<noteq> 0 \<or> ablocks ar = []"
    | "?a AND (?a - 1) = 0" "ablocks ar \<noteq> []" by blast
  then show ?thesis
  proof cases
    case 1
    with assms have "r = None" "ar' = ar" by (auto simp: H2ArenaAlloc_def Let_def split: if_splits)
    then show ?thesis by (rule unchanged)
  next
    case 2
    show ?thesis
    proof (cases "H2ArenaScan (drop ?b (ablocks ar)) n ?a")
      case None
      with 2 assms have g: "H2ArenaAllocGrow ar (last (ablocks ar)) n ?a = (r, ar')"
        by (simp add: H2ArenaAlloc_def Let_def split: if_splits)
      show ?thesis
      proof (cases "agrow ar")
        case None
        with g have "r = None" "ar' = ar" by (auto simp: H2ArenaAllocGrow_def)
        then show ?thesis by (rule unchanged)
      next
        case (Some gr)
        let ?req = "48 + H2ArenaTargetPayload (bcap (last (ablocks ar))) (n + ?a - 1)"
        show ?thesis
        proof (cases "n > UINT32_MAX - (?a - 1) \<or> ?req > UINT32_MAX")
          case True
          with g Some have "r = None" "ar' = ar"
            by (auto simp: H2ArenaAllocGrow_def Let_def grow_header_size split: if_splits)
          then show ?thesis by (rule unchanged)
        next
          case False
          note ngrow = g [unfolded H2ArenaAllocGrow_def Let_def grow_header_size]
          show ?thesis
          proof (cases "gr (allocatorCtx ar) ?req")
            case None
            with False Some ngrow show ?thesis
              by (intro refused [of gr ?req]) (auto split: if_splits)
          next
            case (Some q)
            obtain m s where q: "q = (m, s)" by (cases q)
            show ?thesis
            proof (cases "s < 48 + (n + ?a - 1)")
              case True
              with False Some q \<open>agrow ar = Some gr\<close> ngrow show ?thesis
                by (intro refused [of gr ?req]) (auto split: if_splits)
            next
              case big: False
              let ?nb = "H2ArenaInitBlock (Some (m + 48)) (s - 48) s True"
              let ?t = "H2ArenaTryAllocInBlock ?nb n ?a"
              from big have le: "48 + (n + ?a - 1) \<le> s" by simp
              have "(r, ar') = (map_option fst ?t, ar\<lparr>allocatorCtx := Suc (allocatorCtx ar),
                      ablocks := ablocks ar @ [case ?t of None \<Rightarrow> ?nb | Some (p, b') \<Rightarrow> b'],
                      acurrent := Some (length (ablocks ar))\<rparr>)"
                using False big Some q \<open>agrow ar = Some gr\<close> ngrow
                by (simp split: option.splits prod.splits if_splits)
              then show ?thesis
                using grown [OF refl _ \<open>agrow ar = Some gr\<close> Some [unfolded q] le refl refl refl]
                  2(1) by simp
            qed
          qed
        qed
      qed
    next
      case (Some q)
      obtain i p b' where q: "q = (i, p, b')" by (cases q)
      from scan_some [OF Some [unfolded q]] have
        "i < length (drop ?b (ablocks ar))" "H2ArenaTryAllocInBlock (ablocks ar ! (?b + i)) n ?a = Some (p, b')"
        by auto
      moreover from this have "?b + i < length (ablocks ar)" by (simp add: less_diff_conv2)
      ultimately show ?thesis
        using bump [OF refl 2(1), of p "?b + i" b'] assms 2 Some q
        by (simp add: H2ArenaAlloc_def Let_def)
    qed
  qed
qed

lemma blockSpan_blen [simp]: "blockSpan (b\<lparr>blen := x\<rparr>) = blockSpan b"
  by (simp add: blockSpan_def split: option.split)

lemma tryAlloc_span: "H2ArenaTryAllocInBlock b n a = Some (p, b') \<Longrightarrow> blockSpan b' = blockSpan b"
  by (auto simp: H2ArenaTryAllocInBlock_def Let_def split: option.splits if_splits)

lemma align_nonzero: "0 < (if a = 0 then 1 else (a::nat))"
  by simp

lemma legal_align: "legalRequest n a0 \<Longrightarrow> (if a0 = 0 then 1 else a0) \<le> UINT32_MAX"
  by (simp add: legalRequest_def)

lemma growGrant_sub: "growGrant g n R \<Longrightarrow> R' \<subseteq> R \<Longrightarrow> growGrant g n R'"
  unfolding growGrant_def by (meson subset_trans)

text \<open>The block that \<open>grow\<close> supplies is well formed and apart from all earlier blocks.\<close>

lemma grown_block:
  assumes wf: "arenaWf st ar" and g: "agrow ar = Some g" "g (allocatorCtx ar) req = Some (m, s)"
    and le: "48 + x \<le> s"
  defines "nb \<equiv> H2ArenaInitBlock (Some (m + 48)) (s - 48) s True"
  shows "blockOk nb" "growGrant g (allocatorCtx ar) (blockSpan nb)"
    "b \<in> set (ablocks ar) \<Longrightarrow> blockSpan b \<inter> blockSpan nb = {}"
proof -
  have c: "growContract st g" using wf g(1) by (simp add: arenaWf_def)
  have "s \<le> UINT32_MAX" using c g(2) unfolding growContract_def by blast
  then show "blockOk nb" by (simp add: nb_def blockOk_def H2ArenaInitBlock_def)
  have sub: "blockSpan nb \<subseteq> {m..<m + s}"
    using le by (auto simp: nb_def blockSpan_def H2ArenaInitBlock_def)
  with g(2) show gg: "growGrant g (allocatorCtx ar) (blockSpan nb)"
    unfolding growGrant_def by blast
  show "blockSpan b \<inter> blockSpan nb = {}" if "b \<in> set (ablocks ar)"
  proof -
    from wf g(1) that consider "blockSpan b \<subseteq> st"
      | k where "k < allocatorCtx ar" "growGrant g k (blockSpan b)"
      unfolding arenaWf_def by blast
    then show ?thesis
    proof cases
      case 1
      have "{m..<m + s} \<inter> st = {}" using c g(2) unfolding growContract_def by blast
      with 1 sub show ?thesis by blast
    next
      case 2
      with c gg show ?thesis unfolding growContract_def by blast
    qed
  qed
qed

lemma arenaWf_update:
  assumes "arenaWf st ar" "i < length (ablocks ar)" "blockSpan b' = blockSpan (ablocks ar ! i)" "blockOk b'"
  shows "arenaWf st (ar\<lparr>ablocks := (ablocks ar)[i := b'], acurrent := c\<rparr>)"
proof -
  have sp: "blockSpan ((ablocks ar)[i := b'] ! j) = blockSpan (ablocks ar ! j)" for j
    using assms(2,3) by (cases "i = j") auto
  have "\<forall>b\<in>set ((ablocks ar)[i := b']). blockOk b"
    using assms(1,4) set_update_subset_insert [of "ablocks ar" i b'] unfolding arenaWf_def by auto
  moreover have "\<exists>b0\<in>set (ablocks ar). blockSpan b = blockSpan b0" if "b \<in> set ((ablocks ar)[i := b'])" for b
    using that sp by (metis in_set_conv_nth length_list_update)
  ultimately show ?thesis
    using assms(1) sp unfolding arenaWf_def by simp metis
qed

lemma arenaWf_append:
  assumes wf: "arenaWf st ar" and b: "blockOk nb"
    "\<And>b. b \<in> set (ablocks ar) \<Longrightarrow> blockSpan b \<inter> blockSpan nb = {}"
    and g: "agrow ar = Some g" "growGrant g (allocatorCtx ar) (blockSpan nb)"
  shows "arenaWf st (ar\<lparr>allocatorCtx := Suc (allocatorCtx ar), ablocks := ablocks ar @ [nb], acurrent := c\<rparr>)"
proof -
  have "blockSpan ((ablocks ar @ [nb]) ! i) \<inter> blockSpan ((ablocks ar @ [nb]) ! j) = {}"
    if "i < j" "j < Suc (length (ablocks ar))" for i j
  proof (cases "j = length (ablocks ar)")
    case True
    with that b(2) [OF nth_mem, of i] show ?thesis by (simp add: nth_append)
  next
    case False
    with that wf show ?thesis unfolding arenaWf_def by (simp add: nth_append)
  qed
  moreover have "\<exists>n<Suc (allocatorCtx ar). growGrant g n (blockSpan b)"
    if "b \<in> set (ablocks ar)" "\<not> blockSpan b \<subseteq> st" for b
    using that wf g(1) less_SucI unfolding arenaWf_def by blast
  ultimately show ?thesis
    using wf b(1) g unfolding arenaWf_def by auto
qed

lemma arenaWf_ctx:
  "arenaWf st ar \<Longrightarrow> arenaWf st (ar\<lparr>allocatorCtx := Suc (allocatorCtx ar)\<rparr>)"
  "arenaWf st ar \<Longrightarrow> arenaWf st (ar\<lparr>allocatorCtx := Suc (allocatorCtx ar), afreed := x\<rparr>)"
  unfolding arenaWf_def by (simp_all, meson less_SucI, meson less_SucI)

lemma grown_final_block:
  assumes "H2ArenaTryAllocInBlock nb n a = r" "blockOk nb" "a \<le> UINT32_MAX" "0 < a" "a AND (a - 1) = 0"
  defines "nb' \<equiv> (case r of None \<Rightarrow> nb | Some (p, b') \<Rightarrow> b')"
  shows "blockOk nb'" "blockSpan nb' = blockSpan nb"
  using assms by (auto simp: nb'_def tryAlloc_span split: option.splits elim: tryAlloc_some)

lemma alloc_preserves_wf:
  assumes wf: "arenaWf st ar" and lg: "legalRequest n a0" and al: "H2ArenaAlloc ar n a0 = (r, ar')"
  shows "arenaWf st ar'"
  using al
proof (cases rule: alloc_cases)
  case unchanged
  with wf show ?thesis by simp
next
  case (bump a i p b')
  have "blockOk (ablocks ar ! i)" using wf bump(4) by (simp add: arenaWf_def)
  then have "blockOk b'"
    using bump(1,2) legal_align [OF lg] by (elim tryAlloc_some [OF bump(5)]) auto
  with arenaWf_update [OF wf bump(4) tryAlloc_span [OF bump(5)]] bump(6) show ?thesis by simp
next
  case (refused g req)
  with arenaWf_ctx(2) [OF wf] show ?thesis by auto
next
  case (grown g a req m s nb r' nb')
  note gb = grown_block [OF wf grown(3,4,5), folded grown(6)]
  have fb: "blockOk nb'" "blockSpan nb' = blockSpan nb"
    using grown_final_block [OF grown(7) gb(1)] legal_align [OF lg] grown(1,2,8) by auto
  have "arenaWf st (ar\<lparr>allocatorCtx := Suc (allocatorCtx ar), ablocks := ablocks ar @ [nb'],
                acurrent := Some (length (ablocks ar))\<rparr>)"
    by (rule arenaWf_append [OF wf fb(1) _ grown(3)]) (simp_all add: fb gb)
  with grown(10) show ?thesis by simp
qed

subsection \<open>The arena implements the allocator interface\<close>

lemma tryAlloc_used:
  assumes "H2ArenaTryAllocInBlock b n a = Some (p, b')" "blockOk b" "a \<le> UINT32_MAX"
    "0 < a" "a AND (a - 1) = 0"
  shows "blockUsed b \<union> region (p, n) \<subseteq> blockUsed b'" "region (p, n) \<inter> blockUsed b = {}"
    "region (p, n) \<subseteq> blockSpan b"
proof -
  from tryAlloc_some [OF assms] obtain m where "bmem b = Some m" "m + blen b \<le> p"
    "p + n \<le> m + bcap b" "b' = b\<lparr>blen := p + n - m\<rparr>" by metis
  then show "blockUsed b \<union> region (p, n) \<subseteq> blockUsed b'" "region (p, n) \<inter> blockUsed b = {}"
    "region (p, n) \<subseteq> blockSpan b"
    by (auto simp: blockUsed_def blockSpan_def region_def)
qed

lemma arenaUsed_update:
  "i < length (ablocks ar) \<Longrightarrow> blockUsed (ablocks ar ! i) \<union> X \<subseteq> blockUsed b' \<Longrightarrow>
   arenaUsed ar \<union> X \<subseteq> arenaUsed (ar\<lparr>ablocks := (ablocks ar)[i := b'], acurrent := c\<rparr>)"
proof -
  assume i: "i < length (ablocks ar)" and u: "blockUsed (ablocks ar ! i) \<union> X \<subseteq> blockUsed b'"
  have "blockUsed (ablocks ar ! j) \<subseteq> \<Union> (blockUsed ` set ((ablocks ar)[i := b']))"
    if "j < length (ablocks ar)" for j
  proof (cases "j = i")
    case True
    with u have "blockUsed (ablocks ar ! j) \<subseteq> blockUsed b'" by blast
    with set_update_memI [OF i, of b'] show ?thesis by blast
  next
    case False
    with that have "(ablocks ar)[i := b'] ! j = ablocks ar ! j" by simp
    with that have "ablocks ar ! j \<in> set ((ablocks ar)[i := b'])"
      by (metis length_list_update nth_mem)
    then show ?thesis by blast
  qed
  moreover have "X \<subseteq> \<Union> (blockUsed ` set ((ablocks ar)[i := b']))"
    using u set_update_memI [OF i, of b'] by blast
  ultimately show ?thesis
    unfolding arenaUsed_def by (auto simp: in_set_conv_nth) blast
qed

lemma alloc_uses:
  assumes wf: "arenaWf st ar" and lg: "legalRequest n a0" and al: "H2ArenaAlloc ar n a0 = (r, ar')"
  shows "arenaUsed ar \<union> (case r of None \<Rightarrow> {} | Some p \<Rightarrow> region (p, n)) \<subseteq> arenaUsed ar'"
  using al
proof (cases rule: alloc_cases)
  case unchanged
  then show ?thesis by simp
next
  case (bump a i p b')
  have "blockOk (ablocks ar ! i)" using wf bump(4) by (simp add: arenaWf_def)
  with tryAlloc_used(1) [OF bump(5)] bump(1,2) legal_align [OF lg]
  have "blockUsed (ablocks ar ! i) \<union> region (p, n) \<subseteq> blockUsed b'" by simp
  from arenaUsed_update [OF bump(4) this] bump(3,6) show ?thesis by simp
next
  case (refused g req)
  then show ?thesis by (auto simp: arenaUsed_def)
next
  case (grown g a req m s nb r' nb')
  note gb = grown_block [OF wf grown(3,4,5), folded grown(6)]
  have "(case r of None \<Rightarrow> {} | Some p \<Rightarrow> region (p, n)) \<subseteq> blockUsed nb'"
  proof (cases r')
    case (Some q)
    obtain p b' where q: "q = (p, b')" by (cases q)
    from grown(7) Some q have "H2ArenaTryAllocInBlock nb n a = Some (p, b')" by simp
    from tryAlloc_used(1) [OF this gb(1)] show ?thesis
      using grown(1,2,8,9) legal_align [OF lg] Some q by simp
  qed (use grown in simp)
  with grown(10) show ?thesis by (auto simp: arenaUsed_def)
qed

lemma alloc_unused:
  assumes wf: "arenaWf st ar" and lg: "legalRequest n a0" and al: "H2ArenaAlloc ar n a0 = (Some p, ar')"
  shows "region (p, n) \<inter> arenaUsed ar = {}"
  using al
proof (cases rule: alloc_cases)
  case unchanged
  then show ?thesis by simp
next
  case (refused g req)
  then show ?thesis by simp
next
  case (bump a i p' b')
  have ok: "\<And>j. j < length (ablocks ar) \<Longrightarrow> blockOk (ablocks ar ! j)" using wf by (simp add: arenaWf_def)
  have p: "p' = p" using bump(3) by simp
  note u = tryAlloc_used [OF bump(5) ok [OF bump(4)], unfolded p]
  have u2: "region (p, n) \<inter> blockUsed (ablocks ar ! i) = {}" "region (p, n) \<subseteq> blockSpan (ablocks ar ! i)"
    using u(2,3) bump(1,2) legal_align [OF lg] by auto
  have "region (p, n) \<inter> blockUsed (ablocks ar ! j) = {}" if "j < length (ablocks ar)" for j
  proof (cases "j = i")
    case False
    with wf that bump(4) have "blockSpan (ablocks ar ! i) \<inter> blockSpan (ablocks ar ! j) = {}"
      unfolding arenaWf_def by (metis inf_commute linorder_neqE_nat)
    with u2(2) blockUsed_span [OF ok [OF that]] show ?thesis by blast
  qed (use u2 in simp)
  then have "region (p, n) \<inter> blockUsed b = {}" if "b \<in> set (ablocks ar)" for b
    using that by (metis in_set_conv_nth)
  then show ?thesis unfolding arenaUsed_def by blast
next
  case (grown g a req m s nb r' nb')
  note gb = grown_block [OF wf grown(3,4,5), folded grown(6)]
  from grown(9) obtain b' where r': "r' = Some (p, b')" by (cases r') auto
  with grown(7) have "H2ArenaTryAllocInBlock nb n a = Some (p, b')" by simp
  from tryAlloc_used(3) [OF this gb(1)] have "region (p, n) \<subseteq> blockSpan nb"
    using grown(1,2) legal_align [OF lg] by simp
  moreover have "blockUsed b \<inter> blockSpan nb = {}" if "b \<in> set (ablocks ar)" for b
    using gb(3) [OF that] blockUsed_span [of b] wf that unfolding arenaWf_def by blast
  ultimately show ?thesis unfolding arenaUsed_def by blast
qed

interpretation arena_memory: bump_memory H2ArenaAlloc arenaUsed "arenaWf st" legalRequest for st
proof unfold_locales
  show "arenaWf st s'" if "arenaWf st s" "legalRequest n a" "H2ArenaAlloc s n a = (r, s')" for s s' n a r
    using that by (rule alloc_preserves_wf)
  show "arenaUsed s \<subseteq> arenaUsed s'"
    if "arenaWf st s" "legalRequest n a" "H2ArenaAlloc s n a = (None, s')" for s s' n a
    using alloc_uses [OF that] by simp
  show "arenaUsed s \<union> region (p, n) \<subseteq> arenaUsed s'"
    if "arenaWf st s" "legalRequest n a" "H2ArenaAlloc s n a = (Some p, s')" for s s' n a p
    using alloc_uses [OF that] by simp
  show "region (p, n) \<inter> arenaUsed s = {}"
    if "arenaWf st s" "legalRequest n a" "H2ArenaAlloc s n a = (Some p, s')" for s s' n a p
    using that by (rule alloc_unused)
qed

lemma init_wf:
  "storageSize \<le> UINT32_MAX \<Longrightarrow>
   (\<forall>g. gf = Some g \<longrightarrow> growContract {m..<m + storageSize} g) \<Longrightarrow>
   arenaWf {m..<m + storageSize} (H2ArenaInitEx (Some m) storageSize c gf ff)"
  by (auto simp: arenaWf_def H2ArenaInitEx_def H2ArenaInitBlock_def blockOk_def blockSpan_def)

lemma init_used [simp]: "arenaUsed (H2ArenaInitEx mem sz c gf ff) = {}"
  by (simp add: arenaUsed_def H2ArenaInitEx_def H2ArenaInitBlock_def blockUsed_def split: option.split)

subsection \<open>Ownership of the memory obtained from the embedder\<close>

definition chainOwned :: "H2Arena \<Rightarrow> bool" where
  "chainOwned a \<longleftrightarrow> ablocks a \<noteq> [] \<and> \<not> bowned (hd (ablocks a)) \<and>
     (\<forall>b\<in>set (tl (ablocks a)). bowned b \<and> (\<exists>m. bmem b = Some (m + 48) \<and> bcap b + 48 = ballocSize b))"

definition arenaHeld :: "H2Arena \<Rightarrow> (nat \<times> nat) list" where
  "arenaHeld a = map (\<lambda>b. (the (bmem b) - 48, ballocSize b)) (tl (ablocks a))"

text \<open>Every grant the arena has accounted for: still in the chain, or given back.\<close>

definition arenaLedger :: "H2Arena \<Rightarrow> (nat \<times> nat) multiset" where
  "arenaLedger a = mset (afreed a) + mset (arenaHeld a)"

lemma dispose_blocks_all:
  "\<forall>b\<in>set bs. bowned b \<Longrightarrow>
   H2ArenaDisposeBlocks True bs = map (\<lambda>b. (the (bmem b) - 48, ballocSize b)) bs"
  by (induction bs) (auto simp: grow_header_size)

lemma chain_update:
  assumes "H2ArenaTryAllocInBlock (bs ! i) n a = Some (p, b')"
  shows "bmem b' = bmem (bs ! i)" "bcap b' = bcap (bs ! i)" "ballocSize b' = ballocSize (bs ! i)"
    "bowned b' = bowned (bs ! i)"
  using assms by (auto simp: H2ArenaTryAllocInBlock_def Let_def split: option.splits if_splits)

lemma bump_keeps_chain:
  assumes co: "chainOwned ar" and i: "i < length (ablocks ar)"
    and t: "H2ArenaTryAllocInBlock (ablocks ar ! i) n a = Some (p, b')"
  shows "chainOwned (ar\<lparr>ablocks := (ablocks ar)[i := b'], acurrent := c\<rparr>)"
    "arenaHeld (ar\<lparr>ablocks := (ablocks ar)[i := b'], acurrent := c\<rparr>) = arenaHeld ar"
proof -
  obtain b0 bs where bs: "ablocks ar = b0 # bs" using co by (cases "ablocks ar") (auto simp: chainOwned_def)
  note u = chain_update [OF t]
  show "chainOwned (ar\<lparr>ablocks := (ablocks ar)[i := b'], acurrent := c\<rparr>)"
  proof (cases i)
    case 0
    with co u bs show ?thesis by (simp add: chainOwned_def)
  next
    case (Suc k)
    let ?P = "\<lambda>b. bowned b \<and> (\<exists>m. bmem b = Some (m + 48) \<and> bcap b + 48 = ballocSize b)"
    from i bs Suc have "bs ! k \<in> set bs" by simp
    moreover have all: "\<forall>b\<in>set bs. ?P b" and hd: "\<not> bowned b0"
      using co bs by (simp_all add: chainOwned_def)
    ultimately have "?P (bs ! k)" by blast
    then have "?P b'" using u bs Suc by simp
    then have "\<forall>b\<in>set (bs[k := b']). ?P b" by (rule list_update_ball [OF all])
    with hd bs Suc show ?thesis by (simp add: chainOwned_def)
  qed
  show "arenaHeld (ar\<lparr>ablocks := (ablocks ar)[i := b'], acurrent := c\<rparr>) = arenaHeld ar"
  proof (cases i)
    case 0
    with bs show ?thesis by (simp add: arenaHeld_def)
  next
    case (Suc k)
    let ?f = "\<lambda>b. (the (bmem b) - 48, ballocSize b)"
    have "map ?f (bs[k := b']) = (map ?f bs)[k := ?f (bs ! k)]"
      using u bs Suc by (simp add: map_update)
    also have "?f (bs ! k) = map ?f bs ! k" using i bs Suc by simp
    also have "(map ?f bs)[k := map ?f bs ! k] = map ?f bs" by (rule list_update_id)
    finally show ?thesis using bs Suc by (simp add: arenaHeld_def)
  qed
qed

text \<open>every block of memory the arena ever obtains from the embedder is accounted for:
an allocation either leaves the ledger alone or enters exactly the one block \<open>grow\<close> granted
during it (kept in the chain, or given back at once when it was too small).\<close>

theorem arena_alloc_ledger:
  assumes "chainOwned ar" "afree ar" "H2ArenaAlloc ar n a0 = (r, ar')"
  shows "chainOwned ar' \<and> afree ar' \<and>
    (arenaLedger ar' = arenaLedger ar \<and> (allocatorCtx ar' = allocatorCtx ar \<or>
        (\<exists>g req. agrow ar = Some g \<and> g (allocatorCtx ar) req = None)) \<or>
     (\<exists>g req blk. agrow ar = Some g \<and> g (allocatorCtx ar) req = Some blk \<and>
        arenaLedger ar' = add_mset blk (arenaLedger ar)))"
  using assms(3)
proof (cases rule: alloc_cases)
  case unchanged
  with assms show ?thesis by simp
next
  case (bump a i p b')
  note k = bump_keeps_chain [OF assms(1) bump(4,5), of "Some i"]
  from k(2) have "arenaLedger ar' = arenaLedger ar"
    using bump(6) by (simp add: arenaLedger_def)
  with k(1) assms(2) bump(6) show ?thesis by simp
next
  case (refused g req)
  have "chainOwned ar'" "arenaHeld ar' = arenaHeld ar"
    using assms(1) refused(3) by (simp_all add: chainOwned_def arenaHeld_def)
  with assms(2) refused(2,3) show ?thesis
    by (cases "g (allocatorCtx ar) req") (auto simp: arenaLedger_def)
next
  case (grown g a req m s nb r' nb')
  have nb': "bowned nb'" "bmem nb' = Some (m + 48)" "bcap nb' + 48 = ballocSize nb'" "ballocSize nb' = s"
    using grown(5,6,7,8) chain_update [of "[nb]" 0 n a]
    by (auto simp: H2ArenaInitBlock_def split: option.splits)
  have "chainOwned ar'" using assms(1) grown(10) nb' by (auto simp: chainOwned_def)
  moreover have "arenaHeld ar' = arenaHeld ar @ [(m, s)]"
    using assms(1) grown(10) nb' by (simp add: arenaHeld_def chainOwned_def)
  then have "arenaLedger ar' = add_mset (m, s) (arenaLedger ar)"
    using grown(10) by (simp add: arenaLedger_def)
  ultimately show ?thesis using assms(2) grown(3,4,10) by auto
qed

text \<open>C32: disposing of the arena gives every block still held back to the embedder, so that
the blocks freed over its life are exactly those of the ledger, each once; what remains is the
caller's own storage, empty.\<close>

theorem arena_dispose_frees_all:
  assumes "chainOwned ar" "afree ar"
  shows "mset (afreed (H2ArenaDispose ar)) = arenaLedger ar \<and>
         arenaHeld (H2ArenaDispose ar) = [] \<and> arenaUsed (H2ArenaDispose ar) = {} \<and>
         chainOwned (H2ArenaDispose ar)"
proof -
  obtain b bs where bs: "ablocks ar = b # bs" using assms(1) by (cases "ablocks ar") (auto simp: chainOwned_def)
  with assms have "\<forall>b\<in>set bs. bowned b" by (simp add: chainOwned_def)
  with assms bs dispose_blocks_all [OF this] show ?thesis
    by (simp add: H2ArenaDispose_def arenaLedger_def arenaHeld_def chainOwned_def arenaUsed_def
        blockUsed_def split: option.split)
qed

text \<open>C12: for any sequence of allocations, whatever their sizes and alignments, the regions
handed out are pairwise disjoint and disjoint from all memory in use before.\<close>

theorem arena_allocations_disjoint:
  assumes "arenaWf st ar" "\<forall>(n, a) \<in> set reqs. legalRequest n a"
    "runAllocs H2ArenaAlloc ar reqs = (rs, ar')"
  shows "arenaWf st ar' \<and>
    (\<forall>i<length rs. region (rs ! i) \<inter> arenaUsed ar = {} \<and> region (rs ! i) \<subseteq> arenaUsed ar') \<and>
    (\<forall>i j. i < j \<longrightarrow> j < length rs \<longrightarrow> region (rs ! i) \<inter> region (rs ! j) = {})"
proof -
  have "region (rs ! i) \<subseteq> arenaUsed ar'" if "i < length rs" for i
    using arena_memory.run_used [OF assms] nth_mem [OF that] by blast
  with arena_memory.run_ok [OF assms] arena_memory.run_disjoint [OF assms] show ?thesis by blast
qed

text \<open>C39: an allocation that succeeds lies inside one block of the resulting chain, at an offset
from the start of that block which is a multiple of the alignment asked for (a power of two).\<close>

theorem arena_alloc_in_block:
  assumes "arenaWf st ar" "legalRequest n a" "a \<noteq> 0" "H2ArenaAlloc ar n a = (Some p, ar')"
  shows "(\<exists>k. a = 2 ^ k) \<and>
    (\<exists>b\<in>set (ablocks ar'). \<exists>m. bmem b = Some m \<and> m \<le> p \<and> p + n \<le> m + blen b \<and>
       blen b \<le> bcap b \<and> a dvd p - m)"
  using assms(4)
proof (cases rule: alloc_cases)
  case unchanged
  then show ?thesis by simp
next
  case (refused g req)
  then show ?thesis by simp
next
  case (bump a' i p' b')
  have "a' = a" "a AND (a - 1) = 0" "p' = p" using bump assms(3) by simp_all
  moreover have "blockOk (ablocks ar ! i)" using assms(1) bump(4) by (simp add: arenaWf_def)
  ultimately obtain m where "bmem (ablocks ar ! i) = Some m" "m + blen (ablocks ar ! i) \<le> p"
    "p + n \<le> m + bcap (ablocks ar ! i)" "a dvd p - m" "b' = (ablocks ar ! i)\<lparr>blen := p + n - m\<rparr>" "blockOk b'"
    using tryAlloc_some [OF bump(5)] assms(2,3) by (auto simp: legalRequest_def)
  then have "bmem b' = Some m \<and> m \<le> p \<and> p + n \<le> m + blen b' \<and> blen b' \<le> bcap b' \<and> a dvd p - m"
    by (auto simp: blockOk_def)
  moreover have "b' \<in> set (ablocks ar')" using bump(4,6) by (simp add: set_update_memI)
  ultimately show ?thesis
    using and_pred_zero_power2 [of a] assms(3) \<open>a AND (a - 1) = 0\<close> by blast
next
  case (grown g a' req m s nb r' nb')
  note gb = grown_block [OF assms(1) grown(3,4,5), folded grown(6)]
  have a: "a' = a" "a AND (a - 1) = 0" using grown assms(3) by simp_all
  from grown(9) obtain b' where r': "r' = Some (p, b')" by (cases r') auto
  with grown(7) a have t: "H2ArenaTryAllocInBlock nb n a = Some (p, b')" by simp
  from tryAlloc_some [OF t gb(1)] obtain m0 where "bmem nb = Some m0" "m0 + blen nb \<le> p"
    "p + n \<le> m0 + bcap nb" "a dvd p - m0" "b' = nb\<lparr>blen := p + n - m0\<rparr>" "blockOk b'"
    using assms(2,3) a by (auto simp: legalRequest_def)
  then have "bmem b' = Some m0 \<and> m0 \<le> p \<and> p + n \<le> m0 + blen b' \<and> blen b' \<le> bcap b' \<and> a dvd p - m0"
    by (auto simp: blockOk_def)
  moreover have "b' \<in> set (ablocks ar')" using grown(8,10) r' by simp
  ultimately show ?thesis using and_pred_zero_power2 [of a] assms(3) a by blast
qed

text \<open>The slow path, with the size it asks for worked out.\<close>

lemma target_payload_small:
  "c \<le> UINT32_MAX div 2 - 24 \<Longrightarrow> x \<le> UINT32_MAX - 48 \<Longrightarrow>
   x \<le> H2ArenaTargetPayload c x \<and> H2ArenaTargetPayload c x \<le> UINT32_MAX - 48"
  by (auto simp: H2ArenaTargetPayload_def Let_def)

lemma target_payload_large:
  "UINT32_MAX div 2 - 24 < c \<Longrightarrow> x < c \<Longrightarrow> 48 + H2ArenaTargetPayload c x > UINT32_MAX"
  by (auto simp: H2ArenaTargetPayload_def Let_def)

lemma alloc_grow_succeeds:
  assumes "agrow ar = Some g"
    "\<forall>k req. req \<le> UINT32_MAX \<longrightarrow> (\<exists>m s. g k req = Some (m, s) \<and> req \<le> s \<and> s \<le> UINT32_MAX)"
    "0 < a" "a AND (a - 1) = 0" "n + a \<le> UINT32_MAX - 48" "bcap block \<le> UINT32_MAX div 2 - 24"
  shows "\<exists>p ar'. H2ArenaAllocGrow ar block n a = (Some p, ar')"
proof -
  let ?t = "H2ArenaTargetPayload (bcap block) (n + a - 1)"
  have t: "n + a - 1 \<le> ?t" "?t \<le> UINT32_MAX - 48"
    using target_payload_small [OF assms(6), of "n + a - 1"] assms(5) by auto
  then obtain m s where m: "g (allocatorCtx ar) (48 + ?t) = Some (m, s)" "48 + ?t \<le> s" "s \<le> UINT32_MAX"
    using assms(2) [rule_format, of "48 + ?t" "allocatorCtx ar"] by auto
  have "H2ArenaTryAllocInBlock (H2ArenaInitBlock (Some (m + 48)) (s - 48) s True) n a \<noteq> None"
    using m t assms(3-5) by (intro tryAlloc_fresh_block) linarith+
  then obtain p b' where "H2ArenaTryAllocInBlock (H2ArenaInitBlock (Some (m + 48)) (s - 48) s True) n a = Some (p, b')"
    by auto
  moreover have "\<not> s < 48 + (n + a - 1)" "\<not> n > UINT32_MAX - (a - 1)" "\<not> 48 + ?t > UINT32_MAX"
    using m t assms(3,5) by linarith+
  ultimately show ?thesis
    using assms(1) m(1) unfolding H2ArenaAllocGrow_def Let_def grow_header_size by simp
qed

text \<open>C33: the arena grows as promised: when \<open>grow\<close> answers every request with at least the
size asked for, an allocation of a legal size and power-of-two alignment succeeds, as long as
the last block is below half the range of the 32-bit sizes.\<close>

theorem arena_alloc_succeeds:
  assumes "ablocks ar \<noteq> []" "agrow ar = Some g"
    "\<forall>k req. req \<le> UINT32_MAX \<longrightarrow> (\<exists>m s. g k req = Some (m, s) \<and> req \<le> s \<and> s \<le> UINT32_MAX)"
    "0 < a" "a AND (a - 1) = 0" "n + a \<le> UINT32_MAX - 48"
    "bcap (last (ablocks ar)) \<le> UINT32_MAX div 2 - 24"
  shows "\<exists>p ar'. H2ArenaAlloc ar n a = (Some p, ar')"
proof (cases "H2ArenaScan (drop (case acurrent ar of Some c \<Rightarrow> c | None \<Rightarrow> 0) (ablocks ar)) n a")
  case None
  with alloc_grow_succeeds [OF assms(2-7)] assms(1,4,5) show ?thesis
    by (simp add: H2ArenaAlloc_def Let_def)
next
  case (Some q)
  with assms(1,4,5) show ?thesis
    by (cases q) (simp add: H2ArenaAlloc_def Let_def)
qed

text \<open>C40: the other side of that bound: once the last block is larger, its doubled payload plus
the header no longer fits 32 bits, and a request that fits no block of the chain is refused
without asking \<open>grow\<close>, however small it is. This concerns the requests below the size of the
last block (padding included); for larger ones the doubled payload is not used, and \<open>grow\<close> is
asked for the request itself.\<close>

theorem arena_growth_refused:
  assumes "\<forall>b\<in>set (ablocks ar). H2ArenaTryAllocInBlock b n a = None" "ablocks ar \<noteq> []" "0 < a"
    "UINT32_MAX div 2 - 24 < bcap (last (ablocks ar))" "n + a - 1 < bcap (last (ablocks ar))"
  shows "H2ArenaAlloc ar n a = (None, ar)"
proof -
  have "H2ArenaScan (drop k (ablocks ar)) n a = None" for k
  proof (cases "H2ArenaScan (drop k (ablocks ar)) n a")
    case (Some q)
    obtain i p b' where "q = (i, p, b')" by (cases q)
    from scan_some [OF Some [unfolded this]] assms(1) show ?thesis
      by (metis in_set_dropD nth_mem option.distinct(1))
  qed
  with assms target_payload_large [OF assms(4,5)] show ?thesis
    by (auto simp: H2ArenaAlloc_def H2ArenaAllocGrow_def Let_def grow_header_size split: option.split)
qed

subsection \<open>Witnesses\<close>

text \<open>An embedder that carves each grant from its own gigabyte-aligned range.\<close>

definition exGrow :: "nat \<Rightarrow> nat \<Rightarrow> (nat \<times> nat) option" where
  "exGrow k req = Some (8589934592 * (k + 1), min req UINT32_MAX)"

definition exArena :: H2Arena where
  "exArena = H2ArenaInitEx (Some 4096) 64 0 (Some exGrow) True"

lemma exGrow_contract: "growContract {4096..<4160} exGrow"
proof -
  have "R \<inter> R' = {}" if "n < n'" "growGrant exGrow n R" "growGrant exGrow n' R'" for n n' R R'
  proof -
    have "R \<subseteq> {8589934592 * (n + 1)..<8589934592 * (n + 1) + UINT32_MAX}"
      "R' \<subseteq> {8589934592 * (n' + 1)..}"
      using that(2,3) by (force simp: growGrant_def exGrow_def subset_iff)+
    moreover have "8589934592 * (n + 1) + UINT32_MAX < 8589934592 * (n' + 1)"
      using less_imp_Suc_add [OF that(1)] by auto
    ultimately show ?thesis by fastforce
  qed
  then show ?thesis by (auto simp: growContract_def exGrow_def)
qed

lemma exArena_wf: "arenaWf {4096..<4160} exArena"
  unfolding exArena_def using init_wf [of 64 "Some exGrow" 4096 0 True] exGrow_contract by simp

lemma exArena_facts:
  "afree exArena" "ablocks exArena \<noteq> []" "agrow exArena = Some exGrow"
  "bcap (last (ablocks exArena)) = 64" "chainOwned exArena" "arenaLedger exArena = {#}"
  by (simp_all add: exArena_def H2ArenaInitEx_def H2ArenaInitBlock_def chainOwned_def arenaLedger_def arenaHeld_def)

lemma exArena_alloc:
  "fst (H2ArenaAlloc exArena 100 16) = Some 8589934640"
  "map fst (fst (runAllocs H2ArenaAlloc exArena [(10, 1), (8, 8), (100, 16)])) = [4096, 4112, 8589934640]"
  "arenaHeld (snd (H2ArenaAlloc exArena 100 16)) = [(8589934592, 163)]"
  by code_simp+

lemma arena_alloc_ledger_witness:
  "chainOwned exArena \<and> afree exArena \<and> fst (H2ArenaAlloc exArena 100 16) = Some 8589934640 \<and>
   chainOwned (snd (H2ArenaAlloc exArena 100 16)) \<and>
   arenaHeld (snd (H2ArenaAlloc exArena 100 16)) = [(8589934592, 163)]"
proof -
  obtain ar' where a: "H2ArenaAlloc exArena 100 16 = (Some 8589934640, ar')"
    using exArena_alloc(1) by (cases "H2ArenaAlloc exArena 100 16") simp
  from arena_alloc_ledger [OF exArena_facts(5,1) a] exArena_facts(1,5) exArena_alloc(3) a
  show ?thesis by simp
qed

lemma arena_dispose_frees_all_witness:
  "\<exists>ar. arenaHeld ar = [(8589934592, 163)] \<and> chainOwned ar \<and> afree ar \<and>
    mset (afreed (H2ArenaDispose ar)) = arenaLedger ar"
proof -
  let ?ar = "snd (H2ArenaAlloc exArena 100 16)"
  have c: "ablocks ?ar = [H2ArenaInitBlock (Some 4096) 64 64 False,
      (H2ArenaInitBlock (Some 8589934640) 115 163 True)\<lparr>blen := 100\<rparr>]" "afree ?ar" by code_simp+
  then have "chainOwned ?ar" by (simp add: chainOwned_def H2ArenaInitBlock_def)
  with arena_dispose_frees_all [OF this c(2)] c(2) exArena_alloc(3) show ?thesis by blast
qed

lemma arena_allocations_disjoint_witness:
  "map fst (fst (runAllocs H2ArenaAlloc exArena [(10, 1), (8, 8), (100, 16)])) = [4096, 4112, 8589934640] \<and>
   arenaWf {4096..<4160} (snd (runAllocs H2ArenaAlloc exArena [(10, 1), (8, 8), (100, 16)]))"
  using arena_allocations_disjoint [of "{4096..<4160}" exArena "[(10, 1), (8, 8), (100, 16)]", OF exArena_wf _ prod.collapse [symmetric]]
    exArena_alloc(2) by (simp add: legalRequest_def)

lemma arena_alloc_in_block_witness:
  "\<exists>p ar' b m. H2ArenaAlloc exArena 100 16 = (Some p, ar') \<and> b \<in> set (ablocks ar') \<and>
     bmem b = Some m \<and> m \<le> p \<and> p + 100 \<le> m + blen b \<and> (16::nat) dvd p - m"
proof -
  obtain ar' where a: "H2ArenaAlloc exArena 100 16 = (Some 8589934640, ar')"
    using exArena_alloc(1) by (cases "H2ArenaAlloc exArena 100 16") simp
  have "legalRequest 100 16" by (simp add: legalRequest_def)
  from arena_alloc_in_block [OF exArena_wf this _ a] a show ?thesis by auto
qed

lemma arena_alloc_succeeds_witness:
  "\<exists>p ar'. H2ArenaAlloc exArena 4000000 64 = (Some p, ar')"
  by (rule arena_alloc_succeeds [OF exArena_facts(2,3)])
    (simp_all add: exArena_facts exGrow_def)

definition exFullArena :: H2Arena where
  "exFullArena = H2ArenaInitEx None 3000000000 0 (Some exGrow) True"

lemma arena_growth_refused_witness:
  "H2ArenaAlloc exFullArena 100 16 = (None, exFullArena)"
  by (rule arena_growth_refused)
    (simp_all add: exFullArena_def H2ArenaInitEx_def H2ArenaInitBlock_def H2ArenaTryAllocInBlock_def)

end
