(* ===== verification/H2StringLit.thy ===== *)
theory H2StringLit
  imports H2Syntax H2Arena
begin

text \<open>
  String and rune literals, \<open>src/string_lit.c\<close>: the incremental UTF-8 check, the decoder
  with its byte sink, the sinks (rune collector, arena buffer, malloc buffer) and the entry
  points. A sink is a function on its context that accepts a byte (\<open>Ok\<close>) or refuses it
  (\<open>Err\<close>), returning the context either way. The decoder's loop body is
  \<open>decodeStep\<close>; \<open>decodeLoop\<close> iterates it. NULL arguments are not modelled.
\<close>

subsection \<open>Types\<close>

datatype (plugins only: code size) H2StringLitErrKind =
    H2StringLitErr_NONE | H2StringLitErr_UNTERMINATED | H2StringLitErr_INVALID_ESCAPE
  | H2StringLitErr_INVALID_CODEPOINT | H2StringLitErr_INVALID_UTF8 | H2StringLitErr_ARENA_OOM

record H2StringLitErr =
  sekind :: H2StringLitErrKind
  sestart :: nat
  seend :: nat

datatype (plugins only: code size) H2RuneLitErrKind =
    H2RuneLitErr_NONE | H2RuneLitErr_UNTERMINATED | H2RuneLitErr_EMPTY
  | H2RuneLitErr_MULTIPLE_CODEPOINTS | H2RuneLitErr_INVALID_ESCAPE
  | H2RuneLitErr_INVALID_CODEPOINT | H2RuneLitErr_INVALID_UTF8

record H2RuneLitErr =
  rekind :: H2RuneLitErrKind
  restart :: nat
  reend :: nat

record H2UTF8State =
  firstByte :: byte
  need :: nat
  haveCnt :: nat
  firstStart :: nat
  firstEnd :: nat

definition utf8Init :: H2UTF8State where
  "utf8Init = \<lparr>firstByte = 0, need = 0, haveCnt = 0, firstStart = 0, firstEnd = 0\<rparr>"

definition H2SetStringLitErr :: "H2StringLitErrKind \<Rightarrow> nat \<Rightarrow> nat \<Rightarrow> H2StringLitErr" where
  "H2SetStringLitErr k s e = \<lparr>sekind = k, sestart = s, seend = e\<rparr>"

subsection \<open>Digits and UTF-8\<close>

definition H2HexDigit :: "byte \<Rightarrow> int" where
  "H2HexDigit c =
     (if c \<ge> ch CHR ''0'' \<and> c \<le> ch CHR ''9'' then uint c - uint (ch CHR ''0'')
      else if c \<ge> ch CHR ''a'' \<and> c \<le> ch CHR ''f'' then 10 + (uint c - uint (ch CHR ''a''))
      else if c \<ge> ch CHR ''A'' \<and> c \<le> ch CHR ''F'' then 10 + (uint c - uint (ch CHR ''A''))
      else -1)"

definition H2OctalDigit :: "byte \<Rightarrow> bool" where
  "H2OctalDigit c \<longleftrightarrow> c \<ge> ch CHR ''0'' \<and> c \<le> ch CHR ''7''"

definition H2UTF8SecondByteValid :: "byte \<Rightarrow> byte \<Rightarrow> bool" where
  "H2UTF8SecondByteValid first second =
     (if first \<ge> 0xC2 \<and> first \<le> 0xDF then second \<ge> 0x80 \<and> second \<le> 0xBF
      else if first = 0xE0 then second \<ge> 0xA0 \<and> second \<le> 0xBF
      else if (first \<ge> 0xE1 \<and> first \<le> 0xEC) \<or> (first \<ge> 0xEE \<and> first \<le> 0xEF)
        then second \<ge> 0x80 \<and> second \<le> 0xBF
      else if first = 0xED then second \<ge> 0x80 \<and> second \<le> 0x9F
      else if first = 0xF0 then second \<ge> 0x90 \<and> second \<le> 0xBF
      else if first \<ge> 0xF1 \<and> first \<le> 0xF3 then second \<ge> 0x80 \<and> second \<le> 0xBF
      else if first = 0xF4 then second \<ge> 0x80 \<and> second \<le> 0x8F
      else False)"

definition utf8Lead :: "byte \<Rightarrow> nat \<Rightarrow> nat \<Rightarrow> nat \<Rightarrow> H2UTF8State" where
  "utf8Lead b n start endPos =
     \<lparr>firstByte = b, need = n, haveCnt = 1, firstStart = start, firstEnd = endPos\<rparr>"

definition H2UTF8Feed ::
  "H2UTF8State \<Rightarrow> byte \<Rightarrow> nat \<Rightarrow> nat \<Rightarrow> H2StringLitErr + H2UTF8State" where
  "H2UTF8Feed st b start endPos =
     (let bad = Inl (H2SetStringLitErr H2StringLitErr_INVALID_UTF8 start endPos)
      in if need st = 0 then
           (if b \<le> 0x7F then Inr st
            else if b \<ge> 0xC2 \<and> b \<le> 0xDF then Inr (utf8Lead b 2 start endPos)
            else if b \<ge> 0xE0 \<and> b \<le> 0xEF then Inr (utf8Lead b 3 start endPos)
            else if b \<ge> 0xF0 \<and> b \<le> 0xF4 then Inr (utf8Lead b 4 start endPos)
            else bad)
         else if (if haveCnt st = 1 then \<not> H2UTF8SecondByteValid (firstByte st) b
                  else b < 0x80 \<or> b > 0xBF) then bad
         else
           (let st' = st\<lparr>haveCnt := haveCnt st + 1\<rparr>
            in Inr (if haveCnt st' = need st' then st'\<lparr>need := 0, haveCnt := 0\<rparr> else st')))"

definition H2UTF8Finish :: "H2UTF8State \<Rightarrow> H2StringLitErr option" where
  "H2UTF8Finish st =
     (if need st = 0 then None
      else Some (H2SetStringLitErr H2StringLitErr_INVALID_UTF8 (firstStart st) (firstEnd st)))"

definition H2RuneToUTF8 :: "32 word \<Rightarrow> byte list option" where
  "H2RuneToUTF8 rune =
     (if rune \<le> 0x7F then Some [ucast rune]
      else if rune \<le> 0x7FF then
        Some [ucast (0xC0 OR (drop_bit 6 rune AND 0x1F)), ucast (0x80 OR (rune AND 0x3F))]
      else if rune \<le> 0xFFFF then
        Some [ucast (0xE0 OR (drop_bit 12 rune AND 0x0F)),
              ucast (0x80 OR (drop_bit 6 rune AND 0x3F)),
              ucast (0x80 OR (rune AND 0x3F))]
      else if rune \<le> 0x10FFFF then
        Some [ucast (0xF0 OR (drop_bit 18 rune AND 0x07)),
              ucast (0x80 OR (drop_bit 12 rune AND 0x3F)),
              ucast (0x80 OR (drop_bit 6 rune AND 0x3F)),
              ucast (0x80 OR (rune AND 0x3F))]
      else None)"

subsection \<open>The decoder\<close>

type_synonym 'c emitFn = "'c \<Rightarrow> byte \<Rightarrow> ('c, 'c) outcome"

text \<open>
  Results carry the sink's context; an error also carries the diagnosis.
\<close>

definition H2EmitAndValidateByte ::
  "'c emitFn option \<Rightarrow> 'c \<Rightarrow> H2UTF8State \<Rightarrow> byte \<Rightarrow> nat \<Rightarrow> nat
   \<Rightarrow> (H2StringLitErr \<times> 'c, H2UTF8State \<times> 'c) outcome" where
  "H2EmitAndValidateByte emit c utf8 b start endPos =
     (case H2UTF8Feed utf8 b start endPos of
        Inl e \<Rightarrow> Err (e, c)
      | Inr utf8' \<Rightarrow>
          (case emit of
             None \<Rightarrow> Ok (utf8', c)
           | Some f \<Rightarrow>
               (case f c b of
                  Ok c' \<Rightarrow> Ok (utf8', c')
                | Err c' \<Rightarrow> Err (H2SetStringLitErr H2StringLitErr_ARENA_OOM start endPos, c')
                | Stuck \<Rightarrow> Stuck)))"

fun emitBytes ::
  "'c emitFn option \<Rightarrow> 'c \<Rightarrow> H2UTF8State \<Rightarrow> byte list \<Rightarrow> nat \<Rightarrow> nat
   \<Rightarrow> (H2StringLitErr \<times> 'c, H2UTF8State \<times> 'c) outcome" where
  "emitBytes emit c utf8 [] start endPos = Ok (utf8, c)"
| "emitBytes emit c utf8 (b # bs) start endPos =
     obind (H2EmitAndValidateByte emit c utf8 b start endPos)
       (\<lambda>(utf8', c'). emitBytes emit c' utf8' bs start endPos)"

definition H2EmitRuneUTF8 ::
  "'c emitFn option \<Rightarrow> 'c \<Rightarrow> H2UTF8State \<Rightarrow> 32 word \<Rightarrow> nat \<Rightarrow> nat
   \<Rightarrow> (H2StringLitErr \<times> 'c, H2UTF8State \<times> 'c) outcome" where
  "H2EmitRuneUTF8 emit c utf8 rune start endPos =
     (case H2RuneToUTF8 rune of
        None \<Rightarrow> Err (H2SetStringLitErr H2StringLitErr_INVALID_CODEPOINT start endPos, c)
      | Some bytes \<Rightarrow> emitBytes emit c utf8 bytes start endPos)"

text \<open>\<open>Ok None\<close>: a character that is not a hex digit.\<close>

fun H2DecodeHex :: "byte list \<Rightarrow> nat \<Rightarrow> nat \<Rightarrow> 32 word \<Rightarrow> ('e, 32 word option) outcome" where
  "H2DecodeHex src p 0 v = Ok (Some v)"
| "H2DecodeHex src p (Suc digits) v =
     peek src p (\<lambda>c. let d = H2HexDigit c
       in if d < 0 then Ok None
          else H2DecodeHex src (p + 1) digits (push_bit 4 v OR word_of_int d))"

text \<open>Continue the loop at \<open>i\<close> after emitting one byte.\<close>

definition emitAt ::
  "'c emitFn option \<Rightarrow> 'c \<Rightarrow> H2UTF8State \<Rightarrow> byte \<Rightarrow> nat \<Rightarrow> nat \<Rightarrow> nat
   \<Rightarrow> (H2StringLitErr \<times> 'c, nat \<times> H2UTF8State \<times> 'c) outcome" where
  "emitAt emit c utf8 b spanStart spanEnd i =
     obind (H2EmitAndValidateByte emit c utf8 b spanStart spanEnd) (\<lambda>(u, c'). Ok (i, u, c'))"

definition decodeRawStep ::
  "byte list \<Rightarrow> nat \<Rightarrow> 'c emitFn option \<Rightarrow> nat \<Rightarrow> H2UTF8State \<Rightarrow> 'c \<Rightarrow> byte
   \<Rightarrow> (H2StringLitErr \<times> 'c, nat \<times> H2UTF8State \<times> 'c) outcome" where
  "decodeRawStep src endPos emit i utf8 x c =
     peekIf (c = ch CHR 0x5C \<and> i + 1 < endPos - 1) src (i + 1) (\<lambda>b. b = ch CHR ''`'') (\<lambda>esc.
       if esc then emitAt emit x utf8 (ch CHR ''`'') i (i + 2) (i + 2)
       else if c = 0x0D then
         peekIf (i + 1 < endPos - 1) src (i + 1) (\<lambda>b. b = 0x0A) (\<lambda>lf.
           let j = (if lf then i + 2 else i + 1) in emitAt emit x utf8 0x0A i j j)
       else emitAt emit x utf8 c i (i + 1) (i + 1))"

definition simpleEscape :: "byte \<Rightarrow> byte option" where
  "simpleEscape c =
     (if c = ch CHR ''a'' then Some 0x07
      else if c = ch CHR ''b'' then Some 0x08
      else if c = ch CHR ''f'' then Some 0x0C
      else if c = ch CHR ''n'' then Some 0x0A
      else if c = ch CHR ''r'' then Some 0x0D
      else if c = ch CHR ''t'' then Some 0x09
      else if c = ch CHR ''v'' then Some 0x0B
      else if c = ch CHR 0x5C \<or> c = ch CHR 0x22 \<or> c = ch CHR 0x27 then Some c
      else None)"

text \<open>
  The escape sequences with digits. \<open>i\<close> is the position after the backslash, \<open>c\<close> the
  character there. A position \<open>i + digits\<close> beyond 32 bits would wrap in the C code and
  then be read from: the model is stuck there.
\<close>

definition decodeHexEscape ::
  "byte list \<Rightarrow> nat \<Rightarrow> 'c emitFn option \<Rightarrow> nat \<Rightarrow> nat \<Rightarrow> H2UTF8State \<Rightarrow> 'c
   \<Rightarrow> (H2StringLitErr \<times> 'c, nat \<times> H2UTF8State \<times> 'c) outcome" where
  "decodeHexEscape src endPos emit escapeStart i utf8 x =
     (if i + 2 \<ge> endPos - 1
      then Err (H2SetStringLitErr H2StringLitErr_INVALID_ESCAPE escapeStart endPos, x)
      else peek src (i + 1) (\<lambda>b1. peek src (i + 2) (\<lambda>b2.
        let hi = H2HexDigit b1; lo = H2HexDigit b2
        in if hi < 0 \<or> lo < 0
           then Err (H2SetStringLitErr H2StringLitErr_INVALID_ESCAPE escapeStart (u32 (i + 3)), x)
           else emitAt emit x utf8 (push_bit 4 (word_of_int hi) OR word_of_int lo) escapeStart (i + 3) (i + 3))))"

definition decodeRuneEscape ::
  "byte list \<Rightarrow> nat \<Rightarrow> 'c emitFn option \<Rightarrow> nat \<Rightarrow> nat \<Rightarrow> nat \<Rightarrow> H2UTF8State \<Rightarrow> 'c
   \<Rightarrow> (H2StringLitErr \<times> 'c, nat \<times> H2UTF8State \<times> 'c) outcome" where
  "decodeRuneEscape src endPos emit digits escapeStart i utf8 x =
     (if i + digits > UINT32_MAX then Stuck
      else if i + digits \<ge> endPos - 1
      then Err (H2SetStringLitErr H2StringLitErr_INVALID_ESCAPE escapeStart endPos, x)
      else obind (H2DecodeHex src (i + 1) digits 0) (\<lambda>r.
        case r of
          None \<Rightarrow> Err (H2SetStringLitErr H2StringLitErr_INVALID_ESCAPE escapeStart (i + 1 + digits), x)
        | Some rune \<Rightarrow>
            if rune > 0x10FFFF \<or> (rune \<ge> 0xD800 \<and> rune \<le> 0xDFFF)
            then Err (H2SetStringLitErr H2StringLitErr_INVALID_CODEPOINT escapeStart (i + 1 + digits), x)
            else obind (H2EmitRuneUTF8 emit x utf8 rune escapeStart (i + 1 + digits))
                   (\<lambda>(u, x'). Ok (i + 1 + digits, u, x'))))"

definition decodeOctalEscape ::
  "byte list \<Rightarrow> nat \<Rightarrow> 'c emitFn option \<Rightarrow> nat \<Rightarrow> nat \<Rightarrow> H2UTF8State \<Rightarrow> 'c \<Rightarrow> byte
   \<Rightarrow> (H2StringLitErr \<times> 'c, nat \<times> H2UTF8State \<times> 'c) outcome" where
  "decodeOctalEscape src endPos emit escapeStart i utf8 x c =
     (if \<not> H2OctalDigit c
      then Err (H2SetStringLitErr H2StringLitErr_INVALID_ESCAPE escapeStart (i + 1), x)
      else
        (let bad = Err (H2SetStringLitErr H2StringLitErr_INVALID_ESCAPE escapeStart (u32 (i + 3)), x)
         in if i + 2 \<ge> endPos - 1 then bad
            else peek src (i + 1) (\<lambda>b1.
              if \<not> H2OctalDigit b1 then bad
              else peek src (i + 2) (\<lambda>b2.
                if \<not> H2OctalDigit b2 then bad
                else emitAt emit x utf8
                       (push_bit 6 (c - 0x30) OR push_bit 3 (b1 - 0x30) OR (b2 - 0x30))
                       escapeStart (i + 3) (i + 3)))))"

definition decodeEscapeStep ::
  "byte list \<Rightarrow> nat \<Rightarrow> 'c emitFn option \<Rightarrow> nat \<Rightarrow> H2UTF8State \<Rightarrow> 'c
   \<Rightarrow> (H2StringLitErr \<times> 'c, nat \<times> H2UTF8State \<times> 'c) outcome" where
  "decodeEscapeStep src endPos emit escapeStart utf8 x =
     (let i = escapeStart + 1
      in if i \<ge> endPos - 1
         then Err (H2SetStringLitErr H2StringLitErr_INVALID_ESCAPE escapeStart i, x)
         else peek src i (\<lambda>c.
           if c = 0x0A then Ok (i + 1, utf8, x)
           else if c = 0x0D then
             peekIf (i + 1 < endPos - 1) src (i + 1) (\<lambda>b. b = 0x0A) (\<lambda>lf.
               Ok (if lf then i + 2 else i + 1, utf8, x))
           else
             (case simpleEscape c of
                Some b \<Rightarrow> emitAt emit x utf8 b escapeStart (i + 1) (i + 1)
              | None \<Rightarrow>
                  if c = ch CHR ''x'' then decodeHexEscape src endPos emit escapeStart i utf8 x
                  else if c = ch CHR ''u'' then decodeRuneEscape src endPos emit 4 escapeStart i utf8 x
                  else if c = ch CHR ''U'' then decodeRuneEscape src endPos emit 8 escapeStart i utf8 x
                  else decodeOctalEscape src endPos emit escapeStart i utf8 x c)))"

definition decodePlainStep ::
  "byte list \<Rightarrow> nat \<Rightarrow> 'c emitFn option \<Rightarrow> nat \<Rightarrow> H2UTF8State \<Rightarrow> 'c \<Rightarrow> byte
   \<Rightarrow> (H2StringLitErr \<times> 'c, nat \<times> H2UTF8State \<times> 'c) outcome" where
  "decodePlainStep src endPos emit i utf8 x c =
     (if c = 0x0D then
        peekIf (i + 1 < endPos - 1) src (i + 1) (\<lambda>b. b = 0x0A) (\<lambda>lf.
          let j = (if lf then i + 2 else i + 1) in emitAt emit x utf8 0x0A i j j)
      else emitAt emit x utf8 c i (i + 1) (i + 1))"

definition decodeStep ::
  "byte list \<Rightarrow> nat \<Rightarrow> byte \<Rightarrow> 'c emitFn option \<Rightarrow> nat \<Rightarrow> H2UTF8State \<Rightarrow> 'c
   \<Rightarrow> (H2StringLitErr \<times> 'c, nat \<times> H2UTF8State \<times> 'c) outcome" where
  "decodeStep src endPos delim emit i utf8 x =
     peek src i (\<lambda>c.
       if delim = ch CHR ''`'' then decodeRawStep src endPos emit i utf8 x c
       else if c = ch CHR 0x5C then decodeEscapeStep src endPos emit i utf8 x
       else decodePlainStep src endPos emit i utf8 x c)"

lemma peek_Ok:
  "peek src i k = Ok r \<longleftrightarrow> i < length src \<and> k (src ! i) = Ok r"
  by (simp add: peek_def)

lemma peekIf_Ok:
  "peekIf c src i P k = Ok r \<longleftrightarrow>
   (if c then i < length src \<and> k (P (src ! i)) = Ok r else k False = Ok r)"
  by (simp add: peekIf_def peek_def)

lemma obind_Ok: "obind m k = Ok r \<longleftrightarrow> (\<exists>x. m = Ok x \<and> k x = Ok r)"
  by (cases m) auto

lemma emitAt_Ok_pos: "emitAt emit x utf8 b s e i = Ok (i', r) \<Longrightarrow> i' = i"
  by (auto simp: emitAt_def obind_Ok)

text \<open>Every iteration moves forward, so the loop ends.\<close>

lemma decodeStep_progress:
  assumes "decodeStep src endPos delim emit i utf8 x = Ok (i', r)"
  shows "i < i'"
  using assms
  unfolding decodeStep_def decodeRawStep_def decodeEscapeStep_def decodePlainStep_def Let_def
    decodeHexEscape_def decodeRuneEscape_def decodeOctalEscape_def
  by (auto simp: peek_Ok peekIf_Ok obind_Ok dest!: emitAt_Ok_pos split: if_splits option.splits)

function decodeLoop ::
  "byte list \<Rightarrow> nat \<Rightarrow> byte \<Rightarrow> 'c emitFn option \<Rightarrow> nat \<Rightarrow> H2UTF8State \<Rightarrow> 'c
   \<Rightarrow> (H2StringLitErr \<times> 'c, H2UTF8State \<times> 'c) outcome" where
  "decodeLoop src endPos delim emit i utf8 x =
     (if i < endPos - 1
      then (case decodeStep src endPos delim emit i utf8 x of
              Ok (i', utf8', x') \<Rightarrow> decodeLoop src endPos delim emit i' utf8' x'
            | Err e \<Rightarrow> Err e
            | Stuck \<Rightarrow> Stuck)
      else Ok (utf8, x))"
  by pat_completeness auto
termination
  by (relation "measure (\<lambda>(src, endPos, delim, emit, i, utf8, x). endPos - i)")
    (auto dest!: decodeStep_progress)

declare decodeLoop.simps [simp del]

definition isDelim :: "byte \<Rightarrow> bool" where
  "isDelim c \<longleftrightarrow> c = ch CHR 0x22 \<or> c = ch CHR ''`'' \<or> c = ch CHR 0x27"

definition H2DecodeStringLiteralImpl ::
  "byte list \<Rightarrow> nat \<Rightarrow> nat \<Rightarrow> 'c emitFn option \<Rightarrow> 'c \<Rightarrow> (H2StringLitErr \<times> 'c, 'c) outcome" where
  "H2DecodeStringLiteralImpl src start endPos emit x =
     (let unterminated = Err (H2SetStringLitErr H2StringLitErr_UNTERMINATED start endPos, x)
      in if endPos \<le> u32 (start + 1) then unterminated
         else peek src start (\<lambda>delim.
           if \<not> isDelim delim then unterminated
           else peek src (endPos - 1) (\<lambda>last.
             if last \<noteq> delim then unterminated
             else obind (decodeLoop src endPos delim emit (u32 (start + 1)) utf8Init x) (\<lambda>(utf8, x').
               case H2UTF8Finish utf8 of
                 Some e \<Rightarrow> Err (e, x')
               | None \<Rightarrow> Ok x'))))"

subsection \<open>Byte sinks and entry points\<close>

record H2RuneCollector =
  rune :: "32 word"
  codepointCount :: nat
  currentRune :: "32 word"
  seqNeed :: nat
  seqHave :: nat

definition runeCollectorInit :: H2RuneCollector where
  "runeCollectorInit = \<lparr>rune = 0, codepointCount = 0, currentRune = 0, seqNeed = 0, seqHave = 0\<rparr>"

definition collectRune :: "H2RuneCollector \<Rightarrow> 32 word \<Rightarrow> H2RuneCollector" where
  "collectRune c r =
     c\<lparr>rune := (if codepointCount c = 0 then r else rune c),
       codepointCount := u32 (codepointCount c + 1)\<rparr>"

definition H2RuneCollectorEmit :: "H2RuneCollector emitFn" where
  "H2RuneCollectorEmit c b =
     (if seqNeed c = 0 then
        (if b \<le> 0x7F then Ok (collectRune c (ucast b))
         else if b \<ge> 0xC2 \<and> b \<le> 0xDF then
           Ok (c\<lparr>seqNeed := 2, seqHave := 1, currentRune := ucast (b AND 0x1F)\<rparr>)
         else if b \<ge> 0xE0 \<and> b \<le> 0xEF then
           Ok (c\<lparr>seqNeed := 3, seqHave := 1, currentRune := ucast (b AND 0x0F)\<rparr>)
         else if b \<ge> 0xF0 \<and> b \<le> 0xF4 then
           Ok (c\<lparr>seqNeed := 4, seqHave := 1, currentRune := ucast (b AND 0x07)\<rparr>)
         else Err c)
      else
        (let c' = c\<lparr>currentRune := push_bit 6 (currentRune c) OR ucast (b AND 0x3F),
                    seqHave := seqHave c + 1\<rparr>
         in if seqHave c' = seqNeed c'
            then Ok ((collectRune c' (currentRune c'))\<lparr>seqNeed := 0, seqHave := 0, currentRune := 0\<rparr>)
            else Ok c'))"

text \<open>
  The arena buffer: \<open>bufBytes\<close> are the \<open>len\<close> bytes at \<open>v\<close>. A write at or beyond the
  capacity would be out of bounds: the model is stuck there.
\<close>

record H2ArenaByteBuf =
  bufArena :: H2Arena
  bufV :: "nat option"
  bufBytes :: "byte list"
  bufCap :: nat

definition H2ArenaByteBufEnsure :: "H2ArenaByteBuf \<Rightarrow> nat \<Rightarrow> (H2ArenaByteBuf, H2ArenaByteBuf) outcome" where
  "H2ArenaByteBufEnsure b n =
     (if n \<le> bufCap b then Ok b
      else
        (let newCap = growCap (if bufCap b = 0 then 16 else bufCap b) n
         in case H2ArenaAlloc (bufArena b) newCap 1 of
              (None, ar) \<Rightarrow> Err (b\<lparr>bufArena := ar\<rparr>)
            | (Some p, ar) \<Rightarrow> Ok (b\<lparr>bufArena := ar, bufV := Some p, bufCap := newCap\<rparr>)))"

definition H2ArenaByteEmit :: "H2ArenaByteBuf emitFn" where
  "H2ArenaByteEmit buf b =
     (case H2ArenaByteBufEnsure buf (u32 (length (bufBytes buf) + 1)) of
        Ok buf' \<Rightarrow>
          (if length (bufBytes buf') < bufCap buf'
           then Ok (buf'\<lparr>bufBytes := bufBytes buf' @ [b]\<rparr>) else Stuck)
      | Err buf' \<Rightarrow> Err buf'
      | Stuck \<Rightarrow> Stuck)"

text \<open>The malloc buffer; \<open>realloc\<close> is a parameter that tells which calls succeed.\<close>

record H2MallocByteBuf =
  mallocBytes :: "byte list"
  mallocCap :: nat
  reallocCalls :: nat

definition H2MallocByteBufEnsure ::
  "(nat \<Rightarrow> nat \<Rightarrow> bool) \<Rightarrow> H2MallocByteBuf \<Rightarrow> nat \<Rightarrow> (H2MallocByteBuf, H2MallocByteBuf) outcome" where
  "H2MallocByteBufEnsure realloc b n =
     (if n \<le> mallocCap b then Ok b
      else
        (let newCap = growCap (if mallocCap b = 0 then 16 else mallocCap b) n;
             b' = b\<lparr>reallocCalls := Suc (reallocCalls b)\<rparr>
         in if realloc (reallocCalls b) newCap then Ok (b'\<lparr>mallocCap := newCap\<rparr>) else Err b'))"

definition H2MallocByteEmit :: "(nat \<Rightarrow> nat \<Rightarrow> bool) \<Rightarrow> H2MallocByteBuf emitFn" where
  "H2MallocByteEmit realloc buf b =
     (case H2MallocByteBufEnsure realloc buf (u32 (length (mallocBytes buf) + 1)) of
        Ok buf' \<Rightarrow>
          (if length (mallocBytes buf') < mallocCap buf'
           then Ok (buf'\<lparr>mallocBytes := mallocBytes buf' @ [b]\<rparr>) else Stuck)
      | Err buf' \<Rightarrow> Err buf'
      | Stuck \<Rightarrow> Stuck)"

fun H2StringLitErrDiagCode :: "H2StringLitErrKind \<Rightarrow> nat" where
  "H2StringLitErrDiagCode H2StringLitErr_NONE = 0"
| "H2StringLitErrDiagCode H2StringLitErr_UNTERMINATED = 2"
| "H2StringLitErrDiagCode H2StringLitErr_INVALID_ESCAPE = 9"
| "H2StringLitErrDiagCode H2StringLitErr_INVALID_CODEPOINT = 10"
| "H2StringLitErrDiagCode H2StringLitErr_INVALID_UTF8 = 11"
| "H2StringLitErrDiagCode H2StringLitErr_ARENA_OOM = 141"

fun H2RuneLitErrDiagCode :: "H2RuneLitErrKind \<Rightarrow> nat" where
  "H2RuneLitErrDiagCode H2RuneLitErr_NONE = 0"
| "H2RuneLitErrDiagCode H2RuneLitErr_UNTERMINATED = 13"
| "H2RuneLitErrDiagCode H2RuneLitErr_EMPTY = 14"
| "H2RuneLitErrDiagCode H2RuneLitErr_MULTIPLE_CODEPOINTS = 15"
| "H2RuneLitErrDiagCode H2RuneLitErr_INVALID_ESCAPE = 16"
| "H2RuneLitErrDiagCode H2RuneLitErr_INVALID_CODEPOINT = 17"
| "H2RuneLitErrDiagCode H2RuneLitErr_INVALID_UTF8 = 18"

definition H2DecodeStringLiteralValidate ::
  "byte list \<Rightarrow> nat \<Rightarrow> nat \<Rightarrow> (H2StringLitErr, unit) outcome" where
  "H2DecodeStringLiteralValidate src start endPos =
     (case H2DecodeStringLiteralImpl src start endPos None () of
        Ok _ \<Rightarrow> Ok () | Err (e, _) \<Rightarrow> Err e | Stuck \<Rightarrow> Stuck)"

fun runeErrOfStringErr :: "H2StringLitErrKind \<Rightarrow> H2RuneLitErrKind" where
  "runeErrOfStringErr H2StringLitErr_UNTERMINATED = H2RuneLitErr_UNTERMINATED"
| "runeErrOfStringErr H2StringLitErr_INVALID_ESCAPE = H2RuneLitErr_INVALID_ESCAPE"
| "runeErrOfStringErr H2StringLitErr_INVALID_CODEPOINT = H2RuneLitErr_INVALID_CODEPOINT"
| "runeErrOfStringErr H2StringLitErr_INVALID_UTF8 = H2RuneLitErr_INVALID_UTF8"
| "runeErrOfStringErr H2StringLitErr_NONE = H2RuneLitErr_INVALID_UTF8"
| "runeErrOfStringErr H2StringLitErr_ARENA_OOM = H2RuneLitErr_INVALID_UTF8"

definition H2DecodeRuneLiteralValidate ::
  "byte list \<Rightarrow> nat \<Rightarrow> nat \<Rightarrow> (H2RuneLitErr, 32 word) outcome" where
  "H2DecodeRuneLiteralValidate src start endPos =
     (case H2DecodeStringLiteralImpl src start endPos (Some H2RuneCollectorEmit) runeCollectorInit of
        Stuck \<Rightarrow> Stuck
      | Err (e, _) \<Rightarrow> Err \<lparr>rekind = runeErrOfStringErr (sekind e), restart = sestart e, reend = seend e\<rparr>
      | Ok c \<Rightarrow>
          (if codepointCount c = 0
           then Err \<lparr>rekind = H2RuneLitErr_EMPTY, restart = start, reend = endPos\<rparr>
           else if codepointCount c \<noteq> 1
           then Err \<lparr>rekind = H2RuneLitErr_MULTIPLE_CODEPOINTS, restart = start, reend = endPos\<rparr>
           else Ok (rune c)))"

text \<open>The arena is returned on the error path too: what was allocated stays allocated.\<close>

definition H2DecodeStringLiteralArena ::
  "H2Arena \<Rightarrow> byte list \<Rightarrow> nat \<Rightarrow> nat \<Rightarrow> (H2StringLitErr \<times> H2Arena, H2ArenaByteBuf) outcome" where
  "H2DecodeStringLiteralArena arena src start endPos =
     (case H2DecodeStringLiteralImpl src start endPos (Some H2ArenaByteEmit)
             \<lparr>bufArena = arena, bufV = None, bufBytes = [], bufCap = 0\<rparr> of
        Ok buf \<Rightarrow> Ok buf | Err (e, buf) \<Rightarrow> Err (e, bufArena buf) | Stuck \<Rightarrow> Stuck)"

definition H2DecodeStringLiteralMalloc ::
  "(nat \<Rightarrow> nat \<Rightarrow> bool) \<Rightarrow> byte list \<Rightarrow> nat \<Rightarrow> nat \<Rightarrow> (H2StringLitErr, byte list) outcome" where
  "H2DecodeStringLiteralMalloc realloc src start endPos =
     (case H2DecodeStringLiteralImpl src start endPos (Some (H2MallocByteEmit realloc))
             \<lparr>mallocBytes = [], mallocCap = 0, reallocCalls = 0\<rparr> of
        Ok buf \<Rightarrow> Ok (mallocBytes buf) | Err (e, _) \<Rightarrow> Err e | Stuck \<Rightarrow> Stuck)"

text \<open>
  Chains of string literals joined by \<open>+\<close>. The recursion follows child links; on an AST
  whose links form a cycle it would not return, so it is a partial function, \<open>None\<close> being
  no result.
\<close>

partial_function (option) H2IsStringLiteralConcatChainRec ::
  "H2AstNode list \<Rightarrow> int \<Rightarrow> bool option" where
  "H2IsStringLiteralConcatChainRec ast nodeId =
     (if nodeId < 0 \<or> nodeId \<ge> int (length ast) then Some False
      else
        (let n = ast ! nat nodeId
         in if nflags n AND H2AstFlag_PAREN \<noteq> 0 then Some False
            else if nkind n = H2Ast_STRING then Some True
            else if nkind n \<noteq> H2Ast_BINARY \<or> nop n \<noteq> H2Tok_ADD then Some False
            else
              (let lhs = firstChild n
               in if lhs < 0 then Some False
                  else if lhs \<ge> int (length ast) then None
                  else
                    (let rhs = nextSibling (ast ! nat lhs)
                     in if rhs < 0 then Some False
                        else if rhs \<ge> int (length ast) then None
                        else if nextSibling (ast ! nat rhs) \<ge> 0 then Some False
                        else Option.bind (H2IsStringLiteralConcatChainRec ast lhs)
                          (\<lambda>l. if l then H2IsStringLiteralConcatChainRec ast rhs else Some False)))))"

definition H2IsStringLiteralConcatChain :: "H2AstNode list \<Rightarrow> int \<Rightarrow> bool option" where
  "H2IsStringLiteralConcatChain ast nodeId = H2IsStringLiteralConcatChainRec ast nodeId"

end
