(* ===== verification/H2Utf8.thy ===== *)
theory H2Utf8
  imports H2StringLit
begin

text \<open>
  UTF-8, stated independently of the code: \<open>utf8Encode\<close> writes a scalar value with
  division and remainder, a byte list is valid when it is a concatenation of encodings.
  The lemmas relate the incremental checker \<open>H2UTF8Feed\<close>, the encoder \<open>H2RuneToUTF8\<close> and
  the rune collector of \<open>src/string_lit.c\<close> to it.
\<close>

definition scalarValue :: "nat \<Rightarrow> bool" where
  "scalarValue n \<longleftrightarrow> n \<le> 0x10FFFF \<and> \<not> (0xD800 \<le> n \<and> n \<le> 0xDFFF)"

definition utf8Encode :: "nat \<Rightarrow> byte list" where
  "utf8Encode n =
     (if n < 0x80 then [of_nat n]
      else if n < 0x800 then [of_nat (0xC0 + n div 64), of_nat (0x80 + n mod 64)]
      else if n < 0x10000 then
        [of_nat (0xE0 + n div 4096), of_nat (0x80 + n div 64 mod 64), of_nat (0x80 + n mod 64)]
      else
        [of_nat (0xF0 + n div 262144), of_nat (0x80 + n div 4096 mod 64),
         of_nat (0x80 + n div 64 mod 64), of_nat (0x80 + n mod 64)])"

definition utf8Valid :: "byte list \<Rightarrow> bool" where
  "utf8Valid bs \<longleftrightarrow> (\<exists>cps. (\<forall>n\<in>set cps. scalarValue n) \<and> bs = concat (map utf8Encode cps))"

lemma utf8Valid_Nil [simp]: "utf8Valid []"
  unfolding utf8Valid_def by (rule exI [of _ "[]"]) simp

lemma utf8Encode_nonempty [simp]: "utf8Encode n \<noteq> []"
  by (simp add: utf8Encode_def)

lemma utf8Valid_append: "utf8Valid xs \<Longrightarrow> utf8Valid ys \<Longrightarrow> utf8Valid (xs @ ys)"
  unfolding utf8Valid_def by (metis Un_iff concat_append map_append set_append)

lemma utf8Valid_encode: "scalarValue n \<Longrightarrow> utf8Valid (utf8Encode n)"
  unfolding utf8Valid_def by (rule exI [of _ "[n]"]) simp

lemma utf8Valid_unfold:
  "utf8Valid bs \<longleftrightarrow> bs = [] \<or> (\<exists>n r. scalarValue n \<and> bs = utf8Encode n @ r \<and> utf8Valid r)"
proof
  assume "utf8Valid bs"
  then obtain cps where c: "\<forall>n\<in>set cps. scalarValue n" "bs = concat (map utf8Encode cps)"
    unfolding utf8Valid_def by blast
  show "bs = [] \<or> (\<exists>n r. scalarValue n \<and> bs = utf8Encode n @ r \<and> utf8Valid r)"
  proof (cases cps)
    case Nil
    with c show ?thesis by simp
  next
    case (Cons n ns)
    with c have "scalarValue n" "bs = utf8Encode n @ concat (map utf8Encode ns)" "utf8Valid (concat (map utf8Encode ns))"
      unfolding utf8Valid_def by auto
    then show ?thesis by blast
  qed
next
  assume "bs = [] \<or> (\<exists>n r. scalarValue n \<and> bs = utf8Encode n @ r \<and> utf8Valid r)"
  then show "utf8Valid bs" using utf8Valid_append utf8Valid_encode by auto
qed

subsection \<open>Byte ranges as numbers\<close>

lemma byte_le_unat: "(a :: byte) \<le> b \<longleftrightarrow> unat a \<le> unat b"
  by (simp add: word_le_nat_alt)

lemma byte_eq_of_nat: "n < 256 \<Longrightarrow> (b :: byte) = of_nat n \<longleftrightarrow> unat b = n"
  by (simp add: word_unat_eq_iff unat_of_nat take_bit_nat_def)

lemma unat_byte_of_nat: "n < 256 \<Longrightarrow> unat (of_nat n :: byte) = n"
  by (simp add: unat_of_nat take_bit_nat_def)

text \<open>Splitting a number into base-64 digits, and putting them together.\<close>

lemma digits3: "(n::nat) = n div 4096 * 4096 + n div 64 mod 64 * 64 + n mod 64"
proof -
  have "n div 4096 = n div 64 div 64" by (simp add: div_mult2_eq)
  moreover have "n div 64 div 64 * 64 + n div 64 mod 64 = n div 64" by simp
  moreover have "n div 64 * 64 + n mod 64 = n" by simp
  ultimately show ?thesis by linarith
qed

lemma digits4: "(n::nat) = n div 262144 * 262144 + n div 4096 mod 64 * 4096 + n div 64 mod 64 * 64 + n mod 64"
proof -
  have "n div 262144 = n div 4096 div 64" by (simp add: div_mult2_eq)
  moreover have "n div 4096 div 64 * 64 + n div 4096 mod 64 = n div 4096" by simp
  ultimately show ?thesis using digits3 [of n] by linarith
qed

lemma undigits3:
  assumes "y < 64" "z < (64::nat)"
  shows "(x * 4096 + y * 64 + z) div 4096 = x" "(x * 4096 + y * 64 + z) div 64 mod 64 = y"
    "(x * 4096 + y * 64 + z) mod 64 = z"
proof -
  have n: "x * 4096 + y * 64 + z = z + 64 * (x * 64 + y)" by simp
  have "(x * 4096 + y * 64 + z) div 64 = x * 64 + y" "(x * 4096 + y * 64 + z) mod 64 = z"
    unfolding n using assms by (simp_all only: div_mult_self2 mod_mult_self2) simp_all
  moreover have "(x * 4096 + y * 64 + z) div 4096 = (x * 4096 + y * 64 + z) div 64 div 64"
    by (simp add: div_mult2_eq [symmetric])
  ultimately show "(x * 4096 + y * 64 + z) div 4096 = x" "(x * 4096 + y * 64 + z) div 64 mod 64 = y"
    "(x * 4096 + y * 64 + z) mod 64 = z"
    using assms by simp_all
qed

lemma undigits4:
  fixes x :: nat
  assumes "y < 64" "z < 64" "w < (64::nat)"
  defines "n \<equiv> x * 262144 + y * 4096 + z * 64 + w"
  shows "n div 262144 = x" "n div 4096 mod 64 = y" "n div 64 mod 64 = z" "n mod 64 = w"
proof -
  have n: "n = (x * 64 + y) * 4096 + z * 64 + w" by (simp add: n_def)
  note d = undigits3 [OF assms(2,3), of "x * 64 + y", folded n]
  have "n div 262144 = n div 4096 div 64" by (simp add: div_mult2_eq)
  with d assms show "n div 262144 = x" "n div 4096 mod 64 = y" "n div 64 mod 64 = z" "n mod 64 = w"
    by simp_all
qed

text \<open>The encodings of each length, as conditions on the bytes.\<close>

lemma encode2:
  "(\<exists>n. scalarValue n \<and> 0x80 \<le> n \<and> n < 0x800 \<and> utf8Encode n = [b, c]) \<longleftrightarrow>
   0xC2 \<le> unat b \<and> unat b \<le> 0xDF \<and> 0x80 \<le> unat c \<and> unat c \<le> 0xBF" (is "?L \<longleftrightarrow> ?R")
proof
  assume ?L
  then obtain n where n: "0x80 \<le> n" "n < 0x800" "[b, c] = utf8Encode n" by auto
  have "n div 64 < 32" "2 \<le> n div 64" "n mod 64 < 64" using n(1,2) by auto
  moreover from n have "b = of_nat (0xC0 + n div 64)" "c = of_nat (0x80 + n mod 64)"
    by (simp_all add: utf8Encode_def)
  moreover from calculation have "unat b = 0xC0 + n div 64" "unat c = 0x80 + n mod 64"
    by (simp_all only: unat_byte_of_nat)
  ultimately show ?R by linarith
next
  assume r: ?R
  define x y where "x = unat b - 0xC0" and "y = unat c - 0x80"
  have xy: "2 \<le> x" "x < 32" "y < 64" "b = of_nat (0xC0 + x)" "c = of_nat (0x80 + y)"
    using r by (auto simp: x_def y_def word_unat_eq_iff unat_byte_of_nat)
  show ?L
    by (rule exI [of _ "x * 64 + y"]) (use xy in \<open>auto simp: utf8Encode_def scalarValue_def\<close>)
qed

lemma encode3:
  "(\<exists>n. scalarValue n \<and> 0x800 \<le> n \<and> n < 0x10000 \<and> utf8Encode n = [b, c, d]) \<longleftrightarrow>
   0xE0 \<le> unat b \<and> unat b \<le> 0xEF \<and> 0x80 \<le> unat c \<and> unat c \<le> 0xBF \<and>
   (unat b = 0xE0 \<longrightarrow> 0xA0 \<le> unat c) \<and> (unat b = 0xED \<longrightarrow> unat c \<le> 0x9F) \<and>
   0x80 \<le> unat d \<and> unat d \<le> 0xBF" (is "?L \<longleftrightarrow> ?R")
proof
  assume ?L
  then obtain n where n: "scalarValue n" "0x800 \<le> n" "n < 0x10000" "[b, c, d] = utf8Encode n" by auto
  define x y z where "x = n div 4096" and "y = n div 64 mod 64" and "z = n mod 64"
  have e: "n = x * 4096 + y * 64 + z" "y < 64" "z < 64" unfolding x_def y_def z_def by (rule digits3, simp_all)
  from n have w: "b = of_nat (0xE0 + x)" "c = of_nat (0x80 + y)" "d = of_nat (0x80 + z)"
    by (simp_all add: utf8Encode_def x_def y_def z_def)
  have x: "x < 16" using e n(3) by linarith
  have u: "unat b = 0xE0 + x" "unat c = 0x80 + y" "unat d = 0x80 + z"
    unfolding w using e x by (intro unat_byte_of_nat; linarith)+
  have "x = 0 \<Longrightarrow> 32 \<le> y" using e n(2) by linarith
  moreover have "x = 13 \<Longrightarrow> y \<le> 31" using e n(1) unfolding scalarValue_def by linarith
  ultimately show ?R using x e(2,3) unfolding u by auto
next
  assume r: ?R
  define x y z where "x = unat b - 0xE0" and "y = unat c - 0x80" and "z = unat d - 0x80"
  have xy: "x < 16" "y < 64" "z < 64" "b = of_nat (0xE0 + x)" "c = of_nat (0x80 + y)" "d = of_nat (0x80 + z)"
    "x = 0 \<Longrightarrow> 32 \<le> y" "x = 13 \<Longrightarrow> y \<le> 31"
    using r by (auto simp: x_def y_def z_def word_unat_eq_iff unat_byte_of_nat)
  define n where "n = x * 4096 + y * 64 + z"
  have "n div 4096 = x" "n div 64 mod 64 = y" "n mod 64 = z" using undigits3 [OF xy(2,3)] unfolding n_def by simp_all
  moreover have "0x800 \<le> n" "n < 0x10000" "\<not> (0xD800 \<le> n \<and> n \<le> 0xDFFF)"
    using xy(1-3,7,8) unfolding n_def by (cases "x = 0"; cases "x = 13"; simp; linarith)+
  ultimately show ?L using xy(4-6)
    by (intro exI [of _ n]) (auto simp: utf8Encode_def scalarValue_def)
qed

lemma encode4:
  "(\<exists>n. scalarValue n \<and> 0x10000 \<le> n \<and> utf8Encode n = [b, c, d, e]) \<longleftrightarrow>
   0xF0 \<le> unat b \<and> unat b \<le> 0xF4 \<and> 0x80 \<le> unat c \<and> unat c \<le> 0xBF \<and>
   (unat b = 0xF0 \<longrightarrow> 0x90 \<le> unat c) \<and> (unat b = 0xF4 \<longrightarrow> unat c \<le> 0x8F) \<and>
   0x80 \<le> unat d \<and> unat d \<le> 0xBF \<and> 0x80 \<le> unat e \<and> unat e \<le> 0xBF" (is "?L \<longleftrightarrow> ?R")
proof
  assume ?L
  then obtain n where n: "scalarValue n" "0x10000 \<le> n" "[b, c, d, e] = utf8Encode n" by auto
  define x y z w where "x = n div 262144" and "y = n div 4096 mod 64" and "z = n div 64 mod 64" and "w = n mod 64"
  have m: "n = x * 262144 + y * 4096 + z * 64 + w" "y < 64" "z < 64" "w < 64"
    unfolding x_def y_def z_def w_def by (rule digits4, simp_all)
  from n have bs: "b = of_nat (0xF0 + x)" "c = of_nat (0x80 + y)" "d = of_nat (0x80 + z)" "e = of_nat (0x80 + w)"
    by (simp_all add: utf8Encode_def x_def y_def z_def w_def)
  have x: "x \<le> 4" using m n(1) unfolding scalarValue_def by linarith
  have u: "unat b = 0xF0 + x" "unat c = 0x80 + y" "unat d = 0x80 + z" "unat e = 0x80 + w"
    unfolding bs using m x by (intro unat_byte_of_nat; linarith)+
  have "x = 0 \<Longrightarrow> 16 \<le> y" using m n(2) by linarith
  moreover have "x = 4 \<Longrightarrow> y \<le> 15" using m n(1) unfolding scalarValue_def by linarith
  ultimately show ?R using x m(2-4) unfolding u by auto
next
  assume r: ?R
  define x y z w where "x = unat b - 0xF0" and "y = unat c - 0x80" and "z = unat d - 0x80" and "w = unat e - 0x80"
  have xy: "x \<le> 4" "y < 64" "z < 64" "w < 64" "b = of_nat (0xF0 + x)" "c = of_nat (0x80 + y)"
    "d = of_nat (0x80 + z)" "e = of_nat (0x80 + w)" "x = 0 \<Longrightarrow> 16 \<le> y" "x = 4 \<Longrightarrow> y \<le> 15"
    using r by (auto simp: x_def y_def z_def w_def word_unat_eq_iff unat_byte_of_nat)
  define n where "n = x * 262144 + y * 4096 + z * 64 + w"
  have "n div 262144 = x" "n div 4096 mod 64 = y" "n div 64 mod 64 = z" "n mod 64 = w"
    using undigits4 [OF xy(2-4)] unfolding n_def by simp_all
  moreover have "0x10000 \<le> n" "n \<le> 0x10FFFF"
    using xy(1-4,9,10) unfolding n_def by (cases "x = 0"; cases "x = 4"; simp; linarith)+
  ultimately show ?L using xy(5-8)
    by (intro exI [of _ n]) (auto simp: utf8Encode_def scalarValue_def)
qed
lemma encode1: "n < 0x80 \<Longrightarrow> utf8Encode n = [of_nat n] \<and> scalarValue n"
  by (simp add: utf8Encode_def scalarValue_def)

lemma utf8Encode_length:
  "n < 0x80 \<Longrightarrow> length (utf8Encode n) = 1"
  "0x80 \<le> n \<Longrightarrow> n < 0x800 \<Longrightarrow> length (utf8Encode n) = 2"
  "0x800 \<le> n \<Longrightarrow> n < 0x10000 \<Longrightarrow> length (utf8Encode n) = 3"
  "0x10000 \<le> n \<Longrightarrow> length (utf8Encode n) = 4"
  by (simp_all add: utf8Encode_def)

definition lead2 :: "byte \<Rightarrow> byte \<Rightarrow> bool" where
  "lead2 b c \<longleftrightarrow> 0xC2 \<le> unat b \<and> unat b \<le> 0xDF \<and> 0x80 \<le> unat c \<and> unat c \<le> 0xBF"

definition lead3 :: "byte \<Rightarrow> byte \<Rightarrow> byte \<Rightarrow> bool" where
  "lead3 b c d \<longleftrightarrow> 0xE0 \<le> unat b \<and> unat b \<le> 0xEF \<and> 0x80 \<le> unat c \<and> unat c \<le> 0xBF \<and>
   (unat b = 0xE0 \<longrightarrow> 0xA0 \<le> unat c) \<and> (unat b = 0xED \<longrightarrow> unat c \<le> 0x9F) \<and>
   0x80 \<le> unat d \<and> unat d \<le> 0xBF"

definition lead4 :: "byte \<Rightarrow> byte \<Rightarrow> byte \<Rightarrow> byte \<Rightarrow> bool" where
  "lead4 b c d e \<longleftrightarrow> 0xF0 \<le> unat b \<and> unat b \<le> 0xF4 \<and> 0x80 \<le> unat c \<and> unat c \<le> 0xBF \<and>
   (unat b = 0xF0 \<longrightarrow> 0x90 \<le> unat c) \<and> (unat b = 0xF4 \<longrightarrow> unat c \<le> 0x8F) \<and>
   0x80 \<le> unat d \<and> unat d \<le> 0xBF \<and> 0x80 \<le> unat e \<and> unat e \<le> 0xBF"

lemma length4: "length xs = 4 \<Longrightarrow> \<exists>a b c d. xs = [a, b, c, d]"
  by (auto simp: eval_nat_numeral length_Suc_conv)

text \<open>Validity, one encoded character at a time.\<close>

lemma utf8Valid_Cons:
  "utf8Valid (b # r) \<longleftrightarrow>
     (unat b < 0x80 \<and> utf8Valid r) \<or>
     (\<exists>c s. r = c # s \<and> lead2 b c \<and> utf8Valid s) \<or>
     (\<exists>c d s. r = c # d # s \<and> lead3 b c d \<and> utf8Valid s) \<or>
     (\<exists>c d e s. r = c # d # e # s \<and> lead4 b c d e \<and> utf8Valid s)" (is "?L \<longleftrightarrow> ?R")
proof
  assume ?L
  then obtain n s where n: "scalarValue n" "b # r = utf8Encode n @ s" "utf8Valid s"
    using utf8Valid_unfold [of "b # r"] by auto
  consider "n < 0x80" | "0x80 \<le> n" "n < 0x800" | "0x800 \<le> n" "n < 0x10000" | "0x10000 \<le> n"
    by linarith
  then show ?R
  proof cases
    case 1
    with n encode1 [OF 1] show ?thesis by (simp add: unat_byte_of_nat)
  next
    case 2
    then obtain b' c where e: "utf8Encode n = [b', c]"
      using utf8Encode_length(2) [of n] by (auto simp: numeral_2_eq_2 length_Suc_conv)
    then have "lead2 b' c" using encode2 [of b' c] n(1) 2 unfolding lead2_def by blast
    with n e show ?thesis by simp
  next
    case 3
    then obtain b' c d where e: "utf8Encode n = [b', c, d]"
      using utf8Encode_length(3) [of n] by (auto simp: numeral_3_eq_3 length_Suc_conv)
    then have "lead3 b' c d" using encode3 [of b' c d] n(1) 3 unfolding lead3_def by blast
    with n e show ?thesis by simp
  next
    case 4
    then obtain b' c d x where e: "utf8Encode n = [b', c, d, x]"
      using length4 [OF utf8Encode_length(4) [OF 4]] by blast
    then have "lead4 b' c d x" using encode4 [of b' c d x] n(1) 4 unfolding lead4_def by blast
    with n e show ?thesis by simp
  qed
next
  assume ?R
  moreover have "utf8Valid (b # r)" if "unat b < 0x80" "utf8Valid r"
    using that encode1 [of "unat b"] utf8Valid_append [OF utf8Valid_encode that(2), of "unat b"] by simp
  moreover have "utf8Valid (b # c # s)" if "lead2 b c" "utf8Valid s" for c s
  proof -
    from that(1) obtain n where "scalarValue n" "utf8Encode n = [b, c]"
      using encode2 [of b c] unfolding lead2_def by blast
    with utf8Valid_append [OF utf8Valid_encode that(2), of n] show ?thesis by simp
  qed
  moreover have "utf8Valid (b # c # d # s)" if "lead3 b c d" "utf8Valid s" for c d s
  proof -
    from that(1) obtain n where "scalarValue n" "utf8Encode n = [b, c, d]"
      using encode3 [of b c d] unfolding lead3_def by blast
    with utf8Valid_append [OF utf8Valid_encode that(2), of n] show ?thesis by simp
  qed
  moreover have "utf8Valid (b # c # d # x # s)" if "lead4 b c d x" "utf8Valid s" for c d x s
  proof -
    from that(1) obtain n where "scalarValue n" "utf8Encode n = [b, c, d, x]"
      using encode4 [of b c d x] unfolding lead4_def by blast
    with utf8Valid_append [OF utf8Valid_encode that(2), of n] show ?thesis by simp
  qed
  ultimately show ?L by blast
qed

subsection \<open>The incremental check\<close>

text \<open>The check over a list of bytes, as the decoder feeds them (spans left out).\<close>

fun utf8Run :: "H2UTF8State \<Rightarrow> byte list \<Rightarrow> H2UTF8State option" where
  "utf8Run st [] = Some st"
| "utf8Run st (b # bs) =
     (case H2UTF8Feed st b 0 0 of Inl _ \<Rightarrow> None | Inr st' \<Rightarrow> utf8Run st' bs)"

definition utf8Accepts :: "H2UTF8State \<Rightarrow> byte list \<Rightarrow> bool" where
  "utf8Accepts st bs \<longleftrightarrow> (case utf8Run st bs of None \<Rightarrow> False | Some st' \<Rightarrow> need st' = 0)"

lemma utf8Accepts_Nil [simp]: "utf8Accepts st [] \<longleftrightarrow> need st = 0"
  by (simp add: utf8Accepts_def)

lemma utf8Accepts_Cons:
  "utf8Accepts st (b # bs) \<longleftrightarrow> (\<exists>st'. H2UTF8Feed st b 0 0 = Inr st' \<and> utf8Accepts st' bs)"
  by (simp add: utf8Accepts_def split: sum.splits)

lemma feed_ascii: "need st = 0 \<Longrightarrow> unat b < 0x80 \<Longrightarrow> H2UTF8Feed st b s e = Inr st"
  by (simp add: H2UTF8Feed_def byte_le_unat)

lemma feed_lead:
  assumes "need st = 0"
  shows "0xC2 \<le> unat b \<Longrightarrow> unat b \<le> 0xDF \<Longrightarrow> H2UTF8Feed st b s e = Inr (utf8Lead b 2 s e)"
    "0xE0 \<le> unat b \<Longrightarrow> unat b \<le> 0xEF \<Longrightarrow> H2UTF8Feed st b s e = Inr (utf8Lead b 3 s e)"
    "0xF0 \<le> unat b \<Longrightarrow> unat b \<le> 0xF4 \<Longrightarrow> H2UTF8Feed st b s e = Inr (utf8Lead b 4 s e)"
  using assms by (simp_all add: H2UTF8Feed_def byte_le_unat)

lemma feed_bad_lead:
  "need st = 0 \<Longrightarrow> H2UTF8Feed st b s e = Inr st' \<Longrightarrow>
   unat b < 0x80 \<or> (0xC2 \<le> unat b \<and> unat b \<le> 0xDF) \<or> (0xE0 \<le> unat b \<and> unat b \<le> 0xEF) \<or>
   (0xF0 \<le> unat b \<and> unat b \<le> 0xF4)"
  by (auto simp: H2UTF8Feed_def byte_le_unat Let_def split: if_splits)

lemma second_byte_valid:
  "H2UTF8SecondByteValid b c \<longleftrightarrow>
     (0xC2 \<le> unat b \<and> unat b \<le> 0xF4 \<and> unat b \<noteq> 0xE0 \<and> unat b \<noteq> 0xED \<and> unat b \<noteq> 0xF0 \<and> unat b \<noteq> 0xF4
        \<and> 0x80 \<le> unat c \<and> unat c \<le> 0xBF) \<or>
     (unat b = 0xE0 \<and> 0xA0 \<le> unat c \<and> unat c \<le> 0xBF) \<or>
     (unat b = 0xED \<and> 0x80 \<le> unat c \<and> unat c \<le> 0x9F) \<or>
     (unat b = 0xF0 \<and> 0x90 \<le> unat c \<and> unat c \<le> 0xBF) \<or>
     (unat b = 0xF4 \<and> 0x80 \<le> unat c \<and> unat c \<le> 0x8F)"
proof -
  consider "unat b \<in> {0xE0, 0xED, 0xF0, 0xF4}" | "unat b \<notin> {0xE0, 0xED, 0xF0, 0xF4}" "unat b < 0xC2 \<or> 0xF4 < unat b"
    | "unat b \<notin> {0xE0, 0xED, 0xF0, 0xF4}" "0xC2 \<le> unat b" "unat b \<le> 0xF4" by linarith
  then show ?thesis
    unfolding H2UTF8SecondByteValid_def byte_le_unat word_unat_eq_iff
    by cases auto
qed
definition contByte :: "byte \<Rightarrow> bool" where
  "contByte b \<longleftrightarrow> 0x80 \<le> unat b \<and> unat b \<le> 0xBF"

lemma feed_second:
  "need st \<noteq> 0 \<Longrightarrow> haveCnt st = 1 \<Longrightarrow>
   H2UTF8Feed st b s e =
     (if H2UTF8SecondByteValid (firstByte st) b
      then Inr (if need st = 2 then st\<lparr>need := 0, haveCnt := 0\<rparr> else st\<lparr>haveCnt := 2\<rparr>)
      else Inl (H2SetStringLitErr H2StringLitErr_INVALID_UTF8 s e))"
  by (auto simp: H2UTF8Feed_def Let_def)

lemma feed_later:
  "need st \<noteq> 0 \<Longrightarrow> haveCnt st \<noteq> 1 \<Longrightarrow>
   H2UTF8Feed st b s e =
     (if contByte b
      then Inr (if need st = haveCnt st + 1 then st\<lparr>need := 0, haveCnt := 0\<rparr>
                else st\<lparr>haveCnt := haveCnt st + 1\<rparr>)
      else Inl (H2SetStringLitErr H2StringLitErr_INVALID_UTF8 s e))"
  by (auto simp: H2UTF8Feed_def Let_def contByte_def word_less_nat_alt byte_le_unat)

lemma accepts_lead:
  "utf8Accepts (utf8Lead b 2 s e) r \<longleftrightarrow>
     (\<exists>c t. r = c # t \<and> H2UTF8SecondByteValid b c \<and>
        utf8Accepts ((utf8Lead b 2 s e)\<lparr>need := 0, haveCnt := 0\<rparr>) t)"
  "utf8Accepts (utf8Lead b 3 s e) r \<longleftrightarrow>
     (\<exists>c d t. r = c # d # t \<and> H2UTF8SecondByteValid b c \<and> contByte d \<and>
        utf8Accepts ((utf8Lead b 3 s e)\<lparr>need := 0, haveCnt := 0\<rparr>) t)"
  "utf8Accepts (utf8Lead b 4 s e) r \<longleftrightarrow>
     (\<exists>c d x t. r = c # d # x # t \<and> H2UTF8SecondByteValid b c \<and> contByte d \<and> contByte x \<and>
        utf8Accepts ((utf8Lead b 4 s e)\<lparr>need := 0, haveCnt := 0\<rparr>) t)"
proof -
  have f: "firstByte (utf8Lead b n s e) = b" "need (utf8Lead b n s e) = n" "haveCnt (utf8Lead b n s e) = 1" for n
    by (simp_all add: utf8Lead_def)
  show "utf8Accepts (utf8Lead b 2 s e) r \<longleftrightarrow>
     (\<exists>c t. r = c # t \<and> H2UTF8SecondByteValid b c \<and>
        utf8Accepts ((utf8Lead b 2 s e)\<lparr>need := 0, haveCnt := 0\<rparr>) t)"
    by (cases r) (simp_all add: utf8Accepts_Cons feed_second f)
  have three: "utf8Accepts ((utf8Lead b 3 s e)\<lparr>haveCnt := 2\<rparr>) r \<longleftrightarrow>
     (\<exists>d t. r = d # t \<and> contByte d \<and> utf8Accepts ((utf8Lead b 3 s e)\<lparr>need := 0, haveCnt := 0\<rparr>) t)" for r
    by (cases r) (simp_all add: utf8Accepts_Cons feed_later f)
  show "utf8Accepts (utf8Lead b 3 s e) r \<longleftrightarrow>
     (\<exists>c d t. r = c # d # t \<and> H2UTF8SecondByteValid b c \<and> contByte d \<and>
        utf8Accepts ((utf8Lead b 3 s e)\<lparr>need := 0, haveCnt := 0\<rparr>) t)"
    by (cases r) (simp_all add: utf8Accepts_Cons feed_second f three)
  have four2: "utf8Accepts ((utf8Lead b 4 s e)\<lparr>haveCnt := 3\<rparr>) r \<longleftrightarrow>
     (\<exists>d t. r = d # t \<and> contByte d \<and> utf8Accepts ((utf8Lead b 4 s e)\<lparr>need := 0, haveCnt := 0\<rparr>) t)" for r
    by (cases r) (simp_all add: utf8Accepts_Cons feed_later f)
  have four: "utf8Accepts ((utf8Lead b 4 s e)\<lparr>haveCnt := 2\<rparr>) r \<longleftrightarrow>
     (\<exists>d x t. r = d # x # t \<and> contByte d \<and> contByte x \<and>
        utf8Accepts ((utf8Lead b 4 s e)\<lparr>need := 0, haveCnt := 0\<rparr>) t)" for r
    by (cases r) (simp_all add: utf8Accepts_Cons feed_later f four2)
  show "utf8Accepts (utf8Lead b 4 s e) r \<longleftrightarrow>
     (\<exists>c d x t. r = c # d # x # t \<and> H2UTF8SecondByteValid b c \<and> contByte d \<and> contByte x \<and>
        utf8Accepts ((utf8Lead b 4 s e)\<lparr>need := 0, haveCnt := 0\<rparr>) t)"
    by (cases r) (simp_all add: utf8Accepts_Cons feed_second f four)
qed

lemma lead_second:
  "lead2 b c \<longleftrightarrow> 0xC2 \<le> unat b \<and> unat b \<le> 0xDF \<and> H2UTF8SecondByteValid b c"
  "lead3 b c d \<longleftrightarrow> 0xE0 \<le> unat b \<and> unat b \<le> 0xEF \<and> H2UTF8SecondByteValid b c \<and> contByte d"
  "lead4 b c d x \<longleftrightarrow> 0xF0 \<le> unat b \<and> unat b \<le> 0xF4 \<and> H2UTF8SecondByteValid b c \<and> contByte d \<and> contByte x"
  unfolding lead2_def lead3_def lead4_def second_byte_valid contByte_def by auto

theorem utf8Accepts_valid: "need st = 0 \<Longrightarrow> utf8Accepts st bs \<longleftrightarrow> utf8Valid bs"
proof (induction bs arbitrary: st rule: length_induct)
  case (1 bs)
  show ?case
  proof (cases bs)
    case Nil
    with 1 show ?thesis by simp
  next
    case (Cons b r)
    have ih: "length t < length bs \<Longrightarrow> need st' = 0 \<Longrightarrow> utf8Accepts st' t = utf8Valid t" for st' t
      using 1 by blast
    have ih0: "length t < length bs \<Longrightarrow> utf8Accepts ((utf8Lead b n s e)\<lparr>need := 0, haveCnt := 0\<rparr>) t = utf8Valid t" for n s e t
      by (rule ih) simp_all
    consider "unat b < 0x80" | "0xC2 \<le> unat b" "unat b \<le> 0xDF" | "0xE0 \<le> unat b" "unat b \<le> 0xEF"
      | "0xF0 \<le> unat b" "unat b \<le> 0xF4"
      | "0x80 \<le> unat b \<and> unat b < 0xC2 \<or> 0xF4 < unat b" by linarith
    then show ?thesis
    proof cases
      case 1
      then show ?thesis unfolding Cons utf8Accepts_Cons utf8Valid_Cons
        using feed_ascii [OF \<open>need st = 0\<close> 1] ih [of r st] Cons \<open>need st = 0\<close>
        by (simp add: lead2_def lead3_def lead4_def)
    next
      case 2
      then have "utf8Accepts st bs \<longleftrightarrow> utf8Accepts (utf8Lead b 2 0 0) r"
        unfolding Cons utf8Accepts_Cons using feed_lead(1) [OF \<open>need st = 0\<close>] by simp
      also have "\<dots> \<longleftrightarrow> utf8Valid bs"
        unfolding accepts_lead Cons utf8Valid_Cons using 2 ih0 Cons
        by (auto simp: lead_second)
      finally show ?thesis .
    next
      case 3
      then have "utf8Accepts st bs \<longleftrightarrow> utf8Accepts (utf8Lead b 3 0 0) r"
        unfolding Cons utf8Accepts_Cons using feed_lead(2) [OF \<open>need st = 0\<close>] by simp
      also have "\<dots> \<longleftrightarrow> utf8Valid bs"
        unfolding accepts_lead Cons utf8Valid_Cons using 3 ih0 Cons
        by (auto simp: lead_second)
      finally show ?thesis .
    next
      case 4
      then have "utf8Accepts st bs \<longleftrightarrow> utf8Accepts (utf8Lead b 4 0 0) r"
        unfolding Cons utf8Accepts_Cons using feed_lead(3) [OF \<open>need st = 0\<close>] by simp
      also have "\<dots> \<longleftrightarrow> utf8Valid bs"
        unfolding accepts_lead Cons utf8Valid_Cons using 4 ih0 Cons
        by (auto simp: lead_second)
      finally show ?thesis .
    next
      case 5
      then have "\<not> utf8Accepts st bs" unfolding Cons utf8Accepts_Cons
        using feed_bad_lead [OF \<open>need st = 0\<close>, of b 0 0] by fastforce
      moreover have "\<not> utf8Valid bs" unfolding Cons utf8Valid_Cons
        using 5 by (auto simp: lead2_def lead3_def lead4_def)
      ultimately show ?thesis by simp
    qed
  qed
qed

subsection \<open>The encoder\<close>

lemma unat_and_mask: "unat ((r :: 32 word) AND mask k) = unat r mod 2 ^ k"
  by (simp only: take_bit_eq_mask [symmetric] unsigned_take_bit_eq)
    (simp add: take_bit_eq_mod)

lemma mask_unat:
  "unat ((r :: 32 word) AND 0x3F) = unat r mod 64" "unat (r AND 0x1F) = unat r mod 32"
  "unat (r AND 0x0F) = unat r mod 16" "unat (r AND 0x07) = unat r mod 8"
proof -
  have m: "(0x3F :: 32 word) = mask 6" "(0x1F :: 32 word) = mask 5" "(0x0F :: 32 word) = mask 4"
    "(0x07 :: 32 word) = mask 3"
    by (simp_all add: mask_eq_exp_minus_1)
  show "unat (r AND 0x3F) = unat r mod 64" "unat (r AND 0x1F) = unat r mod 32"
    "unat (r AND 0x0F) = unat r mod 16" "unat (r AND 0x07) = unat r mod 8"
    unfolding m unat_and_mask by simp_all
qed

lemma or_masked:
  assumes "c AND m = 0"
  shows "(c :: 32 word) OR (r AND m) = c + (r AND m)"
proof -
  have "c AND (r AND m) = r AND (c AND m)" by (simp only: and.left_commute)
  also have "\<dots> = 0" using assms by simp
  finally show ?thesis using word_plus_and_or [of c "r AND m"] by simp
qed

lemma ucast_byte: "ucast (w :: 32 word) = (of_nat (unat w) :: byte)"
  by (simp add: word_unat_eq_iff unat_of_nat unsigned_ucast_eq)

lemma ucast_or_masked:
  assumes "c AND m = 0" "c \<le> 0xFF" "m \<le> 0xFF"
  shows "ucast ((c :: 32 word) OR (r AND m)) = (of_nat (unat c + unat (r AND m)) :: byte)"
proof -
  have "unat (r AND m) \<le> unat m" by (metis word_and_le1 word_le_nat_alt)
  then have "unat (r AND m) \<le> 0xFF" "unat c \<le> 0xFF"
    using assms(2,3) by (simp_all add: word_le_nat_alt)
  then have "unat c + unat (r AND m) < 2 ^ LENGTH(32)" by simp
  then have "unat (c + (r AND m)) = unat c + unat (r AND m)"
    using unat_add_lem by blast
  then show ?thesis
    unfolding or_masked [OF assms(1)] ucast_byte by simp
qed

lemma unat_drop_bit: "unat (drop_bit k (r :: 32 word)) = unat r div 2 ^ k"
proof -
  have "take_bit LENGTH(32) (unat r) = unat r"
    using unsigned_less [where ?'a = nat, of r] by (simp only: take_bit_nat_eq_self)
  then show ?thesis by (simp only: unsigned_drop_bit_eq) (simp only: drop_bit_eq_div)
qed

text \<open>The encoder writes exactly the standard encoding, for every value up to \<open>0x10FFFF\<close>
(it does not itself exclude surrogates: its callers do).\<close>

lemma rune_to_utf8:
  assumes "unat r \<le> 0x10FFFF"
  shows "H2RuneToUTF8 r = Some (utf8Encode (unat r))"
proof -
  have le: "(r \<le> 0x7F) = (unat r < 0x80)" "(r \<le> 0x7FF) = (unat r < 0x800)" "(r \<le> 0xFFFF) = (unat r < 0x10000)"
    "(r \<le> 0x10FFFF) = (unat r \<le> 0x10FFFF)"
    by (auto simp: word_le_nat_alt)
  have z: "(0xC0 :: 32 word) AND 0x1F = 0" "(0x80 :: 32 word) AND 0x3F = 0" "(0xE0 :: 32 word) AND 0x0F = 0"
    "(0xF0 :: 32 word) AND 0x07 = 0" by simp_all
  have c2: "ucast (0xC0 OR (q AND 0x1F)) = (of_nat (0xC0 + unat q mod 32) :: byte)" for q :: "32 word"
    using ucast_or_masked [OF z(1), of q] by (simp add: mask_unat del: of_nat_add)
  have c1: "ucast (0x80 OR (q AND 0x3F)) = (of_nat (0x80 + unat q mod 64) :: byte)" for q :: "32 word"
    using ucast_or_masked [OF z(2), of q] by (simp add: mask_unat del: of_nat_add)
  have c3: "ucast (0xE0 OR (q AND 0x0F)) = (of_nat (0xE0 + unat q mod 16) :: byte)" for q :: "32 word"
    using ucast_or_masked [OF z(3), of q] by (simp add: mask_unat del: of_nat_add)
  have c4: "ucast (0xF0 OR (q AND 0x07)) = (of_nat (0xF0 + unat q mod 8) :: byte)" for q :: "32 word"
    using ucast_or_masked [OF z(4), of q] by (simp add: mask_unat del: of_nat_add)
  note c = c1 c2 c3 c4
  consider "unat r < 0x80" | "\<not> unat r < 0x80" "unat r < 0x800" | "\<not> unat r < 0x800" "unat r < 0x10000"
    | "\<not> unat r < 0x10000" by linarith
  then show ?thesis
  proof cases
    case 1
    then show ?thesis unfolding H2RuneToUTF8_def utf8Encode_def le by simp
  next
    case 2
    then have "unat r div 64 < 32" by (intro less_mult_imp_div_less) simp
    then have "unat r div 64 mod 32 = unat r div 64" by (rule mod_less)
    with 2 show ?thesis unfolding H2RuneToUTF8_def utf8Encode_def le c unat_drop_bit by simp
  next
    case 3
    then have "unat r div 4096 < 16" by (intro less_mult_imp_div_less) simp
    then have "unat r div 4096 mod 16 = unat r div 4096" by (rule mod_less)
    with 3 show ?thesis unfolding H2RuneToUTF8_def utf8Encode_def le c unat_drop_bit by simp
  next
    case 4
    have "unat r div 262144 < 8" using assms by (intro less_mult_imp_div_less) simp
    then have "unat r div 262144 mod 8 = unat r div 262144" by (rule mod_less)
    with 4 assms show ?thesis unfolding H2RuneToUTF8_def utf8Encode_def le c unat_drop_bit by simp
  qed
qed

lemma rune_to_utf8_none: "H2RuneToUTF8 r = None \<longleftrightarrow> unat r > 0x10FFFF"
  unfolding H2RuneToUTF8_def word_le_nat_alt by auto

end
