(* ===== verification/H2StringLitSpec.thy ===== *)
theory H2StringLitSpec
  imports H2Utf8
begin

text \<open>
  What the decoder of \<open>src/string_lit.c\<close> computes. \<open>litText\<close> is the reference meaning of
  the text between the delimiters: a recursion on lists, with no positions, no buffer and
  no incremental check. The decoder accepts a literal exactly when its text has a meaning
  that is valid UTF-8, and then delivers those bytes; it never reads outside the source.
  \<open>byte_sink\<close> is the interface of a byte sink; the rune collector, the arena buffer and the
  malloc buffer implement it, which gives the entry points.
\<close>

subsection \<open>Reference meaning of a literal\<close>

fun dropLF :: "byte list \<Rightarrow> byte list" where
  "dropLF [] = []"
| "dropLF (c # r) = (if c = 0x0A then r else c # r)"

text \<open>
  The digits and escape characters of the language, written out as tables: digit \<open>k\<close> of a
  base is the \<open>k\<close>-th character of its text, upper and lower case hexadecimal digits being
  equal.
\<close>

definition hexValue :: "byte \<Rightarrow> nat option" where
  "hexValue = map_of (zip (cstr ''0123456789abcdef'') [0..<16] @ zip (cstr ''ABCDEF'') [10..<16])"

definition octalValue :: "byte \<Rightarrow> nat option" where
  "octalValue = map_of (zip (cstr ''01234567'') [0..<8])"

definition escapeTable :: "byte \<Rightarrow> byte option" where
  "escapeTable =
     map_of [(ch CHR ''a'', 7), (ch CHR ''b'', 8), (ch CHR ''t'', 9), (ch CHR ''n'', 10), (ch CHR ''v'', 11),
       (ch CHR ''f'', 12), (ch CHR ''r'', 13), (0x22, 0x22), (0x27, 0x27), (0x5C, 0x5C)]"

definition hexNat :: "byte list \<Rightarrow> nat option" where
  "hexNat ds =
     (if \<forall>d\<in>set ds. hexValue d \<noteq> None
      then Some (foldl (\<lambda>v d. v * 16 + the (hexValue d)) 0 ds) else None)"

definition runeText :: "nat \<Rightarrow> byte list \<Rightarrow> (byte list \<times> byte list) option" where
  "runeText n r =
     (if length r < n then None
      else case hexNat (take n r) of
             None \<Rightarrow> None
           | Some v \<Rightarrow> if scalarValue v then Some (utf8Encode v, drop n r) else None)"

definition hexText :: "byte list \<Rightarrow> (byte list \<times> byte list) option" where
  "hexText r =
     (if length r < 2 then None
      else map_option (\<lambda>v. ([of_nat v], drop 2 r)) (hexNat (take 2 r)))"

definition octalText :: "byte \<Rightarrow> byte list \<Rightarrow> (byte list \<times> byte list) option" where
  "octalText c r =
     (if 2 \<le> length r \<and> (\<forall>d\<in>set [c, r ! 0, r ! 1]. octalValue d \<noteq> None)
      then Some ([of_nat (the (octalValue c) * 64 + the (octalValue (r ! 0)) * 8 + the (octalValue (r ! 1)))], drop 2 r)
      else None)"

definition escapeText :: "byte list \<Rightarrow> (byte list \<times> byte list) option" where
  "escapeText s =
     (case s of
        [] \<Rightarrow> None
      | c # r \<Rightarrow>
          (if c = 0x0A then Some ([], r)
           else if c = 0x0D then Some ([], dropLF r)
           else case escapeTable c of
                  Some b \<Rightarrow> Some ([b], r)
                | None \<Rightarrow>
                    if c = ch CHR ''x'' then hexText r
                    else if c = ch CHR ''u'' then runeText 4 r
                    else if c = ch CHR ''U'' then runeText 8 r
                    else octalText c r))"

definition textStep :: "bool \<Rightarrow> byte list \<Rightarrow> (byte list \<times> byte list) option" where
  "textStep raw s =
     (case s of
        [] \<Rightarrow> None
      | c # r \<Rightarrow>
          (if c = 0x0D then Some ([0x0A], dropLF r)
           else if c = ch CHR 0x5C then
             (if raw then (if r \<noteq> [] \<and> hd r = ch CHR ''`'' then Some ([ch CHR ''`''], tl r)
                           else Some ([c], r))
              else escapeText r)
           else Some ([c], r)))"

subsection \<open>The tables and the code's tests\<close>

lemma unat_ch: "unat (ch c) = of_char c"
proof -
  have "ch c = of_nat (of_char c)" unfolding ch_def by (rule of_nat_of_char [symmetric])
  then show ?thesis by (simp only: unat_of_nat) simp
qed

lemma octalValue_code: "octalValue c = (if H2OctalDigit c then Some (unat c - 48) else None)"
proof -
  have t: "octalValue c = (if unat c = 48 then Some 0 else if unat c = 49 then Some 1 else if unat c = 50 then Some 2
     else if unat c = 51 then Some 3 else if unat c = 52 then Some 4 else if unat c = 53 then Some 5
     else if unat c = 54 then Some 6 else if unat c = 55 then Some 7 else None)"
    by (simp add: octalValue_def cstr_def upt_rec word_unat_eq_iff unat_ch)
  have "H2OctalDigit c \<longleftrightarrow> 48 \<le> unat c \<and> unat c \<le> 55"
    by (simp add: H2OctalDigit_def word_le_nat_alt unat_ch)
  with t show ?thesis by simp
qed

lemma hexValue_ranges:
  "hexValue c = (if 48 \<le> unat c \<and> unat c \<le> 57 then Some (unat c - 48)
    else if 97 \<le> unat c \<and> unat c \<le> 102 then Some (unat c - 87)
    else if 65 \<le> unat c \<and> unat c \<le> 70 then Some (unat c - 55) else None)"
proof -
  have t: "hexValue c = (if unat c = 48 then Some 0 else if unat c = 49 then Some 1 else if unat c = 50 then Some 2
     else if unat c = 51 then Some 3 else if unat c = 52 then Some 4 else if unat c = 53 then Some 5
     else if unat c = 54 then Some 6 else if unat c = 55 then Some 7 else if unat c = 56 then Some 8
     else if unat c = 57 then Some 9 else if unat c = 97 then Some 10 else if unat c = 98 then Some 11
     else if unat c = 99 then Some 12 else if unat c = 100 then Some 13 else if unat c = 101 then Some 14
     else if unat c = 102 then Some 15 else if unat c = 65 then Some 10 else if unat c = 66 then Some 11
     else if unat c = 67 then Some 12 else if unat c = 68 then Some 13 else if unat c = 69 then Some 14
     else if unat c = 70 then Some 15 else None)"
    by (simp add: hexValue_def cstr_def upt_rec word_unat_eq_iff unat_ch)
  consider "48 \<le> unat c \<and> unat c \<le> 57" | "97 \<le> unat c \<and> unat c \<le> 102" | "65 \<le> unat c \<and> unat c \<le> 70"
    | "\<not> (48 \<le> unat c \<and> unat c \<le> 57)" "\<not> (97 \<le> unat c \<and> unat c \<le> 102)" "\<not> (65 \<le> unat c \<and> unat c \<le> 70)" by blast
  then show ?thesis
  proof cases
    case 1
    then have "unat c \<in> set [48..<58]" unfolding set_upt atLeastLessThan_iff by linarith
    with t show ?thesis by (simp add: upt_rec) (elim disjE; simp)
  next
    case 2
    then have "unat c \<in> set [97..<103]" unfolding set_upt atLeastLessThan_iff by linarith
    with t show ?thesis by (simp add: upt_rec) (elim disjE; simp)
  next
    case 3
    then have "unat c \<in> set [65..<71]" unfolding set_upt atLeastLessThan_iff by linarith
    with t show ?thesis by (simp add: upt_rec) (elim disjE; simp)
  next
    case 4
    have "hexValue c = None" using 4 unfolding t by (auto split del: if_split)
    with 4 show ?thesis by (simp only: if_False)
  qed
qed

lemma hexDigit_ranges:
  "H2HexDigit c = (if 48 \<le> unat c \<and> unat c \<le> 57 then int (unat c) - 48
    else if 97 \<le> unat c \<and> unat c \<le> 102 then int (unat c) - 87
    else if 65 \<le> unat c \<and> unat c \<le> 70 then int (unat c) - 55 else - 1)"
proof -
  have "uint (ch x) = int (of_char x)" for x by (simp add: uint_nat unat_ch)
  then show ?thesis
    unfolding H2HexDigit_def by (simp only: word_le_nat_alt unat_ch uint_nat) simp
qed

lemma hexValue_code: "hexValue c = (if H2HexDigit c \<ge> 0 then Some (nat (H2HexDigit c)) else None)"
proof -
  define n where "n = unat c"
  note r = hexValue_ranges [of c, folded n_def] hexDigit_ranges [of c, folded n_def]
  consider "48 \<le> n \<and> n \<le> 57" | "97 \<le> n \<and> n \<le> 102" | "65 \<le> n \<and> n \<le> 70"
    | "\<not> (48 \<le> n \<and> n \<le> 57)" "\<not> (97 \<le> n \<and> n \<le> 102)" "\<not> (65 \<le> n \<and> n \<le> 70)" by blast
  then show ?thesis by cases (simp_all only: r if_True if_False, simp_all add: nat_diff_distrib)
qed

lemma escapeTable_code: "escapeTable c = simpleEscape c"
  by (simp add: escapeTable_def simpleEscape_def ch_def)

lemma hexNat_code:
  "hexNat ds =
     (if \<forall>d\<in>set ds. H2HexDigit d \<ge> 0
      then Some (foldl (\<lambda>v d. v * 16 + nat (H2HexDigit d)) 0 ds) else None)"
proof (cases "\<forall>d\<in>set ds. H2HexDigit d \<ge> 0")
  case True
  then have "foldl (\<lambda>v d. v * 16 + the (hexValue d)) 0 ds = foldl (\<lambda>v d. v * 16 + nat (H2HexDigit d)) 0 ds"
    by (intro foldl_cong) (simp_all add: hexValue_code)
  with True show ?thesis by (simp add: hexNat_def hexValue_code)
next
  case False
  then show ?thesis by (auto simp: hexNat_def hexValue_code)
qed

lemma octalText_code:
  "octalText c r =
     (if 2 \<le> length r \<and> (\<forall>d\<in>{c, r ! 0, r ! 1}. H2OctalDigit d)
      then Some ([of_nat ((unat c - 48) * 64 + (unat (r ! 0) - 48) * 8 + (unat (r ! 1) - 48))], drop 2 r)
      else None)"
  by (simp add: octalText_def octalValue_code del: of_nat_add of_nat_mult)

lemmas escapeText_code = escapeText_def [unfolded escapeTable_code]

lemma length_dropLF [simp]: "length (dropLF r) \<le> length r"
  by (cases r) auto

lemma utf8Encode_le4: "length (utf8Encode n) \<le> 4"
  by (simp add: utf8Encode_def)

lemma escapeText_length:
  "escapeText s = Some (bs, t) \<Longrightarrow> length t < length s \<and> length bs + length t \<le> length s"
proof -
  have "length (utf8Encode v) + (length r - n) \<le> Suc (length r)" if "4 \<le> n" "n \<le> length r" for v n and r :: "byte list"
    using utf8Encode_le4 [of v] that by linarith
  moreover have "length (dropLF r) \<le> Suc (length r)" for r by (meson le_Suc_eq length_dropLF)
  ultimately show "escapeText s = Some (bs, t) \<Longrightarrow> length t < length s \<and> length bs + length t \<le> length s"
    by (auto simp: escapeText_code runeText_def hexText_def octalText_code less_Suc_eq_le split: list.splits if_splits option.splits)
qed

lemma textStep_length:
  assumes "textStep raw s = Some (bs, t)"
  shows "length t < length s \<and> length bs + length t \<le> length s"
proof (cases s)
  case Nil
  with assms show ?thesis by (simp add: textStep_def)
next
  case (Cons c r)
  have "length (dropLF r) \<le> length r" by simp
  with assms Cons escapeText_length [of r bs t] show ?thesis
    by (auto simp: textStep_def less_Suc_eq_le split: if_splits)
qed

function litText :: "bool \<Rightarrow> byte list \<Rightarrow> byte list option" where
  "litText raw s =
     (if s = [] then Some []
      else case textStep raw s of
             None \<Rightarrow> None
           | Some (bs, t) \<Rightarrow> map_option ((@) bs) (litText raw t))"
  by pat_completeness auto
termination
  by (relation "measure (\<lambda>(raw, s). length s)") (auto dest: textStep_length)

declare litText.simps [simp del]

subsection \<open>One iteration\<close>

text \<open>The text from position \<open>i\<close> up to the closing delimiter at \<open>e\<close>.\<close>

definition textAt :: "byte list \<Rightarrow> nat \<Rightarrow> nat \<Rightarrow> byte list" where
  "textAt src e i = take (e - i) (drop i src)"

lemma textAt_Nil [simp]: "e \<le> i \<Longrightarrow> textAt src e i = []"
  by (simp add: textAt_def)

lemma textAt_Cons: "i < e \<Longrightarrow> e \<le> length src \<Longrightarrow> textAt src e i = src ! i # textAt src e (i + 1)"
  by (simp add: textAt_def Cons_nth_drop_Suc [symmetric] Suc_diff_Suc take_Cons' )

lemma length_textAt [simp]: "e \<le> length src \<Longrightarrow> length (textAt src e i) = e - i"
  by (simp add: textAt_def)

lemma drop_textAt: "drop n (textAt src e i) = textAt src e (i + n)"
  by (simp add: textAt_def drop_take add.commute)

lemma nth_textAt: "i + k < e \<Longrightarrow> e \<le> length src \<Longrightarrow> textAt src e i ! k = src ! (i + k)"
  by (simp add: textAt_def)

lemma take_textAt: "i + n \<le> e \<Longrightarrow> take n (textAt src e i) = take n (drop i src)"
  by (simp add: textAt_def min_def)

lemma dropLF_textAt:
  "e \<le> length src \<Longrightarrow>
   dropLF (textAt src e i) = textAt src e (if i < e \<and> src ! i = 0x0A then i + 1 else i)"
  by (cases "i < e") (auto simp: textAt_Cons)
subsection \<open>Digits\<close>

lemma hexDigit_range: "H2HexDigit c < 16" "-1 \<le> H2HexDigit c"
  by (auto simp: H2HexDigit_def ch_def word_le_def)

lemma push_or_digit:
  assumes "0 \<le> d" "d < 16"
  shows "push_bit 4 (v :: 'a::len word) OR word_of_int d = 16 * v + word_of_int d"
proof -
  have "take_bit 4 d = d" using assms by (simp add: take_bit_int_eq_self)
  then have d: "(word_of_int d :: 'a word) = take_bit 4 (word_of_int d)"
    by (simp add: take_bit_of_int)
  have "push_bit 4 v AND take_bit 4 (word_of_int d) = 0"
    by (rule bit_word_eqI) (auto simp: bit_simps)
  then have "push_bit 4 v + word_of_int d = push_bit 4 v OR word_of_int d"
    using word_plus_and_or [of "push_bit 4 v" "word_of_int d"] d by simp
  then show ?thesis by (simp add: push_bit_eq_mult mult.commute)
qed

text \<open>The accumulator of the decoder is the reference value modulo \<open>2 ^ 32\<close>.\<close>

lemma decodeHex_value:
  "p + n \<le> length src \<Longrightarrow>
   H2DecodeHex src p n (of_nat v) =
     Ok (if \<forall>d\<in>set (take n (drop p src)). H2HexDigit d \<ge> 0
         then Some (of_nat (foldl (\<lambda>v d. v * 16 + nat (H2HexDigit d)) v (take n (drop p src))))
         else None)"
proof (induction n arbitrary: p v)
  case 0
  then show ?case by simp
next
  case (Suc n)
  then have p: "p < length src" by simp
  then have t: "take (Suc n) (drop p src) = src ! p # take n (drop (Suc p) src)"
    by (simp add: Cons_nth_drop_Suc [symmetric])
  show ?case
  proof (cases "H2HexDigit (src ! p) < 0")
    case True
    with p t show ?thesis by simp
  next
    case False
    have "push_bit 4 (of_nat v :: 32 word) OR word_of_int (H2HexDigit (src ! p))
        = of_nat (v * 16 + nat (H2HexDigit (src ! p)))"
      using push_or_digit [of "H2HexDigit (src ! p)" "of_nat v"] False hexDigit_range [of "src ! p"]
      by (simp add: mult.commute)
    moreover note Suc.IH [of "p + 1" "v * 16 + nat (H2HexDigit (src ! p))"]
    ultimately show ?thesis using Suc.prems p t False by (simp del: of_nat_add of_nat_mult)
  qed
qed

lemma hexNat_less: "hexNat ds = Some v \<Longrightarrow> v < 16 ^ length ds"
proof -
  have "foldl (\<lambda>v d. v * 16 + nat (H2HexDigit d)) a ds < (a + 1) * 16 ^ length ds" for a
  proof (induction ds arbitrary: a)
    case Nil
    then show ?case by simp
  next
    case (Cons d ds)
    have "nat (H2HexDigit d) < 16" using hexDigit_range [of d] by linarith
    then have "a * 16 + nat (H2HexDigit d) + 1 \<le> (a + 1) * 16" by simp
    then have "(a * 16 + nat (H2HexDigit d) + 1) * 16 ^ length ds \<le> (a + 1) * 16 * 16 ^ length ds"
      by (rule mult_le_mono1)
    also have "\<dots> = (a + 1) * 16 ^ length (d # ds)" by (simp add: algebra_simps)
    finally show ?case using Cons [of "a * 16 + nat (H2HexDigit d)"] by simp
  qed
  from this [of 0] show "hexNat ds = Some v \<Longrightarrow> v < 16 ^ length ds"
    by (auto simp: hexNat_code split: if_splits)
qed

lemma decodeHex_hexNat:
  "p + n \<le> length src \<Longrightarrow>
   H2DecodeHex src p n 0 = Ok (map_option of_nat (hexNat (take n (drop p src))))"
  using decodeHex_value [of p n src 0]
  by (cases "\<forall>d\<in>set (take n (drop p src)). H2HexDigit d \<ge> 0") (auto simp: hexNat_code)

subsection \<open>One iteration decomposed\<close>

text \<open>
  An iteration first finds, without touching the sink, which bytes it will emit and where
  it continues; then it emits them.
\<close>

lemma emitAt_emitBytes:
  "emitAt f x u b s e i = obind (emitBytes f x u [b] s e) (\<lambda>(u, x). Ok (i, u, x))"
  by (cases "H2EmitAndValidateByte f x u b s e") (auto simp: emitAt_def)

definition stepMatches ::
  "byte list \<Rightarrow> nat \<Rightarrow> nat \<Rightarrow> (byte list \<times> byte list) option \<Rightarrow> 'c emitFn option \<Rightarrow> 'c \<Rightarrow> H2UTF8State
   \<Rightarrow> (H2StringLitErr \<times> 'c, nat \<times> H2UTF8State \<times> 'c) outcome \<Rightarrow> bool" where
  "stepMatches src e i spec f x u r =
     (case spec of
        None \<Rightarrow> \<exists>err. r = Err (err, x) \<and> sekind err \<noteq> H2StringLitErr_ARENA_OOM
      | Some (bs, t) \<Rightarrow> \<exists>s n i'. i < i' \<and> i' \<le> e \<and> t = textAt src e i' \<and>
          r = obind (emitBytes f x u bs s n) (\<lambda>(u, x). Ok (i', u, x)))"

lemma stepMatches_emit:
  "i < i' \<Longrightarrow> i' \<le> e \<Longrightarrow> t = textAt src e i' \<Longrightarrow>
   stepMatches src e i (Some ([b], t)) f x u (emitAt f x u b s n i')"
  by (auto simp: stepMatches_def emitAt_emitBytes)

lemma stepMatches_skip:
  "i < i' \<Longrightarrow> i' \<le> e \<Longrightarrow> t = textAt src e i' \<Longrightarrow> stepMatches src e i (Some ([], t)) f x u (Ok (i', u, x))"
  by (auto simp: stepMatches_def)

lemma stepMatches_fail:
  "k \<noteq> H2StringLitErr_ARENA_OOM \<Longrightarrow> stepMatches src e i None f x u (Err (H2SetStringLitErr k s n, x))"
  by (simp add: stepMatches_def H2SetStringLitErr_def)
lemma push_or:
  assumes "take_bit k w = w"
  shows "push_bit k (v :: 'a::len word) OR w = push_bit k v + w"
proof -
  have "push_bit k v AND take_bit k w = 0"
    by (rule bit_word_eqI) (auto simp: bit_simps)
  then show ?thesis using word_plus_and_or [of "push_bit k v" w] assms by simp
qed

lemma octal_value:
  assumes "H2OctalDigit a" "H2OctalDigit b" "H2OctalDigit c"
  shows "push_bit 6 (a - 0x30) OR push_bit 3 (b - 0x30) OR (c - 0x30)
       = of_nat ((unat a - 48) * 64 + (unat b - 48) * 8 + (unat c - 48))"
proof -
  have d: "\<exists>n<8. x - 0x30 = of_nat n \<and> unat x - 48 = n" if "H2OctalDigit x" for x
  proof -
    have "48 \<le> unat x" "unat x \<le> 55"
      using that by (simp_all add: H2OctalDigit_def ch_def word_le_nat_alt)
    moreover from this have "x - 0x30 = of_nat (unat x - 48)"
      by (simp add: of_nat_diff)
    ultimately show ?thesis by (intro exI [of _ "unat x - 48"]) auto
  qed
  obtain i j k where n: "i < 8" "j < 8" "k < 8" and
    w: "a - 0x30 = of_nat i" "b - 0x30 = of_nat j" "c - 0x30 = of_nat k" and
    u: "unat a - 48 = i" "unat b - 48 = j" "unat c - 48 = k"
    using d [OF assms(1)] d [OF assms(2)] d [OF assms(3)] by blast
  have t: "take_bit m (of_nat q :: byte) = of_nat q" if "q < 2 ^ m" for m q
    using that by (simp add: take_bit_of_nat take_bit_nat_eq_self)
  have "push_bit 3 (of_nat j) OR of_nat k = (of_nat (j * 8 + k) :: byte)"
    using push_or [of 3 "of_nat k :: byte" "of_nat j"] t [of k 3] n
    by (simp add: push_bit_eq_mult)
  moreover have "push_bit 6 (of_nat i) OR of_nat (j * 8 + k) = (of_nat (i * 64 + (j * 8 + k)) :: byte)"
    using push_or [of 6 "of_nat (j * 8 + k) :: byte" "of_nat i"] t [of "j * 8 + k" 6] n
    by (simp add: push_bit_eq_mult)
  ultimately show ?thesis unfolding w u by (simp add: add.assoc)
qed

lemma set_take2: "2 \<le> length r \<Longrightarrow> take 2 r = [r ! 0, r ! 1]"
  by (cases r; cases "tl r") auto

lemma Suc_offsets: "k + 3 = Suc (Suc (Suc k))"
  by simp_all

lemma hexEscape_matches:
  assumes "i + 1 < e" "e < length src" "e + 9 \<le> UINT32_MAX" "i < j" "j < e"
  shows "stepMatches src e i (hexText (textAt src e (j + 1))) f x u (decodeHexEscape src (e + 1) f i j u x)"
proof (cases "j + 2 \<ge> e")
  case True
  with assms have "e - Suc j < 2" by linarith
  with True assms show ?thesis by (simp add: hexText_def decodeHexEscape_def stepMatches_fail)
next
  case False
  let ?a = "src ! (j + 1)" and ?b = "src ! (j + 2)"
  have l: "\<not> length (textAt src e (j + 1)) < 2" using assms False by simp
  have t: "take 2 (textAt src e (j + 1)) = [?a, ?b]"
    using set_take2 [of "textAt src e (j + 1)"] l nth_textAt [of "j + 1" 0 e src] nth_textAt [of "j + 1" 1 e src] assms(2) False
    by simp
  have p: "decodeHexEscape src (e + 1) f i j u x =
    (if H2HexDigit ?a < 0 \<or> H2HexDigit ?b < 0
     then Err (H2SetStringLitErr H2StringLitErr_INVALID_ESCAPE i (u32 (j + 3)), x)
     else emitAt f x u (push_bit 4 (word_of_int (H2HexDigit ?a)) OR word_of_int (H2HexDigit ?b)) i (j + 3) (j + 3))"
    using assms(2) False by (simp add: decodeHexEscape_def Let_def)
  show ?thesis
  proof (cases "H2HexDigit ?a < 0 \<or> H2HexDigit ?b < 0")
    case True
    then have "hexNat [?a, ?b] = None" by (auto simp: hexNat_code)
    with True p t l show ?thesis by (simp add: hexText_def stepMatches_fail)
  next
    case ok: False
    then have "hexNat [?a, ?b] = Some (nat (H2HexDigit ?a) * 16 + nat (H2HexDigit ?b))"
      by (auto simp: hexNat_code)
    moreover have "push_bit 4 (word_of_int (H2HexDigit ?a)) OR word_of_int (H2HexDigit ?b)
       = (of_nat (nat (H2HexDigit ?a) * 16 + nat (H2HexDigit ?b)) :: byte)"
      using push_or_digit [of "H2HexDigit ?b" "word_of_int (H2HexDigit ?a)"] hexDigit_range ok
      by (simp add: mult.commute)
    moreover have "drop 2 (textAt src e (j + 1)) = textAt src e (j + 3)"
      by (simp add: drop_textAt Suc_offsets)
    ultimately show ?thesis
      using p t l ok False assms by (simp add: hexText_def stepMatches_emit del: of_nat_add of_nat_mult)
  qed
qed

lemma runeEscape_matches:
  assumes "e < length src" "e + 9 \<le> UINT32_MAX" "i < j" "j < e" "n \<le> 8"
  shows "stepMatches src e i (runeText n (textAt src e (j + 1))) f x u (decodeRuneEscape src (e + 1) f n i j u x)"
proof (cases "j + n \<ge> e")
  case True
  with assms have "e - Suc j < n" by linarith
  with True assms show ?thesis by (simp add: decodeRuneEscape_def runeText_def stepMatches_fail)
next
  case False
  have t: "take n (textAt src e (j + 1)) = take n (drop (j + 1) src)"
    using False by (simp add: take_textAt)
  have l: "length (take n (drop (j + 1) src)) = n" "\<not> length (textAt src e (j + 1)) < n"
    using False assms by auto
  have "Suc j + n \<le> length src" using False assms by simp
  note h = decodeHex_hexNat [OF this]
  show ?thesis
  proof (cases "hexNat (take n (drop (j + 1) src))")
    case None
    with t l False assms show ?thesis
      by (simp add: h decodeRuneEscape_def runeText_def stepMatches_fail)
  next
    case (Some v)
    have "v < 16 ^ n" using hexNat_less [OF Some] l by simp
    also have "(16::nat) ^ n \<le> 16 ^ 8" using assms(5) by (intro power_increasing) simp_all
    finally have v: "unat (of_nat v :: 32 word) = v" by (simp add: unat_of_nat take_bit_nat_eq_self)
    have g: "(of_nat v > (0x10FFFF :: 32 word) \<or> (of_nat v \<ge> (0xD800 :: 32 word) \<and> of_nat v \<le> (0xDFFF :: 32 word)))
       \<longleftrightarrow> \<not> scalarValue v"
      unfolding word_le_nat_alt word_less_nat_alt v scalarValue_def by auto
    show ?thesis
    proof (cases "scalarValue v")
      case False
      with g Some t l \<open>\<not> e \<le> j + n\<close> assms show ?thesis
        by (simp add: h decodeRuneEscape_def runeText_def stepMatches_fail)
    next
      case True
      then have "H2RuneToUTF8 (of_nat v) = Some (utf8Encode v)"
        using rune_to_utf8 [of "of_nat v"] v by (simp add: scalarValue_def)
      then have r: "decodeRuneEscape src (e + 1) f n i j u x =
        obind (emitBytes f x u (utf8Encode v) i (j + 1 + n)) (\<lambda>(u, x). Ok (j + 1 + n, u, x))"
        using True g Some \<open>\<not> e \<le> j + n\<close> assms
        by (auto simp: h decodeRuneEscape_def H2EmitRuneUTF8_def)
      have "runeText n (textAt src e (j + 1)) = Some (utf8Encode v, textAt src e (j + 1 + n))"
        using True Some t l by (simp add: runeText_def drop_textAt)
      with r False assms show ?thesis
        unfolding stepMatches_def by (simp, intro exI [of _ i] exI [of _ "j + 1 + n"]) auto
    qed
  qed
qed
lemma octalEscape_matches:
  assumes "e < length src" "e + 9 \<le> UINT32_MAX" "i < j" "j < e"
  shows "stepMatches src e i (octalText (src ! j) (textAt src e (j + 1))) f x u
    (decodeOctalEscape src (e + 1) f i j u x (src ! j))"
proof (cases "H2OctalDigit (src ! j) \<and> j + 2 < e \<and> H2OctalDigit (src ! (j + 1)) \<and> H2OctalDigit (src ! (j + 2))")
  case True
  let ?r = "textAt src e (j + 1)"
  have n: "?r ! 0 = src ! (j + 1)" "?r ! 1 = src ! (j + 2)"
    using nth_textAt [of "j + 1" 0 e src] nth_textAt [of "j + 1" 1 e src] True assms by simp_all
  have "2 \<le> e - (j + 1)" using True by linarith
  then have l: "2 \<le> length ?r" using assms by simp
  have "octalText (src ! j) ?r =
      Some ([push_bit 6 (src ! j - 0x30) OR push_bit 3 (src ! (j + 1) - 0x30) OR (src ! (j + 2) - 0x30)],
        textAt src e (j + 3))"
    unfolding octalText_code n octal_value [OF conjunct1 [OF True] conjunct1 [OF conjunct2 [OF conjunct2 [OF True]]]
        conjunct2 [OF conjunct2 [OF conjunct2 [OF True]]]]
    using True l by (simp add: drop_textAt Suc_offsets)
  moreover have "decodeOctalEscape src (e + 1) f i j u x (src ! j) =
      emitAt f x u (push_bit 6 (src ! j - 0x30) OR push_bit 3 (src ! (j + 1) - 0x30) OR (src ! (j + 2) - 0x30))
        i (j + 3) (j + 3)"
    using True assms by (simp add: decodeOctalEscape_def Let_def)
  ultimately show ?thesis using True assms by (simp add: stepMatches_emit)
next
  case False
  let ?r = "textAt src e (j + 1)"
  have n: "?r ! 0 = src ! (j + 1)" "?r ! 1 = src ! (j + 2)" if "j + 2 < e"
    using nth_textAt [of "j + 1" 0 e src] nth_textAt [of "j + 1" 1 e src] that assms by simp_all
  have "octalText (src ! j) ?r = None"
  proof (cases "j + 2 < e")
    case True
    with False n show ?thesis by (auto simp: octalText_code)
  next
    case False
    with assms have "\<not> 2 \<le> length ?r" by simp
    then show ?thesis by (simp add: octalText_code)
  qed
  moreover have "\<exists>k s n. k \<noteq> H2StringLitErr_ARENA_OOM \<and>
      decodeOctalEscape src (e + 1) f i j u x (src ! j) = Err (H2SetStringLitErr k s n, x)"
  proof (cases "j + 2 < e")
    case True
    with False assms show ?thesis
      by (intro exI [of _ H2StringLitErr_INVALID_ESCAPE]) (auto simp: decodeOctalEscape_def Let_def)
  next
    case False
    with assms show ?thesis
      by (intro exI [of _ H2StringLitErr_INVALID_ESCAPE]) (auto simp: decodeOctalEscape_def Let_def)
  qed
  ultimately show ?thesis by (auto simp: stepMatches_fail)
qed

lemma escape_matches:
  assumes "e < length src" "e + 9 \<le> UINT32_MAX" "i < e"
  shows "stepMatches src e i (escapeText (textAt src e (i + 1))) f x u (decodeEscapeStep src (e + 1) f i u x)"
proof (cases "i + 1 < e")
  case False
  with assms show ?thesis by (simp add: decodeEscapeStep_def escapeText_code Let_def stepMatches_fail)
next
  case j: True
  let ?c = "src ! (i + 1)" and ?r = "textAt src e (i + 2)"
  have t: "textAt src e (i + 1) = ?c # ?r" using textAt_Cons [OF j] assms by simp
  have p: "i + 1 < length src" using j assms by simp
  note d = decodeEscapeStep_def [of src "e + 1" f i u x, unfolded Let_def]
  consider "?c = 0x0A" | "?c = 0x0D" | "?c \<noteq> 0x0A" "?c \<noteq> 0x0D" by blast
  then show ?thesis
  proof cases
    case 1
    with t p j d show ?thesis by (simp add: escapeText_code stepMatches_skip)
  next
    case 2
    have "escapeText (?c # ?r) = Some ([], textAt src e (if i + 2 < e \<and> src ! (i + 2) = 0x0A then i + 3 else i + 2))"
      using 2 dropLF_textAt [of e src "i + 2"] assms by (simp add: escapeText_code Suc_offsets)
    with 2 t p j d assms show ?thesis
      by (simp add: peekIf_in stepMatches_skip Suc_offsets)
  next
    case 3
    show ?thesis
    proof (cases "simpleEscape ?c")
      case (Some b)
      with 3 t p j d show ?thesis by (simp add: escapeText_code stepMatches_emit)
    next
      case None
      have e1: "i + 1 + 1 = i + 2" by simp
      have h: "stepMatches src e i (hexText ?r) f x u (decodeHexEscape src (e + 1) f i (i + 1) u x)"
        by (rule hexEscape_matches [OF j assms(1,2), of "i + 1" f x u, unfolded e1]) (use j in simp_all)
      have r: "stepMatches src e i (runeText n ?r) f x u (decodeRuneEscape src (e + 1) f n i (i + 1) u x)" if "n \<le> 8" for n
        by (rule runeEscape_matches [OF assms(1,2), of i "i + 1" n f x u, unfolded e1]) (use j that in simp_all)
      have o: "stepMatches src e i (octalText ?c ?r) f x u (decodeOctalEscape src (e + 1) f i (i + 1) u x ?c)"
        by (rule octalEscape_matches [OF assms(1,2), of i "i + 1" f x u, unfolded e1]) (use j in simp_all)
      show ?thesis
        unfolding t escapeText_code d using 3 None p j h r [of 4] r [of 8] o by simp
    qed
  qed
qed

lemma decodeStep_matches:
  assumes "e < length src" "e + 9 \<le> UINT32_MAX" "i < e"
  shows "stepMatches src e i (textStep (delim = ch CHR ''`'') (textAt src e i)) f x u
    (decodeStep src (e + 1) delim f i u x)"
proof -
  let ?c = "src ! i" and ?r = "textAt src e (i + 1)"
  have t: "textAt src e i = ?c # ?r" using textAt_Cons [OF assms(3)] assms by simp
  have p: "i < length src" using assms by simp
  have lf: "peekIf (i + 1 < e) src (i + 1) (\<lambda>b. b = 0x0A) (\<lambda>lf. emitAt f x u 0x0A i (if lf then i + 2 else i + 1) (if lf then i + 2 else i + 1))
      = emitAt f x u 0x0A i (if i + 1 < e \<and> src ! (i + 1) = 0x0A then i + 2 else i + 1) (if i + 1 < e \<and> src ! (i + 1) = 0x0A then i + 2 else i + 1)"
    using assms by (subst peekIf_in) simp_all
  have cr: "stepMatches src e i (Some ([0x0A], dropLF ?r)) f x u
     (emitAt f x u 0x0A i (if i + 1 < e \<and> src ! (i + 1) = 0x0A then i + 2 else i + 1) (if i + 1 < e \<and> src ! (i + 1) = 0x0A then i + 2 else i + 1))"
    using dropLF_textAt [of e src "i + 1"] assms by (auto intro!: stepMatches_emit)
  have bs: "(0x0D :: byte) \<noteq> ch CHR 0x5C" by (simp add: ch_def)
  show ?thesis
  proof (cases "delim = ch CHR ''`''")
    case True
    show ?thesis
    proof (cases "?c = ch CHR 0x5C")
      case c: True
      have "peekIf (?c = ch CHR 0x5C \<and> i + 1 < e) src (i + 1) (\<lambda>b. b = ch CHR ''`'') k
          = k (?r \<noteq> [] \<and> hd ?r = ch CHR ''`'')" for k :: "bool \<Rightarrow> (H2StringLitErr \<times> 'a, nat \<times> H2UTF8State \<times> 'a) outcome"
        using c assms textAt_Cons [of "i + 1" e src] by (cases "i + 1 < e") (simp_all add: peekIf_in)
      with True c p t bs assms textAt_Cons [of "i + 1" e src] show ?thesis
        by (cases "i + 1 < e")
          (auto simp: decodeStep_def decodeRawStep_def textStep_def intro!: stepMatches_emit)
    next
      case False
      with True p t lf cr assms show ?thesis
        by (auto simp: decodeStep_def decodeRawStep_def textStep_def Let_def intro!: stepMatches_emit)
    qed
  next
    case False
    with p t lf cr bs assms escape_matches [OF assms, of f x u] show ?thesis
      by (auto simp: decodeStep_def decodePlainStep_def textStep_def Let_def intro!: stepMatches_emit)
  qed
qed
subsection \<open>Control state of the UTF-8 check\<close>

text \<open>What of the checker's state decides its future: not the recorded spans.\<close>

definition utf8Ctl :: "H2UTF8State \<Rightarrow> (byte \<times> nat \<times> nat) option" where
  "utf8Ctl st = (if need st = 0 then None else Some (firstByte st, need st, haveCnt st))"

lemma feed_ctl:
  assumes "utf8Ctl st = utf8Ctl st'"
  shows "(case H2UTF8Feed st b s e of
            Inl err \<Rightarrow> sekind err = H2StringLitErr_INVALID_UTF8 \<and> (\<exists>err'. H2UTF8Feed st' b s' e' = Inl err')
          | Inr q \<Rightarrow> \<exists>q'. H2UTF8Feed st' b s' e' = Inr q' \<and> utf8Ctl q = utf8Ctl q')"
proof (cases "need st = 0")
  case True
  with assms have "need st' = 0" by (simp add: utf8Ctl_def split: if_splits)
  with True show ?thesis
    by (simp add: H2UTF8Feed_def Let_def H2SetStringLitErr_def utf8Ctl_def utf8Lead_def)
next
  case False
  with assms have "need st' = need st" "firstByte st' = firstByte st" "haveCnt st' = haveCnt st"
    by (auto simp: utf8Ctl_def split: if_splits)
  with False show ?thesis
    by (simp add: H2UTF8Feed_def Let_def H2SetStringLitErr_def utf8Ctl_def)
qed

lemma utf8Run_append:
  "utf8Run st (xs @ ys) = Option.bind (utf8Run st xs) (\<lambda>st'. utf8Run st' ys)"
  by (induction xs arbitrary: st) (auto split: sum.splits)

subsection \<open>The reference run: recording the bytes\<close>

definition recordByte :: "byte list emitFn" where
  "recordByte bs b = Ok (bs @ [b])"

definition decodeBytes :: "byte list \<Rightarrow> nat \<Rightarrow> nat \<Rightarrow> (H2StringLitErr \<times> byte list, byte list) outcome" where
  "decodeBytes src start endPos = H2DecodeStringLiteralImpl src start endPos (Some recordByte) []"

lemma emitBytes_record:
  "utf8Ctl u = utf8Ctl u0 \<Longrightarrow>
   (case utf8Run u0 bs of
      None \<Rightarrow> \<exists>err acc'. emitBytes (Some recordByte) acc u bs s e = Err (err, acc')
    | Some u0' \<Rightarrow> \<exists>u'. emitBytes (Some recordByte) acc u bs s e = Ok (u', acc @ bs) \<and> utf8Ctl u' = utf8Ctl u0')"
proof (induction bs arbitrary: acc u u0)
  case Nil
  then show ?case by simp
next
  case (Cons b bs)
  show ?case
  proof (cases "H2UTF8Feed u b s e")
    case (Inl err)
    with feed_ctl [OF Cons.prems, where b = b and s = s and e = e and s' = 0 and e' = 0] obtain err' where "H2UTF8Feed u0 b 0 0 = Inl err'" by auto
    with Inl show ?thesis by (simp add: H2EmitAndValidateByte_def)
  next
    case (Inr q)
    with feed_ctl [OF Cons.prems, where b = b and s = s and e = e and s' = 0 and e' = 0] obtain q' where
      q': "H2UTF8Feed u0 b 0 0 = Inr q'" "utf8Ctl q = utf8Ctl q'" by auto
    from Cons.IH [OF q'(2), of "acc @ [b]"] q'(1) Inr show ?thesis
      by (cases "utf8Run q' bs") (simp_all add: H2EmitAndValidateByte_def recordByte_def)
  qed
qed

lemma decodeLoop_record:
  assumes "e < length src" "e + 9 \<le> UINT32_MAX" "utf8Ctl u = utf8Ctl u0"
  shows "(case Option.bind (litText (delim = ch CHR ''`'') (textAt src e i)) (\<lambda>bs. map_option (Pair bs) (utf8Run u0 bs)) of
      None \<Rightarrow> \<exists>err acc'. decodeLoop src (e + 1) delim (Some recordByte) i u acc = Err (err, acc')
    | Some (bs, u0') \<Rightarrow> \<exists>u'. decodeLoop src (e + 1) delim (Some recordByte) i u acc = Ok (u', acc @ bs) \<and> utf8Ctl u' = utf8Ctl u0')"
  using assms(3)
proof (induction "e - i" arbitrary: i u u0 acc rule: less_induct)
  case less
  let ?raw = "delim = ch CHR ''`''"
  note L = decodeLoop.simps [of src "e + 1" delim "Some recordByte" i u acc]
  show ?case
  proof (cases "i < e")
    case False
    with less.prems L show ?thesis by (simp add: litText.simps [of _ "[]"])
  next
    case True
    then have ne: "textAt src e i \<noteq> []" using textAt_Cons [OF True] assms(1) by simp
    have m: "stepMatches src e i (textStep ?raw (textAt src e i)) (Some recordByte) acc u
      (decodeStep src (e + 1) delim (Some recordByte) i u acc)"
      by (rule decodeStep_matches [OF assms(1,2) True])
    show ?thesis
    proof (cases "textStep ?raw (textAt src e i)")
      case None
      with m L True ne show ?thesis
        by (auto simp: stepMatches_def litText.simps [of _ "textAt src e i"])
    next
      case (Some p)
      obtain bs t where p: "p = (bs, t)" by (cases p)
      with m Some obtain s n i' where i': "i < i'" "i' \<le> e" "t = textAt src e i'" and
        st: "decodeStep src (e + 1) delim (Some recordByte) i u acc
           = obind (emitBytes (Some recordByte) acc u bs s n) (\<lambda>(u, x). Ok (i', u, x))"
        unfolding stepMatches_def by auto
      have lt: "litText ?raw (textAt src e i) = map_option ((@) bs) (litText ?raw (textAt src e i'))"
        using ne Some p i'(3) by (simp add: litText.simps [of _ "textAt src e i"])
      show ?thesis
      proof (cases "utf8Run u0 bs")
        case None
        with emitBytes_record [OF less.prems, where bs = bs and acc = acc and s = s and e = n] obtain err acc' where
          "emitBytes (Some recordByte) acc u bs s n = Err (err, acc')" by auto
        with None lt st L True show ?thesis
          by (cases "litText ?raw (textAt src e i')") (auto simp: utf8Run_append)
      next
        case (Some u1)
        with emitBytes_record [OF less.prems, where bs = bs and acc = acc and s = s and e = n] obtain u' where
          u': "emitBytes (Some recordByte) acc u bs s n = Ok (u', acc @ bs)" "utf8Ctl u' = utf8Ctl u1" by auto
        have "e - i' < e - i" using i' True by simp
        from less.hyps [OF this u'(2), of "acc @ bs"] u'(1) Some lt st L True show ?thesis
          by (cases "litText ?raw (textAt src e i')"; cases "utf8Run u1 (the (litText ?raw (textAt src e i')))")
            (auto simp: utf8Run_append)
      qed
    qed
  qed
qed

text \<open>
  The recorded bytes of a literal: the decoder accepts exactly what has a meaning, and is
  never stuck.
\<close>

theorem decodeBytes_meaning:
  assumes "src = pre @ [delim] @ body @ [delim] @ post" "isDelim delim"
    "length pre + length body + 10 \<le> UINT32_MAX"
  shows "(case litText (delim = ch CHR ''`'') body of
            Some bs \<Rightarrow>
              (if utf8Valid bs
               then decodeBytes src (length pre) (length pre + length body + 2) = Ok bs
               else \<exists>x. decodeBytes src (length pre) (length pre + length body + 2) = Err x)
          | None \<Rightarrow> \<exists>x. decodeBytes src (length pre) (length pre + length body + 2) = Err x)"
proof -
  let ?s = "length pre" and ?e = "length pre + length body + 1"
  have n: "src ! ?s = delim" "src ! ?e = delim" "?s < length src" "?e < length src" "u32 (?s + 1) = ?s + 1"
    using assms by (simp_all add: nth_append)
  have b: "textAt src ?e (?s + 1) = body"
    using assms by (simp add: textAt_def)
  have "utf8Ctl utf8Init = utf8Ctl utf8Init" ..
  note L = decodeLoop_record [OF n(4) _ this, of delim "?s + 1" "[]", unfolded b]
  have d: "decodeBytes src ?s (?e + 1) =
    obind (decodeLoop src (?e + 1) delim (Some recordByte) (?s + 1) utf8Init []) (\<lambda>(utf8, x').
               case H2UTF8Finish utf8 of Some e \<Rightarrow> Err (e, x') | None \<Rightarrow> Ok x')"
    using n assms(2,3) by (simp add: decodeBytes_def H2DecodeStringLiteralImpl_def Let_def)
  have fin: "(H2UTF8Finish u = None) = (utf8Ctl u = None)" for u
    by (simp add: H2UTF8Finish_def utf8Ctl_def)
  have acc: "utf8Valid bs \<longleftrightarrow> (\<exists>u. utf8Run utf8Init bs = Some u \<and> utf8Ctl u = None)" for bs
    using utf8Accepts_valid [of utf8Init bs]
    by (auto simp: utf8Accepts_def utf8Init_def utf8Ctl_def split: option.splits)
  have e2: "length pre + length body + 2 = ?e + 1" by simp
  show ?thesis
  proof (cases "litText (delim = ch CHR ''`'') body")
    case None
    with L assms(3) obtain x where "decodeLoop src (?e + 1) delim (Some recordByte) (?s + 1) utf8Init [] = Err x" by auto
    with None d e2 show ?thesis by simp
  next
    case (Some bs)
    show ?thesis
    proof (cases "utf8Run utf8Init bs")
      case None
      with L Some assms(3) obtain x where "decodeLoop src (?e + 1) delim (Some recordByte) (?s + 1) utf8Init [] = Err x" by auto
      with None Some d e2 acc [of bs] show ?thesis by simp
    next
      case (Some u0)
      with L \<open>litText _ body = Some bs\<close> assms(3) obtain u' where
        "decodeLoop src (?e + 1) delim (Some recordByte) (?s + 1) utf8Init [] = Ok (u', bs)" "utf8Ctl u' = utf8Ctl u0" by auto
      with Some \<open>litText _ body = Some bs\<close> d e2 acc [of bs] fin [of u'] show ?thesis
        by (cases "H2UTF8Finish u'") auto
    qed
  qed
qed

end
