(* ===== verification/H2ByteSink.thy ===== *)
theory H2ByteSink
  imports H2StringLitSpec
begin

text \<open>
  The interface between the decoder and its byte sinks (\<open>H2StringLitEmitByteFn\<close> in
  \<open>src/string_lit.c\<close>), and the three sinks of the code that implement it. A sink keeps a
  state that \<open>holds\<close> the bytes received so far; it may refuse a byte, ending in a state
  that is \<open>spent\<close>. The client lemma says that decoding into any sink follows the recorded
  reference run \<open>decodeBytes\<close>, unless the sink refuses.
\<close>

definition acceptedPrefix :: "H2UTF8State \<Rightarrow> byte list \<Rightarrow> bool" where
  "acceptedPrefix u bs \<longleftrightarrow> (\<exists>u0. utf8Run utf8Init bs = Some u0 \<and> utf8Ctl u = utf8Ctl u0)"

lemma acceptedPrefix_feed:
  assumes "acceptedPrefix u bs" "H2UTF8Feed u b s e = Inr u'"
  shows "acceptedPrefix u' (bs @ [b])" "utf8Run utf8Init (bs @ [b]) \<noteq> None"
proof -
  from assms(1) obtain u0 where u0: "utf8Run utf8Init bs = Some u0" "utf8Ctl u = utf8Ctl u0"
    unfolding acceptedPrefix_def by blast
  from feed_ctl [OF u0(2), where b = b and s = s and e = e and s' = 0 and e' = 0] assms(2)
  obtain q where "H2UTF8Feed u0 b 0 0 = Inr q" "utf8Ctl u' = utf8Ctl q" by auto
  with u0(1) show "acceptedPrefix u' (bs @ [b])" "utf8Run utf8Init (bs @ [b]) \<noteq> None"
    by (auto simp: acceptedPrefix_def utf8Run_append)
qed

text \<open>The reference run is never stuck, and records no more bytes than it consumes.\<close>

lemma record_step:
  assumes "e < length src" "e + 9 \<le> UINT32_MAX" "i < e" "acceptedPrefix u acc"
  shows "decodeStep src (e + 1) delim (Some recordByte) i u acc \<noteq> Stuck"
    "decodeStep src (e + 1) delim (Some recordByte) i u acc = Ok (a, u', acc') \<Longrightarrow>
     i < a \<and> a \<le> e \<and> length acc' + i \<le> length acc + a"
proof -
  have m: "stepMatches src e i (textStep (delim = ch CHR ''`'') (textAt src e i)) (Some recordByte) acc u
      (decodeStep src (e + 1) delim (Some recordByte) i u acc)"
    by (rule decodeStep_matches [OF assms(1-3)])
  from assms(4) obtain u0 where u0: "utf8Ctl u = utf8Ctl u0" unfolding acceptedPrefix_def by blast
  consider er where "decodeStep src (e + 1) delim (Some recordByte) i u acc = Err er"
    | bs t s n i' where "textStep (delim = ch CHR ''`'') (textAt src e i) = Some (bs, t)"
        "i < i'" "i' \<le> e" "t = textAt src e i'"
        "decodeStep src (e + 1) delim (Some recordByte) i u acc
         = obind (emitBytes (Some recordByte) acc u bs s n) (\<lambda>(u, x). Ok (i', u, x))"
    using m unfolding stepMatches_def
    by (cases "textStep (delim = ch CHR ''`'') (textAt src e i)") auto
  then have "decodeStep src (e + 1) delim (Some recordByte) i u acc \<noteq> Stuck \<and>
    (decodeStep src (e + 1) delim (Some recordByte) i u acc = Ok (a, u', acc') \<longrightarrow>
     i < a \<and> a \<le> e \<and> length acc' + i \<le> length acc + a)"
  proof cases
    case 1
    then show ?thesis by simp
  next
    case 2
    have "length bs + (e - i') \<le> e - i" using textStep_length [OF 2(1)] 2(4) assms(1) by simp
    moreover note emitBytes_record [OF u0, where bs = bs and acc = acc and s = s and e = n]
    ultimately show ?thesis using 2(2,3,5) by (cases "utf8Run u0 bs") auto
  qed
  then show "decodeStep src (e + 1) delim (Some recordByte) i u acc \<noteq> Stuck"
    "decodeStep src (e + 1) delim (Some recordByte) i u acc = Ok (a, u', acc') \<Longrightarrow>
     i < a \<and> a \<le> e \<and> length acc' + i \<le> length acc + a" by blast+
qed

locale byte_sink =
  fixes emit :: "'c emitFn"
    and holds :: "byte list \<Rightarrow> 'c \<Rightarrow> bool"
    and spent :: "'c \<Rightarrow> bool"
  assumes sink_defined:
      "holds bs x \<Longrightarrow> utf8Run utf8Init (bs @ [b]) \<noteq> None \<Longrightarrow> length bs < UINT32_MAX \<Longrightarrow> emit x b \<noteq> Stuck"
    and sink_holds:
      "holds bs x \<Longrightarrow> utf8Run utf8Init (bs @ [b]) \<noteq> None \<Longrightarrow> length bs < UINT32_MAX \<Longrightarrow>
       emit x b = Ok x' \<Longrightarrow> holds (bs @ [b]) x'"
    and sink_refuses:
      "holds bs x \<Longrightarrow> utf8Run utf8Init (bs @ [b]) \<noteq> None \<Longrightarrow> length bs < UINT32_MAX \<Longrightarrow>
       emit x b = Err x' \<Longrightarrow> spent x'"
begin

definition sim ::
  "(H2StringLitErr \<times> byte list, 'a \<times> H2UTF8State \<times> byte list) outcome
   \<Rightarrow> (H2StringLitErr \<times> 'c, 'a \<times> H2UTF8State \<times> 'c) outcome \<Rightarrow> bool" where
  "sim rr r \<longleftrightarrow>
     (\<exists>a u acc x. rr = Ok (a, u, acc) \<and> r = Ok (a, u, x) \<and> holds acc x \<and> acceptedPrefix u acc) \<or>
     (\<exists>e acc x. rr = Err (e, acc) \<and> r = Err (e, x) \<and> holds acc x) \<or>
     (\<exists>e x. r = Err (e, x) \<and> sekind e = H2StringLitErr_ARENA_OOM \<and> spent x) \<or>
     (rr = Stuck \<and> r = Stuck)"

lemma sim_err: "holds acc x \<Longrightarrow> sim (Err (e, acc)) (Err (e, x))"
  by (auto simp: sim_def)

lemma sim_ok: "holds acc x \<Longrightarrow> acceptedPrefix u acc \<Longrightarrow> sim (Ok (a, u, acc)) (Ok (a, u, x))"
  by (auto simp: sim_def)

lemma sim_stuck: "sim Stuck Stuck"
  by (auto simp: sim_def)

lemma sim_peek: "(\<And>b. sim (k b) (k' b)) \<Longrightarrow> sim (peek src i k) (peek src i k')"
  by (simp add: peek_def sim_stuck)

lemma sim_peekIf: "(\<And>b. sim (k b) (k' b)) \<Longrightarrow> sim (peekIf c src i P k) (peekIf c src i P k')"
  by (simp add: peekIf_def sim_peek)

lemma sim_emitBytes:
  assumes "holds acc x" "acceptedPrefix u acc" "length acc + length bs \<le> UINT32_MAX"
  shows "sim (obind (emitBytes (Some recordByte) acc u bs s e) (\<lambda>(u, y). Ok (a, u, y)))
             (obind (emitBytes (Some emit) x u bs s e) (\<lambda>(u, y). Ok (a, u, y)))"
  using assms
proof (induction bs arbitrary: acc x u)
  case Nil
  then show ?case by (simp add: sim_ok)
next
  case (Cons b bs)
  show ?case
  proof (cases "H2UTF8Feed u b s e")
    case (Inl err)
    with Cons.prems show ?thesis by (simp add: H2EmitAndValidateByte_def sim_err)
  next
    case (Inr u')
    note p = acceptedPrefix_feed [OF Cons.prems(2) Inr]
    have l: "length acc < UINT32_MAX" using Cons.prems(3) by simp
    show ?thesis
    proof (cases "emit x b")
      case (Ok x')
      have "holds (acc @ [b]) x'" by (rule sink_holds [OF Cons.prems(1) p(2) l Ok])
      from Cons.IH [OF this p(1)] Cons.prems(3) Ok Inr show ?thesis
        by (simp add: H2EmitAndValidateByte_def recordByte_def)
    next
      case (Err x')
      have "spent x'" by (rule sink_refuses [OF Cons.prems(1) p(2) l Err])
      with Err Inr show ?thesis
        by (auto simp: H2EmitAndValidateByte_def sim_def H2SetStringLitErr_def)
    next
      case Stuck
      with sink_defined [OF Cons.prems(1) p(2) l] show ?thesis by simp
    qed
  qed
qed

lemma sim_emitAt:
  assumes "holds acc x" "acceptedPrefix u acc" "length acc < UINT32_MAX"
  shows "sim (emitAt (Some recordByte) acc u b s e i) (emitAt (Some emit) x u b s e i)"
  unfolding emitAt_emitBytes by (rule sim_emitBytes [OF assms(1,2)]) (use assms(3) in simp)

lemma sim_emitRune:
  assumes "holds acc x" "acceptedPrefix u acc" "length acc + 4 \<le> UINT32_MAX"
  shows "sim (obind (H2EmitRuneUTF8 (Some recordByte) acc u r s e) (\<lambda>(u, y). Ok (a, u, y)))
             (obind (H2EmitRuneUTF8 (Some emit) x u r s e) (\<lambda>(u, y). Ok (a, u, y)))"
proof (cases "H2RuneToUTF8 r")
  case None
  with assms show ?thesis by (simp add: H2EmitRuneUTF8_def sim_err)
next
  case (Some bs)
  then have "length bs \<le> 4" by (auto simp: H2RuneToUTF8_def split: if_splits)
  with sim_emitBytes [OF assms(1,2), of bs] assms(3) Some show ?thesis
    by (simp add: H2EmitRuneUTF8_def)
qed

lemma sim_decodeHex:
  "(\<And>v. sim (k v) (k' v)) \<Longrightarrow> sim (obind (H2DecodeHex src p n v) k) (obind (H2DecodeHex src p n v) k')"
proof (induction n arbitrary: p v)
  case (Suc n)
  then show ?case
    by (cases "p < length src") (auto simp: Let_def sim_stuck)
qed simp

lemma sim_step:
  assumes "holds acc x" "acceptedPrefix u acc" "length acc + 4 \<le> UINT32_MAX"
  shows "sim (decodeStep src e delim (Some recordByte) i u acc) (decodeStep src e delim (Some emit) i u x)"
proof -
  have l: "length acc < UINT32_MAX" using assms(3) by simp
  note em = sim_emitAt [OF assms(1,2) l]
  have raw: "sim (decodeRawStep src e (Some recordByte) i u acc c) (decodeRawStep src e (Some emit) i u x c)" for c
    unfolding decodeRawStep_def Let_def by (auto intro!: sim_peekIf em)
  have plain: "sim (decodePlainStep src e (Some recordByte) i u acc c) (decodePlainStep src e (Some emit) i u x c)" for c
    unfolding decodePlainStep_def Let_def by (auto intro!: sim_peekIf em)
  have hex: "sim (decodeHexEscape src e (Some recordByte) i j u acc) (decodeHexEscape src e (Some emit) i j u x)" for j
    unfolding decodeHexEscape_def Let_def by (auto intro!: sim_peek em sim_err assms)
  have rune: "sim (decodeRuneEscape src e (Some recordByte) n i j u acc) (decodeRuneEscape src e (Some emit) n i j u x)" for n j
    unfolding decodeRuneEscape_def
    by (auto intro!: sim_stuck sim_decodeHex sim_emitRune sim_err assms split: option.split)
  have oct: "sim (decodeOctalEscape src e (Some recordByte) i j u acc c) (decodeOctalEscape src e (Some emit) i j u x c)" for j c
    unfolding decodeOctalEscape_def Let_def by (auto intro!: sim_peek em sim_err assms)
  have esc: "sim (decodeEscapeStep src e (Some recordByte) i u acc) (decodeEscapeStep src e (Some emit) i u x)"
    unfolding decodeEscapeStep_def Let_def
    by (auto intro!: sim_peek sim_peekIf em hex rune oct sim_err sim_ok assms split: option.split)
  show ?thesis
    unfolding decodeStep_def by (auto intro!: sim_peek raw esc plain)
qed

definition simLoop ::
  "(H2StringLitErr \<times> byte list, H2UTF8State \<times> byte list) outcome
   \<Rightarrow> (H2StringLitErr \<times> 'c, H2UTF8State \<times> 'c) outcome \<Rightarrow> bool" where
  "simLoop rr r \<longleftrightarrow>
     (\<exists>u acc x. rr = Ok (u, acc) \<and> r = Ok (u, x) \<and> holds acc x) \<or>
     (\<exists>e acc x. rr = Err (e, acc) \<and> r = Err (e, x) \<and> holds acc x) \<or>
     (\<exists>e x. r = Err (e, x) \<and> sekind e = H2StringLitErr_ARENA_OOM \<and> spent x)"

lemma sim_loop:
  assumes "e < length src" "e + 9 \<le> UINT32_MAX" "holds acc x" "acceptedPrefix u acc" "length acc \<le> i"
  shows "simLoop (decodeLoop src (e + 1) delim (Some recordByte) i u acc)
                 (decodeLoop src (e + 1) delim (Some emit) i u x)"
  using assms(3-5)
proof (induction "e - i" arbitrary: i u acc x rule: less_induct)
  case less
  note L = decodeLoop.simps [of src "e + 1" delim "Some recordByte" i u acc]
    decodeLoop.simps [of src "e + 1" delim "Some emit" i u x]
  show ?case
  proof (cases "i < e")
    case False
    with less.prems show ?thesis unfolding L simLoop_def by simp
  next
    case True
    have l: "length acc + 4 \<le> UINT32_MAX" using less.prems(3) True assms(2) by simp
    have s: "sim (decodeStep src (e + 1) delim (Some recordByte) i u acc) (decodeStep src (e + 1) delim (Some emit) i u x)"
      by (rule sim_step [OF less.prems(1,2) l])
    from s consider
        (ok) a u' acc' x' where "decodeStep src (e + 1) delim (Some recordByte) i u acc = Ok (a, u', acc')"
          "decodeStep src (e + 1) delim (Some emit) i u x = Ok (a, u', x')" "holds acc' x'" "acceptedPrefix u' acc'"
      | (err) er acc' x' where "decodeStep src (e + 1) delim (Some recordByte) i u acc = Err (er, acc')"
          "decodeStep src (e + 1) delim (Some emit) i u x = Err (er, x')" "holds acc' x'"
      | (oom) er x' where "decodeStep src (e + 1) delim (Some emit) i u x = Err (er, x')"
          "sekind er = H2StringLitErr_ARENA_OOM" "spent x'"
      | (stuck) "decodeStep src (e + 1) delim (Some recordByte) i u acc = Stuck"
      unfolding sim_def by blast
    then show ?thesis
    proof cases
      case ok
      note r = record_step(2) [OF assms(1,2) True less.prems(2) ok(1)]
      then have "length acc' \<le> a" "e - a < e - i" using less.prems(3) by auto
      then have "simLoop (decodeLoop src (e + 1) delim (Some recordByte) a u' acc')
                 (decodeLoop src (e + 1) delim (Some emit) a u' x')"
        using less.hyps ok(3,4) by blast
      with ok True show ?thesis unfolding L by simp
    next
      case err
      with True show ?thesis unfolding L simLoop_def by simp
    next
      case oom
      with True show ?thesis unfolding L simLoop_def by simp
    next
      case stuck
      with record_step(1) [OF assms(1,2) True less.prems(2)] show ?thesis by blast
    qed
  qed
qed

text \<open>Decoding into a sink follows the reference run, unless the sink refuses a byte.\<close>

lemma sink_follows:
  assumes "start < endPos" "endPos \<le> length src" "endPos + 8 \<le> UINT32_MAX" "holds [] x0"
  shows "(\<exists>acc x. decodeBytes src start endPos = Ok acc \<and>
            H2DecodeStringLiteralImpl src start endPos (Some emit) x0 = Ok x \<and> holds acc x) \<or>
     (\<exists>e acc x. decodeBytes src start endPos = Err (e, acc) \<and>
            H2DecodeStringLiteralImpl src start endPos (Some emit) x0 = Err (e, x) \<and> holds acc x) \<or>
     (\<exists>e x. H2DecodeStringLiteralImpl src start endPos (Some emit) x0 = Err (e, x) \<and>
            sekind e = H2StringLitErr_ARENA_OOM \<and> spent x)"
proof -
  have u: "u32 (start + 1) = start + 1" "u32 (Suc start) = Suc start" using assms by simp_all
  let ?l = "\<lambda>f x. decodeLoop src endPos (src ! start) f (start + 1) utf8Init x"
  note D = decodeBytes_def H2DecodeStringLiteralImpl_def Let_def u
  show ?thesis
  proof (cases "endPos \<le> start + 1 \<or> \<not> isDelim (src ! start) \<or> src ! (endPos - 1) \<noteq> src ! start")
    case True
    with assms have "\<exists>e. decodeBytes src start endPos = Err (e, []) \<and>
        H2DecodeStringLiteralImpl src start endPos (Some emit) x0 = Err (e, x0)"
      by (auto simp: D)
    with assms(4) show ?thesis by blast
  next
    case False
    then obtain e where e: "endPos = e + 1" by (cases endPos) auto
    have r: "decodeBytes src start endPos = obind (?l (Some recordByte) []) (\<lambda>(utf8, x').
               case H2UTF8Finish utf8 of Some e \<Rightarrow> Err (e, x') | None \<Rightarrow> Ok x')"
      "H2DecodeStringLiteralImpl src start endPos (Some emit) x0 = obind (?l (Some emit) x0) (\<lambda>(utf8, x').
               case H2UTF8Finish utf8 of Some e \<Rightarrow> Err (e, x') | None \<Rightarrow> Ok x')"
      using False assms e by (simp_all add: D)
    have "acceptedPrefix utf8Init []" by (simp add: acceptedPrefix_def)
    with sim_loop [of e src "[]" x0 utf8Init "start + 1" "src ! start"] assms e
    have "simLoop (?l (Some recordByte) []) (?l (Some emit) x0)" by simp
    then show ?thesis
      unfolding r simLoop_def by (elim disjE exE conjE) (auto split: option.splits)
  qed
qed

end

locale total_sink = byte_sink +
  assumes sink_total:
    "holds bs x \<Longrightarrow> utf8Run utf8Init (bs @ [b]) \<noteq> None \<Longrightarrow> length bs < UINT32_MAX \<Longrightarrow> emit x b \<noteq> Err x'"
begin

sublocale exact: byte_sink emit holds "\<lambda>x. False"
  by unfold_locales (use sink_defined sink_holds sink_total in blast)+

lemma sink_exact:
  assumes "start < endPos" "endPos \<le> length src" "endPos + 8 \<le> UINT32_MAX" "holds [] x0"
  shows "(\<exists>acc x. decodeBytes src start endPos = Ok acc \<and>
            H2DecodeStringLiteralImpl src start endPos (Some emit) x0 = Ok x \<and> holds acc x) \<or>
     (\<exists>e acc x. decodeBytes src start endPos = Err (e, acc) \<and>
            H2DecodeStringLiteralImpl src start endPos (Some emit) x0 = Err (e, x) \<and> holds acc x)"
  using exact.sink_follows [OF assms] by blast

end

subsection \<open>No sink: validation\<close>

interpretation null_sink: total_sink "\<lambda>(x::unit) b. Ok x" "\<lambda>bs x. True" "\<lambda>x. True"
  by unfold_locales auto

lemma none_is_null:
  "H2DecodeStringLiteralImpl src start endPos None () =
   H2DecodeStringLiteralImpl src start endPos (Some (\<lambda>x b. Ok x)) ()"
proof -
  have v: "H2EmitAndValidateByte None () = H2EmitAndValidateByte (Some (\<lambda>x b. Ok x)) ()"
    by (intro ext) (simp add: H2EmitAndValidateByte_def split: sum.split)
  have vb: "emitBytes None () u bs s e = emitBytes (Some (\<lambda>x b. Ok x)) () u bs s e" for u bs s e
    by (induction bs arbitrary: u) (simp_all add: v split: prod.split)
  have st: "decodeStep src endPos delim None i u () = decodeStep src endPos delim (Some (\<lambda>x b. Ok x)) i u ()" for delim i u
    unfolding decodeStep_def decodeRawStep_def decodePlainStep_def decodeEscapeStep_def
        decodeHexEscape_def decodeRuneEscape_def decodeOctalEscape_def emitAt_def H2EmitRuneUTF8_def v vb
    by (rule refl)
  have lp: "decodeLoop src endPos delim None i u () = decodeLoop src endPos delim (Some (\<lambda>x b. Ok x)) i u ()" for delim i u
  proof (induction "endPos - i" arbitrary: i u rule: less_induct)
    case less
    have ih: "decodeLoop src endPos delim None i' u' () = decodeLoop src endPos delim (Some (\<lambda>x b. Ok x)) i' u' ()"
      if "decodeStep src endPos delim (Some (\<lambda>x b. Ok x)) i u () = Ok (i', u', ())" "i < endPos - 1" for i' u'
      using decodeStep_progress [OF that(1)] that(2) by (intro less.hyps) linarith
    show ?case
      unfolding decodeLoop.simps [of src endPos delim None i u] decodeLoop.simps [of src endPos delim "Some (\<lambda>x b. Ok x)" i u] st
      using ih by (cases "decodeStep src endPos delim (Some (\<lambda>x b. Ok x)) i u ()") auto
  qed
  show ?thesis unfolding H2DecodeStringLiteralImpl_def lp by (rule refl)
qed

lemma validate_decodeBytes:
  assumes "start < endPos" "endPos \<le> length src" "endPos + 8 \<le> UINT32_MAX"
  shows "H2DecodeStringLiteralValidate src start endPos =
    (case decodeBytes src start endPos of Ok _ \<Rightarrow> Ok () | Err (e, _) \<Rightarrow> Err e | Stuck \<Rightarrow> Stuck)"
  using null_sink.sink_exact [OF assms, of "()"]
  by (auto simp: H2DecodeStringLiteralValidate_def none_is_null)

end
