(* ===== verification/H2Literals.thy ===== *)
theory H2Literals
  imports H2ByteSink
begin

text \<open>
  The sinks of \<open>src/string_lit.c\<close> implement the sink interface, and what follows for the
  entry points \<open>H2DecodeStringLiteralMalloc\<close>, \<open>H2DecodeStringLiteralArena\<close> and
  \<open>H2DecodeRuneLiteralValidate\<close>.
\<close>

subsection \<open>The malloc buffer\<close>

definition mallocHolds :: "byte list \<Rightarrow> H2MallocByteBuf \<Rightarrow> bool" where
  "mallocHolds bs x \<longleftrightarrow> mallocBytes x = bs \<and> length bs \<le> mallocCap x \<and> mallocCap x \<le> UINT32_MAX"

lemma growCap_buffer:
  assumes "c \<le> UINT32_MAX" "n \<le> UINT32_MAX"
  shows "n \<le> growCap (if c = 0 then 16 else c) n" "growCap (if c = 0 then 16 else c) n \<le> UINT32_MAX"
  using growCap_ge_need growCap_bound assms by auto

interpretation malloc_sink: byte_sink "H2MallocByteEmit r" mallocHolds "\<lambda>x. True" for r
proof unfold_locales
  fix bs x b x'
  assume h: "mallocHolds bs x" and l: "length bs < UINT32_MAX"
  have u: "u32 (length bs + 1) = length bs + 1" using l by simp
  note g = growCap_buffer [of "mallocCap x" "length bs + 1"]
  show "H2MallocByteEmit r x b \<noteq> Stuck"
    using h l g by (auto simp: H2MallocByteEmit_def H2MallocByteBufEnsure_def mallocHolds_def Let_def)
  show "mallocHolds (bs @ [b]) x'" if "H2MallocByteEmit r x b = Ok x'"
    using that h l g
    by (auto simp: H2MallocByteEmit_def H2MallocByteBufEnsure_def mallocHolds_def Let_def split: if_splits)
qed simp

subsection \<open>The arena buffer\<close>

definition arenaHolds :: "nat set \<Rightarrow> H2Arena \<Rightarrow> byte list \<Rightarrow> H2ArenaByteBuf \<Rightarrow> bool" where
  "arenaHolds st ar0 bs x \<longleftrightarrow>
     bufBytes x = bs \<and> length bs \<le> bufCap x \<and> bufCap x \<le> UINT32_MAX \<and>
     arenaWf st (bufArena x) \<and> arenaUsed ar0 \<subseteq> arenaUsed (bufArena x) \<and>
     (case bufV x of
        None \<Rightarrow> bufCap x = 0
      | Some p \<Rightarrow> region (p, bufCap x) \<subseteq> arenaUsed (bufArena x) \<and> region (p, bufCap x) \<inter> arenaUsed ar0 = {})"

definition arenaSpent :: "nat set \<Rightarrow> H2Arena \<Rightarrow> H2ArenaByteBuf \<Rightarrow> bool" where
  "arenaSpent st ar0 x \<longleftrightarrow> arenaWf st (bufArena x) \<and> arenaUsed ar0 \<subseteq> arenaUsed (bufArena x)"

lemma ensure_arena:
  assumes h: "arenaHolds st ar0 bs x" and n: "n \<le> UINT32_MAX"
  shows "(\<exists>y. H2ArenaByteBufEnsure x n = Ok y \<and> arenaHolds st ar0 bs y \<and> n \<le> bufCap y) \<or>
         (\<exists>y. H2ArenaByteBufEnsure x n = Err y \<and> arenaSpent st ar0 y)"
proof (cases "n \<le> bufCap x")
  case True
  with h show ?thesis by (simp add: H2ArenaByteBufEnsure_def)
next
  case False
  let ?c = "growCap (if bufCap x = 0 then 16 else bufCap x) n"
  have wf: "arenaWf st (bufArena x)" and us: "arenaUsed ar0 \<subseteq> arenaUsed (bufArena x)"
    and len: "length bs \<le> bufCap x" "bufCap x \<le> UINT32_MAX"
    using h by (simp_all add: arenaHolds_def)
  have c: "n \<le> ?c" "?c \<le> UINT32_MAX" using growCap_buffer [OF len(2) n] by auto
  then have lg: "legalRequest ?c 1" by (simp add: legalRequest_def)
  obtain r ar where al: "H2ArenaAlloc (bufArena x) ?c 1 = (r, ar)" by (cases "H2ArenaAlloc (bufArena x) ?c 1")
  note ok = arena_memory.alloc_ok [OF wf lg al]
  show ?thesis
  proof (cases r)
    case None
    with arena_memory.alloc_fail_used [OF wf lg] al us ok False show ?thesis
      by (auto simp: H2ArenaByteBufEnsure_def arenaSpent_def Let_def)
  next
    case (Some p)
    with al have al': "H2ArenaAlloc (bufArena x) ?c 1 = (Some p, ar)" by simp
    note f = arena_memory.alloc_used [OF wf lg al'] arena_memory.alloc_fresh [OF wf lg al']
    have "arenaHolds st ar0 bs (x\<lparr>bufArena := ar, bufV := Some p, bufCap := ?c\<rparr>)"
      using h f us ok c len False unfolding arenaHolds_def by auto
    with al' False c show ?thesis by (simp add: H2ArenaByteBufEnsure_def Let_def)
  qed
qed

interpretation arena_sink: byte_sink H2ArenaByteEmit "arenaHolds st ar0" "arenaSpent st ar0" for st ar0
proof unfold_locales
  fix bs x b x'
  assume h: "arenaHolds st ar0 bs x" and l: "length bs < UINT32_MAX"
  have bb: "bufBytes x = bs" using h by (simp add: arenaHolds_def)
  have "length bs + 1 \<le> UINT32_MAX" using l by simp
  from ensure_arena [OF h this] consider
      (ok) y where "H2ArenaByteBufEnsure x (length bs + 1) = Ok y" "arenaHolds st ar0 bs y" "length bs + 1 \<le> bufCap y"
    | (err) y where "H2ArenaByteBufEnsure x (length bs + 1) = Err y" "arenaSpent st ar0 y" by blast
  then have "H2ArenaByteEmit x b \<noteq> Stuck \<and>
    (\<forall>x'. H2ArenaByteEmit x b = Ok x' \<longrightarrow> arenaHolds st ar0 (bs @ [b]) x') \<and>
    (\<forall>x'. H2ArenaByteEmit x b = Err x' \<longrightarrow> arenaSpent st ar0 x')"
  proof cases
    case ok
    then have e: "H2ArenaByteEmit x b = Ok (y\<lparr>bufBytes := bs @ [b]\<rparr>)"
      using bb l by (simp add: H2ArenaByteEmit_def arenaHolds_def)
    moreover have "arenaHolds st ar0 (bs @ [b]) (y\<lparr>bufBytes := bs @ [b]\<rparr>)"
      using ok(2,3) unfolding arenaHolds_def by (cases "bufV y") simp_all
    ultimately show ?thesis by simp
  next
    case err
    with bb l show ?thesis by (simp add: H2ArenaByteEmit_def)
  qed
  then show "H2ArenaByteEmit x b \<noteq> Stuck"
    "H2ArenaByteEmit x b = Ok x' \<Longrightarrow> arenaHolds st ar0 (bs @ [b]) x'"
    "H2ArenaByteEmit x b = Err x' \<Longrightarrow> arenaSpent st ar0 x'" by blast+
qed
subsection \<open>The rune collector\<close>

text \<open>The code point of a sequence, from its bytes.\<close>

lemma decode2:
  assumes n: "scalarValue n" "0x80 \<le> n" "n < 0x800" "utf8Encode n = [b, c]"
  shows "n = (unat b - 0xC0) * 64 + (unat c - 0x80)"
proof -
  from n have w: "b = of_nat (0xC0 + n div 64)" "c = of_nat (0x80 + n mod 64)"
    by (simp_all add: utf8Encode_def)
  have "n div 64 < 32" using n(3) by (intro less_mult_imp_div_less) simp
  then have "unat b = 0xC0 + n div 64" "unat c = 0x80 + n mod 64"
    unfolding w by (intro unat_byte_of_nat, simp)+
  then show "n = (unat b - 0xC0) * 64 + (unat c - 0x80)" by simp
qed

lemma value2: "lead2 b c \<Longrightarrow>
  \<exists>n. scalarValue n \<and> utf8Encode n = [b, c] \<and> n = (unat b - 0xC0) * 64 + (unat c - 0x80)"
  using encode2 [of b c] decode2 unfolding lead2_def by blast

lemma decode3:
  assumes n: "scalarValue n" "0x800 \<le> n" "n < 0x10000" "utf8Encode n = [b, c, d]"
  shows "n = ((unat b - 0xE0) * 64 + (unat c - 0x80)) * 64 + (unat d - 0x80)"
proof -
  from n have w: "b = of_nat (0xE0 + n div 4096)" "c = of_nat (0x80 + n div 64 mod 64)" "d = of_nat (0x80 + n mod 64)"
    by (simp_all add: utf8Encode_def)
  have "n div 4096 < 16" using n(3) by (intro less_mult_imp_div_less) simp
  then have "unat b = 0xE0 + n div 4096" unfolding w by (intro unat_byte_of_nat) simp
  moreover have "n div 64 mod 64 < 64" "n mod 64 < 64" by simp_all
  then have "unat c = 0x80 + n div 64 mod 64" "unat d = 0x80 + n mod 64"
    unfolding w by (intro unat_byte_of_nat, linarith)+
  ultimately show "n = ((unat b - 0xE0) * 64 + (unat c - 0x80)) * 64 + (unat d - 0x80)"
    using digits3 [of n] by simp
qed

lemma value3: "lead3 b c d \<Longrightarrow>
  \<exists>n. scalarValue n \<and> utf8Encode n = [b, c, d] \<and> n = ((unat b - 0xE0) * 64 + (unat c - 0x80)) * 64 + (unat d - 0x80)"
  using encode3 [of b c d] decode3 unfolding lead3_def by blast

lemma decode4:
  assumes n: "scalarValue n" "0x10000 \<le> n" "utf8Encode n = [b, c, d, e]"
  shows "n = (((unat b - 0xF0) * 64 + (unat c - 0x80)) * 64 + (unat d - 0x80)) * 64 + (unat e - 0x80)"
proof -
  from n have w: "b = of_nat (0xF0 + n div 262144)" "c = of_nat (0x80 + n div 4096 mod 64)"
      "d = of_nat (0x80 + n div 64 mod 64)" "e = of_nat (0x80 + n mod 64)"
    by (simp_all add: utf8Encode_def)
  have "n div 262144 < 16" using n(1) unfolding scalarValue_def by (intro less_mult_imp_div_less) simp
  then have "unat b = 0xF0 + n div 262144" unfolding w by (intro unat_byte_of_nat) simp
  moreover have "n div 4096 mod 64 < 64" "n div 64 mod 64 < 64" "n mod 64 < 64" by simp_all
  then have "unat c = 0x80 + n div 4096 mod 64" "unat d = 0x80 + n div 64 mod 64" "unat e = 0x80 + n mod 64"
    unfolding w by (intro unat_byte_of_nat, linarith)+
  ultimately show "n = (((unat b - 0xF0) * 64 + (unat c - 0x80)) * 64 + (unat d - 0x80)) * 64 + (unat e - 0x80)"
    using digits4 [of n] by simp
qed

lemma value4: "lead4 b c d e \<Longrightarrow>
  \<exists>n. scalarValue n \<and> utf8Encode n = [b, c, d, e] \<and>
      n = (((unat b - 0xF0) * 64 + (unat c - 0x80)) * 64 + (unat d - 0x80)) * 64 + (unat e - 0x80)"
  using encode4 [of b c d e] decode4 unfolding lead4_def by blast

text \<open>Each value has its own encoding, and none is a prefix of another.\<close>

lemma utf8Encode_cases:
  assumes "scalarValue n"
  obtains "n < 0x80" "utf8Encode n = [of_nat n]"
  | b c where "lead2 b c" "utf8Encode n = [b, c]" "n = (unat b - 0xC0) * 64 + (unat c - 0x80)"
  | b c d where "lead3 b c d" "utf8Encode n = [b, c, d]" "n = ((unat b - 0xE0) * 64 + (unat c - 0x80)) * 64 + (unat d - 0x80)"
  | b c d e where "lead4 b c d e" "utf8Encode n = [b, c, d, e]"
      "n = (((unat b - 0xF0) * 64 + (unat c - 0x80)) * 64 + (unat d - 0x80)) * 64 + (unat e - 0x80)"
proof -
  consider "n < 0x80" | "0x80 \<le> n" "n < 0x800" | "0x800 \<le> n" "n < 0x10000" | "0x10000 \<le> n" by linarith
  then show ?thesis
  proof cases
    case 1
    then show ?thesis using that(1) encode1 by blast
  next
    case 2
    then obtain b c where e: "utf8Encode n = [b, c]"
      using utf8Encode_length(2) [of n] by (auto simp: numeral_2_eq_2 length_Suc_conv)
    have "lead2 b c" using encode2 [of b c] assms 2 e unfolding lead2_def by blast
    then show ?thesis using that(2) e decode2 [OF assms 2 e] by blast
  next
    case 3
    then obtain b c d where e: "utf8Encode n = [b, c, d]"
      using utf8Encode_length(3) [of n] by (auto simp: numeral_3_eq_3 length_Suc_conv)
    have "lead3 b c d" using encode3 [of b c d] assms 3 e unfolding lead3_def by blast
    then show ?thesis using that(3) e decode3 [OF assms 3 e] by blast
  next
    case 4
    obtain b c d x where e: "utf8Encode n = [b, c, d, x]"
      using length4 [OF utf8Encode_length(4) [OF 4]] by blast
    have "lead4 b c d x" using encode4 [of b c d x] assms 4 e unfolding lead4_def by blast
    then show ?thesis using that(4) e decode4 [OF assms 4 e] by blast
  qed
qed

lemma utf8Encode_prefix_free:
  assumes "scalarValue m" "scalarValue n" "utf8Encode m @ r = utf8Encode n @ s"
  shows "m = n"
proof -
  have no1: "unat (of_nat k :: byte) < 128" if "k < 128" for k
    using that by (simp add: unat_byte_of_nat)
  show ?thesis
    using assms(1)
  proof (cases m rule: utf8Encode_cases)
    case 1
    show ?thesis
      using assms(2)
    proof (cases n rule: utf8Encode_cases)
      case n: 1
      with 1 assms(3) have "(of_nat m :: byte) = of_nat n" by simp
      with 1 n show ?thesis by (simp add: word_unat_eq_iff unat_byte_of_nat)
    qed (use 1 no1 [of m] assms(3) in \<open>auto simp: lead2_def lead3_def lead4_def\<close>)
  next
    case (2 b c)
    show ?thesis
      using assms(2)
      by (cases n rule: utf8Encode_cases) (use 2 no1 [of n] assms(3) in \<open>auto simp: lead2_def lead3_def lead4_def\<close>)
  next
    case (3 b c d)
    show ?thesis
      using assms(2)
      by (cases n rule: utf8Encode_cases) (use 3 no1 [of n] assms(3) in \<open>auto simp: lead2_def lead3_def lead4_def\<close>)
  next
    case (4 b c d e)
    show ?thesis
      using assms(2)
      by (cases n rule: utf8Encode_cases) (use 4 no1 [of n] assms(3) in \<open>auto simp: lead2_def lead3_def lead4_def\<close>)
  qed
qed

lemma utf8_unique:
  "\<forall>n\<in>set xs. scalarValue n \<Longrightarrow> \<forall>n\<in>set ys. scalarValue n \<Longrightarrow>
   concat (map utf8Encode xs) = concat (map utf8Encode ys) \<Longrightarrow> xs = ys"
proof (induction xs arbitrary: ys)
  case Nil
  show ?case
  proof (cases ys)
    case (Cons y ys')
    with Nil.prems(3) show ?thesis by simp
  qed simp
next
  case (Cons x xs)
  show ?case
  proof (cases ys)
    case Nil
    with Cons.prems(3) show ?thesis by simp
  next
    case ys: (Cons y ys')
    have eq: "utf8Encode x @ concat (map utf8Encode xs) = utf8Encode y @ concat (map utf8Encode ys')"
      using Cons.prems(3) ys by simp
    moreover have sc: "scalarValue x" "scalarValue y" using Cons.prems(1,2) ys by simp_all
    ultimately have "x = y" by (intro utf8Encode_prefix_free) 
    with eq Cons.IH [of ys'] Cons.prems(1,2) ys show ?thesis by simp
  qed
qed

lemma byte_mask_unat:
  "unat (ucast ((b :: byte) AND 0x3F) :: 32 word) = unat b mod 64"
  "unat (ucast (b AND 0x1F) :: 32 word) = unat b mod 32"
  "unat (ucast (b AND 0x0F) :: 32 word) = unat b mod 16"
  "unat (ucast (b AND 0x07) :: 32 word) = unat b mod 8"
proof -
  have m: "(0x3F :: byte) = mask 6" "(0x1F :: byte) = mask 5" "(0x0F :: byte) = mask 4"
    "(0x07 :: byte) = mask 3"
    by (simp_all add: mask_eq_exp_minus_1)
  have a: "unat (ucast (b AND mask k) :: 32 word) = unat b mod 2 ^ k" for k
  proof -
    have "unat (b AND mask k) = unat b mod 2 ^ k"
      by (simp only: take_bit_eq_mask [symmetric] unsigned_take_bit_eq) (simp add: take_bit_eq_mod)
    moreover have "unat (ucast (b AND mask k) :: 32 word) = unat (b AND mask k)"
      by (simp add: unsigned_ucast_eq take_bit_nat_eq_self_iff order_less_trans [OF unsigned_less])
    ultimately show ?thesis by simp
  qed
  show "unat (ucast ((b :: byte) AND 0x3F) :: 32 word) = unat b mod 64"
    "unat (ucast (b AND 0x1F) :: 32 word) = unat b mod 32"
    "unat (ucast (b AND 0x0F) :: 32 word) = unat b mod 16"
    "unat (ucast (b AND 0x07) :: 32 word) = unat b mod 8"
    unfolding m a by simp_all
qed

lemma shift_in:
  assumes "unat (v :: 32 word) < 2 ^ 20"
  shows "unat (push_bit 6 v OR ucast ((b :: byte) AND 0x3F)) = unat v * 64 + unat b mod 64"
proof -
  have t: "take_bit 6 (ucast (b AND 0x3F) :: 32 word) = ucast (b AND 0x3F)"
    by (simp only: word_unat_eq_iff unsigned_take_bit_eq byte_mask_unat) (simp add: take_bit_eq_mod)
  have "push_bit 6 v = v * 64" by (simp add: push_bit_eq_mult)
  moreover have "unat (v * 64 + ucast (b AND 0x3F)) = unat v * 64 + unat b mod 64"
  proof -
    have "unat v * unat (64 :: 32 word) < 2 ^ LENGTH(32)" using assms by simp
    then have "unat (v * 64) = unat v * 64" using unat_mult_lem [of v 64] by simp
    moreover have "unat v * 64 + unat b mod 64 < 2 ^ LENGTH(32)" using assms by simp
    ultimately show ?thesis
      using unat_add_lem [of "v * 64" "ucast (b AND 0x3F)"] by (simp add: byte_mask_unat)
  qed
  ultimately show ?thesis unfolding push_or [OF t] by simp
qed
text \<open>The collector inside a sequence: how many bytes it expects, and the bits so far.\<close>

definition runePending :: "byte list \<Rightarrow> H2RuneCollector \<Rightarrow> bool" where
  "runePending pend c \<longleftrightarrow>
     (pend = [] \<and> seqNeed c = 0) \<or>
     (\<exists>b. pend = [b] \<and> seqHave c = 1 \<and>
        ((seqNeed c = 2 \<and> 0xC2 \<le> unat b \<and> unat b \<le> 0xDF \<and> unat (currentRune c) = unat b - 0xC0) \<or>
         (seqNeed c = 3 \<and> 0xE0 \<le> unat b \<and> unat b \<le> 0xEF \<and> unat (currentRune c) = unat b - 0xE0) \<or>
         (seqNeed c = 4 \<and> 0xF0 \<le> unat b \<and> unat b \<le> 0xF4 \<and> unat (currentRune c) = unat b - 0xF0))) \<or>
     (\<exists>b d. pend = [b, d] \<and> seqHave c = 2 \<and> H2UTF8SecondByteValid b d \<and>
        ((seqNeed c = 3 \<and> 0xE0 \<le> unat b \<and> unat b \<le> 0xEF \<and>
            unat (currentRune c) = (unat b - 0xE0) * 64 + (unat d - 0x80)) \<or>
         (seqNeed c = 4 \<and> 0xF0 \<le> unat b \<and> unat b \<le> 0xF4 \<and>
            unat (currentRune c) = (unat b - 0xF0) * 64 + (unat d - 0x80)))) \<or>
     (\<exists>b d e. pend = [b, d, e] \<and> seqHave c = 3 \<and> H2UTF8SecondByteValid b d \<and> contByte e \<and>
        seqNeed c = 4 \<and> 0xF0 \<le> unat b \<and> unat b \<le> 0xF4 \<and>
        unat (currentRune c) = ((unat b - 0xF0) * 64 + (unat d - 0x80)) * 64 + (unat e - 0x80))"

definition runeHolds :: "byte list \<Rightarrow> H2RuneCollector \<Rightarrow> bool" where
  "runeHolds bs c \<longleftrightarrow>
     (\<exists>cps pend. (\<forall>n\<in>set cps. scalarValue n) \<and> bs = concat (map utf8Encode cps) @ pend \<and>
        codepointCount c = length cps \<and> (cps \<noteq> [] \<longrightarrow> unat (rune c) = hd cps) \<and> runePending pend c)"

lemma second_range: "H2UTF8SecondByteValid b d \<Longrightarrow> 0x80 \<le> unat d \<and> unat d \<le> 0xBF"
  unfolding second_byte_valid by auto

lemma cont_mod: "0x80 \<le> unat (d :: byte) \<Longrightarrow> unat d \<le> 0xBF \<Longrightarrow> unat d mod 64 = unat d - 0x80"
proof -
  assume a: "0x80 \<le> unat d" "unat d \<le> 0xBF"
  then have "unat d = (unat d - 0x80) + 2 * 64" "unat d - 0x80 < 64" by auto
  then show ?thesis by (metis mod_less mod_mult_self1)
qed

text \<open>A byte the check accepts after a given pending sequence.\<close>

lemma accepted_after:
  assumes "need u = 0" "utf8Run u (pend @ [b]) \<noteq> None"
  shows "pend = [] \<Longrightarrow> unat b < 0x80 \<or> (0xC2 \<le> unat b \<and> unat b \<le> 0xDF) \<or> (0xE0 \<le> unat b \<and> unat b \<le> 0xEF) \<or>
        (0xF0 \<le> unat b \<and> unat b \<le> 0xF4)"
    "pend = [b0] \<Longrightarrow> 0xC2 \<le> unat b0 \<Longrightarrow> unat b0 \<le> 0xF4 \<Longrightarrow> H2UTF8SecondByteValid b0 b"
    "pend = [b0, b1] \<Longrightarrow> 0xE0 \<le> unat b0 \<Longrightarrow> unat b0 \<le> 0xF4 \<Longrightarrow> contByte b"
    "pend = [b0, b1, b2] \<Longrightarrow> 0xF0 \<le> unat b0 \<Longrightarrow> unat b0 \<le> 0xF4 \<Longrightarrow> contByte b"
proof -
  have f: "firstByte (utf8Lead b n s e) = b" "need (utf8Lead b n s e) = n" "haveCnt (utf8Lead b n s e) = 1" for b n s e
    by (simp_all add: utf8Lead_def)
  have lead: "\<exists>n\<in>{2,3,4}. H2UTF8Feed u b0 0 0 = Inr (utf8Lead b0 n 0 0) \<and> (0xE0 \<le> unat b0 \<longrightarrow> n \<noteq> 2) \<and> (0xF0 \<le> unat b0 \<longrightarrow> n = 4)"
    if "0xC2 \<le> unat b0" "unat b0 \<le> 0xF4"
  proof -
    consider "unat b0 \<le> 0xDF" | "0xE0 \<le> unat b0" "unat b0 \<le> 0xEF" | "0xF0 \<le> unat b0" by linarith
    then show ?thesis using that feed_lead [OF assms(1), of b0 0 0] by cases auto
  qed
  show "unat b < 0x80 \<or> (0xC2 \<le> unat b \<and> unat b \<le> 0xDF) \<or> (0xE0 \<le> unat b \<and> unat b \<le> 0xEF) \<or>
        (0xF0 \<le> unat b \<and> unat b \<le> 0xF4)" if "pend = []"
    using assms(2) that feed_bad_lead [OF assms(1), of b 0 0] by (cases "H2UTF8Feed u b 0 0") simp_all
  show "H2UTF8SecondByteValid b0 b" if "pend = [b0]" "0xC2 \<le> unat b0" "unat b0 \<le> 0xF4"
    using assms(2) that(1) lead [OF that(2,3)] by (auto simp: feed_second f split: if_splits)
  show "contByte b" if "pend = [b0, b1]" "0xE0 \<le> unat b0" "unat b0 \<le> 0xF4"
    using assms(2) that lead by (auto simp: feed_second feed_later f split: if_splits)
  show "contByte b" if "pend = [b0, b1, b2]" "0xF0 \<le> unat b0" "unat b0 \<le> 0xF4"
    using assms(2) that lead by (auto simp: feed_second feed_later f split: if_splits)
qed

lemma run_complete:
  assumes "\<forall>n\<in>set cps. scalarValue n" "utf8Run utf8Init (concat (map utf8Encode cps) @ ys) \<noteq> None"
  obtains u where "need u = 0" "utf8Run u ys \<noteq> None"
proof -
  have "utf8Valid (concat (map utf8Encode cps))" using assms(1) unfolding utf8Valid_def by blast
  then have "utf8Accepts utf8Init (concat (map utf8Encode cps))"
    by (subst utf8Accepts_valid) (simp_all add: utf8Init_def)
  with assms(2) that show ?thesis by (auto simp: utf8Accepts_def utf8Run_append split: option.splits)
qed

text \<open>Completing a code point keeps the account.\<close>

lemma collect_complete:
  assumes "\<forall>n\<in>set cps. scalarValue n" "codepointCount c = length cps" "cps \<noteq> [] \<longrightarrow> unat (rune c) = hd cps"
    "length cps < UINT32_MAX" "scalarValue n" "unat r = n"
    "c' = (collectRune c r)\<lparr>seqNeed := 0, seqHave := h, currentRune := v\<rparr> \<or> (c' = collectRune c r \<and> seqNeed c = 0)"
  shows "runeHolds (concat (map utf8Encode cps) @ utf8Encode n) c'"
  unfolding runeHolds_def
proof (intro exI [of _ "cps @ [n]"] exI [of _ "[]"] conjI)
  show "codepointCount c' = length (cps @ [n])" using assms(2,4,7) by (auto simp: collectRune_def)
  show "cps @ [n] \<noteq> [] \<longrightarrow> unat (rune c') = hd (cps @ [n])"
    using assms(2,3,6,7) by (cases cps) (auto simp: collectRune_def)
  show "runePending [] c'" using assms(7) by (auto simp: runePending_def collectRune_def)
qed (use assms in auto)
lemma length_cps: "length cps \<le> length (concat (map utf8Encode cps))"
proof (induction cps)
  case (Cons n cps)
  have "Suc 0 \<le> length (utf8Encode n)" by (simp add: utf8Encode_def)
  with Cons have "Suc (length cps) \<le> length (utf8Encode n) + length (concat (map utf8Encode cps))" by linarith
  then show ?case by simp
qed simp

text \<open>The three shapes of a step: a lead byte, a byte inside a sequence, a last byte.\<close>

lemma emit_lead:
  assumes "seqNeed c = 0"
  shows "unat b < 0x80 \<Longrightarrow> H2RuneCollectorEmit c b = Ok (collectRune c (ucast b))"
    "0xC2 \<le> unat b \<Longrightarrow> unat b \<le> 0xDF \<Longrightarrow> H2RuneCollectorEmit c b = Ok (c\<lparr>seqNeed := 2, seqHave := 1, currentRune := ucast (b AND 0x1F)\<rparr>)"
    "0xE0 \<le> unat b \<Longrightarrow> unat b \<le> 0xEF \<Longrightarrow> H2RuneCollectorEmit c b = Ok (c\<lparr>seqNeed := 3, seqHave := 1, currentRune := ucast (b AND 0x0F)\<rparr>)"
    "0xF0 \<le> unat b \<Longrightarrow> unat b \<le> 0xF4 \<Longrightarrow> H2RuneCollectorEmit c b = Ok (c\<lparr>seqNeed := 4, seqHave := 1, currentRune := ucast (b AND 0x07)\<rparr>)"
  using assms by (simp_all add: H2RuneCollectorEmit_def byte_le_unat)

lemma emit_inside:
  "seqNeed c \<noteq> 0 \<Longrightarrow> seqHave c + 1 \<noteq> seqNeed c \<Longrightarrow>
   H2RuneCollectorEmit c b = Ok (c\<lparr>currentRune := push_bit 6 (currentRune c) OR ucast (b AND 0x3F), seqHave := seqHave c + 1\<rparr>)"
  by (simp add: H2RuneCollectorEmit_def)

lemma emit_last:
  "seqNeed c \<noteq> 0 \<Longrightarrow> seqHave c + 1 = seqNeed c \<Longrightarrow>
   \<exists>c0. codepointCount c0 = codepointCount c \<and> rune c0 = rune c \<and>
     H2RuneCollectorEmit c b = Ok ((collectRune c0 (push_bit 6 (currentRune c) OR ucast (b AND 0x3F)))
       \<lparr>seqNeed := 0, seqHave := 0, currentRune := 0\<rparr>)"
  by (rule exI [of _ "c\<lparr>currentRune := push_bit 6 (currentRune c) OR ucast (b AND 0x3F), seqHave := seqHave c + 1\<rparr>"])
    (simp add: H2RuneCollectorEmit_def)

lemma small_mod: "0xC2 \<le> (n::nat) \<Longrightarrow> n \<le> 0xDF \<Longrightarrow> n mod 32 = n - 0xC0"
  "0xE0 \<le> n \<Longrightarrow> n \<le> 0xEF \<Longrightarrow> n mod 16 = n - 0xE0" "0xF0 \<le> n \<Longrightarrow> n \<le> 0xF4 \<Longrightarrow> n mod 8 = n - 0xF0"
proof -
  show "n mod 32 = n - 0xC0" if "0xC2 \<le> n" "n \<le> 0xDF"
    using that mod_mult_self1 [of "n - 0xC0" 6 32] by simp
  show "n mod 16 = n - 0xE0" if "0xE0 \<le> n" "n \<le> 0xEF"
    using that mod_mult_self1 [of "n - 0xE0" 14 16] by simp
  show "n mod 8 = n - 0xF0" if "0xF0 \<le> n" "n \<le> 0xF4"
    using that mod_mult_self1 [of "n - 0xF0" 30 8] by simp
qed

lemma rune_inside:
  assumes "\<forall>n\<in>set cps. scalarValue n" "codepointCount c = length cps" "cps \<noteq> [] \<longrightarrow> unat (rune c) = hd cps"
    "runePending pend c'" "codepointCount c' = codepointCount c" "rune c' = rune c"
  shows "runeHolds (concat (map utf8Encode cps) @ pend) c'"
  unfolding runeHolds_def using assms by (intro exI [of _ cps] exI [of _ pend]) simp

lemma rune_step:
  assumes "runeHolds bs c" "utf8Run utf8Init (bs @ [b]) \<noteq> None" "length bs < UINT32_MAX"
  shows "\<exists>c'. H2RuneCollectorEmit c b = Ok c' \<and> runeHolds (bs @ [b]) c'"
proof -
  from assms(1) obtain cps pend where h: "\<forall>n\<in>set cps. scalarValue n" "bs = concat (map utf8Encode cps) @ pend"
    "codepointCount c = length cps" "cps \<noteq> [] \<longrightarrow> unat (rune c) = hd cps" and pend: "runePending pend c"
    unfolding runeHolds_def by blast
  let ?cc = "concat (map utf8Encode cps)"
  obtain u where u: "need u = 0" "utf8Run u (pend @ [b]) \<noteq> None"
    using run_complete [OF h(1), of "pend @ [b]"] assms(2) h(2) by auto
  note acc = accepted_after [OF u]
  have lc: "length cps < UINT32_MAX" using length_cps [of cps] h(2) assms(3) by simp
  note done_ = collect_complete [OF h(1) _ _ lc]
  let ?r = "push_bit 6 (currentRune c) OR ucast (b AND 0x3F)"
  have final: "\<exists>c'. H2RuneCollectorEmit c b = Ok c' \<and> runeHolds (?cc @ utf8Encode n) c'"
    if "seqNeed c \<noteq> 0" "seqHave c + 1 = seqNeed c" "scalarValue n" "unat ?r = n" for n
  proof -
    from emit_last [OF that(1,2), of b] obtain c0 where c0: "codepointCount c0 = codepointCount c" "rune c0 = rune c"
      "H2RuneCollectorEmit c b = Ok ((collectRune c0 ?r)\<lparr>seqNeed := 0, seqHave := 0, currentRune := 0\<rparr>)" by blast
    then show ?thesis using done_ [of c0 n ?r _ 0 0] h(3,4) that(3,4) by simp
  qed
  have inside: "\<exists>c'. H2RuneCollectorEmit c b = Ok c' \<and> runeHolds (?cc @ pend @ [b]) c'"
    if "seqNeed c \<noteq> 0" "seqHave c + 1 \<noteq> seqNeed c"
      "runePending (pend @ [b]) (c\<lparr>currentRune := ?r, seqHave := seqHave c + 1\<rparr>)"
    using emit_inside [OF that(1,2)] rune_inside [OF h(1,3,4) that(3)] by simp
  have "\<exists>c'. H2RuneCollectorEmit c b = Ok c' \<and> runeHolds (?cc @ pend @ [b]) c'"
    using pend unfolding runePending_def
  proof (elim disjE exE conjE)
    assume p: "pend = []" "seqNeed c = 0"
    note l = emit_lead [OF p(2), of b]
    from acc(1) [OF p(1)] show ?thesis
    proof (elim disjE conjE)
      assume b: "unat b < 0x80"
      have "unat (ucast b :: 32 word) = unat b"
        by (simp add: unsigned_ucast_eq take_bit_nat_eq_self_iff order_less_trans [OF unsigned_less])
      with b l(1) [OF b] encode1 [OF b] done_ [of c "unat b" "ucast b" "collectRune c (ucast b)"] h p show ?thesis by simp
    next
      assume b: "0xC2 \<le> unat b" "unat b \<le> 0xDF"
      have "runePending [b] (c\<lparr>seqNeed := 2, seqHave := 1, currentRune := ucast (b AND 0x1F)\<rparr>)"
        using b by (simp add: runePending_def byte_mask_unat small_mod)
      from l(2) [OF b] rune_inside [OF h(1,3,4) this] p show ?thesis by simp
    next
      assume b: "0xE0 \<le> unat b" "unat b \<le> 0xEF"
      have "runePending [b] (c\<lparr>seqNeed := 3, seqHave := 1, currentRune := ucast (b AND 0x0F)\<rparr>)"
        using b by (simp add: runePending_def byte_mask_unat small_mod)
      from l(3) [OF b] rune_inside [OF h(1,3,4) this] p show ?thesis by simp
    next
      assume b: "0xF0 \<le> unat b" "unat b \<le> 0xF4"
      have "runePending [b] (c\<lparr>seqNeed := 4, seqHave := 1, currentRune := ucast (b AND 0x07)\<rparr>)"
        using b by (simp add: runePending_def byte_mask_unat small_mod)
      from l(4) [OF b] rune_inside [OF h(1,3,4) this] p show ?thesis by simp
    qed
  next
    fix b0 assume p: "pend = [b0]" "seqHave c = 1" "seqNeed c = 2" "0xC2 \<le> unat b0" "unat b0 \<le> 0xDF"
      "unat (currentRune c) = unat b0 - 0xC0"
    then have s: "H2UTF8SecondByteValid b0 b" using acc(2) [of b0] by simp
    then obtain n where n: "scalarValue n" "utf8Encode n = [b0, b]" "n = (unat b0 - 0xC0) * 64 + (unat b - 0x80)"
      using value2 [of b0 b] p lead_second(1) by blast
    have "unat ?r = n" using shift_in [of "currentRune c" b] p n second_range [OF s] cont_mod [of b] by simp
    from final [OF _ _ n(1) this] n p show ?thesis by simp
  next
    fix b0 assume p: "pend = [b0]" "seqHave c = 1" "seqNeed c = 3" "0xE0 \<le> unat b0" "unat b0 \<le> 0xEF"
      "unat (currentRune c) = unat b0 - 0xE0"
    then have s: "H2UTF8SecondByteValid b0 b" using acc(2) [of b0] by simp
    have "unat ?r = (unat b0 - 0xE0) * 64 + (unat b - 0x80)"
      using shift_in [of "currentRune c" b] p second_range [OF s] cont_mod [of b] by simp
    with p s show ?thesis by (intro inside) (simp_all add: runePending_def)
  next
    fix b0 assume p: "pend = [b0]" "seqHave c = 1" "seqNeed c = 4" "0xF0 \<le> unat b0" "unat b0 \<le> 0xF4"
      "unat (currentRune c) = unat b0 - 0xF0"
    then have s: "H2UTF8SecondByteValid b0 b" using acc(2) [of b0] by simp
    have "unat ?r = (unat b0 - 0xF0) * 64 + (unat b - 0x80)"
      using shift_in [of "currentRune c" b] p second_range [OF s] cont_mod [of b] by simp
    with p s show ?thesis by (intro inside) (simp_all add: runePending_def)
  next
    fix b0 d assume p: "pend = [b0, d]" "seqHave c = 2" "H2UTF8SecondByteValid b0 d" "seqNeed c = 3"
      "0xE0 \<le> unat b0" "unat b0 \<le> 0xEF" "unat (currentRune c) = (unat b0 - 0xE0) * 64 + (unat d - 0x80)"
    then have s: "contByte b" using acc(3) [of b0 d] by simp
    then obtain n where n: "scalarValue n" "utf8Encode n = [b0, d, b]"
      "n = ((unat b0 - 0xE0) * 64 + (unat d - 0x80)) * 64 + (unat b - 0x80)"
      using value3 [of b0 d b] p lead_second(2) by blast
    have "unat b0 - 0xE0 \<le> 15" using p(6) by simp
    then have "unat (currentRune c) \<le> 2000" using p(7) conjunct2 [OF second_range [OF p(3)]] by linarith
    then have "unat (currentRune c) < 2 ^ 20" by simp
    then have "unat ?r = n" using shift_in [of "currentRune c" b] p n s cont_mod [of b] by (simp add: contByte_def)
    from final [OF _ _ n(1) this] n p show ?thesis by simp
  next
    fix b0 d assume p: "pend = [b0, d]" "seqHave c = 2" "H2UTF8SecondByteValid b0 d" "seqNeed c = 4"
      "0xF0 \<le> unat b0" "unat b0 \<le> 0xF4" "unat (currentRune c) = (unat b0 - 0xF0) * 64 + (unat d - 0x80)"
    then have s: "contByte b" using acc(3) [of b0 d] by simp
    have "unat b0 - 0xF0 \<le> 4" using p(6) by simp
    then have "unat (currentRune c) \<le> 2000" using p(7) conjunct2 [OF second_range [OF p(3)]] by linarith
    then have "unat (currentRune c) < 2 ^ 20" by simp
    then have "unat ?r = ((unat b0 - 0xF0) * 64 + (unat d - 0x80)) * 64 + (unat b - 0x80)"
      using shift_in [of "currentRune c" b] p s cont_mod [of b] by (simp add: contByte_def)
    with p s show ?thesis by (intro inside) (simp_all add: runePending_def)
  next
    fix b0 d e assume p: "pend = [b0, d, e]" "seqHave c = 3" "H2UTF8SecondByteValid b0 d" "contByte e" "seqNeed c = 4"
      "0xF0 \<le> unat b0" "unat b0 \<le> 0xF4"
      "unat (currentRune c) = ((unat b0 - 0xF0) * 64 + (unat d - 0x80)) * 64 + (unat e - 0x80)"
    then have s: "contByte b" using acc(4) [of b0 d e] by simp
    then obtain n where n: "scalarValue n" "utf8Encode n = [b0, d, e, b]"
      "n = (((unat b0 - 0xF0) * 64 + (unat d - 0x80)) * 64 + (unat e - 0x80)) * 64 + (unat b - 0x80)"
      using value4 [of b0 d e b] p lead_second(3) by blast
    have "unat e \<le> 191" using p(4) by (simp add: contByte_def)
    moreover have "(x * 64 + y) * 64 + z \<le> 90000" if "x \<le> 4" "y \<le> 63" "z \<le> 63" for x y z :: nat
      unfolding distrib_right using that by linarith
    ultimately have "unat (currentRune c) \<le> 90000"
      unfolding p(8) using p(7) conjunct2 [OF second_range [OF p(3)]] by simp
    then have lt: "unat (currentRune c) < 2 ^ 20" by simp
    have m: "unat b mod 64 = unat b - 0x80" using s cont_mod [of b] by (simp add: contByte_def)
    have "unat ?r = n" unfolding n(3) shift_in [OF lt] m p(8) ..
    from final [OF _ _ n(1) this] n p show ?thesis by simp
  qed
  then show ?thesis using h(2) by simp
qed

interpretation rune_sink: total_sink H2RuneCollectorEmit runeHolds "\<lambda>x. True"
  by unfold_locales (use rune_step in fastforce)+

lemma runeHolds_init: "runeHolds [] runeCollectorInit"
  unfolding runeHolds_def by (intro exI [of _ "[]"]) (simp add: runeCollectorInit_def runePending_def)
subsection \<open>The entry points\<close>

interpretation malloc_total: total_sink "H2MallocByteEmit (\<lambda>_ _. True)" mallocHolds "\<lambda>x. True"
proof unfold_locales
  show "H2MallocByteEmit (\<lambda>_ _. True) x b \<noteq> Err x'" for x b x'
    by (simp add: H2MallocByteEmit_def H2MallocByteBufEnsure_def Let_def)
qed

lemma malloc_decodeBytes:
  assumes "start < endPos" "endPos \<le> length src" "endPos + 8 \<le> UINT32_MAX"
  shows "H2DecodeStringLiteralMalloc (\<lambda>_ _. True) src start endPos =
    (case decodeBytes src start endPos of Ok bs \<Rightarrow> Ok bs | Err (e, _) \<Rightarrow> Err e | Stuck \<Rightarrow> Stuck)"
proof -
  have "mallocHolds [] \<lparr>mallocBytes = [], mallocCap = 0, reallocCalls = 0\<rparr>" by (simp add: mallocHolds_def)
  from malloc_total.sink_exact [OF assms this] show ?thesis
    by (auto simp: H2DecodeStringLiteralMalloc_def mallocHolds_def)
qed

lemma malloc_meaning:
  assumes "src = pre @ [delim] @ body @ [delim] @ post" "isDelim delim"
    "start = length pre" "endPos = start + length body + 2" "endPos + 8 \<le> UINT32_MAX"
  shows "H2DecodeStringLiteralMalloc (\<lambda>_ _. True) src start endPos = Ok bs \<longleftrightarrow>
           litText (delim = ch CHR ''`'') body = Some bs \<and> utf8Valid bs"
proof -
  have r: "start < endPos" "endPos \<le> length src" "length pre + length body + 10 \<le> UINT32_MAX"
    using assms by simp_all
  show ?thesis
    using decodeBytes_meaning [OF assms(1,2) r(3)] malloc_decodeBytes [OF r(1,2) assms(5)] assms(3,4)
    by (cases "litText (delim = ch CHR ''`'') body") (auto split: if_splits)
qed

text \<open>C3: decoding is exactly the reference meaning: a literal, wherever it stands in the
source, decodes to given bytes if and only if its text denotes those bytes and they are valid
UTF-8; otherwise it is refused with a diagnosis. The meaning of the text has its own tables of
escapes and digits.\<close>

theorem string_literal_meaning:
  assumes "src = pre @ [delim] @ body @ [delim] @ post" "delim \<in> {0x22, 0x27, 0x60}"
    "start = length pre" "endPos = start + length body + 2" "endPos + 8 \<le> UINT32_MAX"
  shows "(H2DecodeStringLiteralMalloc (\<lambda>_ _. True) src start endPos = Ok bs \<longleftrightarrow>
           litText (delim = 0x60) body = Some bs \<and> utf8Valid bs) \<and>
    H2DecodeStringLiteralMalloc (\<lambda>_ _. True) src start endPos \<noteq> Stuck"
proof -
  have d: "isDelim delim" "ch CHR ''`'' = 0x60" using assms(2) by (auto simp: isDelim_def ch_def)
  have r: "start < endPos" "endPos \<le> length src" using assms by simp_all
  have "decodeBytes src start endPos \<noteq> Stuck"
    using null_sink.sink_exact [OF r assms(5), of "()"] by auto
  then have "H2DecodeStringLiteralMalloc (\<lambda>_ _. True) src start endPos \<noteq> Stuck"
    unfolding malloc_decodeBytes [OF r assms(5)] by (simp split: outcome.split prod.split)
  with malloc_meaning [OF assms(1) d(1) assms(3-5)] show ?thesis by (simp add: d(2))
qed

text \<open>C13: the three decoders agree and are memory safe: on any span of the source, validation,
the malloc decoder and the arena decoder accept together with the same bytes or fail with the
same diagnosis, none reads or writes out of bounds; only the arena decoder may in addition run
out of memory, and the bytes it returns are in a region of the arena that was not in use.\<close>

theorem string_decoders_agree:
  assumes "start < endPos" "endPos \<le> length src" "endPos + 8 \<le> UINT32_MAX" "arenaWf st ar"
  shows "(case H2DecodeStringLiteralValidate src start endPos of
      Stuck \<Rightarrow> False
    | Err e \<Rightarrow> H2DecodeStringLiteralMalloc (\<lambda>_ _. True) src start endPos = Err e \<and>
        (\<exists>e' ar'. H2DecodeStringLiteralArena ar src start endPos = Err (e', ar') \<and> arenaWf st ar' \<and>
           (e' = e \<or> sekind e' = H2StringLitErr_ARENA_OOM))
    | Ok _ \<Rightarrow> (\<exists>bs. H2DecodeStringLiteralMalloc (\<lambda>_ _. True) src start endPos = Ok bs \<and>
        ((\<exists>buf. H2DecodeStringLiteralArena ar src start endPos = Ok buf \<and> bufBytes buf = bs \<and>
            length bs \<le> bufCap buf \<and> arenaWf st (bufArena buf) \<and>
            (\<forall>p. bufV buf = Some p \<longrightarrow> region (p, bufCap buf) \<inter> arenaUsed ar = {} \<and>
               region (p, bufCap buf) \<subseteq> arenaUsed (bufArena buf))) \<or>
         (\<exists>e ar'. H2DecodeStringLiteralArena ar src start endPos = Err (e, ar') \<and> arenaWf st ar' \<and>
            sekind e = H2StringLitErr_ARENA_OOM))))"
proof -
  let ?b = "\<lparr>bufArena = ar, bufV = None, bufBytes = [], bufCap = 0\<rparr>"
  have h: "arenaHolds st ar [] ?b" using assms(4) by (simp add: arenaHolds_def)
  note v = validate_decodeBytes [OF assms(1-3)] and m = malloc_decodeBytes [OF assms(1-3)]
  have d: "H2DecodeStringLiteralArena ar src start endPos =
     (case H2DecodeStringLiteralImpl src start endPos (Some H2ArenaByteEmit) ?b of
        Ok buf \<Rightarrow> Ok buf | Err (e, buf) \<Rightarrow> Err (e, bufArena buf) | Stuck \<Rightarrow> Stuck)"
    by (simp add: H2DecodeStringLiteralArena_def)
  have out: "case decodeBytes src start endPos of Stuck \<Rightarrow> False | _ \<Rightarrow> True"
    using null_sink.sink_exact [OF assms(1-3), of "()"] by auto
  from arena_sink.sink_follows [OF assms(1-3) h] consider
      (ok) bs x where "decodeBytes src start endPos = Ok bs"
        "H2DecodeStringLiteralImpl src start endPos (Some H2ArenaByteEmit) ?b = Ok x" "arenaHolds st ar bs x"
    | (err) e bs x where "decodeBytes src start endPos = Err (e, bs)"
        "H2DecodeStringLiteralImpl src start endPos (Some H2ArenaByteEmit) ?b = Err (e, x)" "arenaHolds st ar bs x"
    | (oom) e x where "H2DecodeStringLiteralImpl src start endPos (Some H2ArenaByteEmit) ?b = Err (e, x)"
        "sekind e = H2StringLitErr_ARENA_OOM" "arenaSpent st ar x" by blast
  then show ?thesis
  proof cases
    case ok
    with v m d show ?thesis by (cases "bufV x") (auto simp: arenaHolds_def)
  next
    case err
    with v m d show ?thesis by (simp add: arenaHolds_def)
  next
    case oom
    with v m d out show ?thesis
      by (cases "decodeBytes src start endPos") (auto simp: arenaSpent_def)
  qed
qed

text \<open>A span that decodes is delimited text, and what it decodes to is valid UTF-8.\<close>

lemma decodeBytes_split:
  assumes "start < endPos" "endPos \<le> length src" "endPos + 8 \<le> UINT32_MAX" "decodeBytes src start endPos = Ok bs"
  obtains pre delim body post where "src = pre @ [delim] @ body @ [delim] @ post" "isDelim delim"
    "length pre = start" "endPos = length pre + length body + 2"
proof -
  have u: "u32 (start + 1) = start + 1" "u32 (Suc start) = Suc start" using assms by simp_all
  have g: "start + 1 < endPos" "isDelim (src ! start)" "src ! (endPos - 1) = src ! start"
    using assms by (auto simp: decodeBytes_def H2DecodeStringLiteralImpl_def Let_def u peek_def split: if_splits)
  let ?body = "take (endPos - start - 2) (drop (start + 1) src)"
  have "src = take start src @ drop start src" by simp
  also have "drop start src = src ! start # drop (start + 1) src"
    using assms g by (simp add: Cons_nth_drop_Suc)
  also have "drop (start + 1) src = ?body @ drop (endPos - start - 2) (drop (start + 1) src)"
    by (rule append_take_drop_id [symmetric])
  also have "drop (endPos - start - 2) (drop (start + 1) src) = drop (endPos - 1) src"
    using g by (simp add: Suc_diff_Suc numeral_2_eq_2)
  also have "drop (endPos - 1) src = src ! (endPos - 1) # drop endPos src"
    using assms g Cons_nth_drop_Suc [of "endPos - 1" src] by simp
  finally have "src = take start src @ [src ! start] @ ?body @ [src ! start] @ drop endPos src"
    using g(3) by simp
  moreover have "endPos = length (take start src) + length ?body + 2" using assms g by simp
  ultimately show ?thesis using that [of "take start src" "src ! start" ?body "drop endPos src"] g(2) assms by simp
qed

lemma decodeBytes_valid:
  assumes "start < endPos" "endPos \<le> length src" "endPos + 8 \<le> UINT32_MAX" "decodeBytes src start endPos = Ok bs"
  shows "utf8Valid bs"
proof -
  from decodeBytes_split [OF assms] obtain pre delim body post where
    s: "src = pre @ [delim] @ body @ [delim] @ post" "isDelim delim" "length pre = start" "endPos = length pre + length body + 2" .
  from decodeBytes_meaning [OF s(1,2)] s(3,4) assms(3,4) show ?thesis
    by (auto split: option.splits if_splits)
qed

lemma pending_incomplete:
  assumes "\<forall>n\<in>set cps. scalarValue n" "utf8Valid (concat (map utf8Encode cps) @ pend)" "runePending pend c"
  shows "pend = []"
proof -
  have "utf8Accepts utf8Init (concat (map utf8Encode cps) @ pend)"
    using assms(2) by (subst utf8Accepts_valid) (simp_all add: utf8Init_def)
  moreover have "utf8Accepts utf8Init (concat (map utf8Encode cps))"
    using assms(1) by (subst utf8Accepts_valid) (auto simp: utf8Init_def utf8Valid_def)
  ultimately obtain u where "need u = 0" "utf8Accepts u pend"
    by (auto simp: utf8Accepts_def utf8Run_append split: option.splits)
  then have "utf8Valid pend" using utf8Accepts_valid by blast
  with assms(3) show ?thesis
    unfolding runePending_def by (elim disjE exE conjE) (auto simp: utf8Valid_Cons lead2_def lead3_def lead4_def)
qed

lemma rune_value:
  assumes "start < endPos" "endPos \<le> length src" "endPos + 8 \<le> UINT32_MAX"
  shows "(case H2DecodeStringLiteralMalloc (\<lambda>_ _. True) src start endPos of
      Stuck \<Rightarrow> False
    | Err e \<Rightarrow> H2DecodeRuneLiteralValidate src start endPos =
        Err \<lparr>rekind = runeErrOfStringErr (sekind e), restart = sestart e, reend = seend e\<rparr>
    | Ok bs \<Rightarrow> \<exists>cps. (\<forall>n\<in>set cps. scalarValue n) \<and> bs = concat (map utf8Encode cps) \<and>
        H2DecodeRuneLiteralValidate src start endPos =
          (case cps of
             [] \<Rightarrow> Err \<lparr>rekind = H2RuneLitErr_EMPTY, restart = start, reend = endPos\<rparr>
           | [n] \<Rightarrow> Ok (of_nat n)
           | _ \<Rightarrow> Err \<lparr>rekind = H2RuneLitErr_MULTIPLE_CODEPOINTS, restart = start, reend = endPos\<rparr>))"
  using rune_sink.sink_exact [OF assms runeHolds_init]
proof (elim disjE exE conjE)
  fix e acc x
  assume "decodeBytes src start endPos = Err (e, acc)"
    "H2DecodeStringLiteralImpl src start endPos (Some H2RuneCollectorEmit) runeCollectorInit = Err (e, x)"
  with malloc_decodeBytes [OF assms] show ?thesis by (simp add: H2DecodeRuneLiteralValidate_def)
next
  fix bs c
  assume d: "decodeBytes src start endPos = Ok bs"
    and r: "H2DecodeStringLiteralImpl src start endPos (Some H2RuneCollectorEmit) runeCollectorInit = Ok c"
    and h: "runeHolds bs c"
  from h obtain cps pend where p: "\<forall>n\<in>set cps. scalarValue n" "bs = concat (map utf8Encode cps) @ pend"
    "codepointCount c = length cps" "cps \<noteq> [] \<longrightarrow> unat (rune c) = hd cps" "runePending pend c"
    unfolding runeHolds_def by blast
  have "utf8Valid (concat (map utf8Encode cps) @ pend)" using decodeBytes_valid [OF assms d] p(2) by simp
  from pending_incomplete [OF p(1) this p(5)] have "pend = []" .
  with p d r malloc_decodeBytes [OF assms] show ?thesis
    by (auto simp: H2DecodeRuneLiteralValidate_def word_unat_eq_iff unat_of_nat take_bit_nat_eq_self scalarValue_def
        intro!: exI [of _ cps] split: list.splits)
qed

text \<open>C19: what a rune literal is: it is accepted exactly when its text denotes one scalar value,
which is then the result; no character, several characters and undecodable text are the
errors the code reports for them.\<close>

theorem rune_literal_value:
  assumes "start < endPos" "endPos \<le> length src" "endPos + 8 \<le> UINT32_MAX"
  shows "(case H2DecodeStringLiteralMalloc (\<lambda>_ _. True) src start endPos of
      Stuck \<Rightarrow> False
    | Err e \<Rightarrow> H2DecodeRuneLiteralValidate src start endPos =
        Err \<lparr>rekind = runeErrOfStringErr (sekind e), restart = sestart e, reend = seend e\<rparr>
    | Ok bs \<Rightarrow> \<exists>cps. (\<forall>n\<in>set cps. scalarValue n) \<and> bs = concat (map utf8Encode cps) \<and>
        H2DecodeRuneLiteralValidate src start endPos =
          (case cps of
             [] \<Rightarrow> Err \<lparr>rekind = H2RuneLitErr_EMPTY, restart = start, reend = endPos\<rparr>
           | [n] \<Rightarrow> Ok (of_nat n)
           | _ \<Rightarrow> Err \<lparr>rekind = H2RuneLitErr_MULTIPLE_CODEPOINTS, restart = start, reend = endPos\<rparr>))"
  by (rule rune_value [OF assms])

subsection \<open>Escapes and their decoding\<close>

text \<open>The 8-digit escape of a scalar value, as source text.\<close>

definition hexChar :: "nat \<Rightarrow> byte" where
  "hexChar d = (if d < 10 then of_nat (0x30 + d) else of_nat (0x61 + (d - 10)))"

fun hexDigits :: "nat \<Rightarrow> nat \<Rightarrow> byte list" where
  "hexDigits 0 n = []"
| "hexDigits (Suc k) n = hexDigits k (n div 16) @ [hexChar (n mod 16)]"

definition escapeU :: "nat \<Rightarrow> byte list" where
  "escapeU n = [0x5C, ch CHR ''U''] @ hexDigits 8 n"

lemma hexDigit_hexChar: "d < 16 \<Longrightarrow> H2HexDigit (hexChar d) = int d"
proof -
  have "\<forall>d\<in>set [0..<16]. H2HexDigit (hexChar d) = int d" by code_simp
  then show "d < 16 \<Longrightarrow> H2HexDigit (hexChar d) = int d" by simp
qed

lemma length_hexDigits [simp]: "length (hexDigits k n) = k"
  by (induction k arbitrary: n) auto

lemma hexNat_hexDigits: "n < 16 ^ k \<Longrightarrow> hexNat (hexDigits k n) = Some n"
proof -
  have d: "\<forall>d\<in>set (hexDigits k n). H2HexDigit d \<ge> 0" for k n
    by (induction k arbitrary: n) (auto simp: hexDigit_hexChar)
  have "n < 16 ^ k \<Longrightarrow> foldl (\<lambda>v d. v * 16 + nat (H2HexDigit d)) 0 (hexDigits k n) = n"
  proof (induction k arbitrary: n)
    case (Suc k)
    then have "n div 16 < 16 ^ k" by (simp add: less_mult_imp_div_less mult.commute)
    with Suc show ?case by (simp add: hexDigit_hexChar)
  qed simp
  with d show "n < 16 ^ k \<Longrightarrow> hexNat (hexDigits k n) = Some n" by (simp add: hexNat_code)
qed

lemma litText_escapeU:
  assumes "scalarValue n"
  shows "litText False (escapeU n) = Some (utf8Encode n)"
proof -
  have "n < 16 ^ 8" using assms by (simp add: scalarValue_def)
  note h = hexNat_hexDigits [OF this]
  have "runeText 8 (hexDigits 8 n) = Some (utf8Encode n, [])"
    using h assms by (simp add: runeText_def)
  then have "textStep False (escapeU n) = Some (utf8Encode n, [])"
    by (simp add: textStep_def escapeU_def escapeText_code simpleEscape_def ch_def)
  then show ?thesis
    by (simp add: litText.simps [of _ "escapeU n"] litText.simps [of _ "[]"]) (simp add: escapeU_def)
qed

lemma litText_plain:
  "\<forall>b\<in>set bs. b \<noteq> 0x0D \<and> b \<noteq> ch CHR 0x5C \<Longrightarrow> litText raw bs = Some bs"
proof (induction bs)
  case Nil
  then show ?case by (simp add: litText.simps)
next
  case (Cons b bs)
  then show ?case by (subst litText.simps) (simp add: textStep_def)
qed

lemma utf8Encode_plain:
  assumes "scalarValue n" "n \<noteq> 0x0D" "n \<noteq> 0x5C" "b \<in> set (utf8Encode n)"
  shows "b \<noteq> 0x0D \<and> b \<noteq> ch CHR 0x5C"
proof (cases "n < 0x80")
  case True
  with assms have "b = of_nat n" by (simp add: utf8Encode_def)
  with True assms(2,3) show ?thesis by (auto simp: word_unat_eq_iff unat_byte_of_nat ch_def)
next
  case False
  have u: "128 \<le> unat (of_nat (128 + k) :: byte)" if "k < 128" for k
    using that by (simp only: unat_byte_of_nat)
  have "128 \<le> unat b"
  proof -
    have m: "n div 64 mod 64 < 128" "n mod 64 < 128" "n div 4096 mod 64 < 128"
      by (rule order_less_trans [of _ 64]; simp)+
    consider "n < 0x800" | "\<not> n < 0x800" "n < 0x10000" | "\<not> n < 0x10000" by linarith
    then show ?thesis
    proof cases
      case 1
      then have "n div 64 < 32" by (intro less_mult_imp_div_less) simp
      with 1 False assms(4) u [OF m(2)] u [of "64 + n div 64"] show ?thesis
        by (auto simp: utf8Encode_def simp del: of_nat_add)
    next
      case 2
      then have "n div 4096 < 16" by (intro less_mult_imp_div_less) simp
      with 2 False assms(4) u [OF m(1)] u [OF m(2)] u [of "96 + n div 4096"] show ?thesis
        by (auto simp: utf8Encode_def simp del: of_nat_add)
    next
      case 3
      have "n div 262144 < 8" using assms(1) unfolding scalarValue_def by (intro less_mult_imp_div_less) simp
      with 3 False assms(4) u [OF m(1)] u [OF m(2)] u [OF m(3)] u [of "112 + n div 262144"] show ?thesis
        by (auto simp: utf8Encode_def simp del: of_nat_add)
    qed
  qed
  then show ?thesis by (auto simp: word_unat_eq_iff ch_def)
qed

lemma rune_of_body:
  assumes "litText False body = Some (utf8Encode n)" "scalarValue n" "length body \<le> 100"
  shows "H2DecodeRuneLiteralValidate ([0x27] @ body @ [0x27]) 0 (length body + 2) = Ok (of_nat n)"
proof -
  let ?src = "[0x27] @ body @ [0x27] :: byte list" and ?e = "length body + 2"
  have r: "0 < ?e" "?e \<le> length ?src" "?e + 8 \<le> UINT32_MAX" using assms(3) by simp_all
  have s: "?src = [] @ [0x27] @ body @ [0x27] @ []" by simp
  have q: "isDelim 0x27" "(0x27 :: byte) \<noteq> ch CHR ''`''" by (simp_all add: isDelim_def ch_def)
  have "decodeBytes ?src 0 ?e = Ok (utf8Encode n)"
    using decodeBytes_meaning [OF s q(1)] q(2) assms utf8Valid_encode [OF assms(2)] by simp
  with rune_sink.sink_exact [OF r runeHolds_init] obtain c where c: "runeHolds (utf8Encode n) c"
    "H2DecodeStringLiteralImpl ?src 0 ?e (Some H2RuneCollectorEmit) runeCollectorInit = Ok c" by auto
  from c(1) obtain cps pend where p: "\<forall>n\<in>set cps. scalarValue n" "utf8Encode n = concat (map utf8Encode cps) @ pend"
    "codepointCount c = length cps" "cps \<noteq> [] \<longrightarrow> unat (rune c) = hd cps" "runePending pend c"
    unfolding runeHolds_def by blast
  have "pend = []"
    by (rule pending_incomplete [OF p(1) _ p(5)]) (use p(2) utf8Valid_encode [OF assms(2)] in simp)
  with p(2) have "concat (map utf8Encode cps) = concat (map utf8Encode [n])" by simp
  with p(1) assms(2) have "cps = [n]" using utf8_unique [of cps "[n]"] by simp
  have "n < 2 ^ LENGTH(32)" using assms(2) by (simp add: scalarValue_def)
  then have "unat (of_nat n :: 32 word) = n" by (simp only: unat_of_nat mod_less)
  with p c(2) \<open>cps = [n]\<close> show ?thesis
    by (simp add: H2DecodeRuneLiteralValidate_def word_unat_eq_iff)
qed

text \<open>C28: round trip through the decoder: a scalar value written as its 8-digit escape decodes
to that value, and so does one written as its own UTF-8 bytes, but for two characters that have
a meaning of their own in a literal: a carriage return is a line end and decodes to the line
feed, and a backslash alone is an escape without its character, which is an error.\<close>

theorem rune_literal_roundtrip:
  assumes "scalarValue n"
  shows "H2DecodeRuneLiteralValidate ([0x27] @ escapeU n @ [0x27]) 0 12 = Ok (of_nat n) \<and>
    H2DecodeRuneLiteralValidate ([0x27] @ utf8Encode n @ [0x27]) 0 (length (utf8Encode n) + 2) =
      (if n = 0x0D then Ok 0x0A
       else if n = 0x5C then Err \<lparr>rekind = H2RuneLitErr_INVALID_ESCAPE, restart = 1, reend = 2\<rparr>
       else Ok (of_nat n))"
proof (intro conjI)
  have "length (escapeU n) = 10" by (simp add: escapeU_def)
  with rune_of_body [OF litText_escapeU [OF assms] assms]
  show "H2DecodeRuneLiteralValidate ([0x27] @ escapeU n @ [0x27]) 0 12 = Ok (of_nat n)" by simp
next
  have cr: "H2DecodeRuneLiteralValidate ([0x27] @ utf8Encode 0x0D @ [0x27]) 0 (length (utf8Encode 0x0D) + 2) = Ok 0x0A"
    by code_simp
  have bs: "H2DecodeRuneLiteralValidate ([0x27] @ utf8Encode 0x5C @ [0x27]) 0 (length (utf8Encode 0x5C) + 2) =
      Err \<lparr>rekind = H2RuneLitErr_INVALID_ESCAPE, restart = 1, reend = 2\<rparr>"
    by code_simp
  have "litText False (utf8Encode n) = Some (utf8Encode n)" if "n \<noteq> 0x0D" "n \<noteq> 0x5C"
    using utf8Encode_plain [OF assms that] by (intro litText_plain) blast
  with rune_of_body [of "utf8Encode n" n] assms utf8Encode_le4 [of n] cr bs
  show "H2DecodeRuneLiteralValidate ([0x27] @ utf8Encode n @ [0x27]) 0 (length (utf8Encode n) + 2) =
      (if n = 0x0D then Ok 0x0A
       else if n = 0x5C then Err \<lparr>rekind = H2RuneLitErr_INVALID_ESCAPE, restart = 1, reend = 2\<rparr>
       else Ok (of_nat n))"
    by force
qed

text \<open>octal escapes are taken modulo 256: an escape above \<open>\\377\<close>, which Go rejects, decodes
like the one with 4 subtracted from its first digit.\<close>

theorem octal_escape_wraps:
  assumes "0x34 \<le> unat c" "unat c \<le> 0x37" "H2OctalDigit d" "H2OctalDigit e"
  shows "H2DecodeStringLiteralMalloc (\<lambda>_ _. True) ([0x22, 0x5C, c, d, e, 0x22] @ post) 0 6 = Ok bs \<longleftrightarrow>
         H2DecodeStringLiteralMalloc (\<lambda>_ _. True) ([0x22, 0x5C, c - 4, d, e, 0x22] @ post) 0 6 = Ok bs"
proof -
  have q: "isDelim 0x22" "(0x22 :: byte) \<noteq> ch CHR ''`''" by (simp_all add: isDelim_def ch_def)
  have m: "H2DecodeStringLiteralMalloc (\<lambda>_ _. True) ([0x22, 0x5C, x, d, e, 0x22] @ post) 0 6 = Ok bs \<longleftrightarrow>
      litText False [0x5C, x, d, e] = Some bs \<and> utf8Valid bs" for x
    using malloc_meaning [of "[0x22, 0x5C, x, d, e, 0x22] @ post" "[]" "0x22" "[0x5C, x, d, e]" post 0 6 bs] q by simp
  have u: "unat (c - 4) = unat c - 4" using assms(1) by (simp add: unat_sub word_le_nat_alt)
  have s: "simpleEscape x = None \<and> x \<noteq> 0x0A \<and> x \<noteq> 0x0D \<and> x \<noteq> ch CHR ''x'' \<and> x \<noteq> ch CHR ''u'' \<and> x \<noteq> ch CHR ''U''"
    if "H2OctalDigit x" for x
  proof -
    have "48 \<le> unat x" "unat x \<le> 55" using that by (simp_all add: H2OctalDigit_def ch_def word_le_nat_alt)
    then show ?thesis by (auto simp: simpleEscape_def ch_def)
  qed
  have o: "H2OctalDigit c" "H2OctalDigit (c - 4)"
    using assms(1,2) u by (auto simp: H2OctalDigit_def ch_def word_le_nat_alt)
  have "textStep False [0x5C, x, d, e] = octalText x [d, e]" if "H2OctalDigit x" for x
    using s [OF that] by (simp add: textStep_def escapeText_code ch_def)
  moreover have "octalText c [d, e] = octalText (c - 4) [d, e]"
  proof -
    have "(unat c - 48) * 64 + (unat d - 48) * 8 + (unat e - 48) =
       256 + ((unat (c - 4) - 48) * 64 + (unat d - 48) * 8 + (unat e - 48))"
      using u assms(1) by simp
    then have "(of_nat ((unat c - 48) * 64 + (unat d - 48) * 8 + (unat e - 48)) :: byte) =
      of_nat ((unat (c - 4) - 48) * 64 + (unat d - 48) * 8 + (unat e - 48))"
      by (simp only: of_nat_add) simp
    then show ?thesis using o assms(3,4) by (simp add: octalText_code del: of_nat_add of_nat_mult)
  qed
  ultimately show ?thesis
    unfolding m using o by (simp add: litText.simps [of _ "0x5C # _"])
qed

subsection \<open>Witnesses\<close>

lemma string_literal_meaning_witness:
  "H2DecodeStringLiteralMalloc (\<lambda>_ _. True) [0x78, 0x22, 0x61, 0x5C, 0x6E, 0xC3, 0xA9, 0x22, 0x3B] 1 8 = Ok [0x61, 0x0A, 0xC3, 0xA9]"
proof -
  have "utf8Accepts utf8Init [0x61, 0x0A, 0xC3, 0xA9]" by code_simp
  then have "utf8Valid [0x61, 0x0A, 0xC3, 0xA9]" by (subst (asm) utf8Accepts_valid) (simp_all add: utf8Init_def)
  moreover have "litText False [0x61, 0x5C, 0x6E, 0xC3, 0xA9] = Some [0x61, 0x0A, 0xC3, 0xA9]" by code_simp
  ultimately show ?thesis
    using string_literal_meaning [of "[0x78, 0x22, 0x61, 0x5C, 0x6E, 0xC3, 0xA9, 0x22, 0x3B]" "[0x78]" "0x22"
        "[0x61, 0x5C, 0x6E, 0xC3, 0xA9]" "[0x3B]" 1 8 "[0x61, 0x0A, 0xC3, 0xA9]"]
    by (simp add: isDelim_def ch_def)
qed

lemma string_decoders_agree_witness:
  "\<exists>bs. H2DecodeStringLiteralValidate [0x22, 0x61, 0x22] 0 3 = Ok () \<and>
     H2DecodeStringLiteralMalloc (\<lambda>_ _. True) [0x22, 0x61, 0x22] 0 3 = Ok bs"
proof -
  have "H2DecodeStringLiteralValidate [0x22, 0x61, 0x22] 0 3 = Ok ()" by code_simp
  with string_decoders_agree [of 0 3 "[0x22, 0x61, 0x22]" "{4096..<4160}" exArena] exArena_wf
  show ?thesis by auto
qed

lemma rune_literal_value_witness:
  "H2DecodeRuneLiteralValidate [0x27, 0x61, 0x27] 0 3 = Ok 0x61 \<and>
   (\<exists>cps. H2DecodeStringLiteralMalloc (\<lambda>_ _. True) [0x27, 0x61, 0x27] 0 3 = Ok (concat (map utf8Encode cps)))"
proof -
  have "H2DecodeStringLiteralMalloc (\<lambda>_ _. True) [0x27, 0x61, 0x27] 0 3 = Ok [0x61]"
    "H2DecodeRuneLiteralValidate [0x27, 0x61, 0x27] 0 3 = Ok 0x61" by code_simp+
  with rune_literal_value [of 0 3 "[0x27, 0x61, 0x27]"] show ?thesis by auto
qed

lemma rune_literal_roundtrip_witness:
  "H2DecodeRuneLiteralValidate ([0x27] @ escapeU 0x1F600 @ [0x27]) 0 12 = Ok 0x1F600 \<and>
   escapeU 0x1F600 = cstr [CHR 0x5C, CHR ''U'', CHR ''0'', CHR ''0'', CHR ''0'', CHR ''1'', CHR ''f'', CHR ''6'', CHR ''0'', CHR ''0'']"
proof -
  have "escapeU 0x1F600 = cstr [CHR 0x5C, CHR ''U'', CHR ''0'', CHR ''0'', CHR ''0'', CHR ''1'', CHR ''f'', CHR ''6'', CHR ''0'', CHR ''0'']"
    by code_simp
  with rune_literal_roundtrip [of "0x1F600"] show ?thesis by (simp add: scalarValue_def)
qed

lemma octal_escape_wraps_witness:
  "H2DecodeStringLiteralMalloc (\<lambda>_ _. True) [0x22, 0x5C, 0x35, 0x30, 0x31, 0x22] 0 6 = Ok [0x41]"
proof -
  have "H2DecodeStringLiteralMalloc (\<lambda>_ _. True) [0x22, 0x5C, 0x31, 0x30, 0x31, 0x22] 0 6 = Ok [0x41]" by code_simp
  with octal_escape_wraps [of "0x35" "0x30" "0x31" "[]" "[0x41]"] show ?thesis
    by (simp add: H2OctalDigit_def ch_def)
qed

end
