(* ===== verification/H2Diag.thy ===== *)
theory H2Diag
  imports H2Arena
begin

text \<open>
  Diagnostics (\<open>H2Diag\<close> of \<open>src/libhop.h\<close> and its operations in \<open>src/libhop.c\<close>). Codes are
  numbers, in the order of the generated enum; of the generated table \<open>g_hopDiagInfo\<close> only
  the severity is modelled. Text pointers are optional byte lists. A list of attached items
  is held with the address of its array, which every append replaces: the arena never frees,
  the old array stays behind.
\<close>

subsection \<open>Types\<close>

datatype (plugins only: code size) H2DiagType = H2DiagType_ERROR | H2DiagType_WARNING

datatype (plugins only: code size) H2DiagPhase =
    H2DiagPhase_UNKNOWN | H2DiagPhase_LEX | H2DiagPhase_PARSE | H2DiagPhase_RESOLVE
  | H2DiagPhase_TYPECHECK | H2DiagPhase_CONSTEVAL | H2DiagPhase_MIR | H2DiagPhase_CODEGEN_C
  | H2DiagPhase_CODEGEN_WASM | H2DiagPhase_COMPILER

datatype (plugins only: code size) H2DiagNoteKind =
    H2DiagNoteKind_RELATED | H2DiagNoteKind_PREVIOUS_DEFINITION | H2DiagNoteKind_REQUIRED_BY
  | H2DiagNoteKind_INFERRED_FROM | H2DiagNoteKind_INSTANTIATED_FROM | H2DiagNoteKind_CALLED_FROM
  | H2DiagNoteKind_IMPORTED_HERE | H2DiagNoteKind_CANDIDATE | H2DiagNoteKind_BECAUSE_OF

datatype (plugins only: code size) H2DiagFixItKind =
    H2DiagFixItKind_REPLACE | H2DiagFixItKind_INSERT | H2DiagFixItKind_DELETE

datatype (plugins only: code size) H2DiagExpectationKind =
    H2DiagExpectationKind_TOKEN | H2DiagExpectationKind_DECL_FORM | H2DiagExpectationKind_EXPR_FORM
  | H2DiagExpectationKind_TYPE_KIND | H2DiagExpectationKind_SYMBOL_KIND
  | H2DiagExpectationKind_ARG_SHAPE

record H2DiagNote =
  notekind :: H2DiagNoteKind
  notestart :: nat
  noteend :: nat
  notemessage :: "byte list option"
  notepath :: "byte list option"
  notesource :: "byte list option"

record H2DiagFixIt =
  fixkind :: H2DiagFixItKind
  fixstart :: nat
  fixend :: nat
  fixtext :: "byte list option"

record H2DiagExpectation =
  expkind :: H2DiagExpectationKind
  exptext :: "byte list option"

record H2Diag =
  dcode :: nat
  dtype :: H2DiagType
  dstart :: nat
  dend :: nat
  argStart :: nat
  argEnd :: nat
  argText :: "byte list option"
  argTextLen :: nat
  arg2Start :: nat
  arg2End :: nat
  arg2Text :: "byte list option"
  arg2TextLen :: nat
  relatedStart :: nat
  relatedEnd :: nat
  ddetail :: "byte list option"
  hintOverride :: "byte list option"
  dphase :: H2DiagPhase
  groupId :: nat
  isPrimary :: nat
  dnotes :: "nat option \<times> H2DiagNote list"
  fixIts :: "nat option \<times> H2DiagFixIt list"
  expectations :: "nat option \<times> H2DiagExpectation list"

text \<open>The zeroed diagnostic, \<open>(H2Diag){ 0 }\<close>.\<close>

definition diagZero :: H2Diag where
  "diagZero =
     \<lparr>dcode = 0, dtype = H2DiagType_ERROR, dstart = 0, dend = 0, argStart = 0, argEnd = 0,
      argText = None, argTextLen = 0, arg2Start = 0, arg2End = 0, arg2Text = None, arg2TextLen = 0,
      relatedStart = 0, relatedEnd = 0, ddetail = None, hintOverride = None,
      dphase = H2DiagPhase_UNKNOWN, groupId = 0, isPrimary = 0,
      dnotes = (None, []), fixIts = (None, []), expectations = (None, [])\<rparr>"

subsection \<open>Operations\<close>

definition H2Diag_COUNT :: nat where
  "H2Diag_COUNT = 144"

definition H2DiagTypeOfCode :: "nat \<Rightarrow> H2DiagType" where
  "H2DiagTypeOfCode code =
     (if code \<ge> H2Diag_COUNT then H2DiagType_ERROR
      else if code \<in> {92, 108, 109, 110, 111, 112, 142} then H2DiagType_WARNING
      else H2DiagType_ERROR)"

definition H2DiagResetExtras :: "H2Diag \<Rightarrow> H2Diag" where
  "H2DiagResetExtras diag =
     diag\<lparr>dphase := H2DiagPhase_UNKNOWN, groupId := 0, isPrimary := 1,
          dnotes := (None, []), fixIts := (None, []), expectations := (None, [])\<rparr>"

definition H2DiagReset :: "H2Diag \<Rightarrow> nat \<Rightarrow> H2Diag" where
  "H2DiagReset diag code =
     diag\<lparr>dcode := code, dtype := H2DiagTypeOfCode code, dstart := 0, dend := 0,
          argStart := 0, argEnd := 0, argText := None, argTextLen := 0,
          arg2Start := 0, arg2End := 0, arg2Text := None, arg2TextLen := 0,
          relatedStart := 0, relatedEnd := 0, ddetail := None, hintOverride := None\<rparr>"

definition H2SetDiag :: "H2Diag \<Rightarrow> nat \<Rightarrow> nat \<Rightarrow> nat \<Rightarrow> H2Diag" where
  "H2SetDiag diag code start endPos =
     H2DiagResetExtras ((H2DiagReset diag code)\<lparr>dstart := start, dend := endPos\<rparr>)"

definition H2DiagClear :: "H2Diag \<Rightarrow> H2Diag" where
  "H2DiagClear diag = H2DiagResetExtras (H2DiagReset diag 0)"

text \<open>
  Append one item: a fresh array of the arena receives the old items and the new one. The
  size is computed in 32 bits; when it wraps, the copy would leave the array, which is
  \<open>Stuck\<close>. \<open>arena = None\<close> is the NULL arena.
\<close>

definition H2DiagAppendItems ::
  "H2Arena option \<Rightarrow> nat option \<times> 'a list \<Rightarrow> nat \<Rightarrow> 'a
   \<Rightarrow> (H2Arena option, (nat option \<times> 'a list) \<times> H2Arena) outcome" where
  "H2DiagAppendItems arena dst itemSize item =
     (case arena of
        None \<Rightarrow> Err None
      | Some ar \<Rightarrow>
          (if length (snd dst) = UINT32_MAX then Err (Some ar)
           else
             (let n = length (snd dst) + 1
              in case H2ArenaAlloc ar (u32 (n * itemSize)) 16 of
                   (None, ar') \<Rightarrow> Err (Some ar')
                 | (Some p, ar') \<Rightarrow>
                     (if n * itemSize > UINT32_MAX then Stuck
                      else Ok ((Some p, snd dst @ [item]), ar')))))"

text \<open>Sizes of the item structs on a 64-bit target.\<close>

abbreviation (input) sizeof_H2DiagNote :: nat where "sizeof_H2DiagNote \<equiv> 40"
abbreviation (input) sizeof_H2DiagFixIt :: nat where "sizeof_H2DiagFixIt \<equiv> 24"
abbreviation (input) sizeof_H2DiagExpectation :: nat where "sizeof_H2DiagExpectation \<equiv> 16"

definition H2DiagAddNoteEx ::
  "H2Arena option \<Rightarrow> H2Diag \<Rightarrow> H2DiagNoteKind \<Rightarrow> nat \<Rightarrow> nat \<Rightarrow> byte list option \<Rightarrow> byte list option
   \<Rightarrow> byte list option \<Rightarrow> (H2Arena option \<times> H2Diag, H2Arena \<times> H2Diag) outcome" where
  "H2DiagAddNoteEx arena diag kind start endPos message path source =
     (let note = \<lparr>notekind = kind, notestart = start, noteend = endPos, notemessage = message,
                  notepath = path, notesource = source\<rparr>
      in case H2DiagAppendItems arena (dnotes diag) sizeof_H2DiagNote note of
           Err ar \<Rightarrow> Err (ar, diag)
         | Stuck \<Rightarrow> Stuck
         | Ok (items, ar) \<Rightarrow>
             (let diag1 = diag\<lparr>dnotes := items\<rparr>
              in Ok (ar, if relatedEnd diag1 \<le> relatedStart diag1
                         then diag1\<lparr>relatedStart := start, relatedEnd := endPos\<rparr> else diag1)))"

definition H2DiagAddNote ::
  "H2Arena option \<Rightarrow> H2Diag \<Rightarrow> H2DiagNoteKind \<Rightarrow> nat \<Rightarrow> nat \<Rightarrow> byte list option
   \<Rightarrow> (H2Arena option \<times> H2Diag, H2Arena \<times> H2Diag) outcome" where
  "H2DiagAddNote arena diag kind start endPos message =
     H2DiagAddNoteEx arena diag kind start endPos message None None"

definition H2DiagAddFixIt ::
  "H2Arena option \<Rightarrow> H2Diag \<Rightarrow> H2DiagFixItKind \<Rightarrow> nat \<Rightarrow> nat \<Rightarrow> byte list option
   \<Rightarrow> (H2Arena option \<times> H2Diag, H2Arena \<times> H2Diag) outcome" where
  "H2DiagAddFixIt arena diag kind start endPos text =
     (case H2DiagAppendItems arena (fixIts diag) sizeof_H2DiagFixIt
             \<lparr>fixkind = kind, fixstart = start, fixend = endPos, fixtext = text\<rparr> of
        Err ar \<Rightarrow> Err (ar, diag)
      | Stuck \<Rightarrow> Stuck
      | Ok (items, ar) \<Rightarrow> Ok (ar, diag\<lparr>fixIts := items\<rparr>))"

definition H2DiagAddExpectation ::
  "H2Arena option \<Rightarrow> H2Diag \<Rightarrow> H2DiagExpectationKind \<Rightarrow> byte list option
   \<Rightarrow> (H2Arena option \<times> H2Diag, H2Arena \<times> H2Diag) outcome" where
  "H2DiagAddExpectation arena diag kind text =
     (case H2DiagAppendItems arena (expectations diag) sizeof_H2DiagExpectation
             \<lparr>expkind = kind, exptext = text\<rparr> of
        Err ar \<Rightarrow> Err (ar, diag)
      | Stuck \<Rightarrow> Stuck
      | Ok (items, ar) \<Rightarrow> Ok (ar, diag\<lparr>expectations := items\<rparr>))"

end
