(* ===== verification/H2Lexer.thy ===== *)
theory H2Lexer
  imports H2Syntax H2Diag H2Literals
begin

text \<open>
  The lexer (\<open>H2Lex\<close> of \<open>src/libhop.c\<close>). The source is a byte list; a \<open>uint32_t\<close>
  position below the source length cannot wrap when one is added, so the guarded reads
  \<open>pos < len && src[pos] == c\<close> are the total predicate \<open>looking\<close>. Additions that can leave
  32 bits (the capacity, its size in bytes, the three-dot look-ahead) are written with
  \<open>u32\<close>. Each loop of the C function is a definition of its own.
\<close>

subsection \<open>Character classes and keywords\<close>

definition H2IsAlpha :: "byte \<Rightarrow> bool" where
  "H2IsAlpha c \<longleftrightarrow> (c \<ge> ch CHR ''A'' \<and> c \<le> ch CHR ''Z'') \<or> (c \<ge> ch CHR ''a'' \<and> c \<le> ch CHR ''z'')"

definition H2IsDigit :: "byte \<Rightarrow> bool" where
  "H2IsDigit c \<longleftrightarrow> c \<ge> ch CHR ''0'' \<and> c \<le> ch CHR ''9''"

definition H2IsAlnum :: "byte \<Rightarrow> bool" where
  "H2IsAlnum c \<longleftrightarrow> H2IsAlpha c \<or> H2IsDigit c"

definition H2IsHexDigit :: "byte \<Rightarrow> bool" where
  "H2IsHexDigit c \<longleftrightarrow> H2IsDigit c \<or> (c \<ge> ch CHR ''a'' \<and> c \<le> ch CHR ''f'') \<or>
                     (c \<ge> ch CHR ''A'' \<and> c \<le> ch CHR ''F'')"

text \<open>\<open>b\<close> is a C string without its terminator: its end is the zero byte the loop meets.\<close>

fun H2StrEq :: "byte list \<Rightarrow> string \<Rightarrow> bool" where
  "H2StrEq (x # a) (y # b) = (if x \<noteq> ch y then False else H2StrEq a b)"
| "H2StrEq (x # a) [] = False"
| "H2StrEq [] b = (b = [])"

definition H2KeywordKind :: "byte list \<Rightarrow> H2TokenKind" where
  "H2KeywordKind s =
     (if length s = 2 then
        (if H2StrEq s ''as'' then H2Tok_AS
         else if H2StrEq s ''in'' then H2Tok_IN
         else if H2StrEq s ''fn'' then H2Tok_FN
         else if H2StrEq s ''if'' then H2Tok_IF
         else H2Tok_IDENT)
      else if length s = 3 then
        (if H2StrEq s ''for'' then H2Tok_FOR
         else if H2StrEq s ''var'' then H2Tok_VAR
         else if H2StrEq s ''mut'' then H2Tok_MUT
         else if H2StrEq s ''pub'' then H2Tok_PUB
         else H2Tok_IDENT)
      else if length s = 4 then
        (if H2StrEq s ''enum'' then H2Tok_ENUM
         else if H2StrEq s ''else'' then H2Tok_ELSE
         else if H2StrEq s ''case'' then H2Tok_CASE
         else if H2StrEq s ''true'' then H2Tok_TRUE
         else if H2StrEq s ''null'' then H2Tok_NULL
         else if H2StrEq s ''type'' then H2Tok_TYPE
         else H2Tok_IDENT)
      else if length s = 5 then
        (if H2StrEq s ''alloc'' then H2Tok_ALLOC
         else if H2StrEq s ''break'' then H2Tok_BREAK
         else if H2StrEq s ''const'' then H2Tok_CONST
         else if H2StrEq s ''defer'' then H2Tok_DEFER
         else if H2StrEq s ''false'' then H2Tok_FALSE
         else if H2StrEq s ''union'' then H2Tok_UNION
         else H2Tok_IDENT)
      else if length s = 6 then
        (if H2StrEq s ''import'' then H2Tok_IMPORT
         else if H2StrEq s ''sizeof'' then H2Tok_SIZEOF
         else if H2StrEq s ''return'' then H2Tok_RETURN
         else if H2StrEq s ''switch'' then H2Tok_SWITCH
         else if H2StrEq s ''struct'' then H2Tok_STRUCT
         else if H2StrEq s ''assert'' then H2Tok_ASSERT
         else H2Tok_IDENT)
      else if length s = 7 then
        (if H2StrEq s ''dealloc'' then H2Tok_DEALLOC
         else if H2StrEq s ''anytype'' then H2Tok_ANYTYPE
         else if H2StrEq s ''default'' then H2Tok_DEFAULT
         else H2Tok_IDENT)
      else if length s = 8 then
        (if H2StrEq s ''continue'' then H2Tok_CONTINUE else H2Tok_IDENT)
      else H2Tok_IDENT)"

definition H2TokenCanEndStmt :: "H2TokenKind \<Rightarrow> bool" where
  "H2TokenCanEndStmt kind =
     (case kind of
        H2Tok_IDENT \<Rightarrow> True | H2Tok_INT \<Rightarrow> True | H2Tok_FLOAT \<Rightarrow> True | H2Tok_STRING \<Rightarrow> True
      | H2Tok_RUNE \<Rightarrow> True | H2Tok_TRUE \<Rightarrow> True | H2Tok_FALSE \<Rightarrow> True | H2Tok_BREAK \<Rightarrow> True
      | H2Tok_CONTINUE \<Rightarrow> True | H2Tok_RETURN \<Rightarrow> True | H2Tok_RPAREN \<Rightarrow> True
      | H2Tok_RBRACK \<Rightarrow> True | H2Tok_RBRACE \<Rightarrow> True | H2Tok_NOT \<Rightarrow> True | H2Tok_NULL \<Rightarrow> True
      | H2Tok_TYPE \<Rightarrow> True
      | _ \<Rightarrow> False)"
subsection \<open>The scanning loops\<close>

definition looking :: "byte list \<Rightarrow> nat \<Rightarrow> (byte \<Rightarrow> bool) \<Rightarrow> bool" where
  "looking src pos P \<longleftrightarrow> pos < length src \<and> P (src ! pos)"

text \<open>\<open>while (pos < src.len && P(src[pos])) pos++;\<close>\<close>

function skipWhile :: "(byte \<Rightarrow> bool) \<Rightarrow> byte list \<Rightarrow> nat \<Rightarrow> nat" where
  "skipWhile P src pos = (if looking src pos P then skipWhile P src (pos + 1) else pos)"
  by pat_completeness auto
termination
  by (relation "measure (\<lambda>(P, src, pos). length src - pos)") (auto simp: looking_def)

declare skipWhile.simps [simp del]

text \<open>
  The loop of \<open>H2SkipBlockComment\<close>; the pair \<open>sawNewline\<close>, \<open>newlinePos\<close> is an option.
  The result tells whether the comment was closed.
\<close>

function blockCommentLoop ::
  "byte list \<Rightarrow> nat \<Rightarrow> nat \<Rightarrow> nat option \<Rightarrow> bool \<times> nat \<times> nat option" where
  "blockCommentLoop src pos depth newline =
     (if pos < length src then
        (let c = src ! pos;
             newline' = (if c = 0x0A \<and> newline = None then Some pos else newline)
         in if c = ch CHR ''/'' \<and> looking src (pos + 1) (\<lambda>d. d = ch CHR ''*'')
            then blockCommentLoop src (pos + 2) (depth + 1) newline'
            else if c = ch CHR ''*'' \<and> looking src (pos + 1) (\<lambda>d. d = ch CHR ''/'')
            then (if depth - 1 = 0 then (True, pos + 2, newline')
                  else blockCommentLoop src (pos + 2) (depth - 1) newline')
            else blockCommentLoop src (pos + 1) depth newline')
      else (False, pos, newline))"
  by pat_completeness auto
termination
  by (relation "measure (\<lambda>(src, pos, depth, newline). length src - pos)") auto

declare blockCommentLoop.simps [simp del]

definition H2SkipBlockComment :: "byte list \<Rightarrow> nat \<Rightarrow> nat option \<Rightarrow> bool \<times> nat \<times> nat option" where
  "H2SkipBlockComment src pos newline = blockCommentLoop src (pos + 2) 1 newline"

lemma blockComment_forward: "pos \<le> fst (snd (blockCommentLoop src pos depth newline))"
proof (induction "length src - pos" arbitrary: pos depth newline rule: less_induct)
  case less
  have step: "pos \<le> fst (snd (blockCommentLoop src (Suc pos) d nl))"
    "pos \<le> fst (snd (blockCommentLoop src (Suc (Suc pos)) d nl))" if "pos < length src" for d nl
    using that less [of "Suc pos" d nl] less [of "Suc (Suc pos)" d nl] by linarith+
  then show ?case by (subst blockCommentLoop.simps) (simp add: Let_def)
qed

text \<open>
  White space, newlines and comments before a token: the position after them and the
  first newline, or the span of a block comment that is not closed.
\<close>

definition blankByte :: "byte \<Rightarrow> bool" where
  "blankByte c \<longleftrightarrow> c = ch CHR '' '' \<or> c = 0x09 \<or> c = 0x0D \<or> c = 0x0C \<or> c = 0x0B"

function skipTrivia :: "byte list \<Rightarrow> nat \<Rightarrow> nat option \<Rightarrow> (nat \<times> nat) + (nat \<times> nat option)" where
  "skipTrivia src pos newline =
     (if pos \<ge> length src then Inr (pos, newline)
      else
        (let c = src ! pos
         in if blankByte c then skipTrivia src (pos + 1) newline
            else if c = 0x0A then
              skipTrivia src (pos + 1) (case newline of None \<Rightarrow> Some pos | Some p \<Rightarrow> Some p)
            else if c = ch CHR ''/'' \<and> looking src (pos + 1) (\<lambda>d. d = ch CHR ''/'') then
              skipTrivia src (skipWhile (\<lambda>d. d \<noteq> 0x0A) src (pos + 2)) newline
            else if c = ch CHR ''/'' \<and> looking src (pos + 1) (\<lambda>d. d = ch CHR ''*'') then
              (case H2SkipBlockComment src pos newline of
                 (False, pos', newline') \<Rightarrow> Inl (pos, pos')
               | (True, pos', newline') \<Rightarrow> skipTrivia src pos' newline')
            else Inr (pos, newline)))"
  by pat_completeness auto

lemma skipWhile_ge: "pos \<le> skipWhile P src pos"
proof (induction P src pos rule: skipWhile.induct)
  case (1 P src pos)
  then show ?case by (subst skipWhile.simps) auto
qed

lemma skipComment_forward: "H2SkipBlockComment src pos newline = (ok, pos', nl) \<Longrightarrow> pos + 2 \<le> pos'"
  using blockComment_forward [of "pos + 2" src 1 newline] by (simp add: H2SkipBlockComment_def)

termination skipTrivia
proof (relation "measure (\<lambda>(src, pos, newline). length src - pos)", goal_cases)
  case (4 src pos newline x)
  then show ?case using skipWhile_ge [of "pos + 2" "\<lambda>d. d \<noteq> 0x0A" src] by auto
next
  case (5 src pos newline x y b pos' newline')
  then have "H2SkipBlockComment src pos newline = (True, pos', newline')" by simp
  from skipComment_forward [OF this] 5(1) show ?case by auto
qed auto

declare skipTrivia.simps [simp del]
subsection \<open>Tokens\<close>

text \<open>An error is a diagnostic code with its span.\<close>

type_synonym lexErr = "nat \<times> nat \<times> nat"

definition identByte :: "byte \<Rightarrow> bool" where
  "identByte c \<longleftrightarrow> H2IsAlnum c \<or> c = ch CHR ''_''"

definition lexWord :: "byte list \<Rightarrow> nat \<Rightarrow> H2TokenKind \<times> nat" where
  "lexWord src start =
     (let pos = skipWhile identByte src (start + 1)
      in (H2KeywordKind (take (pos - start) (drop start src)), pos))"

definition lexNumber :: "byte list \<Rightarrow> nat \<Rightarrow> (lexErr, H2TokenKind \<times> nat) outcome" where
  "lexNumber src start =
     (if src ! start = ch CHR ''0'' \<and>
         looking src (start + 1) (\<lambda>c. c = ch CHR ''x'' \<or> c = ch CHR ''X'')
      then
        (let digitsStart = start + 2;
             pos = skipWhile H2IsHexDigit src digitsStart
         in if pos = digitsStart then Err (3, start, pos) else Ok (H2Tok_INT, pos))
      else
        (let pos1 = skipWhile H2IsDigit src start;
             dot = looking src pos1 (\<lambda>c. c = ch CHR ''.'');
             pos2 = (if dot then skipWhile H2IsDigit src (pos1 + 1) else pos1)
         in if looking src pos2 (\<lambda>c. c = ch CHR ''e'' \<or> c = ch CHR ''E'')
            then
              (let pos3 = pos2 + 1;
                   expStart = (if looking src pos3 (\<lambda>c. c = ch CHR ''+'' \<or> c = ch CHR ''-'')
                               then pos3 + 1 else pos3);
                   pos = skipWhile H2IsDigit src expStart
               in if pos = expStart then Err (3, start, pos) else Ok (H2Tok_FLOAT, pos))
            else Ok (if dot then H2Tok_FLOAT else H2Tok_INT, pos2)))"

text \<open>
  The bodies of rune and string literals: the position after the closing delimiter (or
  after the source), or where the source ended after a backslash.
\<close>

function scanRuneBody :: "byte list \<Rightarrow> nat \<Rightarrow> nat + nat" where
  "scanRuneBody src pos =
     (if pos < length src then
        (let c = src ! pos
         in if c = ch CHR 0x27 then Inr (pos + 1)
            else if c = ch CHR 0x5C then
              (if pos + 1 \<ge> length src then Inl (pos + 1)
               else if src ! (pos + 1) = 0x0D \<and> looking src (pos + 2) (\<lambda>d. d = 0x0A)
               then scanRuneBody src (pos + 3)
               else scanRuneBody src (pos + 2))
            else scanRuneBody src (pos + 1))
      else Inr pos)"
  by pat_completeness auto
termination
  by (relation "measure (\<lambda>(src, pos). length src - pos)") auto

function scanStringBody :: "byte \<Rightarrow> byte list \<Rightarrow> nat \<Rightarrow> nat + nat" where
  "scanStringBody quote src pos =
     (if pos < length src then
        (let c = src ! pos
         in if quote = ch CHR ''`'' then
              (if c = ch CHR 0x5C \<and> looking src (pos + 1) (\<lambda>d. d = ch CHR ''`'')
               then scanStringBody quote src (pos + 2)
               else if c = ch CHR ''`'' then Inr (pos + 1)
               else scanStringBody quote src (pos + 1))
            else if c = quote then Inr (pos + 1)
            else if c = ch CHR 0x5C then
              (if pos + 1 \<ge> length src then Inl (pos + 1)
               else if src ! (pos + 1) = 0x0D \<and> looking src (pos + 2) (\<lambda>d. d = 0x0A)
               then scanStringBody quote src (pos + 3)
               else scanStringBody quote src (pos + 2))
            else scanStringBody quote src (pos + 1))
      else Inr pos)"
  by pat_completeness auto
termination
  by (relation "measure (\<lambda>(quote, src, pos). length src - pos)") auto

declare scanRuneBody.simps [simp del] scanStringBody.simps [simp del]

definition lexRune :: "byte list \<Rightarrow> nat \<Rightarrow> (lexErr, H2TokenKind \<times> nat) outcome" where
  "lexRune src start =
     (case scanRuneBody src (start + 1) of
        Inl pos \<Rightarrow> Err (13, start, pos)
      | Inr pos \<Rightarrow>
          (if pos > length src then Err (13, start, pos)
           else peek src (pos - 1) (\<lambda>c.
             if c \<noteq> ch CHR 0x27 then Err (13, start, pos)
             else
               (case H2DecodeRuneLiteralValidate src start pos of
                  Ok _ \<Rightarrow> Ok (H2Tok_RUNE, pos)
                | Err e \<Rightarrow> Err (H2RuneLitErrDiagCode (rekind e), restart e, reend e)
                | Stuck \<Rightarrow> Stuck))))"

definition lexString :: "byte list \<Rightarrow> nat \<Rightarrow> (lexErr, H2TokenKind \<times> nat) outcome" where
  "lexString src start =
     (let quote = src ! start
      in case scanStringBody quote src (start + 1) of
           Inl pos \<Rightarrow> Err (2, start, pos)
         | Inr pos \<Rightarrow>
             (if pos > length src then Err (2, start, pos)
              else peek src (pos - 1) (\<lambda>c.
                if c \<noteq> quote then Err (2, start, pos)
                else
                  (case H2DecodeStringLiteralValidate src start pos of
                     Ok _ \<Rightarrow> Ok (H2Tok_STRING, pos)
                   | Err e \<Rightarrow> Err (H2StringLitErrDiagCode (sekind e), sestart e, seend e)
                   | Stuck \<Rightarrow> Stuck))))"
text \<open>The operator \<open>withEq\<close> when an equals sign follows, else \<open>without\<close>.\<close>

definition withEq ::
  "byte list \<Rightarrow> nat \<Rightarrow> H2TokenKind \<Rightarrow> H2TokenKind \<Rightarrow> (lexErr, H2TokenKind \<times> nat) outcome" where
  "withEq src pos eq without =
     (if looking src pos (\<lambda>d. d = ch CHR ''='') then Ok (eq, pos + 1) else Ok (without, pos))"

definition lexPunct :: "byte list \<Rightarrow> nat \<Rightarrow> (lexErr, H2TokenKind \<times> nat) outcome" where
  "lexPunct src start =
     (let c = src ! start; pos = start + 1 in
      if c = ch CHR ''('' then Ok (H2Tok_LPAREN, pos)
      else if c = ch CHR '')'' then Ok (H2Tok_RPAREN, pos)
      else if c = ch CHR ''{'' then Ok (H2Tok_LBRACE, pos)
      else if c = ch CHR ''}'' then Ok (H2Tok_RBRACE, pos)
      else if c = ch CHR ''['' then Ok (H2Tok_LBRACK, pos)
      else if c = ch CHR '']'' then Ok (H2Tok_RBRACK, pos)
      else if c = ch CHR '','' then Ok (H2Tok_COMMA, pos)
      else if c = ch CHR ''.'' then
        (if u32 (pos + 1) < length src
         then peek src pos (\<lambda>d. if d = ch CHR ''.''
           then peek src (pos + 1) (\<lambda>e. if e = ch CHR ''.''
             then Ok (H2Tok_ELLIPSIS, pos + 2) else Ok (H2Tok_DOT, pos))
           else Ok (H2Tok_DOT, pos))
         else Ok (H2Tok_DOT, pos))
      else if c = ch CHR '';'' then Ok (H2Tok_SEMICOLON, pos)
      else if c = ch CHR '':'' then withEq src pos H2Tok_SHORT_ASSIGN H2Tok_COLON
      else if c = ch CHR ''@'' then Ok (H2Tok_AT, pos)
      else if c = ch CHR ''+'' then withEq src pos H2Tok_ADD_ASSIGN H2Tok_ADD
      else if c = ch CHR ''-'' then withEq src pos H2Tok_SUB_ASSIGN H2Tok_SUB
      else if c = ch CHR ''*'' then withEq src pos H2Tok_MUL_ASSIGN H2Tok_MUL
      else if c = ch CHR ''/'' then withEq src pos H2Tok_DIV_ASSIGN H2Tok_DIV
      else if c = ch CHR ''%'' then withEq src pos H2Tok_MOD_ASSIGN H2Tok_MOD
      else if c = ch CHR ''&'' then
        (if looking src pos (\<lambda>d. d = ch CHR ''&'') then Ok (H2Tok_LOGICAL_AND, pos + 1)
         else withEq src pos H2Tok_AND_ASSIGN H2Tok_AND)
      else if c = ch CHR ''|'' then
        (if looking src pos (\<lambda>d. d = ch CHR ''|'') then Ok (H2Tok_LOGICAL_OR, pos + 1)
         else withEq src pos H2Tok_OR_ASSIGN H2Tok_OR)
      else if c = ch CHR ''^'' then withEq src pos H2Tok_XOR_ASSIGN H2Tok_XOR
      else if c = ch CHR ''?'' then Ok (H2Tok_QUESTION, pos)
      else if c = ch CHR ''!'' then withEq src pos H2Tok_NEQ H2Tok_NOT
      else if c = ch CHR ''='' then withEq src pos H2Tok_EQ H2Tok_ASSIGN
      else if c = ch CHR ''<'' then
        (if looking src pos (\<lambda>d. d = ch CHR ''<'') then withEq src (pos + 1) H2Tok_LSHIFT_ASSIGN H2Tok_LSHIFT
         else withEq src pos H2Tok_LTE H2Tok_LT)
      else if c = ch CHR ''>'' then
        (if looking src pos (\<lambda>d. d = ch CHR ''>'') then withEq src (pos + 1) H2Tok_RSHIFT_ASSIGN H2Tok_RSHIFT
         else withEq src pos H2Tok_GTE H2Tok_GT)
      else Err (1, start, pos))"

definition lexToken :: "byte list \<Rightarrow> nat \<Rightarrow> (lexErr, H2TokenKind \<times> nat) outcome" where
  "lexToken src start =
     (let c = src ! start
      in if H2IsAlpha c \<or> c = ch CHR ''_'' then Ok (lexWord src start)
         else if H2IsDigit c then lexNumber src start
         else if c = ch CHR 0x27 then lexRune src start
         else if c = ch CHR 0x22 \<or> c = ch CHR ''`'' then lexString src start
         else lexPunct src start)"

subsection \<open>The token buffer\<close>

text \<open>
  The buffer holds the address and the bytes of the array the arena handed out: a write of
  the 12-byte token at an index beyond them is \<open>Stuck\<close>.
\<close>

record H2TokenBuf =
  tbv :: nat
  tbbytes :: nat
  tbtoks :: "H2Token list"
  tbcap :: nat

definition H2PushToken ::
  "H2TokenBuf \<Rightarrow> H2TokenKind \<Rightarrow> nat \<Rightarrow> nat \<Rightarrow> (lexErr, H2TokenBuf) outcome" where
  "H2PushToken out kind start endPos =
     (if length (tbtoks out) \<ge> tbcap out then Err (141, start, endPos)
      else if (length (tbtoks out) + 1) * 12 > tbbytes out then Stuck
      else Ok (out\<lparr>tbtoks := tbtoks out @ [\<lparr>tkind = kind, tstart = start, tend = endPos\<rparr>]\<rparr>))"
subsection \<open>Every token ends after its start, inside the source\<close>

lemma skipWhile_le: "pos \<le> length src \<Longrightarrow> skipWhile P src pos \<le> length src"
proof (induction P src pos rule: skipWhile.induct)
  case (1 P src pos)
  then show ?case by (subst skipWhile.simps) (auto simp: looking_def)
qed

lemma skipWhile_less: "looking src pos P \<Longrightarrow> pos < skipWhile P src pos"
  by (subst skipWhile.simps) (use skipWhile_ge [of "pos + 1" P src] in simp)

lemma looking_less [dest]: "looking src pos P \<Longrightarrow> pos < length src"
  by (simp add: looking_def)

lemmas skipWhile_bounds = skipWhile_ge skipWhile_le skipWhile_less

lemma lexWord_span: "start < length src \<Longrightarrow> lexWord src start = (k, p) \<Longrightarrow> start < p \<and> p \<le> length src"
  using skipWhile_ge [of "start + 1" identByte src] skipWhile_le [of "start + 1" src identByte]
  by (auto simp: lexWord_def Let_def)

text \<open>Where a scan of a literal's body from \<open>pos\<close> may end.\<close>

definition scanEnd :: "byte list \<Rightarrow> nat \<Rightarrow> nat + nat \<Rightarrow> bool" where
  "scanEnd src pos r \<longleftrightarrow>
     (case r of Inl p \<Rightarrow> pos < p \<and> p = length src
      | Inr p \<Rightarrow> pos \<le> p \<and> (pos \<le> length src \<longrightarrow> p \<le> length src))"

lemma scanEnd_mono: "scanEnd src q r \<Longrightarrow> pos < q \<Longrightarrow> q \<le> length src \<Longrightarrow> scanEnd src pos r"
  by (auto simp: scanEnd_def split: sum.splits)

lemma scanEnd_Inr: "scanEnd src pos (Inr p) \<longleftrightarrow> pos \<le> p \<and> (pos \<le> length src \<longrightarrow> p \<le> length src)"
  and scanEnd_Inl: "scanEnd src pos (Inl p) \<longleftrightarrow> pos < p \<and> p = length src"
  by (simp_all add: scanEnd_def)

lemma scanRuneBody_end: "scanEnd src pos (scanRuneBody src pos)"
proof (induction "length src - pos" arbitrary: pos rule: less_induct)
  case less
  have step: "scanEnd src pos (scanRuneBody src q)" if "pos < length src" "pos < q" "q \<le> length src" for q
    by (rule scanEnd_mono [OF less that(2,3)]) (use that in linarith)
  show ?case
    by (subst scanRuneBody.simps, unfold Let_def, intro ifI [where P = "scanEnd src pos"] step)
      (auto simp: looking_def scanEnd_Inr scanEnd_Inl)
qed

lemma scanStringBody_end: "scanEnd src pos (scanStringBody quote src pos)"
proof (induction "length src - pos" arbitrary: pos rule: less_induct)
  case less
  have step: "scanEnd src pos (scanStringBody quote src q)" if "pos < length src" "pos < q" "q \<le> length src" for q
    by (rule scanEnd_mono [OF less that(2,3)]) (use that in linarith)
  show ?case
    by (subst scanStringBody.simps, unfold Let_def, intro ifI [where P = "scanEnd src pos"] step)
      (auto simp: looking_def scanEnd_Inr scanEnd_Inl)
qed

lemma lexRune_span: "lexRune src start = Ok (k, p) \<Longrightarrow> start < p \<and> p \<le> length src"
  using scanRuneBody_end [of src "start + 1"]
  by (auto simp: scanEnd_def lexRune_def peek_def split: sum.splits if_splits outcome.splits)

lemma lexString_span: "lexString src start = Ok (k, p) \<Longrightarrow> start < p \<and> p \<le> length src"
  using scanStringBody_end [of src "start + 1" "src ! start"]
  by (auto simp: scanEnd_def lexString_def Let_def peek_def split: sum.splits if_splits outcome.splits)

lemma lexNumber_span:
  assumes "start < length src" "H2IsDigit (src ! start)" "lexNumber src start = Ok (k, p)"
  shows "start < p \<and> p \<le> length src"
proof (cases "src ! start = ch CHR ''0'' \<and> looking src (start + 1) (\<lambda>c. c = ch CHR ''x'' \<or> c = ch CHR ''X'')")
  case True
  with assms(3) skipWhile_ge [of "start + 2" H2IsHexDigit src] skipWhile_le [of "start + 2" src H2IsHexDigit]
  show ?thesis by (auto simp: lexNumber_def Let_def split: if_splits)
next
  case False
  let ?p1 = "skipWhile H2IsDigit src start"
  let ?dot = "looking src ?p1 (\<lambda>c. c = ch CHR ''.'')"
  let ?p2 = "if ?dot then skipWhile H2IsDigit src (?p1 + 1) else ?p1"
  have 1: "start < ?p1" "?p1 \<le> length src"
    using assms skipWhile_less [of src start H2IsDigit] skipWhile_le [of start src H2IsDigit]
    by (simp_all add: looking_def)
  then have 2: "start < ?p2" "?p2 \<le> length src"
    using skipWhile_ge [of "?p1 + 1" H2IsDigit src] skipWhile_le [of "?p1 + 1" src H2IsDigit]
    by (auto simp: looking_def)
  show ?thesis
  proof (cases "looking src ?p2 (\<lambda>c. c = ch CHR ''e'' \<or> c = ch CHR ''E'')")
    case e: True
    let ?e = "if looking src (?p2 + 1) (\<lambda>c. c = ch CHR ''+'' \<or> c = ch CHR ''-'') then ?p2 + 2 else ?p2 + 1"
    have "start < ?e" "?e \<le> length src" using 2 e by (auto simp: looking_def)
    moreover have "p = skipWhile H2IsDigit src ?e"
      using assms(3) False e by (auto simp: lexNumber_def Let_def split: if_splits)
    ultimately show ?thesis using skipWhile_ge [of ?e H2IsDigit src] skipWhile_le [of ?e src H2IsDigit] by linarith
  next
    case e: False
    then have "p = ?p2" using assms(3) False by (auto simp: lexNumber_def Let_def)
    with 2 show ?thesis by blast
  qed
qed

lemma withEq_span: "withEq src pos a b = Ok (k, p) \<Longrightarrow> pos \<le> length src \<Longrightarrow> pos \<le> p \<and> p \<le> length src"
  by (auto simp: withEq_def looking_def split: if_splits)
text \<open>The same for the operators, as a predicate that follows the shape of \<open>lexPunct\<close>.\<close>

definition tokenEnds :: "byte list \<Rightarrow> nat \<Rightarrow> (lexErr, H2TokenKind \<times> nat) outcome \<Rightarrow> bool" where
  "tokenEnds src start r \<longleftrightarrow> (\<forall>k p. r = Ok (k, p) \<longrightarrow> start < p \<and> p \<le> length src)"

lemma tokenEnds_simps:
  "tokenEnds src start (Ok (k, p)) \<longleftrightarrow> start < p \<and> p \<le> length src"
  "tokenEnds src start (Err e)"
  "start < pos \<Longrightarrow> pos \<le> length src \<Longrightarrow> tokenEnds src start (withEq src pos a b)"
  "tokenEnds src start (peek src i f) \<longleftrightarrow> (i < length src \<longrightarrow> tokenEnds src start (f (src ! i)))"
  by (auto simp: tokenEnds_def withEq_def peek_def looking_def)

lemma tokenEnds_if:
  "(pos < length src \<Longrightarrow> tokenEnds src start a) \<Longrightarrow> tokenEnds src start b \<Longrightarrow>
   tokenEnds src start (if looking src pos P then a else b)"
  "tokenEnds src start a \<Longrightarrow> tokenEnds src start b \<Longrightarrow> tokenEnds src start (if c then a else b)"
  by (simp_all add: looking_def)

lemma lexPunct_ends: "start < length src \<Longrightarrow> tokenEnds src start (lexPunct src start)"
  unfolding lexPunct_def Let_def
  by (rule tokenEnds_if | (simp add: tokenEnds_simps; fail))+

lemma lexToken_span:
  assumes s: "start < length src" and t: "lexToken src start = Ok (k, p)"
  shows "start < p \<and> p \<le> length src"
proof -
  consider "lexWord src start = (k, p)" | "H2IsDigit (src ! start)" "lexNumber src start = Ok (k, p)"
    | "lexRune src start = Ok (k, p)" | "lexString src start = Ok (k, p)" | "lexPunct src start = Ok (k, p)"
    using t unfolding lexToken_def Let_def by (simp split: if_splits)
  then show ?thesis
  proof cases
    case 5
    with lexPunct_ends [OF s] show ?thesis by (simp add: tokenEnds_def)
  qed (erule lexWord_span [OF s] lexNumber_span [OF s] lexRune_span lexString_span, assumption?)+
qed

text \<open>Trivia end inside the source too.\<close>

lemma blockComment_le: "pos \<le> length src \<Longrightarrow> fst (snd (blockCommentLoop src pos depth newline)) \<le> length src"
proof (induction "length src - pos" arbitrary: pos depth newline rule: less_induct)
  case less
  have step: "fst (snd (blockCommentLoop src (Suc pos) d nl)) \<le> length src"
    "Suc pos < length src \<Longrightarrow> fst (snd (blockCommentLoop src (Suc (Suc pos)) d nl)) \<le> length src"
    if "pos < length src" for d nl
    using that less(1) [of "Suc pos" d nl] less(1) [of "Suc (Suc pos)" d nl] by linarith+
  with less.prems show ?case by (subst blockCommentLoop.simps) (simp add: Let_def looking_def)
qed

definition triviaEnd :: "byte list \<Rightarrow> nat \<Rightarrow> (nat \<times> nat) + (nat \<times> nat option) \<Rightarrow> bool" where
  "triviaEnd src pos r \<longleftrightarrow>
     (case r of Inl (s, e) \<Rightarrow> pos \<le> s \<and> s < e \<and> e \<le> length src
      | Inr (p, nl) \<Rightarrow> pos \<le> p \<and> p \<le> length src)"

lemma triviaEnd_mono: "triviaEnd src q r \<Longrightarrow> pos \<le> q \<Longrightarrow> triviaEnd src pos r"
  by (auto simp: triviaEnd_def split: sum.splits)

lemma skipTrivia_end: "pos \<le> length src \<Longrightarrow> triviaEnd src pos (skipTrivia src pos newline)"
proof (induction "length src - pos" arbitrary: pos newline rule: less_induct)
  case less
  have step: "triviaEnd src pos (skipTrivia src q n)" if "pos < length src" "pos < q" "q \<le> length src" for q n
    by (rule triviaEnd_mono [OF less(1)]) (use that in linarith)+
  let ?line = "skipWhile (\<lambda>d. d \<noteq> 0x0A) src (Suc (Suc pos))"
  let ?block = "H2SkipBlockComment src pos newline"
  have line: "pos < ?line" "Suc pos < length src \<Longrightarrow> ?line \<le> length src"
    using skipWhile_ge [of "Suc (Suc pos)" "\<lambda>d. d \<noteq> 0x0A" src] skipWhile_le by auto
  have block: "pos < fst (snd ?block)" "Suc pos < length src \<Longrightarrow> fst (snd ?block) \<le> length src"
    using blockComment_forward [of "pos + 2" src 1 newline] blockComment_le [of "pos + 2" src 1 newline]
    by (auto simp: H2SkipBlockComment_def)
  obtain ok q n where b: "?block = (ok, q, n)" by (cases ?block)
  show ?case
  proof (cases "pos < length src")
    case True
    with step line block b show ?thesis
      by (subst skipTrivia.simps) (cases ok; simp add: Let_def looking_def triviaEnd_def)
  next
    case False
    with less.prems show ?thesis by (subst skipTrivia.simps) (simp add: triviaEnd_def)
  qed
qed
subsection \<open>The main loop\<close>

text \<open>
  One iteration skips trivia and pushes one token: a semicolon where a newline or the end
  of the source follows a token that can end a statement, else the token at the position.
\<close>

function lexLoop ::
  "byte list \<Rightarrow> nat \<Rightarrow> H2TokenKind \<Rightarrow> bool \<Rightarrow> H2TokenBuf \<Rightarrow> (lexErr, H2TokenBuf) outcome" where
  "lexLoop src pos0 prevKind insertedEOFSemicolon buf =
     (case skipTrivia src pos0 None of
        Inl (commentStart, pos) \<Rightarrow> Err (12, commentStart, pos)
      | Inr (pos, newline) \<Rightarrow>
          (if newline \<noteq> None \<and> H2TokenCanEndStmt prevKind then
             (case H2PushToken buf H2Tok_SEMICOLON (the newline) (the newline) of
                Ok buf' \<Rightarrow> lexLoop src pos H2Tok_SEMICOLON insertedEOFSemicolon buf'
              | Err e \<Rightarrow> Err e
              | Stuck \<Rightarrow> Stuck)
           else if pos \<ge> length src then
             (if \<not> insertedEOFSemicolon \<and> H2TokenCanEndStmt prevKind then
                (case H2PushToken buf H2Tok_SEMICOLON (length src) (length src) of
                   Ok buf' \<Rightarrow> lexLoop src pos H2Tok_SEMICOLON True buf'
                 | Err e \<Rightarrow> Err e
                 | Stuck \<Rightarrow> Stuck)
              else H2PushToken buf H2Tok_EOF (length src) (length src))
           else
             (case lexToken src pos of
                Err e \<Rightarrow> Err e
              | Stuck \<Rightarrow> Stuck
              | Ok (kind, endPos) \<Rightarrow>
                  (case H2PushToken buf kind pos endPos of
                     Ok buf' \<Rightarrow> lexLoop src endPos kind insertedEOFSemicolon buf'
                   | Err e \<Rightarrow> Err e
                   | Stuck \<Rightarrow> Stuck))))"
  by pat_completeness auto

lemma skipTrivia_span:
  "skipTrivia src pos newline = Inr (p, nl) \<Longrightarrow> pos \<le> length src \<Longrightarrow> pos \<le> p \<and> p \<le> length src"
  using skipTrivia_end [of pos src newline] by (simp add: triviaEnd_def)

lemma skipTrivia_beyond: "length src \<le> pos \<Longrightarrow> skipTrivia src pos newline = Inr (pos, newline)"
  by (subst skipTrivia.simps) simp

lemma semicolon_cannot_end [simp]: "\<not> H2TokenCanEndStmt H2Tok_SEMICOLON" "\<not> H2TokenCanEndStmt H2Tok_INVALID"
  by (simp_all add: H2TokenCanEndStmt_def)

lemma skipTrivia_ge: "skipTrivia src pos newline = Inr (p, nl) \<Longrightarrow> pos \<le> p"
  using skipTrivia_span [of src pos newline p nl] skipTrivia_beyond [of src pos newline]
  by (cases "pos \<le> length src") auto

termination lexLoop
proof (relation "measures [\<lambda>(src, pos, prev, ins, buf). length src - pos,
    \<lambda>(src, pos, prev, ins, buf). if H2TokenCanEndStmt prev then 1 else 0]", goal_cases)
  case (2 src pos0 prev ins buf r pos newline)
  then have "pos0 \<le> pos" by (metis skipTrivia_ge)
  with 2 show ?case by auto
next
  case (3 src pos0 prev ins buf r pos newline)
  then have "pos0 \<le> pos" by (metis skipTrivia_ge)
  with 3 show ?case by auto
next
  case (4 src pos0 prev ins buf r pos newline t kind endPos buf')
  then have "pos0 \<le> pos" "pos < endPos" "pos < length src"
    using lexToken_span [of pos src kind endPos] by (metis skipTrivia_ge, simp_all)
  then show ?case by auto
qed simp

declare lexLoop.simps [simp del]

subsection \<open>\<open>H2Lex\<close>\<close>

text \<open>A view is a NULL pointer with a length, or the bytes it points to.\<close>

datatype H2StrView = NullView nat | View "byte list"

definition setDiag :: "H2Diag option \<Rightarrow> lexErr \<Rightarrow> H2Diag option" where
  "setDiag diag e = map_option (\<lambda>d. H2SetDiag d (fst e) (fst (snd e)) (snd (snd e))) diag"

text \<open>The address of the token array and its tokens.\<close>

type_synonym H2TokenStream = "nat \<times> H2Token list"

fun viewBytes :: "H2StrView \<Rightarrow> byte list" where
  "viewBytes (NullView n) = []"
| "viewBytes (View bs) = bs"

definition lexBufCap :: "byte list \<Rightarrow> nat" where
  "lexBufCap src = (let cap = u32 (length src + 2) in if cap < 8 then 8 else cap)"

definition H2Lex ::
  "H2Arena \<Rightarrow> H2StrView \<Rightarrow> H2Diag option
   \<Rightarrow> (H2Arena \<times> H2Diag option, H2Arena \<times> H2Diag option \<times> H2TokenStream) outcome" where
  "H2Lex arena view diag0 =
     (let diag = map_option (\<lambda>d. diagZero\<lparr>dphase := H2DiagPhase_LEX\<rparr>) diag0;
          src = viewBytes view
      in if (case view of NullView n \<Rightarrow> n \<noteq> 0 | View bs \<Rightarrow> False)
         then Err (arena, setDiag diag (4, 0, 0))
         else
           (case H2ArenaAlloc arena (u32 (lexBufCap src * 12)) 4 of
              (None, arena') \<Rightarrow> Err (arena', setDiag diag (141, 0, 0))
            | (Some v, arena') \<Rightarrow>
                (case lexLoop src 0 H2Tok_INVALID False
                        \<lparr>tbv = v, tbbytes = u32 (lexBufCap src * 12), tbtoks = [], tbcap = lexBufCap src\<rparr> of
                   Ok buf \<Rightarrow> Ok (arena', diag, (tbv buf, tbtoks buf))
                 | Err e \<Rightarrow> Err (arena', setDiag diag e)
                 | Stuck \<Rightarrow> Stuck)))"

end
