(* ===== verification/H2LexerSpec.thy ===== *)
theory H2LexerSpec
  imports H2Lexer
begin

text \<open>
  What the lexer guarantees. The loop is shown to run a state machine over (position,
  previous kind, tokens); the invariants of that machine give the order of the token spans,
  the semicolon insertion rule, and the bound on the number of tokens that keeps every write
  inside the token array.
\<close>

subsection \<open>The newline that trivia contain\<close>

text \<open>
  \<open>nlInfo src a b nl\<close>: \<open>nl\<close> is the first newline of the source between \<open>a\<close> and \<open>b\<close>.
\<close>

definition noNewline :: "byte list \<Rightarrow> nat \<Rightarrow> nat \<Rightarrow> bool" where
  "noNewline src a b \<longleftrightarrow> (\<forall>i\<in>{a..<b}. src ! i \<noteq> 0x0A)"

definition nlInfo :: "byte list \<Rightarrow> nat \<Rightarrow> nat \<Rightarrow> nat option \<Rightarrow> bool" where
  "nlInfo src a b nl \<longleftrightarrow>
     (case nl of None \<Rightarrow> noNewline src a b
      | Some n \<Rightarrow> a \<le> n \<and> n < b \<and> src ! n = 0x0A \<and> noNewline src a n)"

lemma nlInfo_Some: "nlInfo src a b (Some n) \<longleftrightarrow> a \<le> n \<and> n < b \<and> src ! n = 0x0A \<and> noNewline src a n"
  and nlInfo_None: "nlInfo src a b None \<longleftrightarrow> noNewline src a b"
  by (simp_all add: nlInfo_def)

lemma noNewline_Suc: "a \<le> b \<Longrightarrow> noNewline src a (Suc b) \<longleftrightarrow> noNewline src a b \<and> src ! b \<noteq> 0x0A"
  by (auto simp: noNewline_def less_Suc_eq)

lemma noNewline_same [simp]: "noNewline src a a"
  by (simp add: noNewline_def)

lemma nlInfo_plain: "nlInfo src a b nl \<Longrightarrow> a \<le> b \<Longrightarrow> src ! b \<noteq> 0x0A \<Longrightarrow> nlInfo src a (Suc b) nl"
  by (cases nl) (auto simp: nlInfo_Some nlInfo_None noNewline_Suc)

lemma nlInfo_byte:
  "nlInfo src a b nl \<Longrightarrow> a \<le> b \<Longrightarrow>
   nlInfo src a (Suc b) (if src ! b = 0x0A \<and> nl = None then Some b else nl)"
  by (cases nl) (auto simp: nlInfo_Some nlInfo_None noNewline_Suc)

lemma nlInfo_skip:
  assumes "nlInfo src a b nl" "a \<le> b" "noNewline src b c"
  shows "nlInfo src a c nl \<or> c < b"
  using assms by (cases nl) (auto simp: nlInfo_Some nlInfo_None noNewline_def not_less)

lemma skipWhile_all: "i \<in> {pos..<skipWhile P src pos} \<Longrightarrow> P (src ! i)"
proof (induction P src pos rule: skipWhile.induct)
  case (1 P src pos)
  then show ?case
    by (subst (asm) (2) skipWhile.simps) (cases "i = pos"; auto simp: looking_def split: if_splits)
qed

lemma slash_not_newline [simp]: "ch CHR ''/'' \<noteq> 0x0A" "ch CHR ''*'' \<noteq> 0x0A" "\<not> blankByte 0x0A"
  by code_simp+

lemma blockComment_newline:
  assumes "nlInfo src a pos newline" "a \<le> pos"
  shows "nlInfo src a (fst (snd (blockCommentLoop src pos depth newline))) (snd (snd (blockCommentLoop src pos depth newline)))"
  using assms
proof (induction "length src - pos" arbitrary: pos depth newline rule: less_induct)
  case less
  let ?nl = "if src ! pos = 0x0A \<and> newline = None then Some pos else newline"
  let ?E = "\<lambda>r. nlInfo src a (fst (snd r)) (snd (snd r))"
  have i1: "nlInfo src a (Suc pos) ?nl" by (rule nlInfo_byte [OF less.prems])
  then have i2: "src ! Suc pos \<noteq> 0x0A \<Longrightarrow> nlInfo src a (Suc (Suc pos)) ?nl"
    by (rule nlInfo_plain) (use less.prems in simp_all)
  have s1: "?E (blockCommentLoop src (Suc pos) d ?nl)" if "pos < length src" for d
    using less.hyps [OF _ i1] less.prems(2) that by simp
  have s2: "?E (blockCommentLoop src (Suc (Suc pos)) d ?nl)" if "pos < length src" "src ! Suc pos \<noteq> 0x0A" for d
    using less.hyps [OF _ i2 [OF that(2)]] less.prems(2) that by simp
  show ?case
    unfolding blockCommentLoop.simps [of src pos] Let_def
    by (intro ifI [where P = ?E])
      (use s1 s2 i2 less.prems in \<open>auto simp: looking_def\<close>)
qed

lemma skipComment_newline:
  assumes "nlInfo src a pos newline" "a \<le> pos" "src ! pos \<noteq> 0x0A" "src ! Suc pos \<noteq> 0x0A"
    "H2SkipBlockComment src pos newline = (ok, pos', nl)"
  shows "nlInfo src a pos' nl"
proof -
  have "nlInfo src a (Suc (Suc pos)) newline" using assms by (simp add: nlInfo_plain)
  from blockComment_newline [OF this, of 1] assms(2,5) show ?thesis
    by (simp add: H2SkipBlockComment_def)
qed

text \<open>One step of the trivia loop, by what stands at the position.\<close>

lemma skipTrivia_cases:
  assumes "skipTrivia src pos newline = Inr (p, nl)"
  obtains (stop) "nl = newline" "p = pos" "\<And>m. skipTrivia src pos m = Inr (pos, m)"
    | (blank) "pos < length src" "blankByte (src ! pos)" "skipTrivia src (pos + 1) newline = Inr (p, nl)"
    | (newline) "pos < length src" "src ! pos = 0x0A"
      "skipTrivia src (pos + 1) (if src ! pos = 0x0A \<and> newline = None then Some pos else newline) = Inr (p, nl)"
    | (line) "pos < length src" "src ! pos = ch CHR ''/''" "looking src (pos + 1) (\<lambda>d. d = ch CHR ''/'')"
      "skipTrivia src (skipWhile (\<lambda>d. d \<noteq> 0x0A) src (pos + 2)) newline = Inr (p, nl)"
    | (block) q n where "pos < length src" "src ! pos = ch CHR ''/''" "looking src (pos + 1) (\<lambda>d. d = ch CHR ''*'')"
      "H2SkipBlockComment src pos newline = (True, q, n)" "skipTrivia src q n = Inr (p, nl)"
proof -
  consider "pos \<ge> length src" | "pos < length src" "blankByte (src ! pos)"
    | "pos < length src" "\<not> blankByte (src ! pos)" "src ! pos = 0x0A"
    | "pos < length src" "\<not> blankByte (src ! pos)" "src ! pos \<noteq> 0x0A"
      "src ! pos = ch CHR ''/'' \<and> looking src (pos + 1) (\<lambda>d. d = ch CHR ''/'')"
    | "pos < length src" "\<not> blankByte (src ! pos)" "src ! pos \<noteq> 0x0A"
      "\<not> (src ! pos = ch CHR ''/'' \<and> looking src (pos + 1) (\<lambda>d. d = ch CHR ''/''))"
      "src ! pos = ch CHR ''/'' \<and> looking src (pos + 1) (\<lambda>d. d = ch CHR ''*'')"
    | "pos < length src" "\<not> blankByte (src ! pos)" "src ! pos \<noteq> 0x0A"
      "\<not> (src ! pos = ch CHR ''/'' \<and> looking src (pos + 1) (\<lambda>d. d = ch CHR ''/''))"
      "\<not> (src ! pos = ch CHR ''/'' \<and> looking src (pos + 1) (\<lambda>d. d = ch CHR ''*''))"
    by (meson not_le)
  then show thesis
  proof cases
    case 1
    then have "skipTrivia src pos m = Inr (pos, m)" for m
      by (subst skipTrivia.simps) simp
    with assms that(1) show thesis by simp
  next
    case 3
    then have "skipTrivia src pos newline = skipTrivia src (pos + 1)
      (if src ! pos = 0x0A \<and> newline = None then Some pos else newline)"
      by (subst skipTrivia.simps) (simp split: option.split)
    with 3 assms that(3) show thesis by simp
  next
    case 5
    with assms that(5) show thesis
      by (cases "H2SkipBlockComment src pos newline"; cases "fst (H2SkipBlockComment src pos newline)")
        (simp_all add: skipTrivia.simps [of src pos] Let_def)
  next
    case 6
    then have "skipTrivia src pos m = Inr (pos, m)" for m
      by (subst skipTrivia.simps) (simp only: Let_def if_False not_le [symmetric] simp_thms)
    with assms that(1) show thesis by simp
  qed (use assms that in \<open>simp_all add: skipTrivia.simps [of src pos] Let_def\<close>)
qed

lemma skipTrivia_newline:
  assumes "nlInfo src a pos newline" "a \<le> pos" "skipTrivia src pos newline = Inr (p, nl)"
  shows "nlInfo src a p nl"
  using assms
proof (induction "length src - pos" arbitrary: pos newline rule: less_induct)
  case less
  let ?line = "skipWhile (\<lambda>d. d \<noteq> 0x0A) src (pos + 2)"
  have step: "nlInfo src a p nl" if "pos < length src" "pos < q" "nlInfo src a q n" "skipTrivia src q n = Inr (p, nl)" for q n
    by (rule less.hyps [OF _ that(3) _ that(4)]) (use that less.prems in linarith)+
  from less.prems(3) show ?case
  proof (cases rule: skipTrivia_cases)
    case stop
    with less.prems show ?thesis by simp
  next
    case blank
    then have "src ! pos \<noteq> 0x0A" by auto
    with less.prems have "nlInfo src a (Suc pos) newline" by (simp add: nlInfo_plain)
    with blank step [of "Suc pos" newline] show ?thesis by simp
  next
    case newline
    with step [OF _ _ nlInfo_byte [OF less.prems(1,2)]] show ?thesis by simp
  next
    case line
    then have "nlInfo src a (Suc (Suc pos)) newline"
      using less.prems by (auto simp: looking_def nlInfo_plain)
    moreover have "noNewline src (pos + 2) ?line" by (auto simp: noNewline_def dest: skipWhile_all)
    ultimately have "nlInfo src a ?line newline"
      using nlInfo_skip [of src a "pos + 2" newline ?line] skipWhile_ge [of "pos + 2" _ src] less.prems(2)
      by (auto simp: not_less [symmetric])
    with line step [of ?line newline] skipWhile_ge [of "pos + 2" "\<lambda>d. d \<noteq> 0x0A" src] show ?thesis by simp
  next
    case (block q n)
    then have "nlInfo src a q n"
      by (intro skipComment_newline [OF less.prems(1,2) _ _ block(4)]) (auto simp: looking_def)
    with block step [of q n] skipComment_forward [OF block(4)] show ?thesis by simp
  qed
qed
text \<open>Where trivia end, no trivia begin.\<close>

lemma skipTrivia_stops: "skipTrivia src pos newline = Inr (p, nl) \<Longrightarrow> skipTrivia src p m = Inr (p, m)"
proof (induction "length src - pos" arbitrary: pos newline rule: less_induct)
  case less
  have step: "skipTrivia src p m = Inr (p, m)" if "pos < length src" "pos < q" "skipTrivia src q n = Inr (p, nl)" for q n
    by (rule less.hyps [OF _ that(3)]) (use that in linarith)
  from less.prems show ?case
  proof (cases rule: skipTrivia_cases)
    case line
    with skipWhile_ge [of "pos + 2" "\<lambda>d. d \<noteq> 0x0A" src] show ?thesis by (intro step) simp_all
  next
    case (block q n)
    with skipComment_forward [OF block(4)] show ?thesis by (intro step) simp_all
  qed (auto intro: step)
qed

subsection \<open>Scanning one token is total\<close>

text \<open>A scanner neither leaves the source nor answers the end-of-file kind.\<close>

definition tokenFine :: "(lexErr, H2TokenKind \<times> nat) outcome \<Rightarrow> bool" where
  "tokenFine r \<longleftrightarrow> (case r of Ok (k, p) \<Rightarrow> k \<noteq> H2Tok_EOF | Err e \<Rightarrow> True | Stuck \<Rightarrow> False)"

lemma tokenFine_simps:
  "tokenFine (Ok (k, p)) \<longleftrightarrow> k \<noteq> H2Tok_EOF"
  "tokenFine (Err e)"
  "tokenFine Stuck \<longleftrightarrow> False"
  "tokenFine (withEq src pos a b) \<longleftrightarrow>
     (if looking src pos (\<lambda>d. d = ch CHR ''='') then a \<noteq> H2Tok_EOF else b \<noteq> H2Tok_EOF)"
  by (simp_all add: tokenFine_def withEq_def)

lemma tokenFine_if: "tokenFine a \<Longrightarrow> tokenFine b \<Longrightarrow> tokenFine (if c then a else b)"
  by simp

lemma lexPunct_fine:
  assumes "start < length src" "length src + 8 \<le> UINT32_MAX"
  shows "tokenFine (lexPunct src start)"
proof -
  have dots: "tokenFine (if u32 (start + 1 + 1) < length src then peek src (start + 1) f else Ok (H2Tok_DOT, q))"
    if "\<And>d. start + 2 < length src \<Longrightarrow> tokenFine (f d)" for f q
    using assms that by (simp add: tokenFine_simps)
  show ?thesis
    unfolding lexPunct_def Let_def
    by (rule dots tokenFine_if | (simp add: tokenFine_simps; fail))+
qed

lemma keyword_not_eof: "H2KeywordKind s \<noteq> H2Tok_EOF"
  unfolding H2KeywordKind_def
  by (intro ifI [where P = "\<lambda>k. k \<noteq> H2Tok_EOF"]; simp (no_asm))

lemma lexNumber_fine: "tokenFine (lexNumber src start)"
  unfolding lexNumber_def Let_def by (simp add: tokenFine_simps)

lemma rune_validate_not_stuck:
  assumes "start < p" "p \<le> length src" "length src + 8 \<le> UINT32_MAX"
  shows "H2DecodeRuneLiteralValidate src start p \<noteq> Stuck"
proof -
  have "p + 8 \<le> UINT32_MAX" using assms by linarith
  from rune_sink.sink_exact [OF assms(1,2) this runeHolds_init] show ?thesis
    by (auto simp: H2DecodeRuneLiteralValidate_def split: if_splits)
qed

lemma string_validate_not_stuck:
  assumes "start < p" "p \<le> length src" "length src + 8 \<le> UINT32_MAX"
  shows "H2DecodeStringLiteralValidate src start p \<noteq> Stuck"
proof -
  have "p + 8 \<le> UINT32_MAX" using assms by linarith
  from null_sink.sink_exact [OF assms(1,2) this, of "()"] show ?thesis
    by (auto simp: H2DecodeStringLiteralValidate_def none_is_null)
qed

lemma lexRune_fine:
  assumes "start < length src" "length src + 8 \<le> UINT32_MAX"
  shows "tokenFine (lexRune src start)"
proof (cases "scanRuneBody src (start + 1)")
  case (Inr p)
  have p: "start < p" "p \<le> length src"
    using scanRuneBody_end [of src "start + 1"] Inr assms by (auto simp: scanEnd_Inr)
  show ?thesis
    using rune_validate_not_stuck [OF p assms(2)] Inr p
    by (cases "H2DecodeRuneLiteralValidate src start p") (simp_all add: lexRune_def tokenFine_simps)
qed (simp add: lexRune_def tokenFine_simps)

lemma lexString_fine:
  assumes "start < length src" "length src + 8 \<le> UINT32_MAX"
  shows "tokenFine (lexString src start)"
proof (cases "scanStringBody (src ! start) src (start + 1)")
  case (Inr p)
  have p: "start < p" "p \<le> length src"
    using scanStringBody_end [of src "start + 1" "src ! start"] Inr assms by (auto simp: scanEnd_Inr)
  have i: "0 < p" "p - 1 < length src" using p assms by linarith+
  show ?thesis
    using string_validate_not_stuck [OF p assms(2)] Inr p
    by (cases "H2DecodeStringLiteralValidate src start p") (simp_all add: lexString_def tokenFine_simps Let_def)
qed (simp add: lexString_def tokenFine_simps Let_def)

text \<open>Scanning a token at any position of the source answers a kind that is not the end, or an error.\<close>

lemma lexToken_fine:
  assumes "start < length src" "length src + 8 \<le> UINT32_MAX"
  shows "tokenFine (lexToken src start)"
proof -
  have "tokenFine (Ok (lexWord src start))"
    by (simp add: lexWord_def Let_def tokenFine_simps keyword_not_eof)
  then show ?thesis
    unfolding lexToken_def Let_def
    by (intro tokenFine_if lexNumber_fine lexRune_fine [OF assms] lexString_fine [OF assms] lexPunct_fine [OF assms])
qed

subsection \<open>The lexer as a state machine\<close>

text \<open>
  A state is the position, the kind of the last token, whether the semicolon at the end of
  the source was inserted, and the tokens so far.
\<close>

abbreviation mkTok :: "H2TokenKind \<Rightarrow> nat \<Rightarrow> nat \<Rightarrow> H2Token" where
  "mkTok k s e \<equiv> \<lparr>tkind = k, tstart = s, tend = e\<rparr>"

inductive lexReach :: "byte list \<Rightarrow> nat \<Rightarrow> H2TokenKind \<Rightarrow> bool \<Rightarrow> H2Token list \<Rightarrow> bool" for src where
  start: "lexReach src 0 H2Tok_INVALID False []"
| newline: "lexReach src pos prev ins toks \<Longrightarrow> skipTrivia src pos None = Inr (p, Some n) \<Longrightarrow>
    H2TokenCanEndStmt prev \<Longrightarrow>
    lexReach src p H2Tok_SEMICOLON ins (toks @ [mkTok H2Tok_SEMICOLON n n])"
| eof: "lexReach src pos prev ins toks \<Longrightarrow> skipTrivia src pos None = Inr (p, None) \<Longrightarrow>
    H2TokenCanEndStmt prev \<Longrightarrow> p \<ge> length src \<Longrightarrow> \<not> ins \<Longrightarrow>
    lexReach src p H2Tok_SEMICOLON True (toks @ [mkTok H2Tok_SEMICOLON (length src) (length src)])"
| token: "lexReach src pos prev ins toks \<Longrightarrow> skipTrivia src pos None = Inr (p, nl) \<Longrightarrow>
    \<not> (nl \<noteq> None \<and> H2TokenCanEndStmt prev) \<Longrightarrow> p < length src \<Longrightarrow>
    lexToken src p = Ok (k, e) \<Longrightarrow>
    lexReach src e k ins (toks @ [mkTok k p e])"

inductive_cases lexReachE: "lexReach src pos prev ins toks"

text \<open>A state the loop stops in: trivia to the end and no semicolon due.\<close>

definition lexFinal :: "byte list \<Rightarrow> nat \<Rightarrow> H2TokenKind \<Rightarrow> bool \<Rightarrow> bool" where
  "lexFinal src pos prev ins \<longleftrightarrow>
     (\<exists>p nl. skipTrivia src pos None = Inr (p, nl) \<and> p \<ge> length src \<and>
        \<not> (nl \<noteq> None \<and> H2TokenCanEndStmt prev) \<and> (ins \<or> \<not> H2TokenCanEndStmt prev))"

text \<open>
  The buffer never overflows its array when it can hold every token a reachable state has.
\<close>

definition bufFits :: "byte list \<Rightarrow> H2TokenBuf \<Rightarrow> bool" where
  "bufFits src buf \<longleftrightarrow>
     (\<forall>pos prev ins toks. lexReach src pos prev ins toks \<longrightarrow> length toks < tbcap buf) \<and>
     tbcap buf * 12 \<le> tbbytes buf"

lemma push_fits:
  assumes "bufFits src buf" "lexReach src pos prev ins (tbtoks buf)"
  shows "H2PushToken buf k s e = Ok (buf\<lparr>tbtoks := tbtoks buf @ [mkTok k s e]\<rparr>)"
proof -
  have "length (tbtoks buf) < tbcap buf" "tbcap buf * 12 \<le> tbbytes buf"
    using assms by (auto simp: bufFits_def)
  moreover from this have "(length (tbtoks buf) + 1) * 12 \<le> tbbytes buf" unfolding distrib_right by simp
  ultimately show ?thesis by (simp add: H2PushToken_def)
qed

text \<open>The loop, started in a reachable state, ends in a final state, or reports an error.\<close>

definition lexErrAt :: "byte list \<Rightarrow> lexErr \<Rightarrow> bool" where
  "lexErrAt src er \<longleftrightarrow>
     (\<exists>pos prev ins toks. lexReach src pos prev ins toks \<and>
        ((\<exists>s e. skipTrivia src pos None = Inl (s, e) \<and> er = (12, s, e)) \<or>
         (\<exists>p nl. skipTrivia src pos None = Inr (p, nl) \<and> p < length src \<and> lexToken src p = Err er)))"

definition lexEnds :: "byte list \<Rightarrow> H2TokenBuf \<Rightarrow> (lexErr, H2TokenBuf) outcome \<Rightarrow> bool" where
  "lexEnds src buf r =
     (case r of
        Ok buf' \<Rightarrow> \<exists>pos prev ins toks. lexReach src pos prev ins toks \<and> lexFinal src pos prev ins \<and>
          buf' = buf\<lparr>tbtoks := toks @ [mkTok H2Tok_EOF (length src) (length src)]\<rparr>
      | Err er \<Rightarrow> lexErrAt src er
      | Stuck \<Rightarrow> False)"

lemma lexEnds_toks [simp]: "lexEnds src (buf\<lparr>tbtoks := ts\<rparr>) r = lexEnds src buf r"
  by (cases r) (simp_all add: lexEnds_def)

lemma lexLoop_runs:
  assumes "lexReach src pos prev ins (tbtoks buf)" "bufFits src buf"
    "length src + 8 \<le> UINT32_MAX"
  shows "lexEnds src buf (lexLoop src pos prev ins buf)"
  using assms
proof (induction src pos prev ins buf rule: lexLoop.induct)
  case (1 src pos prev ins buf)
  note push = push_fits [OF "1.prems"(2,1)]
  have fits: "bufFits src (buf\<lparr>tbtoks := ts\<rparr>)" for ts using "1.prems"(2) by (simp add: bufFits_def)
  show ?case
  proof (cases "skipTrivia src pos None")
    case (Inl er)
    with "1.prems"(1) have "lexErrAt src (12, er)" by (cases er) (auto simp: lexErrAt_def)
    with Inl show ?thesis by (subst lexLoop.simps) (cases er; simp add: lexEnds_def)
  next
    case (Inr r)
    obtain p nl where r: "skipTrivia src pos None = Inr (p, nl)" using Inr by (cases r) simp
    consider (newline) n where "nl = Some n" "H2TokenCanEndStmt prev"
      | (eof) "nl = None" "H2TokenCanEndStmt prev" "p \<ge> length src" "\<not> ins"
      | (final) "\<not> (nl \<noteq> None \<and> H2TokenCanEndStmt prev)" "p \<ge> length src" "ins \<or> \<not> H2TokenCanEndStmt prev"
      | (token) "\<not> (nl \<noteq> None \<and> H2TokenCanEndStmt prev)" "p < length src"
      by (cases nl) (force simp: not_le)+
    then show ?thesis
    proof cases
      case newline
      let ?b = "buf\<lparr>tbtoks := tbtoks buf @ [mkTok H2Tok_SEMICOLON n n]\<rparr>"
      have re: "lexReach src p H2Tok_SEMICOLON ins (tbtoks ?b)"
        using lexReach.newline [OF "1.prems"(1)] r newline by simp
      have "lexEnds src ?b (lexLoop src p H2Tok_SEMICOLON ins ?b)"
        by (rule "1.IH"(1) [OF r refl]) (use re newline push fits "1.prems"(3) in simp_all)
      with r newline show ?thesis by (subst lexLoop.simps) (simp add: push)
    next
      case eof
      let ?b = "buf\<lparr>tbtoks := tbtoks buf @ [mkTok H2Tok_SEMICOLON (length src) (length src)]\<rparr>"
      have re: "lexReach src p H2Tok_SEMICOLON True (tbtoks ?b)"
        using lexReach.eof [OF "1.prems"(1)] r eof by simp
      have "lexEnds src ?b (lexLoop src p H2Tok_SEMICOLON True ?b)"
        by (rule "1.IH"(2) [OF r refl]) (use re eof push fits "1.prems"(3) in simp_all)
      with r eof show ?thesis by (subst lexLoop.simps) (simp add: push)
    next
      case final
      with r have e: "lexLoop src pos prev ins buf =
          Ok (buf\<lparr>tbtoks := tbtoks buf @ [mkTok H2Tok_EOF (length src) (length src)]\<rparr>)"
        by (subst lexLoop.simps) (auto simp: push)
      have "lexFinal src pos prev ins" unfolding lexFinal_def using r final by blast
      with e "1.prems"(1) show ?thesis by (auto simp: lexEnds_def)
    next
      case token
      show ?thesis
      proof (cases "lexToken src p")
        case (Ok ke)
        obtain k e where ke: "lexToken src p = Ok (k, e)" using Ok by (cases ke) simp
        let ?b = "buf\<lparr>tbtoks := tbtoks buf @ [mkTok k p e]\<rparr>"
        have re: "lexReach src e k ins (tbtoks ?b)"
          using lexReach.token [OF "1.prems"(1) r token ke] by simp
        have "lexEnds src ?b (lexLoop src e k ins ?b)"
          by (rule "1.IH"(3) [OF r refl _ _ ke refl]) (use re token push fits "1.prems"(3) in simp_all)
        with r token ke show ?thesis by (subst lexLoop.simps) (auto simp add: push)
      next
        case (Err er)
        with r token "1.prems"(1) have "lexErrAt src er" unfolding lexErrAt_def by blast
        with r token Err show ?thesis by (subst lexLoop.simps) (auto simp: lexEnds_def)
      next
        case Stuck
        with lexToken_fine [OF token(2) "1.prems"(3)] show ?thesis by (simp add: tokenFine_simps)
      qed
    qed
  qed
qed
subsection \<open>Invariants of the reachable states\<close>

text \<open>
  A semicolon the lexer inserts has an empty span. The rule of semicolon insertion, for two
  consecutive tokens: an inserted semicolon follows a token that can end a statement and
  stands at the first newline after it or at the end of the source; between such a token and
  any other next token there is no newline, and it is never the last before the end.
\<close>

definition insertedSemi :: "H2Token \<Rightarrow> bool" where
  "insertedSemi t \<longleftrightarrow> tkind t = H2Tok_SEMICOLON \<and> tstart t = tend t"

definition semiRule :: "byte list \<Rightarrow> H2Token \<Rightarrow> H2Token \<Rightarrow> bool" where
  "semiRule src a b \<longleftrightarrow>
     (if insertedSemi b then
        H2TokenCanEndStmt (tkind a) \<and> noNewline src (tend a) (tstart b) \<and>
        (tstart b = length src \<or> tstart b < length src \<and> src ! tstart b = 0x0A)
      else H2TokenCanEndStmt (tkind a) \<longrightarrow> tkind b \<noteq> H2Tok_EOF \<and> noNewline src (tend a) (tstart b))"

text \<open>A token that stands for text of the source: the bytes of its span.\<close>

definition spanOk :: "byte list \<Rightarrow> H2Token \<Rightarrow> bool" where
  "spanOk src t \<longleftrightarrow> tstart t \<le> tend t \<and> tend t \<le> length src \<and>
     (insertedSemi t \<or> tstart t < tend t \<and> lexToken src (tstart t) = Ok (tkind t, tend t))"

definition nextTok :: "byte list \<Rightarrow> H2Token \<Rightarrow> H2Token \<Rightarrow> bool" where
  "nextTok src a b \<longleftrightarrow> tend a \<le> tstart b \<and> semiRule src a b"

definition lexInv :: "byte list \<Rightarrow> nat \<Rightarrow> H2TokenKind \<Rightarrow> bool \<Rightarrow> H2Token list \<Rightarrow> bool" where
  "lexInv src pos prev ins toks \<longleftrightarrow>
     pos \<le> length src \<and> (\<forall>t\<in>set toks. spanOk src t) \<and> successively (nextTok src) toks \<and>
     (toks = [] \<longrightarrow> prev = H2Tok_INVALID) \<and>
     (toks \<noteq> [] \<longrightarrow> prev = tkind (last toks) \<and> tend (last toks) \<le> pos \<and>
        (H2TokenCanEndStmt prev \<longrightarrow> tend (last toks) = pos)) \<and>
     (ins \<longrightarrow> pos = length src \<and> prev = H2Tok_SEMICOLON) \<and>
     length toks \<le> pos + (if ins then 1 else 0)"

lemma lexReach_inv:
  "lexReach src pos prev ins toks \<Longrightarrow> length src + 8 \<le> UINT32_MAX \<Longrightarrow> lexInv src pos prev ins toks"
proof (induction rule: lexReach.induct)
  case start
  show ?case by (simp add: lexInv_def)
next
  case (newline pos prev ins toks p n)
  from newline.hyps newline.IH [OF newline.prems] have "toks \<noteq> []" by (auto simp: lexInv_def)
  moreover have "nlInfo src pos p (Some n)"
    by (rule skipTrivia_newline [OF _ _ newline.hyps(2)]) (simp_all add: nlInfo_None)
  moreover have "pos \<le> p" "p \<le> length src"
    using skipTrivia_span [OF newline.hyps(2)] newline.IH [OF newline.prems] by (simp_all add: lexInv_def)
  ultimately show ?case
    using newline.hyps newline.IH [OF newline.prems]
    by (auto simp: lexInv_def nlInfo_Some spanOk_def insertedSemi_def successively_append_iff
        nextTok_def semiRule_def)
next
  case (eof pos prev ins toks p)
  from eof.hyps eof.IH [OF eof.prems] have "toks \<noteq> []" by (auto simp: lexInv_def)
  moreover have "nlInfo src pos p None"
    by (rule skipTrivia_newline [OF _ _ eof.hyps(2)]) (simp_all add: nlInfo_None)
  moreover have "pos \<le> p" "p \<le> length src"
    using skipTrivia_span [OF eof.hyps(2)] eof.IH [OF eof.prems] by (simp_all add: lexInv_def)
  ultimately show ?case
    using eof.hyps eof.IH [OF eof.prems]
    by (auto simp: lexInv_def nlInfo_None spanOk_def insertedSemi_def successively_append_iff
        nextTok_def semiRule_def)
next
  case (token pos prev ins toks p nl k e)
  have i: "nlInfo src pos p nl"
    by (rule skipTrivia_newline [OF _ _ token.hyps(2)]) (simp_all add: nlInfo_None)
  have b: "pos \<le> p" "p < e" "e \<le> length src"
    using skipTrivia_span [OF token.hyps(2)] token.IH [OF token.prems] lexToken_span [OF token.hyps(4,5)] by (simp_all add: lexInv_def)
  have "nextTok src (last toks) (mkTok k p e)" if "toks \<noteq> []"
    using that token.IH [OF token.prems] token.hyps(3) i b lexToken_fine [OF token.hyps(4) token.prems] token.hyps(5)
    by (auto simp: lexInv_def nextTok_def semiRule_def insertedSemi_def nlInfo_None tokenFine_simps)
  with token.IH [OF token.prems] token.hyps b show ?case
    by (auto simp: lexInv_def spanOk_def insertedSemi_def successively_append_iff)
qed
subsection \<open>What \<open>H2Lex\<close> returns\<close>

text \<open>
  The largest source whose token array has a size below \<open>2 ^ 32\<close> bytes; beyond it the size
  that \<open>H2Lex\<close> requests from the arena wraps.
\<close>

definition lexMaxLen :: nat where
  "lexMaxLen = 357913939"

lemma lexBufCap_small:
  assumes "length src \<le> lexMaxLen"
  shows "u32 (lexBufCap src * 12) = lexBufCap src * 12" "length src + 2 \<le> lexBufCap src"
    "lexBufCap src * 12 \<le> UINT32_MAX"
proof -
  have c: "lexBufCap src = max (length src + 2) 8"
    using assms by (simp add: lexBufCap_def Let_def lexMaxLen_def max_def)
  then have "lexBufCap src \<le> 357913941" using assms by (simp add: lexMaxLen_def)
  then show "lexBufCap src * 12 \<le> UINT32_MAX" by linarith
  then show "u32 (lexBufCap src * 12) = lexBufCap src * 12" by simp
  show "length src + 2 \<le> lexBufCap src" using c by simp
qed

lemma lexLoop_from_start:
  assumes "length src \<le> lexMaxLen"
  shows "lexEnds src \<lparr>tbv = v, tbbytes = u32 (lexBufCap src * 12), tbtoks = [], tbcap = lexBufCap src\<rparr>
    (lexLoop src 0 H2Tok_INVALID False
       \<lparr>tbv = v, tbbytes = u32 (lexBufCap src * 12), tbtoks = [], tbcap = lexBufCap src\<rparr>)"
proof (rule lexLoop_runs)
  have l: "length src + 8 \<le> UINT32_MAX" using assms by (simp add: lexMaxLen_def)
  then show "length src + 8 \<le> UINT32_MAX" .
  have "length toks < lexBufCap src" if "lexReach src pos prev ins toks" for pos prev ins toks
    using lexReach_inv [OF that l] lexBufCap_small(2) [OF assms] by (auto simp: lexInv_def split: if_splits)
  then show "bufFits src \<lparr>tbv = v, tbbytes = u32 (lexBufCap src * 12), tbtoks = [], tbcap = lexBufCap src\<rparr>"
    using lexBufCap_small [OF assms] by (simp add: bufFits_def)
qed (simp add: lexReach.start)

lemma lex_ok_cases:
  assumes "length src \<le> lexMaxLen" "H2Lex ar (View src) d = Ok (ar', d', v, toks)"
  obtains pos prev ins ts where "lexReach src pos prev ins ts" "lexFinal src pos prev ins"
    "toks = ts @ [mkTok H2Tok_EOF (length src) (length src)]"
    "H2ArenaAlloc ar (lexBufCap src * 12) 4 = (Some v, ar')" "lexInv src pos prev ins ts"
proof -
  obtain p ar1 where a: "H2ArenaAlloc ar (lexBufCap src * 12) 4 = (p, ar1)" by fastforce
  with assms lexBufCap_small(1) obtain w where p: "p = Some w"
    by (cases p) (auto simp: H2Lex_def Let_def)
  let ?b = "\<lparr>tbv = w, tbbytes = u32 (lexBufCap src * 12), tbtoks = [], tbcap = lexBufCap src\<rparr>"
  from lexLoop_from_start [OF assms(1), of w] a p assms(2) lexBufCap_small(1) [OF assms(1)] obtain buf where
    b: "lexLoop src 0 H2Tok_INVALID False ?b = Ok buf" "ar' = ar1" "v = tbv buf" "toks = tbtoks buf" "lexEnds src ?b (Ok buf)"
    by (auto simp: H2Lex_def Let_def split: outcome.splits)
  then obtain pos prev ins ts where r: "lexReach src pos prev ins ts" "lexFinal src pos prev ins"
    "buf = ?b\<lparr>tbtoks := ts @ [mkTok H2Tok_EOF (length src) (length src)]\<rparr>"
    unfolding lexEnds_def by auto
  have "length src + 8 \<le> UINT32_MAX" using assms(1) by (simp add: lexMaxLen_def)
  with that r a p b lexReach_inv [OF r(1)] show ?thesis by simp
qed
subsection \<open>Trivia as a language\<close>

text \<open>
  What the text between two tokens may be (LEX-WS-001, LEX-COMMENT-001 to 003), as relations
  between a text and what remains of it. \<open>closes s r\<close>: the block comment that is open at the
  start of \<open>s\<close> is closed just before \<open>r\<close>; comments nest. \<open>trivia s r\<close>: between \<open>s\<close> and \<open>r\<close> there
  are white space, line comments that run to the end of their line, and closed block comments.
  Nothing here refers to the scanner.
\<close>

definition whitespace :: "byte list" where
  "whitespace = [0x20, 0x09, 0x0D, 0x0A, 0x0C, 0x0B]"

definition commentOpen :: "byte list" where
  "commentOpen = [0x2F, 0x2A]"

definition commentClose :: "byte list" where
  "commentClose = [0x2A, 0x2F]"

inductive closes :: "byte list \<Rightarrow> byte list \<Rightarrow> bool" where
  closed: "closes (commentClose @ r) r"
| nested: "closes s t \<Longrightarrow> closes t r \<Longrightarrow> closes (commentOpen @ s) r"
| inside: "closes s r \<Longrightarrow> take 2 (c # s) \<noteq> commentOpen \<Longrightarrow> take 2 (c # s) \<noteq> commentClose \<Longrightarrow> closes (c # s) r"

inductive trivia :: "byte list \<Rightarrow> byte list \<Rightarrow> bool" where
  done_trivia: "trivia s s"
| white: "c \<in> set whitespace \<Longrightarrow> trivia s r \<Longrightarrow> trivia (c # s) r"
| line: "0x0A \<notin> set b \<Longrightarrow> s = [] \<or> hd s = 0x0A \<Longrightarrow> trivia s r \<Longrightarrow> trivia ([0x2F, 0x2F] @ b @ s) r"
| block: "closes s t \<Longrightarrow> trivia t r \<Longrightarrow> trivia (commentOpen @ s) r"

lemma blank_white: "blankByte c \<Longrightarrow> c \<in> set whitespace"
  by (auto simp: blankByte_def whitespace_def ch_def)

lemma slash_star: "ch CHR ''/'' = 0x2F" "ch CHR ''*'' = 0x2A"
  by (simp_all add: ch_def)

lemma drop_two: "pos + 1 < length src \<Longrightarrow> drop pos src = [src ! pos, src ! (pos + 1)] @ drop (pos + 2) src"
  using Cons_nth_drop_Suc [of pos src] Cons_nth_drop_Suc [of "pos + 1" src] by simp

text \<open>A loop that ends with the comment closed has closed as many comments as its depth.\<close>

lemma blockComment_closes:
  "blockCommentLoop src pos d nl = (True, q, n) \<Longrightarrow> 0 < d \<Longrightarrow> (closes ^^ d) (drop pos src) (drop q src)"
proof (induction "length src - pos" arbitrary: pos d nl rule: less_induct)
  case less
  let ?nl = "if src ! pos = 0x0A \<and> nl = None then Some pos else nl"
  note L = blockCommentLoop.simps [of src pos d nl, unfolded Let_def]
  have p: "pos < length src" using less.prems(1) L by (auto split: if_splits)
  note IH = less.hyps [of "pos + 2"] less.hyps [of "pos + 1"]
  obtain e where d: "d = Suc e" using less.prems(2) by (cases d) simp_all
  consider (opened) "src ! pos = ch CHR ''/''" "looking src (pos + 1) (\<lambda>d. d = ch CHR ''*'')"
    | (closed) "src ! pos = ch CHR ''*''" "looking src (pos + 1) (\<lambda>d. d = ch CHR ''/'')"
    | (other) "\<not> (src ! pos = ch CHR ''/'' \<and> looking src (pos + 1) (\<lambda>d. d = ch CHR ''*''))"
      "\<not> (src ! pos = ch CHR ''*'' \<and> looking src (pos + 1) (\<lambda>d. d = ch CHR ''/''))" by blast
  then show ?case
  proof cases
    case opened
    then have t: "drop pos src = commentOpen @ drop (pos + 2) src"
      using drop_two [of pos src] by (simp add: looking_def slash_star commentOpen_def)
    have "blockCommentLoop src (pos + 2) (Suc d) ?nl = (True, q, n)" using less.prems(1) opened L p by simp
    from IH(1) [OF _ this] p have "(closes ^^ Suc d) (drop (pos + 2) src) (drop q src)" by simp_all
    then obtain t u where "closes (drop (pos + 2) src) t" "closes t u" "(closes ^^ e) u (drop q src)"
      unfolding d by (elim relpowp_Suc_E2)
    with t d show ?thesis by (metis closes.nested relpowp_Suc_I2)
  next
    case closed
    then have t: "drop pos src = commentClose @ drop (pos + 2) src"
      using drop_two [of pos src] by (simp add: looking_def slash_star commentClose_def)
    have n: "\<not> (src ! pos = ch CHR ''/'')" using closed(1) by simp
    show ?thesis
    proof (cases "e = 0")
      case True
      with less.prems(1) closed n L p d have "q = pos + 2" by simp
      with True d t closes.closed [of "drop (pos + 2) src"] show ?thesis by (simp only: relpowp_1 One_nat_def [symmetric])
    next
      case False
      then have "blockCommentLoop src (pos + 2) e ?nl = (True, q, n)" using less.prems(1) closed n L p d by simp
      with IH(1) False p have "(closes ^^ e) (drop (pos + 2) src) (drop q src)" by simp
      with t d show ?thesis by (metis closes.closed relpowp_Suc_I2)
    qed
  next
    case other
    have t: "drop pos src = src ! pos # drop (pos + 1) src" using p by (simp add: Cons_nth_drop_Suc)
    have two: "take 2 (src ! pos # drop (pos + 1) src) \<noteq> commentOpen" "take 2 (src ! pos # drop (pos + 1) src) \<noteq> commentClose"
    proof -
      have "take 2 (src ! pos # drop (pos + 1) src) = src ! pos # take 1 (drop (pos + 1) src)" by simp
      moreover have "take 1 (drop (pos + 1) src) = (if pos + 1 < length src then [src ! (pos + 1)] else [])"
        by (cases "pos + 1 < length src") (simp_all add: take_Suc hd_drop_conv_nth)
      ultimately show "take 2 (src ! pos # drop (pos + 1) src) \<noteq> commentOpen"
        "take 2 (src ! pos # drop (pos + 1) src) \<noteq> commentClose"
        using other by (auto simp: looking_def slash_star commentOpen_def commentClose_def)
    qed
    have "blockCommentLoop src (pos + 1) d ?nl = (True, q, n)"
      using less.prems(1) unfolding L if_P [OF p] if_not_P [OF other(1)] if_not_P [OF other(2)] .
    with IH(2) less.prems(2) p have "(closes ^^ d) (drop (pos + 1) src) (drop q src)" by simp
    then obtain u where "closes (drop (pos + 1) src) u" "(closes ^^ e) u (drop q src)"
      unfolding d by (elim relpowp_Suc_E2)
    with t d two show ?thesis by (metis closes.inside relpowp_Suc_I2)
  qed
qed

lemma skipWhile_stop: "skipWhile P src pos < length src \<Longrightarrow> \<not> P (src ! skipWhile P src pos)"
proof (induction P src pos rule: skipWhile.induct)
  case (1 P src pos)
  show ?case
  proof (cases "looking src pos P")
    case True
    then have "skipWhile P src pos = skipWhile P src (pos + 1)" by (subst skipWhile.simps) simp
    with 1 True show ?thesis by simp
  next
    case False
    then have "skipWhile P src pos = pos" by (subst skipWhile.simps) simp
    with 1(2) False show ?thesis by (simp add: looking_def)
  qed
qed

lemma skipTrivia_trivia: "skipTrivia src pos newline = Inr (p, nl) \<Longrightarrow> trivia (drop pos src) (drop p src)"
proof (induction "length src - pos" arbitrary: pos newline rule: less_induct)
  case less
  have step: "trivia (drop q src) (drop p src)" if "pos < length src" "pos < q" "skipTrivia src q n = Inr (p, nl)" for q n
    by (rule less.hyps [OF _ that(3)]) (use that in linarith)
  have c: "drop pos src = src ! pos # drop (pos + 1) src" if "pos < length src"
    using that by (simp add: Cons_nth_drop_Suc)
  from less.prems show ?case
  proof (cases rule: skipTrivia_cases)
    case stop
    then show ?thesis by (simp add: trivia.done_trivia)
  next
    case blank
    with step [of "pos + 1"] c show ?thesis by (simp add: trivia.white blank_white)
  next
    case newline
    with step [of "pos + 1"] c show ?thesis by (simp add: trivia.white whitespace_def)
  next
    case line
    let ?e = "skipWhile (\<lambda>d. d \<noteq> 0x0A) src (pos + 2)"
    let ?b = "take (?e - (pos + 2)) (drop (pos + 2) src)"
    have ge: "pos + 2 \<le> ?e" by (rule skipWhile_ge)
    have "drop pos src = [0x2F, 0x2F] @ drop (pos + 2) src"
      using line drop_two [of pos src] by (simp add: looking_def slash_star)
    also have "drop (pos + 2) src = ?b @ drop ?e src"
    proof -
      have "drop (?e - (pos + 2)) (drop (pos + 2) src) = drop ?e src"
        unfolding drop_drop using ge by (metis le_add_diff_inverse2)
      then show ?thesis by (metis append_take_drop_id)
    qed
    finally have t: "drop pos src = [0x2F, 0x2F] @ ?b @ drop ?e src" .
    have "0x0A \<notin> set ?b"
    proof
      assume "0x0A \<in> set ?b"
      then obtain k where "k < length ?b" "?b ! k = 0x0A" by (metis in_set_conv_nth)
      moreover from this have "pos + 2 + k < length src" "pos + 2 + k < ?e" by auto
      ultimately show False using skipWhile_all [of "pos + 2 + k" "pos + 2" "\<lambda>d. d \<noteq> 0x0A" src] by simp
    qed
    moreover have "drop ?e src = [] \<or> hd (drop ?e src) = 0x0A"
      using skipWhile_stop [of "\<lambda>d. d \<noteq> 0x0A" src "pos + 2"] by (cases "?e < length src") (simp_all add: hd_drop_conv_nth)
    moreover have "trivia (drop ?e src) (drop p src)" using line ge by (intro step) simp_all
    ultimately show ?thesis unfolding t by (rule trivia.line)
  next
    case (block q n)
    then have "drop pos src = commentOpen @ drop (pos + 2) src"
      using drop_two [of pos src] by (simp add: looking_def slash_star commentOpen_def)
    moreover have "closes (drop (pos + 2) src) (drop q src)"
      using blockComment_closes [OF block(4) [unfolded H2SkipBlockComment_def]] by (simp only: relpowp_1 zero_less_one simp_thms)
    moreover have "trivia (drop q src) (drop p src)"
      using block skipComment_forward [OF block(4)] by (intro step) simp_all
    ultimately show ?thesis by (simp add: trivia.block)
  qed
qed

text \<open>
  Reading the tokens from position \<open>p\<close>, the text up to each token is trivia, and the tokens
  stand one after the other inside the source.
\<close>

definition triviaBetween :: "byte list \<Rightarrow> nat \<Rightarrow> nat \<Rightarrow> bool" where
  "triviaBetween src a b \<longleftrightarrow> a \<le> b \<and> b \<le> length src \<and> trivia (drop a src) (drop b src)"

fun coversFrom :: "byte list \<Rightarrow> nat \<Rightarrow> H2Token list \<Rightarrow> bool" where
  "coversFrom src p [] \<longleftrightarrow> p = length src"
| "coversFrom src p (t # ts) \<longleftrightarrow>
     triviaBetween src p (tstart t) \<and> tstart t \<le> tend t \<and> coversFrom src (tend t) ts"

subsection \<open>Nothing is lost between tokens\<close>

definition onlyTrivia :: "byte list \<Rightarrow> nat \<Rightarrow> nat \<Rightarrow> bool" where
  "onlyTrivia src a b \<longleftrightarrow> (\<exists>nl. skipTrivia src a None = Inr (b, nl))"

text \<open>Reading the tokens from position \<open>p\<close>, there are only trivia before each of them.\<close>

fun gapsTrivial :: "byte list \<Rightarrow> nat \<Rightarrow> H2Token list \<Rightarrow> bool" where
  "gapsTrivial src p [] \<longleftrightarrow> True"
| "gapsTrivial src p (t # ts) \<longleftrightarrow> onlyTrivia src p (tstart t) \<and> gapsTrivial src (tend t) ts"

fun lastEnd :: "nat \<Rightarrow> H2Token list \<Rightarrow> nat" where
  "lastEnd p [] = p"
| "lastEnd p (t # ts) = lastEnd (tend t) ts"

lemma gapsTrivial_snoc:
  "gapsTrivial src p (ts @ [t]) \<longleftrightarrow> gapsTrivial src p ts \<and> onlyTrivia src (lastEnd p ts) (tstart t)"
  by (induction ts arbitrary: p) auto

lemma lastEnd_snoc [simp]: "lastEnd p (ts @ [t]) = tend t"
  by (induction ts arbitrary: p) auto

lemma onlyTrivia_step:
  "pos = q \<or> onlyTrivia src q pos \<Longrightarrow> skipTrivia src pos None = Inr (p, nl) \<Longrightarrow> onlyTrivia src q p"
  using skipTrivia_stops [of src q None pos _ None] by (auto simp: onlyTrivia_def)

lemma lexReach_gaps:
  "lexReach src pos prev ins toks \<Longrightarrow> length src + 8 \<le> UINT32_MAX \<Longrightarrow>
   gapsTrivial src 0 (filter (\<lambda>t. \<not> insertedSemi t) toks) \<and>
   (pos = lastEnd 0 (filter (\<lambda>t. \<not> insertedSemi t) toks) \<or>
    onlyTrivia src (lastEnd 0 (filter (\<lambda>t. \<not> insertedSemi t) toks)) pos)"
proof (induction rule: lexReach.induct)
  case start
  show ?case by simp
next
  case (newline pos prev ins toks p n)
  then show ?case
    using onlyTrivia_step [OF _ newline.hyps(2)] by (simp add: insertedSemi_def)
next
  case (eof pos prev ins toks p)
  then show ?case
    using onlyTrivia_step [OF _ eof.hyps(2)] by (simp add: insertedSemi_def)
next
  case (token pos prev ins toks p nl k e)
  have "\<not> insertedSemi (mkTok k p e)"
    using lexToken_span [OF token.hyps(4,5)] by (simp add: insertedSemi_def)
  moreover have "onlyTrivia src (lastEnd 0 (filter (\<lambda>t. \<not> insertedSemi t) toks)) p"
    using token onlyTrivia_step [OF _ token.hyps(2)] by simp
  ultimately show ?case using token by (simp add: gapsTrivial_snoc)
qed

lemma gapsTrivial_covers:
  "gapsTrivial src p ts \<Longrightarrow> p \<le> length src \<Longrightarrow> \<forall>t\<in>set ts. tstart t \<le> tend t \<and> tend t \<le> length src \<Longrightarrow>
   lastEnd p ts = length src \<Longrightarrow> coversFrom src p ts"
proof (induction ts arbitrary: p)
  case (Cons t ts)
  then obtain nl where "skipTrivia src p None = Inr (tstart t, nl)" by (auto simp: onlyTrivia_def)
  with skipTrivia_trivia [OF this] skipTrivia_span [OF this] Cons show ?case
    by (simp add: triviaBetween_def)
qed simp

end
