(* ===== verification/H2LexerThms.thy ===== *)
theory H2LexerThms
  imports H2LexerSpec
begin

text \<open>
  The properties of the lexer: memory safety together with the arena, the shape of the token
  list, semicolon insertion, keywords, and that nothing of the source is lost between tokens.
\<close>

subsection \<open>Memory safety\<close>

lemma legal_lex_request: "length src \<le> lexMaxLen \<Longrightarrow> legalRequest (lexBufCap src * 12) 4"
  using lexBufCap_small(3) [of src] by (simp add: legalRequest_def)

lemma lex_err_arena:
  assumes "length src \<le> lexMaxLen" "H2Lex ar (View src) d = Err (ar', d')"
  shows "\<exists>r. H2ArenaAlloc ar (lexBufCap src * 12) 4 = (r, ar')"
  using assms lexBufCap_small(1) [OF assms(1)]
  by (auto simp: H2Lex_def Let_def split: prod.splits option.splits outcome.splits)

lemma lex_not_stuck:
  assumes "length src \<le> lexMaxLen"
  shows "H2Lex ar (View src) d \<noteq> Stuck"
  using lexLoop_from_start [OF assms] lexBufCap_small(1) [OF assms]
  by (fastforce simp: H2Lex_def Let_def lexEnds_def split: prod.splits option.splits outcome.splits)

text \<open>C2: lexing is memory safe. For any source below about 341 MiB and any well-formed arena,
\<open>H2Lex\<close> ends without an access outside the source or the token array; the arena stays well
formed; and the tokens it returns fill memory that was free before and is reserved now.\<close>

theorem lex_memory_safe:
  assumes "length src \<le> lexMaxLen" "arenaWf st ar"
  shows "case H2Lex ar (View src) d of
      Stuck \<Rightarrow> False
    | Err (ar', d') \<Rightarrow> arenaWf st ar' \<and> arenaUsed ar \<subseteq> arenaUsed ar'
    | Ok (ar', d', v, toks) \<Rightarrow> arenaWf st ar' \<and> length toks \<le> length src + 2 \<and>
        region (v, 12 * length toks) \<inter> arenaUsed ar = {} \<and>
        region (v, 12 * length toks) \<subseteq> arenaUsed ar'"
proof (cases "H2Lex ar (View src) d")
  case (Ok r)
  obtain ar' d' v toks where r: "r = (ar', d', v, toks)" by (cases r)
  from lex_ok_cases [OF assms(1) Ok [unfolded r]] obtain pos prev ins ts where
    t: "toks = ts @ [mkTok H2Tok_EOF (length src) (length src)]" "lexInv src pos prev ins ts"
    and a: "H2ArenaAlloc ar (lexBufCap src * 12) 4 = (Some v, ar')" .
  have l: "length toks \<le> length src + 2" using t by (auto simp: lexInv_def split: if_splits)
  then have sub: "region (v, 12 * length toks) \<subseteq> region (v, lexBufCap src * 12)"
    using lexBufCap_small(2) [OF assms(1)] by (auto simp: region_def)
  note lg = legal_lex_request [OF assms(1)]
  show ?thesis
    using alloc_preserves_wf [OF assms(2) lg a] alloc_uses [OF assms(2) lg a] alloc_unused [OF assms(2) lg a] sub l
    by (auto simp: Ok r)
next
  case (Err r)
  obtain ar' d' where r: "r = (ar', d')" by (cases r)
  from lex_err_arena [OF assms(1) Err [unfolded r]] obtain q where
    a: "H2ArenaAlloc ar (lexBufCap src * 12) 4 = (q, ar')" by blast
  note lg = legal_lex_request [OF assms(1)]
  show ?thesis
    using alloc_preserves_wf [OF assms(2) lg a] alloc_uses [OF assms(2) lg a] by (simp add: Err r)
qed (use lex_not_stuck [OF assms(1)] in simp)

subsection \<open>Spans and semicolons\<close>

lemma lexFinal_next:
  assumes "lexFinal src pos prev ins" "lexInv src pos prev ins ts" "ts \<noteq> []"
  shows "nextTok src (last ts) (mkTok H2Tok_EOF (length src) (length src))"
  using assms by (auto simp: lexFinal_def lexInv_def nextTok_def semiRule_def insertedSemi_def)

lemma lex_chain:
  assumes "length src \<le> lexMaxLen" "H2Lex ar (View src) d = Ok (ar', d', v, toks)"
  shows "successively (nextTok src) toks"
proof -
  from lex_ok_cases [OF assms] obtain pos prev ins ts where r: "lexFinal src pos prev ins"
    "toks = ts @ [mkTok H2Tok_EOF (length src) (length src)]" "lexInv src pos prev ins ts" .
  then show ?thesis
    using lexFinal_next [OF r(1,3)] by (auto simp: successively_append_iff lexInv_def)
qed

text \<open>C12: the token list is an ordered partition of the source. It ends with the only
end-of-file token, which stands at the end of the source; every other token lies inside the
source, no token starts before the previous one ends, and each token that is not an inserted
semicolon is what scanning the source at its start gives.\<close>

theorem lex_tokens_ordered:
  assumes "length src \<le> lexMaxLen" "H2Lex ar (View src) d = Ok (ar', d', v, toks)"
  shows "\<exists>ts. toks = ts @ [mkTok H2Tok_EOF (length src) (length src)] \<and>
    (\<forall>t\<in>set ts. tkind t \<noteq> H2Tok_EOF \<and> tstart t \<le> tend t \<and> tend t \<le> length src \<and>
       (insertedSemi t \<or> lexToken src (tstart t) = Ok (tkind t, tend t) \<and> tstart t < tend t)) \<and>
    sorted_wrt (\<lambda>a b. tend a \<le> tstart b) toks"
proof -
  from lex_ok_cases [OF assms] obtain pos prev ins ts where
    t: "toks = ts @ [mkTok H2Tok_EOF (length src) (length src)]" and i: "lexInv src pos prev ins ts" .
  have l: "length src + 8 \<le> UINT32_MAX" using assms(1) by (simp add: lexMaxLen_def)
  have tok: "tkind t \<noteq> H2Tok_EOF \<and> tstart t \<le> tend t \<and> tend t \<le> length src \<and>
       (insertedSemi t \<or> lexToken src (tstart t) = Ok (tkind t, tend t) \<and> tstart t < tend t)"
    if "t \<in> set ts" for t
  proof -
    have s: "spanOk src t" using that i by (simp add: lexInv_def)
    then show ?thesis
      using lexToken_fine [OF _ l, of "tstart t"]
      by (auto simp: spanOk_def insertedSemi_def tokenFine_simps)
  qed
  have "successively (\<lambda>a b. tend a \<le> tstart b) toks"
    by (rule successively_mono [OF lex_chain [OF assms]]) (simp add: nextTok_def)
  then have "sorted_wrt (\<lambda>a b. tend a \<le> tstart b) toks"
    by (subst (asm) successively_iff_sorted_wrt_strong)
      (use tok t in \<open>auto intro: order_trans\<close>)
  with t tok show ?thesis by blast
qed

text \<open>
  The tokens after which the language inserts a semicolon (LEX-SEMI-002): identifiers and
  literals, the three jumps, closing delimiters and the postfix \<open>!\<close>. The code has \<open>type\<close> too,
  which the list of the specification lacks.
\<close>

definition statementEnders :: "H2TokenKind list" where
  "statementEnders =
     [H2Tok_IDENT, H2Tok_INT, H2Tok_FLOAT, H2Tok_STRING, H2Tok_RUNE, H2Tok_TRUE, H2Tok_FALSE, H2Tok_NULL]
     @ [H2Tok_BREAK, H2Tok_CONTINUE, H2Tok_RETURN] @ [H2Tok_RPAREN, H2Tok_RBRACK, H2Tok_RBRACE] @ [H2Tok_NOT]
     @ [H2Tok_TYPE]"

lemma canEndStmt_enders: "H2TokenCanEndStmt k \<longleftrightarrow> k \<in> set statementEnders"
  by (cases k) (simp_all add: H2TokenCanEndStmt_def statementEnders_def)

text \<open>C6: automatic semicolons (LEX-SEMI-001, LEX-SEMI-002). Between two consecutive tokens, a
semicolon of empty span stands only after one of the sixteen kinds of token listed in
\<open>statementEnders\<close>, at the first newline after it or at the end of the source; and wherever a
token of these kinds is followed by a newline or by the end of the source, the semicolon is
there.\<close>

theorem lex_semicolons:
  assumes "length src \<le> lexMaxLen" "H2Lex ar (View src) d = Ok (ar', d', v, toks)" "Suc i < length toks"
  shows "if insertedSemi (toks ! Suc i) then
      tkind (toks ! i) \<in> set statementEnders \<and> noNewline src (tend (toks ! i)) (tstart (toks ! Suc i)) \<and>
      (tstart (toks ! Suc i) = length src \<or>
       tstart (toks ! Suc i) < length src \<and> src ! tstart (toks ! Suc i) = 0x0A)
    else tkind (toks ! i) \<in> set statementEnders \<longrightarrow>
      tkind (toks ! Suc i) \<noteq> H2Tok_EOF \<and> noNewline src (tend (toks ! i)) (tstart (toks ! Suc i))"
proof -
  have "nextTok src (toks ! i) (toks ! Suc i)"
    using lex_chain [OF assms(1,2)] assms(3) by (auto simp: successively_conv_nth)
  then show ?thesis unfolding nextTok_def semiRule_def canEndStmt_enders by blast
qed
subsection \<open>Nothing is lost\<close>

lemma lex_gaps:
  assumes "length src \<le> lexMaxLen" "H2Lex ar (View src) d = Ok (ar', d', v, toks)"
  shows "gapsTrivial src 0 (filter (\<lambda>t. \<not> insertedSemi t) toks)"
proof -
  from lex_ok_cases [OF assms] obtain pos prev ins ts where r: "lexReach src pos prev ins ts"
    "lexFinal src pos prev ins" "toks = ts @ [mkTok H2Tok_EOF (length src) (length src)]"
    "lexInv src pos prev ins ts" .
  have l: "length src + 8 \<le> UINT32_MAX" using assms(1) by (simp add: lexMaxLen_def)
  from r(2) obtain p nl where f: "skipTrivia src pos None = Inr (p, nl)" "p \<ge> length src"
    unfolding lexFinal_def by blast
  with skipTrivia_span [OF f(1)] r(4) have "p = length src" by (simp add: lexInv_def)
  with lexReach_gaps [OF r(1) l] onlyTrivia_step [OF _ f(1)]
  have "onlyTrivia src (lastEnd 0 (filter (\<lambda>t. \<not> insertedSemi t) ts)) (length src)" by simp
  with r(3) lexReach_gaps [OF r(1) l] show ?thesis by (simp add: gapsTrivial_snoc insertedSemi_def)
qed

text \<open>C11: lexing loses no text. Leaving out the inserted semicolons, the source from its start
to its end is: trivia, the first token's text, trivia, the next token's text, and so on up to
the end-of-file token. Trivia are described apart from the scanner, as a language: the six white
space bytes of LEX-WS-001, line comments up to the end of their line and closed block comments,
which nest.\<close>

theorem lex_covers_source:
  assumes "length src \<le> lexMaxLen" "H2Lex ar (View src) d = Ok (ar', d', v, toks)"
  shows "coversFrom src 0 (filter (\<lambda>t. \<not> insertedSemi t) toks)"
proof (rule gapsTrivial_covers)
  from lex_ok_cases [OF assms] obtain pos prev ins ts where
    t: "toks = ts @ [mkTok H2Tok_EOF (length src) (length src)]" and i: "lexInv src pos prev ins ts" .
  have "tstart t \<le> tend t \<and> tend t \<le> length src" if "t \<in> set ts" for t
  proof -
    have s: "spanOk src t" using that i by (simp add: lexInv_def)
    then show ?thesis by (auto simp: spanOk_def insertedSemi_def)
  qed
  with t show "\<forall>t\<in>set (filter (\<lambda>t. \<not> insertedSemi t) toks). tstart t \<le> tend t \<and> tend t \<le> length src"
    by auto
  show "lastEnd 0 (filter (\<lambda>t. \<not> insertedSemi t) toks) = length src"
    using t by (simp add: insertedSemi_def)
qed (use lex_gaps [OF assms] in simp_all)
subsection \<open>Keywords\<close>

definition lowerChar :: "char \<Rightarrow> char" where
  "lowerChar c = (if of_char c \<ge> (65::nat) \<and> of_char c \<le> (90::nat) then char_of (of_char c + (32::nat)) else c)"

text \<open>The token kinds that are words of the language; each is spelled as its name, in lower case.\<close>

definition keywordKinds :: "H2TokenKind list" where
  "keywordKinds = [H2Tok_IMPORT, H2Tok_PUB, H2Tok_STRUCT, H2Tok_UNION, H2Tok_ENUM, H2Tok_FN, H2Tok_VAR,
     H2Tok_CONST, H2Tok_TYPE, H2Tok_MUT, H2Tok_IF, H2Tok_ELSE, H2Tok_FOR, H2Tok_SWITCH, H2Tok_CASE,
     H2Tok_DEFAULT, H2Tok_BREAK, H2Tok_CONTINUE, H2Tok_RETURN, H2Tok_DEFER, H2Tok_ASSERT, H2Tok_SIZEOF,
     H2Tok_ALLOC, H2Tok_DEALLOC, H2Tok_TRUE, H2Tok_FALSE, H2Tok_IN, H2Tok_AS, H2Tok_ANYTYPE, H2Tok_NULL]"

definition keywordSpelling :: "H2TokenKind \<Rightarrow> string" where
  "keywordSpelling k = map lowerChar (H2TokenKindName k)"

lemma StrEq_iff [simp]: "H2StrEq s w \<longleftrightarrow> s = cstr w"
  by (induction s w rule: H2StrEq.induct) (auto simp: cstr_def)

lemma keyword_spellings:
  "map keywordSpelling keywordKinds = [''import'', ''pub'', ''struct'', ''union'', ''enum'', ''fn'', ''var'',
    ''const'', ''type'', ''mut'', ''if'', ''else'', ''for'', ''switch'', ''case'', ''default'', ''break'', ''continue'',
    ''return'', ''defer'', ''assert'', ''sizeof'', ''alloc'', ''dealloc'', ''true'', ''false'', ''in'', ''as'', ''anytype'', ''null'']"
  by code_simp

lemma keyword_spelled: "k \<in> set keywordKinds \<Longrightarrow> H2KeywordKind (cstr (keywordSpelling k)) = k"
proof -
  have "map (\<lambda>w. H2KeywordKind (cstr w)) (map keywordSpelling keywordKinds) = keywordKinds"
    unfolding keyword_spellings by (simp add: keywordKinds_def H2KeywordKind_def)
  then have "map (\<lambda>k. H2KeywordKind (cstr (keywordSpelling k))) keywordKinds = map (\<lambda>k. k) keywordKinds"
    by (simp add: list.map_comp comp_def)
  then show "k \<in> set keywordKinds \<Longrightarrow> ?thesis" by (simp only: map_eq_conv)
qed

definition isKeyword :: "byte list \<Rightarrow> H2TokenKind \<Rightarrow> bool" where
  "isKeyword s k \<longleftrightarrow> k = H2Tok_IDENT \<or> k \<in> set keywordKinds \<and> s = cstr (keywordSpelling k)"

lemma keyword_known: "isKeyword s (H2KeywordKind s)"
proof -
  have f: "k \<in> set keywordKinds \<Longrightarrow> keywordSpelling k = w \<Longrightarrow> s = cstr w \<Longrightarrow> isKeyword s k" for k w
    by (simp add: isKeyword_def)
  have i: "isKeyword s H2Tok_IDENT" by (simp add: isKeyword_def)
  note sp = keyword_spellings [unfolded keywordKinds_def list.map list.inject]
  show ?thesis
    unfolding H2KeywordKind_def StrEq_iff
    by (intro ifI [where P = "isKeyword s"] i)
      (erule f [rotated 2]; simp (no_asm) add: sp keywordKinds_def)+
qed

text \<open>C29: keywords (LEX-KW-001). A word is the keyword of kind \<open>k\<close> exactly when it is the
name of that kind in lower case; every other word is an identifier.\<close>

theorem keyword_roundtrip:
  "H2KeywordKind s = k \<and> k \<noteq> H2Tok_IDENT \<longleftrightarrow> k \<in> set keywordKinds \<and> s = cstr (keywordSpelling k)"
proof
  assume "H2KeywordKind s = k \<and> k \<noteq> H2Tok_IDENT"
  with keyword_known [of s] show "k \<in> set keywordKinds \<and> s = cstr (keywordSpelling k)"
    by (auto simp: isKeyword_def)
next
  assume k: "k \<in> set keywordKinds \<and> s = cstr (keywordSpelling k)"
  moreover from this have "k \<noteq> H2Tok_IDENT" by (auto simp: keywordKinds_def)
  ultimately show "H2KeywordKind s = k \<and> k \<noteq> H2Tok_IDENT" using keyword_spelled by blast
qed

subsection \<open>Operators\<close>

definition opTable :: "(H2TokenKind \<times> string) list" where
  "opTable = [(H2Tok_LPAREN, ''(''), (H2Tok_RPAREN, '')''), (H2Tok_LBRACE, ''{''), (H2Tok_RBRACE, ''}''),
    (H2Tok_LBRACK, ''[''), (H2Tok_RBRACK, '']''), (H2Tok_COMMA, '',''), (H2Tok_DOT, ''.''),
    (H2Tok_ELLIPSIS, ''...''), (H2Tok_SEMICOLON, '';''), (H2Tok_COLON, '':''), (H2Tok_SHORT_ASSIGN, '':=''),
    (H2Tok_AT, ''@''), (H2Tok_ADD, ''+''), (H2Tok_ADD_ASSIGN, ''+=''), (H2Tok_SUB, ''-''),
    (H2Tok_SUB_ASSIGN, ''-=''), (H2Tok_MUL, ''*''), (H2Tok_MUL_ASSIGN, ''*=''), (H2Tok_DIV, ''/''),
    (H2Tok_DIV_ASSIGN, ''/=''), (H2Tok_MOD, ''%''), (H2Tok_MOD_ASSIGN, ''%=''), (H2Tok_AND, ''&''),
    (H2Tok_LOGICAL_AND, ''&&''), (H2Tok_AND_ASSIGN, ''&=''), (H2Tok_OR, ''|''), (H2Tok_LOGICAL_OR, ''||''),
    (H2Tok_OR_ASSIGN, ''|=''), (H2Tok_XOR, ''^''), (H2Tok_XOR_ASSIGN, ''^=''), (H2Tok_QUESTION, ''?''),
    (H2Tok_NOT, ''!''), (H2Tok_NEQ, ''!=''), (H2Tok_ASSIGN, ''=''), (H2Tok_EQ, ''==''), (H2Tok_LT, ''<''),
    (H2Tok_LTE, ''<=''), (H2Tok_LSHIFT, ''<<''), (H2Tok_LSHIFT_ASSIGN, ''<<=''), (H2Tok_GT, ''>''),
    (H2Tok_GTE, ''>=''), (H2Tok_RSHIFT, ''>>''), (H2Tok_RSHIFT_ASSIGN, ''>>='')]"

text \<open>The source spells \<open>s\<close> at position \<open>p\<close>.\<close>

fun spelled :: "byte list \<Rightarrow> nat \<Rightarrow> string \<Rightarrow> bool" where
  "spelled src p [] \<longleftrightarrow> True"
| "spelled src p (c # cs) \<longleftrightarrow> looking src p (\<lambda>d. d = ch c) \<and> spelled src (Suc p) cs"

text \<open>Of the spellings at \<open>p\<close>, the longest one.\<close>

definition longestOp :: "byte list \<Rightarrow> nat \<Rightarrow> (lexErr, H2TokenKind \<times> nat) outcome \<Rightarrow> bool" where
  "longestOp src p r \<longleftrightarrow> (\<forall>k e. r = Ok (k, e) \<longrightarrow>
     (\<exists>s. (k, s) \<in> set opTable \<and> spelled src p s \<and> e = p + length s \<and>
        (\<forall>(k', s')\<in>set opTable. spelled src p s' \<longrightarrow> length s' \<le> length s)))"

lemma longestOpI:
  "(k, s) \<in> set opTable \<Longrightarrow> e = p + length s \<Longrightarrow> spelled src p s \<Longrightarrow>
   (\<forall>(k', s')\<in>set opTable. spelled src p s' \<longrightarrow> length s' \<le> length s) \<Longrightarrow> longestOp src p (Ok (k, e))"
  unfolding longestOp_def by blast

lemma longestOp_Err: "longestOp src p (Err e)" and longestOp_Stuck: "longestOp src p Stuck"
  by (simp_all add: longestOp_def)

lemma lexPunct_longest:
  assumes "p < length src" "length src + 8 \<le> UINT32_MAX"
  shows "longestOp src p (lexPunct src p)"
proof -
  note t = opTable_def looking_def
  show ?thesis
    unfolding lexPunct_def Let_def withEq_def peek_def
    by (intro ifI [where P = "longestOp src p"] longestOp_Err longestOp_Stuck;
        rule longestOpI, simp (no_asm) add: opTable_def, simp,
        use assms in \<open>simp add: looking_def\<close>, use assms in \<open>simp add: t\<close>)
qed

text \<open>Which scanner a token comes from, by its kind.\<close>

lemma lexNumber_kind: "lexNumber src p = Ok (k, e) \<Longrightarrow> k = H2Tok_INT \<or> k = H2Tok_FLOAT"
  unfolding lexNumber_def Let_def by (auto split: if_splits)

lemma lexToken_classes:
  assumes "p < length src" "length src + 8 \<le> UINT32_MAX" "lexToken src p = Ok (k, e)"
  obtains (word) "isKeyword (take (e - p) (drop p src)) k"
    | (number) "k = H2Tok_INT \<or> k = H2Tok_FLOAT"
    | (rune) "k = H2Tok_RUNE" "lexRune src p = Ok (k, e)"
    | (string) "k = H2Tok_STRING" "lexString src p = Ok (k, e)"
    | (op) s where "(k, s) \<in> set opTable" "spelled src p s" "e = p + length s"
        "\<forall>(k', s')\<in>set opTable. spelled src p s' \<longrightarrow> length s' \<le> length s"
proof -
  consider "lexWord src p = (k, e)" | "lexNumber src p = Ok (k, e)" | "lexRune src p = Ok (k, e)"
    | "lexString src p = Ok (k, e)" | "lexPunct src p = Ok (k, e)"
    using assms(3) unfolding lexToken_def Let_def by (simp split: if_splits)
  then show thesis
  proof cases
    case 1
    with keyword_known word show thesis by (auto simp: lexWord_def Let_def)
  next
    case 2
    with lexNumber_kind number show thesis by blast
  next
    case 3
    moreover from this have "k = H2Tok_RUNE"
      by (auto simp: lexRune_def peek_def split: sum.splits if_splits outcome.splits)
    ultimately show thesis using rune by blast
  next
    case 4
    moreover from this have "k = H2Tok_STRING"
      by (auto simp: lexString_def Let_def peek_def split: sum.splits if_splits outcome.splits)
    ultimately show thesis using string by blast
  next
    case 5
    with lexPunct_longest [OF assms(1,2)] op show thesis unfolding longestOp_def by blast
  qed
qed

lemma opTable_kinds: "fst ` set opTable \<inter> set keywordKinds = {}"
  "\<forall>(k, s)\<in>set opTable. k \<notin> {H2Tok_IDENT, H2Tok_INT, H2Tok_FLOAT, H2Tok_RUNE, H2Tok_STRING}"
  by (simp_all add: opTable_def keywordKinds_def)

text \<open>C30: operators are scanned by longest match. When scanning a token answers an operator or
a delimiter, its text is the spelling of that kind, and no operator spelled at that position
is longer.\<close>

theorem operator_longest_match:
  assumes "p < length src" "length src + 8 \<le> UINT32_MAX" "lexToken src p = Ok (k, e)" "(k, s) \<in> set opTable"
  shows "spelled src p s \<and> e = p + length s \<and>
    (\<forall>(k', s')\<in>set opTable. spelled src p s' \<longrightarrow> length s' \<le> length s)"
  using assms(1-3)
proof (cases rule: lexToken_classes)
  case (op s')
  moreover have "s' = s" using op(1) assms(4) by (auto simp: opTable_def)
  ultimately show ?thesis by simp
qed (use assms(4) opTable_kinds in \<open>auto simp: isKeyword_def\<close>)

subsection \<open>Literals\<close>

text \<open>C20: literals decode later. Every string token of the lexer decodes, to valid UTF-8
(LEX-LIT-009), and every rune token denotes one Unicode scalar value (LEX-LIT-012): the
decoders, run on the token's span, cannot fail.\<close>

theorem lex_literals_decode:
  assumes "length src \<le> lexMaxLen" "H2Lex ar (View src) d = Ok (ar', d', v, toks)" "t \<in> set toks"
  shows "(tkind t = H2Tok_STRING \<longrightarrow>
      (\<exists>bs. H2DecodeStringLiteralMalloc (\<lambda>_ _. True) src (tstart t) (tend t) = Ok bs \<and> utf8Valid bs)) \<and>
    (tkind t = H2Tok_RUNE \<longrightarrow>
      (\<exists>n. H2DecodeRuneLiteralValidate src (tstart t) (tend t) = Ok (of_nat n) \<and> scalarValue n))"
proof -
  from lex_ok_cases [OF assms(1,2)] obtain pos prev ins ts where
    r: "toks = ts @ [mkTok H2Tok_EOF (length src) (length src)]" "lexInv src pos prev ins ts" .
  have l: "length src + 8 \<le> UINT32_MAX" using assms(1) by (simp add: lexMaxLen_def)
  have sp: "tstart t < tend t" "tend t \<le> length src" "tend t + 8 \<le> UINT32_MAX"
    "lexToken src (tstart t) = Ok (tkind t, tend t)"
    if "tkind t = H2Tok_STRING \<or> tkind t = H2Tok_RUNE"
    using that assms(3) r l by (auto simp: lexInv_def spanOk_def insertedSemi_def)
  have "\<exists>bs. H2DecodeStringLiteralMalloc (\<lambda>_ _. True) src (tstart t) (tend t) = Ok bs \<and> utf8Valid bs"
    if k: "tkind t = H2Tok_STRING"
  proof -
    note s = sp [OF disjI1 [OF k]]
    then have "tstart t < length src" by linarith
    from this l s(4) have "lexString src (tstart t) = Ok (tkind t, tend t)"
      by (cases rule: lexToken_classes) (use k opTable_kinds(2) in \<open>auto simp: isKeyword_def keywordKinds_def\<close>)
    then have "H2DecodeStringLiteralValidate src (tstart t) (tend t) = Ok ()"
      by (auto simp: lexString_def Let_def peek_def split: sum.splits if_splits outcome.splits)
    with validate_decodeBytes [OF s(1-3)] obtain bs where bs: "decodeBytes src (tstart t) (tend t) = Ok bs"
      by (auto split: outcome.splits)
    with malloc_decodeBytes [OF s(1-3)] decodeBytes_valid [OF s(1-3) bs] show ?thesis by simp
  qed
  moreover have "\<exists>n. H2DecodeRuneLiteralValidate src (tstart t) (tend t) = Ok (of_nat n) \<and> scalarValue n"
    if k: "tkind t = H2Tok_RUNE"
  proof -
    note s = sp [OF disjI2 [OF k]]
    then have "tstart t < length src" by linarith
    from this l s(4) have "lexRune src (tstart t) = Ok (tkind t, tend t)"
      by (cases rule: lexToken_classes) (use k opTable_kinds(2) in \<open>auto simp: isKeyword_def keywordKinds_def\<close>)
    then obtain x where x: "H2DecodeRuneLiteralValidate src (tstart t) (tend t) = Ok x"
      by (auto simp: lexRune_def Let_def peek_def split: sum.splits if_splits outcome.splits)
    from rune_value [OF s(1-3)] x obtain cps where c: "\<forall>n\<in>set cps. scalarValue n"
      "Ok x = (case cps of [] \<Rightarrow> Err \<lparr>rekind = H2RuneLitErr_EMPTY, restart = tstart t, reend = tend t\<rparr>
         | [n] \<Rightarrow> Ok (of_nat n)
         | _ \<Rightarrow> Err \<lparr>rekind = H2RuneLitErr_MULTIPLE_CODEPOINTS, restart = tstart t, reend = tend t\<rparr>)"
      by (auto split: outcome.splits)
    from c(2) obtain n where "cps = [n]" "x = of_nat n"
      by (cases cps; cases "tl cps") auto
    with c(1) x show ?thesis by auto
  qed
  ultimately show ?thesis by blast
qed

lemma scanStringBody_plain:
  assumes "\<forall>c\<in>set body. c \<noteq> ch CHR ''`'' \<and> c \<noteq> ch CHR 0x5C" "src = pre @ body @ rest" "pos = length pre"
  shows "scanStringBody (ch CHR ''`'') src pos = scanStringBody (ch CHR ''`'') src (pos + length body)"
  using assms
proof (induction body arbitrary: pre pos)
  case (Cons c body)
  from Cons.IH [of "pre @ [c]" "Suc pos"] Cons.prems show ?case
    by (subst scanStringBody.simps) (simp add: Let_def nth_append)
qed simp

lemma ascii_valid: "\<forall>c\<in>set bs. unat c < 0x80 \<Longrightarrow> utf8Valid bs"
proof -
  assume a: "\<forall>c\<in>set bs. unat c < 0x80"
  have "concat (map utf8Encode (map unat bs)) = bs"
    using a by (induction bs) (auto simp: utf8Encode_def)
  moreover have "\<forall>n\<in>set (map unat bs). scalarValue n" using a by (auto simp: scalarValue_def)
  ultimately show ?thesis unfolding utf8Valid_def by metis
qed

lemma raw_escape_at_end:
  assumes "\<forall>c\<in>set body. c \<noteq> ch CHR ''`'' \<and> c \<noteq> ch CHR 0x5C \<and> c \<noteq> 0x0D \<and> unat c < 0x80"
    "src = [ch CHR ''`''] @ body @ [ch CHR 0x5C, ch CHR ''`'']" "length src + 8 \<le> UINT32_MAX"
  shows "lexToken src 0 = Ok (H2Tok_STRING, length src)"
    "H2DecodeStringLiteralMalloc (\<lambda>_ _. True) src 0 (length src) = Ok (body @ [ch CHR 0x5C])"
proof -
  let ?b = "body @ [ch CHR 0x5C]"
  have s: "src = [] @ [ch CHR ''`''] @ ?b @ [ch CHR ''`''] @ []" "length src = length ?b + 2"
    using assms(2) by simp_all
  have bs: "ch CHR 0x5C \<noteq> (0x0D :: byte)" "ch CHR 0x5C \<noteq> (10 :: byte)" by (simp_all add: ch_def)
  have lit: "litText True ?b = Some ?b"
    using assms(1) bs by (induction body) (auto simp: litText.simps textStep_def)
  have v: "utf8Valid ?b" by (rule ascii_valid) (use assms(1) in \<open>auto simp: ch_def\<close>)
  have d: "isDelim (ch CHR ''`'')" by (simp add: isDelim_def)
  show m: "H2DecodeStringLiteralMalloc (\<lambda>_ _. True) src 0 (length src) = Ok ?b"
    by (rule malloc_meaning [THEN iffD2, OF s(1) d]) (use s assms lit v bs in simp_all)
  have r: "0 < length src" "length src \<le> length src" using s(2) by simp_all
  have "H2DecodeStringLiteralValidate src 0 (length src) = Ok ()"
    using m validate_decodeBytes [OF r assms(3)] malloc_decodeBytes [OF r assms(3)]
    by (auto split: outcome.splits prod.splits)
  moreover have "scanStringBody (ch CHR ''`'') src 1 = Inr (length src)"
  proof -
    have "scanStringBody (ch CHR ''`'') src 1 = scanStringBody (ch CHR ''`'') src (1 + length body)"
      by (rule scanStringBody_plain [of _ _ "[ch CHR ''`'']"]) (use assms in auto)
    also have "\<dots> = scanStringBody (ch CHR ''`'') src (length src)"
      using assms(2) by (subst scanStringBody.simps) (simp add: Let_def looking_def nth_append)
    also have "\<dots> = Inr (length src)" by (subst scanStringBody.simps) simp
    finally show ?thesis .
  qed
  moreover have "src ! 0 = ch CHR ''`''" "src ! (length src - 1) = ch CHR ''`''"
    using assms(2) by (simp_all add: nth_append)
  moreover have "\<not> H2IsAlpha (ch CHR ''`'')" "\<not> H2IsDigit (ch CHR ''`'')" by code_simp+
  ultimately show "lexToken src 0 = Ok (H2Tok_STRING, length src)"
    using r by (simp add: lexToken_def Let_def lexString_def)
qed

text \<open>a raw string can end inside its escape. A raw string whose last characters are an
escaped backtick has no closing delimiter (LEX-LIT-008), but the lexer accepts it at the end of
the source: its check of the last byte takes the escaped backtick for the delimiter. The text
then decodes with the backslash kept.\<close>

theorem raw_string_ends_in_escape:
  assumes "\<forall>c\<in>set body. c \<noteq> ch CHR ''`'' \<and> c \<noteq> ch CHR 0x5C \<and> c \<noteq> 0x0D \<and> unat c < 0x80"
    "src = [ch CHR ''`''] @ body @ [ch CHR 0x5C, ch CHR ''`'']" "length src + 8 \<le> UINT32_MAX"
  shows "lexToken src 0 = Ok (H2Tok_STRING, length src) \<and>
    H2DecodeStringLiteralMalloc (\<lambda>_ _. True) src 0 (length src) = Ok (body @ [ch CHR 0x5C])"
  using raw_escape_at_end [OF assms] by simp

subsection \<open>The properties at work\<close>

text \<open>One line of source: an assignment of a string, a comment and the newline.\<close>

definition exSrc :: "byte list" where
  "exSrc = cstr ''x = \"a\" // c'' @ [0x0A]"

definition exTokens :: "H2Token list" where
  "exTokens = [mkTok H2Tok_IDENT 0 1, mkTok H2Tok_ASSIGN 2 3, mkTok H2Tok_STRING 4 7,
     mkTok H2Tok_SEMICOLON 12 12, mkTok H2Tok_EOF 13 13]"

lemma exLex: "\<exists>ar' d' v. H2Lex exArena (View exSrc) None = Ok (ar', d', v, exTokens)"
proof -
  have "case H2Lex exArena (View exSrc) None of Ok (ar', d', v, toks) \<Rightarrow> toks = exTokens | _ \<Rightarrow> False"
    by code_simp
  then show ?thesis by (auto split: outcome.splits prod.splits)
qed

lemma exSrc_len: "length exSrc \<le> lexMaxLen" "length exSrc = 13"
  by (simp_all add: exSrc_def lexMaxLen_def)

lemma lex_memory_safe_witness:
  "\<exists>ar' d' v. H2Lex exArena (View exSrc) None = Ok (ar', d', v, exTokens) \<and>
     arenaWf {4096..<4160} ar' \<and> region (v, 60) \<subseteq> arenaUsed ar'"
proof -
  obtain ar' d' v where l: "H2Lex exArena (View exSrc) None = Ok (ar', d', v, exTokens)" using exLex by blast
  have "length exTokens = 5" by (simp add: exTokens_def)
  with l lex_memory_safe [OF exSrc_len(1) exArena_wf, of None] show ?thesis by auto
qed

lemma lex_tokens_ordered_witness:
  "\<exists>ar' d' v. H2Lex exArena (View exSrc) None = Ok (ar', d', v, exTokens) \<and>
     sorted_wrt (\<lambda>a b. tend a \<le> tstart b) exTokens"
  using exLex lex_tokens_ordered [OF exSrc_len(1)] by blast

lemma lex_semicolons_witness:
  "insertedSemi (exTokens ! 3) \<and> tkind (exTokens ! 2) \<in> set statementEnders \<and> noNewline exSrc 7 12 \<and>
   exSrc ! 12 = 0x0A"
proof -
  obtain ar' d' v where l: "H2Lex exArena (View exSrc) None = Ok (ar', d', v, exTokens)" using exLex by blast
  have t: "Suc 2 < length exTokens" "exTokens ! 3 = mkTok H2Tok_SEMICOLON 12 12" "exTokens ! 2 = mkTok H2Tok_STRING 4 7"
    by (simp_all add: exTokens_def)
  have n: "Suc 2 = (3 :: nat)" by simp
  show ?thesis
    using lex_semicolons [OF exSrc_len(1) l t(1)] unfolding n t by (simp add: insertedSemi_def exSrc_len)
qed

lemma lex_covers_source_witness:
  "coversFrom exSrc 0 (filter (\<lambda>t. \<not> insertedSemi t) exTokens)"
  using exLex lex_covers_source [OF exSrc_len(1)] by blast

lemma operator_longest_match_witness:
  "lexToken (cstr ''<<=1'') 0 = Ok (H2Tok_LSHIFT_ASSIGN, 3) \<and> spelled (cstr ''<<=1'') 0 ''<<=''"
proof -
  have l: "lexToken (cstr ''<<=1'') 0 = Ok (H2Tok_LSHIFT_ASSIGN, 3)" by code_simp
  have "(H2Tok_LSHIFT_ASSIGN, ''<<='') \<in> set opTable" by (simp add: opTable_def)
  from operator_longest_match [OF _ _ l this] show ?thesis using l by simp
qed

lemma lex_literals_decode_witness:
  "\<exists>bs. H2DecodeStringLiteralMalloc (\<lambda>_ _. True) exSrc 4 7 = Ok bs \<and> utf8Valid bs"
proof -
  obtain ar' d' v where l: "H2Lex exArena (View exSrc) None = Ok (ar', d', v, exTokens)" using exLex by blast
  have "mkTok H2Tok_STRING 4 7 \<in> set exTokens" by (simp add: exTokens_def)
  from lex_literals_decode [OF exSrc_len(1) l this] show ?thesis by simp
qed

lemma raw_string_ends_in_escape_witness:
  "lexToken [ch CHR ''`'', ch CHR ''a'', ch CHR 0x5C, ch CHR ''`''] 0 = Ok (H2Tok_STRING, 4)"
  using raw_string_ends_in_escape [of "[ch CHR ''a'']"] by (simp add: ch_def)

end
