(* ===== verification/H2ImportPath.thy ===== *)
theory H2ImportPath
  imports H2Lexer
begin

text \<open>
  Import path normalization (\<open>H2NormalizeImportPath\<close> of \<open>src/libhop.c\<close>). A path is the bytes
  of a C string before its terminator. The output buffer of \<open>outCap\<close> bytes is held as the
  \<open>outLen\<close> bytes written so far: a write beyond the capacity is \<open>Stuck\<close>. The reason of a
  failure is the text of \<open>outErrReason\<close>.
\<close>

subsection \<open>The code\<close>

definition H2IsAsciiSpace :: "byte \<Rightarrow> bool" where
  "H2IsAsciiSpace c \<longleftrightarrow> c = ch CHR '' '' \<or> c = 0x09 \<or> c = 0x0A \<or> c = 0x0D \<or> c = 0x0C \<or> c = 0x0B"

definition H2IsValidImportPathChar :: "byte \<Rightarrow> bool" where
  "H2IsValidImportPathChar c \<longleftrightarrow>
     (c \<ge> ch CHR ''A'' \<and> c \<le> ch CHR ''Z'') \<or> (c \<ge> ch CHR ''a'' \<and> c \<le> ch CHR ''z'') \<or>
     (c \<ge> ch CHR ''0'' \<and> c \<le> ch CHR ''9'') \<or> c = ch CHR ''_'' \<or> c = ch CHR ''.'' \<or>
     c = ch CHR ''/'' \<or> c = ch CHR ''-''"

text \<open>Subtraction of \<open>uint32_t\<close> values.\<close>

definition sub32 :: "nat \<Rightarrow> nat \<Rightarrow> nat" where
  "sub32 a b = u32 (a + (4294967296 - b))"

text \<open>\<open>while (outLen > 0 && out[outLen - 1] != '/') outLen--; if (outLen > 0) outLen--;\<close>\<close>

definition popSegment :: "byte list \<Rightarrow> byte list" where
  "popSegment out = butlast (rev (dropWhile (\<lambda>c. c \<noteq> ch CHR ''/'') (rev out)))"

definition pushSlash :: "byte list \<Rightarrow> nat \<Rightarrow> (string, byte list) outcome" where
  "pushSlash out outCap =
     (if length out > 0 then
        (if u32 (length out + 1) \<ge> outCap then Err ''output buffer too small''
         else if length out \<ge> outCap then Stuck
         else Ok (out @ [ch CHR ''/'']))
      else Ok out)"

definition pushSegment :: "byte list \<Rightarrow> nat \<Rightarrow> byte list \<Rightarrow> (string, byte list) outcome" where
  "pushSegment out outCap seg =
     (case pushSlash out outCap of
        Err e \<Rightarrow> Err e
      | Stuck \<Rightarrow> Stuck
      | Ok out' \<Rightarrow>
          (if length seg > sub32 (sub32 outCap (length out')) 1 then Err ''output buffer too small''
           else if length out' + length seg > outCap then Stuck
           else Ok (out' @ seg)))"

function importLoop :: "byte list \<Rightarrow> nat \<Rightarrow> nat \<Rightarrow> byte list \<Rightarrow> (string, byte list) outcome" where
  "importLoop path outCap segStart out =
     (let segEnd = skipWhile (\<lambda>c. c \<noteq> ch CHR ''/'') path segStart;
          seg = take (segEnd - segStart) (drop segStart path);
          next = (\<lambda>out'. if segEnd \<ge> length path then Ok out'
                         else importLoop path outCap (segEnd + 1) out')
      in if length seg = 0 then Err ''empty segment''
         else if length seg = 1 \<and> path ! segStart = ch CHR ''.'' then next out
         else if length seg = 2 \<and> path ! segStart = ch CHR ''.'' \<and> path ! (segStart + 1) = ch CHR ''.'' then
           (if length out = 0 then Err ''escapes root'' else next (popSegment out))
         else
           (case pushSegment out outCap seg of
              Err e \<Rightarrow> Err e
            | Stuck \<Rightarrow> Stuck
            | Ok out' \<Rightarrow> next out'))"
  by pat_completeness auto
termination
proof (relation "measure (\<lambda>(path, cap, segStart, out). length path - segStart)", goal_cases)
  case (2 path outCap segStart out segEnd seg out')
  then show ?case using skipWhile_ge [of segStart "\<lambda>c. c \<noteq> ch CHR ''/''" path] by auto
qed auto

declare importLoop.simps [simp del]

definition H2NormalizeImportPath :: "byte list option \<Rightarrow> bool \<Rightarrow> nat \<Rightarrow> (string, byte list) outcome" where
  "H2NormalizeImportPath importPath outNonNull outCap =
     (case importPath of
        None \<Rightarrow> Err ''empty path''
      | Some path \<Rightarrow>
          (if path = [] then Err ''empty path''
           else if \<not> outNonNull \<or> outCap = 0 then Err ''output buffer too small''
           else if path ! 0 = ch CHR ''/'' then Err ''absolute path''
           else if path = [ch CHR ''.''] then Err ''cannot import itself''
           else if path = [ch CHR ''.'', ch CHR ''.''] then Err ''cannot import parent root''
           else if H2IsAsciiSpace (path ! 0) \<or> H2IsAsciiSpace (path ! (length path - 1))
           then Err ''leading/trailing whitespace''
           else if \<not> list_all H2IsValidImportPathChar path then Err ''invalid character''
           else
             (case importLoop path outCap 0 [] of
                Err e \<Rightarrow> Err e
              | Stuck \<Rightarrow> Stuck
              | Ok out \<Rightarrow>
                  (if length out = 0 then Err ''empty path''
                   else if length out \<ge> outCap then Stuck
                   else Ok out))))"
subsection \<open>The reference: a stack of segments\<close>

fun joinSegs :: "byte list list \<Rightarrow> byte list" where
  "joinSegs [] = []"
| "joinSegs [s] = s"
| "joinSegs (s # t # ss) = s @ ch CHR ''/'' # joinSegs (t # ss)"

fun splitSlash :: "byte list \<Rightarrow> byte list list" where
  "splitSlash [] = [[]]"
| "splitSlash (c # cs) =
     (if c = ch CHR ''/'' then [] # splitSlash cs
      else (c # hd (splitSlash cs)) # tl (splitSlash cs))"

text \<open>Resolve the segments against the stack, in a buffer that holds fewer than \<open>cap\<close> bytes.\<close>

fun resolveSegs :: "nat \<Rightarrow> byte list list \<Rightarrow> byte list list \<Rightarrow> string + byte list list" where
  "resolveSegs cap stack [] = (if stack = [] then Inl ''empty path'' else Inr stack)"
| "resolveSegs cap stack (s # ss) =
     (if s = [] then Inl ''empty segment''
      else if s = cstr ''.'' then resolveSegs cap stack ss
      else if s = cstr ''..'' then
        (if stack = [] then Inl ''escapes root'' else resolveSegs cap (butlast stack) ss)
      else if length (joinSegs (stack @ [s])) < cap then resolveSegs cap (stack @ [s]) ss
      else Inl ''output buffer too small'')"

definition segOk :: "byte list \<Rightarrow> bool" where
  "segOk s \<longleftrightarrow> s \<noteq> [] \<and> ch CHR ''/'' \<notin> set s \<and> s \<noteq> cstr ''.'' \<and> s \<noteq> cstr ''..''"

lemma joinSegs_snoc: "joinSegs (st @ [s]) = (if st = [] then s else joinSegs st @ ch CHR ''/'' # s)"
  by (induction st rule: joinSegs.induct) auto

lemma joinSegs_empty: "\<forall>s\<in>set st. s \<noteq> [] \<Longrightarrow> joinSegs st = [] \<longleftrightarrow> st = []"
  by (induction st rule: joinSegs.induct) auto

lemma popSegment_join:
  assumes "ch CHR ''/'' \<notin> set s"
  shows "popSegment (joinSegs (st @ [s])) = joinSegs st"
proof -
  have d: "dropWhile (\<lambda>c. c \<noteq> ch CHR ''/'') (rev s @ xs) = dropWhile (\<lambda>c. c \<noteq> ch CHR ''/'') xs" for xs
    by (rule dropWhile_append2) (use assms in auto)
  show ?thesis
  proof (cases "st = []")
    case True
    have "dropWhile (\<lambda>c. c \<noteq> ch CHR ''/'') (rev s) = []" using assms by (auto simp: dropWhile_eq_Nil_conv)
    then show ?thesis unfolding True popSegment_def by (simp only: append_Nil joinSegs.simps rev.simps butlast.simps)
  next
    case False
    with d [of "ch CHR ''/'' # rev (joinSegs st)"] show ?thesis by (simp add: joinSegs_snoc popSegment_def)
  qed
qed

lemma skipWhile_takeWhile:
  "i \<le> length xs \<Longrightarrow> skipWhile P xs i = i + length (takeWhile P (drop i xs))"
proof (induction "length xs - i" arbitrary: i)
  case 0
  then show ?case by (subst skipWhile.simps) (simp add: looking_def)
next
  case (Suc n)
  then have i: "i < length xs" by simp
  show ?case
  proof (cases "P (xs ! i)")
    case True
    with Suc i show ?thesis
      by (subst skipWhile.simps) (simp add: looking_def Cons_nth_drop_Suc [OF i, symmetric])
  next
    case False
    with i show ?thesis
      by (subst skipWhile.simps) (simp add: looking_def Cons_nth_drop_Suc [OF i, symmetric])
  qed
qed

lemma splitSlash_unfold:
  "splitSlash xs = takeWhile (\<lambda>c. c \<noteq> ch CHR ''/'') xs #
     (case dropWhile (\<lambda>c. c \<noteq> ch CHR ''/'') xs of [] \<Rightarrow> [] | _ # ys \<Rightarrow> splitSlash ys)"
  by (induction xs) auto

text \<open>One segment, and where the next one starts.\<close>

lemma seg_at:
  fixes path i
  defines "e \<equiv> skipWhile (\<lambda>c. c \<noteq> ch CHR ''/'') path i"
  assumes "i \<le> length path"
  shows "take (e - i) (drop i path) = takeWhile (\<lambda>c. c \<noteq> ch CHR ''/'') (drop i path)"
    "splitSlash (drop i path) = take (e - i) (drop i path) #
       (if e \<ge> length path then [] else splitSlash (drop (e + 1) path))"
    "e \<le> length path" "ch CHR ''/'' \<notin> set (take (e - i) (drop i path))"
proof -
  let ?t = "takeWhile (\<lambda>c. c \<noteq> ch CHR ''/'') (drop i path)"
  have e: "e = i + length ?t" unfolding e_def by (rule skipWhile_takeWhile [OF assms(2)])
  have l: "length ?t \<le> length path - i" using length_takeWhile_le [of _ "drop i path"] by simp
  show t: "take (e - i) (drop i path) = ?t" unfolding e by (simp add: takeWhile_eq_take [symmetric])
  show "e \<le> length path" using e l assms(2) by simp
  have "dropWhile (\<lambda>c. c \<noteq> ch CHR ''/'') (drop i path) = drop e path"
    unfolding e by (simp add: dropWhile_eq_drop add.commute)
  then show "splitSlash (drop i path) = take (e - i) (drop i path) #
       (if e \<ge> length path then [] else splitSlash (drop (e + 1) path))"
    unfolding t by (subst splitSlash_unfold) (auto split: list.split simp: drop_Suc tl_drop [symmetric])
  show "ch CHR ''/'' \<notin> set (take (e - i) (drop i path))"
    unfolding t by (auto dest: set_takeWhileD)
qed

lemma pushSegment_join:
  assumes "\<forall>s\<in>set st. s \<noteq> []" "seg \<noteq> []" "length (joinSegs st) < cap" "cap \<le> UINT32_MAX"
  shows "pushSegment (joinSegs st) cap seg =
    (if length (joinSegs (st @ [seg])) < cap then Ok (joinSegs (st @ [seg])) else Err ''output buffer too small'')"
proof -
  have s: "sub32 a b = a - b" if "b \<le> a" "a \<le> UINT32_MAX" for a b
  proof -
    have "a + (4294967296 - b) = (a - b) + 4294967296" using that by linarith
    moreover have "a - b < 4294967296" using that by linarith
    ultimately show ?thesis by (simp add: sub32_def u32_def)
  qed
  have l: "0 < length seg" using assms(2) by simp
  show ?thesis
  proof (cases "st = []")
    case True
    with assms l show ?thesis by (auto simp: pushSegment_def pushSlash_def s joinSegs_snoc)
  next
    case False
    then have "joinSegs st \<noteq> []" using joinSegs_empty [OF assms(1)] by simp
    with False assms l show ?thesis by (auto simp: pushSegment_def pushSlash_def s joinSegs_snoc)
  qed
qed
subsection \<open>The code follows the reference\<close>

definition importResult :: "string + byte list list \<Rightarrow> (string, byte list) outcome" where
  "importResult r = (case r of Inl e \<Rightarrow> Err e | Inr st \<Rightarrow> Ok (joinSegs st))"

text \<open>The check after the loop.\<close>

definition nonEmptyOut :: "(string, byte list) outcome \<Rightarrow> (string, byte list) outcome" where
  "nonEmptyOut r = (case r of Ok out \<Rightarrow> if out = [] then Err ''empty path'' else Ok out | _ \<Rightarrow> r)"

lemma segment_dots:
  assumes "seg = take n (drop i path)" "n \<le> length path - i"
  shows "length seg = 1 \<and> path ! i = ch CHR ''.'' \<longleftrightarrow> seg = cstr ''.''"
    "length seg = 2 \<and> path ! i = ch CHR ''.'' \<and> path ! (i + 1) = ch CHR ''.'' \<longleftrightarrow> seg = cstr ''..''"
proof -
  have l: "length seg = n" using assms by simp
  have n0: "0 < n \<Longrightarrow> path ! i = seg ! 0" "1 < n \<Longrightarrow> path ! (i + 1) = seg ! 1" using assms by simp_all
  show "length seg = 1 \<and> path ! i = ch CHR ''.'' \<longleftrightarrow> seg = cstr ''.''"
    using l n0 by (cases seg; cases "tl seg") (auto simp: cstr_def)
  show "length seg = 2 \<and> path ! i = ch CHR ''.'' \<and> path ! (i + 1) = ch CHR ''.'' \<longleftrightarrow> seg = cstr ''..''"
    using l n0 by (cases seg; cases "tl seg"; cases "tl (tl seg)") (auto simp: cstr_def)
qed

lemma joinSegs_butlast_less: "length (joinSegs st) < cap \<Longrightarrow> length (joinSegs (butlast st)) < cap"
  by (cases st rule: rev_cases) (auto simp: joinSegs_snoc split: if_splits)

lemma importLoop_resolve:
  assumes "i \<le> length path" "\<forall>s\<in>set st. segOk s" "length (joinSegs st) < cap" "cap \<le> UINT32_MAX"
  shows "nonEmptyOut (importLoop path cap i (joinSegs st)) = importResult (resolveSegs cap st (splitSlash (drop i path))) \<and>
    (\<forall>out. importLoop path cap i (joinSegs st) = Ok out \<longrightarrow> length out < cap)"
  using assms
proof (induction "length path - i" arbitrary: i st rule: less_induct)
  case less
  define e where "e = skipWhile (\<lambda>c. c \<noteq> ch CHR ''/'') path i"
  define seg where "seg = take (e - i) (drop i path)"
  let ?next = "\<lambda>out. if e \<ge> length path then Ok out else importLoop path cap (e + 1) out"
  note sa = seg_at [OF less.prems(1), folded e_def, folded seg_def]
  have e: "i \<le> e" unfolding e_def by (rule skipWhile_ge)
  have n: "e - i \<le> length path - i" using sa(3) by linarith
  note dots = segment_dots [OF seg_def n]
  let ?rest = "if e \<ge> length path then [] else splitSlash (drop (e + 1) path)"
  have nx: "nonEmptyOut (?next (joinSegs st')) = importResult (resolveSegs cap st' ?rest) \<and>
      (\<forall>out. ?next (joinSegs st') = Ok out \<longrightarrow> length out < cap)"
    if "\<forall>s\<in>set st'. segOk s" "length (joinSegs st') < cap" for st'
  proof (cases "e \<ge> length path")
    case True
    have "joinSegs st' = [] \<longleftrightarrow> st' = []" by (rule joinSegs_empty) (use that in \<open>simp add: segOk_def\<close>)
    with True that show ?thesis by (simp add: nonEmptyOut_def importResult_def)
  next
    case False
    then have "length path - (e + 1) < length path - i" "e + 1 \<le> length path" using e by linarith+
    from less.hyps [OF this that less.prems(4)] False show ?thesis by simp
  qed
  have st: "\<forall>s\<in>set st. s \<noteq> []" using less.prems(2) by (simp add: segOk_def)
  note emp = joinSegs_empty [OF st]
  note L = importLoop.simps [of path cap i "joinSegs st", unfolded Let_def, folded e_def, folded seg_def, unfolded dots] and R = sa(2)
  consider "seg = []" | "seg = cstr ''.''" | "seg = cstr ''..''" | "segOk seg" "seg \<noteq> cstr ''.''" "seg \<noteq> cstr ''..''"
    using sa(4) by (auto simp: segOk_def)
  then show ?case
  proof cases
    case 1
    then show ?thesis unfolding L R by (simp add: importResult_def nonEmptyOut_def)
  next
    case 2
    then have "seg \<noteq> []" by (simp add: cstr_def)
    with 2 nx [OF less.prems(2,3)] show ?thesis unfolding L R by simp
  next
    case 3
    show ?thesis
    proof (cases "st = []")
      case True
      with 3 show ?thesis unfolding L R by (simp add: importResult_def nonEmptyOut_def cstr_def)
    next
      case False
      then obtain st' s where s: "st = st' @ [s]" by (cases st rule: rev_cases) auto
      then have "popSegment (joinSegs st) = joinSegs st'" "length (joinSegs st') < cap" "\<forall>s\<in>set st'. segOk s"
        using less.prems(2,3) joinSegs_butlast_less [OF less.prems(3)] by (auto simp: popSegment_join segOk_def)
      with 3 nx [of st'] False emp s show ?thesis unfolding L R by (cases "length path \<le> e") (simp_all add: cstr_def)
    qed
  next
    case 4
    then have ne: "seg \<noteq> []" by (simp add: segOk_def)
    show ?thesis
    proof (cases "length (joinSegs (st @ [seg])) < cap")
      case True
      have "\<forall>s\<in>set (st @ [seg]). segOk s" using less.prems(2) 4(1) by simp
      from nx [OF this True] True 4 ne pushSegment_join [OF st ne less.prems(3,4)] show ?thesis unfolding L R by simp
    next
      case False
      with 4 ne pushSegment_join [OF st ne less.prems(3,4)] show ?thesis
        unfolding L R by (simp add: importResult_def nonEmptyOut_def)
    qed
  qed
qed
text \<open>The checks made before the path is split.\<close>

definition importPathRejected :: "byte list \<Rightarrow> bool" where
  "importPathRejected path \<longleftrightarrow>
     path = [] \<or> path ! 0 = ch CHR ''/'' \<or> path = cstr ''.'' \<or> path = cstr ''..'' \<or>
     \<not> list_all H2IsValidImportPathChar path"

lemma space_not_valid: "H2IsAsciiSpace c \<Longrightarrow> \<not> H2IsValidImportPathChar c"
  unfolding H2IsAsciiSpace_def by (elim disjE) (simp_all add: H2IsValidImportPathChar_def ch_def)

lemma valid_ends:
  "list_all H2IsValidImportPathChar path \<Longrightarrow> path \<noteq> [] \<Longrightarrow>
   \<not> H2IsAsciiSpace (path ! 0) \<and> \<not> H2IsAsciiSpace (path ! (length path - 1))"
  using space_not_valid [of "path ! 0"] space_not_valid [of "path ! (length path - 1)"]
  by (auto simp: list_all_length)

text \<open>
  The same checks as a table of faults, in the order in which they are reported, with the
  legal characters (upper and lower case letters, digits, underscore, dot, slash and minus) and
  the white space written out.
\<close>

definition importChars :: "byte list" where
  "importChars = map of_nat ([65..<65 + 26] @ [97..<97 + 26] @ [48..<48 + 10]) @ [0x5F, 0x2E, 0x2F, 0x2D]"

definition importSpaces :: "byte list" where
  "importSpaces = [0x20, 0x09, 0x0A, 0x0B, 0x0C, 0x0D]"

definition importPathFault :: "byte list \<Rightarrow> string option" where
  "importPathFault path =
     (if path = [] then Some ''empty path''
      else if hd path = 0x2F then Some ''absolute path''
      else if path = cstr ''.'' then Some ''cannot import itself''
      else if path = cstr ''..'' then Some ''cannot import parent root''
      else if hd path \<in> set importSpaces \<or> last path \<in> set importSpaces then Some ''leading/trailing whitespace''
      else if \<not> set path \<subseteq> set importChars then Some ''invalid character''
      else None)"

lemma importChars_code: "H2IsValidImportPathChar c \<longleftrightarrow> c \<in> set importChars"
proof -
  have v: "H2IsValidImportPathChar c \<longleftrightarrow> 65 \<le> unat c \<and> unat c \<le> 90 \<or> 97 \<le> unat c \<and> unat c \<le> 122 \<or>
      48 \<le> unat c \<and> unat c \<le> 57 \<or> unat c = 95 \<or> unat c = 46 \<or> unat c = 47 \<or> unat c = 45"
    by (simp add: H2IsValidImportPathChar_def word_le_nat_alt word_unat_eq_iff unat_ch)
  have r: "c \<in> of_nat ` {a..<b} \<longleftrightarrow> a \<le> unat c \<and> unat c < b" if "b \<le> 256" for a b :: nat
  proof
    assume "c \<in> of_nat ` {a..<b}"
    then obtain k where "c = of_nat k" "a \<le> k" "k < b" by auto
    with that show "a \<le> unat c \<and> unat c < b" by (simp add: unat_of_nat)
  next
    assume "a \<le> unat c \<and> unat c < b"
    then show "c \<in> of_nat ` {a..<b}" by (intro image_eqI [of _ _ "unat c"]) simp_all
  qed
  have "c \<in> set importChars \<longleftrightarrow>
      (65 \<le> unat c \<and> unat c < 65 + 26 \<or> 97 \<le> unat c \<and> unat c < 97 + 26 \<or> 48 \<le> unat c \<and> unat c < 48 + 10) \<or>
      c \<in> set [0x5F, 0x2E, 0x2F, 0x2D]"
    unfolding importChars_def set_append set_map set_upt image_Un Un_iff by (subst r, simp)+ blast
  also have "c \<in> set [0x5F, 0x2E, 0x2F, 0x2D] \<longleftrightarrow> unat c = 95 \<or> unat c = 46 \<or> unat c = 47 \<or> unat c = 45"
    by (simp add: word_unat_eq_iff)
  finally show ?thesis unfolding v by auto
qed

lemma importSpaces_code: "H2IsAsciiSpace c \<longleftrightarrow> c \<in> set importSpaces"
  by (auto simp: H2IsAsciiSpace_def importSpaces_def ch_def)

lemma importPathFault_rejected: "importPathFault path = None \<longleftrightarrow> \<not> importPathRejected path"
proof (cases "path = []")
  case False
  have v: "list_all H2IsValidImportPathChar path \<longleftrightarrow> set path \<subseteq> set importChars"
    by (auto simp: list_all_iff importChars_code)
  have e: "path ! 0 = hd path" "path ! (length path - 1) = last path" "ch CHR ''/'' = 0x2F"
    using False by (simp_all add: hd_conv_nth last_conv_nth ch_def)
  from valid_ends [OF _ False] False show ?thesis
    unfolding importPathFault_def importPathRejected_def e v importSpaces_code by auto
qed (simp add: importPathFault_def importPathRejected_def)

lemma normalize_fault:
  assumes "importPathFault path = Some e" "0 < cap"
  shows "H2NormalizeImportPath (Some path) True cap = Err e"
proof (cases "path = []")
  case False
  have v: "list_all H2IsValidImportPathChar path \<longleftrightarrow> set path \<subseteq> set importChars"
    by (auto simp: list_all_iff importChars_code)
  have h: "path ! 0 = hd path" "path ! (length path - 1) = last path" "ch CHR ''/'' = 0x2F"
    "cstr ''.'' = [ch CHR ''.'']" "cstr ''..'' = [ch CHR ''.'', ch CHR ''.'']" "ch CHR ''.'' = 0x2E"
    using False by (simp_all add: hd_conv_nth last_conv_nth ch_def cstr_def)
  from assms False show ?thesis
    unfolding importPathFault_def H2NormalizeImportPath_def option.case h v importSpaces_code
    by (auto split: if_splits)
qed (use assms in \<open>simp add: importPathFault_def H2NormalizeImportPath_def\<close>)

lemma normalize_accepted:
  assumes "\<not> importPathRejected path" "0 < cap" "cap \<le> UINT32_MAX"
  shows "H2NormalizeImportPath (Some path) True cap = importResult (resolveSegs cap [] (splitSlash path))"
proof -
  have v: "path \<noteq> []" "list_all H2IsValidImportPathChar path" "path ! 0 \<noteq> ch CHR ''/''"
    "path \<noteq> [ch CHR ''.'']" "path \<noteq> [ch CHR ''.'', ch CHR ''.'']"
    using assms(1) by (auto simp: importPathRejected_def cstr_def)
  have l: "nonEmptyOut (importLoop path cap 0 []) = importResult (resolveSegs cap [] (splitSlash path))"
    "\<And>out. importLoop path cap 0 [] = Ok out \<Longrightarrow> length out < cap"
    using importLoop_resolve [of 0 path "[]" cap] assms(2,3) by simp_all
  have "H2NormalizeImportPath (Some path) True cap = nonEmptyOut (importLoop path cap 0 [])"
    using v valid_ends [OF v(2,1)] assms(2) l(2)
    by (cases "importLoop path cap 0 []") (simp_all add: H2NormalizeImportPath_def nonEmptyOut_def)
  with l(1) show ?thesis by simp
qed

text \<open>What a successful resolution yields.\<close>

lemma resolve_result:
  "resolveSegs cap st ss = Inr r \<Longrightarrow> \<forall>s\<in>set st. segOk s \<Longrightarrow> \<forall>s\<in>set ss. ch CHR ''/'' \<notin> set s \<Longrightarrow>
   length (joinSegs st) < cap \<Longrightarrow> r \<noteq> [] \<and> (\<forall>s\<in>set r. segOk s) \<and> length (joinSegs r) < cap"
proof (induction cap st ss rule: resolveSegs.induct)
  case (1 cap stack)
  then show ?case by (auto split: if_splits)
next
  case (2 cap stack s ss)
  consider "s = cstr ''.''" "resolveSegs cap stack ss = Inr r"
    | "s \<noteq> cstr ''.''" "s = cstr ''..''" "stack \<noteq> []" "resolveSegs cap (butlast stack) ss = Inr r"
    | "segOk s" "length (joinSegs (stack @ [s])) < cap" "resolveSegs cap (stack @ [s]) ss = Inr r"
    using 2(4,6) by (auto simp: segOk_def split: if_splits)
  then show ?case
  proof cases
    case 1
    moreover from this have "s \<noteq> []" by (simp add: cstr_def)
    ultimately show ?thesis using 2(1) 2(5-7) by simp
  next
    case 2
    moreover from this have "s \<noteq> []" by (simp add: cstr_def)
    moreover have "\<forall>s\<in>set (butlast stack). segOk s" using "2.prems"(2) by (auto dest: in_set_butlastD)
    moreover have "\<forall>t\<in>set ss. ch CHR ''/'' \<notin> set t" using "2.prems"(3) by simp
    ultimately show ?thesis using joinSegs_butlast_less [OF "2.prems"(4)] by (intro "2.IH"(2))
  next
    case 3
    then have "s \<noteq> []" "s \<noteq> cstr ''.''" "s \<noteq> cstr ''..''" by (simp_all add: segOk_def)
    moreover have "\<forall>t\<in>set (stack @ [s]). segOk t" using 3(1) "2.prems"(2) by auto
    moreover have "\<forall>t\<in>set ss. ch CHR ''/'' \<notin> set t" using "2.prems"(3) by simp
    ultimately show ?thesis using 3(2,3) by (intro "2.IH"(3))
  qed
qed

lemma splitSlash_free: "\<forall>s\<in>set (splitSlash xs). ch CHR ''/'' \<notin> set s"
  "splitSlash xs \<noteq> []"
proof (induction xs)
  case (Cons c cs)
  {
    case 1
    then show ?case using Cons by (cases "splitSlash cs") auto
  next
    case 2
    show ?case by simp
  }
qed simp_all

lemma splitSlash_plain: "ch CHR ''/'' \<notin> set s \<Longrightarrow> splitSlash s = [s]"
  by (induction s) auto

lemma splitSlash_first: "ch CHR ''/'' \<notin> set s \<Longrightarrow> splitSlash (s @ ch CHR ''/'' # xs) = s # splitSlash xs"
  by (induction s) auto

lemma splitSlash_join:
  "r \<noteq> [] \<Longrightarrow> \<forall>s\<in>set r. ch CHR ''/'' \<notin> set s \<Longrightarrow> splitSlash (joinSegs r) = r"
  by (induction r rule: joinSegs.induct) (auto simp: splitSlash_plain splitSlash_first)

text \<open>Segments that need no resolution are only collected.\<close>

lemma resolve_plain:
  assumes "\<forall>s\<in>set ss. segOk s" "length (joinSegs (st @ ss)) < cap" "st @ ss \<noteq> []"
  shows "resolveSegs cap st ss = Inr (st @ ss)"
  using assms
proof (induction ss arbitrary: st)
  case (Cons s ss)
  have "length (joinSegs (st @ [s])) \<le> length (joinSegs ((st @ [s]) @ ss))"
    by (induction ss rule: rev_induct)
      (auto simp: joinSegs_snoc append_assoc [symmetric] simp del: append_assoc)
  moreover have "(st @ [s]) @ ss = st @ s # ss" by simp
  ultimately have "length (joinSegs (st @ [s])) < cap" using Cons.prems(2) by (simp only:)
  moreover have "s \<noteq> []" "s \<noteq> cstr ''.''" "s \<noteq> cstr ''..''" using Cons.prems(1) by (simp_all add: segOk_def)
  ultimately show ?case using Cons.IH [of "st @ [s]"] Cons.prems by simp
qed simp
lemma resolve_chars: "resolveSegs cap st ss = Inr r \<Longrightarrow> set (concat r) \<subseteq> set (concat st) \<union> set (concat ss)"
proof (induction cap st ss rule: resolveSegs.induct)
  case (2 cap st s ss)
  have "set (concat (butlast st)) \<subseteq> set (concat st)" by (auto dest: in_set_butlastD)
  with 2 show ?case by (fastforce split: if_splits)
qed (auto split: if_splits)

lemma split_chars: "set (concat (splitSlash xs)) \<subseteq> set xs"
proof (induction xs)
  case (Cons c cs)
  moreover have "splitSlash cs = hd (splitSlash cs) # tl (splitSlash cs)" using splitSlash_free(2) by simp
  ultimately show ?case by (auto simp: subset_iff) (metis (full_types) UN_I list.set_intros)+
qed simp

lemma join_chars: "set (joinSegs r) \<subseteq> insert (ch CHR ''/'') (set (concat r))"
  by (induction r rule: joinSegs.induct) auto

lemma normalize_inv:
  assumes "H2NormalizeImportPath p b cap = Ok out" "cap \<le> UINT32_MAX"
  obtains path r where "p = Some path" "b" "0 < cap" "\<not> importPathRejected path"
    "resolveSegs cap [] (splitSlash path) = Inr r" "out = joinSegs r"
proof -
  obtain path where p: "p = Some path" "b" "0 < cap" "\<not> importPathRejected path"
    using assms(1) by (auto simp: H2NormalizeImportPath_def importPathRejected_def cstr_def split: option.splits if_splits)
  with assms normalize_accepted [OF p(4,3) assms(2)] that show thesis
    by (auto simp: importResult_def split: sum.splits)
qed

lemma normalize_form:
  assumes "H2NormalizeImportPath p b cap = Ok out" "cap \<le> UINT32_MAX"
  shows "length out < cap" "splitSlash out \<noteq> []" "\<forall>s\<in>set (splitSlash out). segOk s"
    "out = joinSegs (splitSlash out)" "list_all H2IsValidImportPathChar out"
proof -
  from normalize_inv [OF assms] obtain path r where n: "p = Some path" "b" "0 < cap" "\<not> importPathRejected path"
    "resolveSegs cap [] (splitSlash path) = Inr r" "out = joinSegs r" .
  have r: "r \<noteq> []" "\<forall>s\<in>set r. segOk s" "length (joinSegs r) < cap"
    using resolve_result [OF n(5) _ splitSlash_free(1)] n(3) by simp_all
  have "\<forall>s\<in>set r. ch CHR ''/'' \<notin> set s" using r(2) by (simp add: segOk_def)
  from splitSlash_join [OF r(1) this] have s: "splitSlash out = r" using n(6) by simp
  show "length out < cap" "splitSlash out \<noteq> []" "\<forall>s\<in>set (splitSlash out). segOk s"
    "out = joinSegs (splitSlash out)"
    using r n(6) s by simp_all
  have "set out \<subseteq> insert (ch CHR ''/'') (set path)"
    using join_chars [of r] resolve_chars [OF n(5)] split_chars [of path] n(6) by auto
  moreover have "H2IsValidImportPathChar (ch CHR ''/'')" by (simp add: H2IsValidImportPathChar_def)
  ultimately show "list_all H2IsValidImportPathChar out"
    using n(4) by (auto simp: importPathRejected_def list_all_iff)
qed

subsection \<open>Properties\<close>

text \<open>C14: import paths resolve like file paths (PKG-IMPORT-002). A path with a fault is refused
with the reason of the first fault in the order of \<open>importPathFault\<close>: empty, absolute, the
package itself, the parent root, white space at an end, an illegal character. Any other path is
split at the slashes and its segments are resolved against a stack: an empty segment, a step out
of the root, an empty result and a full buffer are the errors, and otherwise the result is the
stack joined with slashes.\<close>

theorem import_path_resolves:
  assumes "0 < cap" "cap \<le> UINT32_MAX"
  shows "H2NormalizeImportPath (Some path) True cap =
    (case importPathFault path of
       Some e \<Rightarrow> Err e
     | None \<Rightarrow> (case resolveSegs cap [] (splitSlash path) of Inl e \<Rightarrow> Err e | Inr st \<Rightarrow> Ok (joinSegs st)))"
proof (cases "importPathFault path")
  case (Some e)
  with normalize_fault [OF Some assms(1)] show ?thesis by simp
next
  case None
  then have "\<not> importPathRejected path" by (simp add: importPathFault_rejected)
  from normalize_accepted [OF this assms] None show ?thesis by (simp add: importResult_def)
qed

text \<open>C34: normalized paths are in normal form and fit. The result leaves room for the
terminator, has no empty, dot or dot-dot segment and only legal characters; no write goes
past the buffer, whatever the path and the capacity.\<close>

theorem import_path_normal_form:
  assumes "cap \<le> UINT32_MAX"
  shows "case H2NormalizeImportPath p b cap of
      Stuck \<Rightarrow> False
    | Err e \<Rightarrow> True
    | Ok out \<Rightarrow> length out < cap \<and> out \<noteq> [] \<and> list_all H2IsValidImportPathChar out \<and>
        (\<forall>s\<in>set (splitSlash out). s \<noteq> [] \<and> s \<noteq> cstr ''.'' \<and> s \<noteq> cstr ''..'')"
proof (cases "H2NormalizeImportPath p b cap")
  case (Ok out)
  have "out \<noteq> []" using Ok by (auto simp: H2NormalizeImportPath_def split: option.splits if_splits outcome.splits)
  with Ok normalize_form [OF Ok assms] show ?thesis by (simp add: segOk_def)
next
  case Stuck
  obtain path where p: "p = Some path" "b" "0 < cap" "\<not> importPathRejected path"
    using Stuck by (auto simp: H2NormalizeImportPath_def importPathRejected_def cstr_def split: option.splits if_splits)
  with Stuck normalize_accepted [OF p(4,3) assms] show ?thesis by (simp add: importResult_def split: sum.splits)
qed simp

text \<open>normalization is idempotent: a normalized path normalizes to itself.\<close>

theorem import_path_idempotent:
  assumes "H2NormalizeImportPath p b cap = Ok out" "cap \<le> UINT32_MAX"
  shows "H2NormalizeImportPath (Some out) True cap = Ok out"
proof -
  note f = normalize_form [OF assms]
  obtain s ss where s: "splitSlash out = s # ss" "segOk s" using f(2,3) by (cases "splitSlash out") auto
  have "\<exists>t. joinSegs (s # ss) = s @ t" by (cases ss) simp_all
  then obtain t where t: "out = s @ t" using f(4) [unfolded s(1)] by metis
  obtain c cs where "s = c # cs" "c \<noteq> ch CHR ''/''" using s(2) by (cases s) (auto simp: segOk_def)
  with t have ne: "out \<noteq> []" "out ! 0 \<noteq> ch CHR ''/''" by simp_all
  have "splitSlash (cstr ''.'') = [cstr ''.'']" "splitSlash (cstr ''..'') = [cstr ''..'']" by code_simp+
  then have "out \<noteq> cstr ''.''" "out \<noteq> cstr ''..''" using s by (auto simp: segOk_def)
  with ne f(5) have "\<not> importPathRejected out" by (simp add: importPathRejected_def)
  moreover have "resolveSegs cap [] (splitSlash out) = Inr (splitSlash out)"
    using resolve_plain [of "splitSlash out" "[]" cap] f(1-3) f(4) [symmetric] by simp
  moreover have "0 < cap" using f(1) by linarith
  ultimately show ?thesis
    using normalize_accepted [of out cap] assms(2) f(4) [symmetric] by (simp add: importResult_def)
qed

lemma import_path_resolves_witness:
  "H2NormalizeImportPath (Some (cstr ''a/./b/../c'')) True 64 = Ok (cstr ''a/c'')"
proof -
  have r: "resolveSegs 64 [] (splitSlash (cstr ''a/./b/../c'')) = Inr [cstr ''a'', cstr ''c'']"
    "\<not> importPathRejected (cstr ''a/./b/../c'')" "joinSegs [cstr ''a'', cstr ''c''] = cstr ''a/c''" by code_simp+
  note f = r(2) [folded importPathFault_rejected]
  show ?thesis using import_path_resolves [of 64 "cstr ''a/./b/../c''"] r(1,3) f by simp
qed

lemma import_path_normal_form_witness:
  "\<exists>out. H2NormalizeImportPath (Some (cstr ''a/../b'')) True 2 = Ok out \<and> length out < 2"
proof -
  have "case H2NormalizeImportPath (Some (cstr ''a/../b'')) True 2 of Ok out \<Rightarrow> True | _ \<Rightarrow> False" by code_simp
  then show ?thesis
    using import_path_normal_form [of 2 "Some (cstr ''a/../b'')" True] by (auto split: outcome.splits)
qed

lemma import_path_idempotent_witness:
  "H2NormalizeImportPath (Some (cstr ''lib/x'')) True 8 = Ok (cstr ''lib/x'')"
proof -
  have "H2NormalizeImportPath (Some (cstr ''lib/./x'')) True 8 = Ok (cstr ''lib/x'')"
  proof -
    have "case H2NormalizeImportPath (Some (cstr ''lib/./x'')) True 8 of Ok out \<Rightarrow> out = cstr ''lib/x'' | _ \<Rightarrow> False" by code_simp
    then show ?thesis by (simp split: outcome.splits)
  qed
  from import_path_idempotent [OF this] show ?thesis by simp
qed

end
