(* ===== verification/H2Fmt.thy ===== *)
theory H2Fmt
  imports H2Lexer
begin

text \<open>
  Format string parsing (\<open>src/fmt_parse.c\<close>): the bytes of a format literal are cut into
  literal pieces and placeholders. \<open>None\<close> stands for a NULL argument. The token array of the
  caller has \<open>tokenCap\<close> entries.
\<close>

subsection \<open>The code\<close>

datatype (plugins only: code size) H2FmtTokKind =
    H2FmtTok_LITERAL | H2FmtTok_PLACEHOLDER_I | H2FmtTok_PLACEHOLDER_F | H2FmtTok_PLACEHOLDER_S
  | H2FmtTok_PLACEHOLDER_R

record H2FmtToken =
  fkind :: H2FmtTokKind
  fstart :: nat
  fend :: nat

datatype (plugins only: code size) H2FmtParseErrCode =
    H2FmtParseErr_NONE | H2FmtParseErr_INVALID_PLACEHOLDER | H2FmtParseErr_UNMATCHED_CLOSE_BRACE
  | H2FmtParseErr_TOKEN_OVERFLOW

record H2FmtParseError =
  fecode :: H2FmtParseErrCode
  festart :: nat
  feend :: nat

abbreviation mkFmt :: "H2FmtTokKind \<Rightarrow> nat \<Rightarrow> nat \<Rightarrow> H2FmtToken" where
  "mkFmt k s e \<equiv> \<lparr>fkind = k, fstart = s, fend = e\<rparr>"

abbreviation mkFmtErr :: "H2FmtParseErrCode \<Rightarrow> nat \<Rightarrow> nat \<Rightarrow> H2FmtParseError" where
  "mkFmtErr k s e \<equiv> \<lparr>fecode = k, festart = s, feend = e\<rparr>"

definition H2FmtPushToken ::
  "H2FmtToken list \<Rightarrow> nat \<Rightarrow> H2FmtTokKind \<Rightarrow> nat \<Rightarrow> nat \<Rightarrow> (H2FmtParseError, H2FmtToken list) outcome" where
  "H2FmtPushToken outTokens tokenCap kind start endPos =
     (if length outTokens \<ge> tokenCap then Err (mkFmtErr H2FmtParseErr_TOKEN_OVERFLOW start endPos)
      else Ok (outTokens @ [mkFmt kind start endPos]))"

text \<open>A pending literal piece is pushed when it is not empty.\<close>

definition pushLiteral ::
  "H2FmtToken list \<Rightarrow> nat \<Rightarrow> nat \<Rightarrow> nat \<Rightarrow> (H2FmtParseError, H2FmtToken list) outcome" where
  "pushLiteral outTokens tokenCap literalStart endPos =
     (if literalStart < endPos
      then H2FmtPushToken outTokens tokenCap H2FmtTok_LITERAL literalStart endPos
      else Ok outTokens)"

definition placeholderKind :: "byte \<Rightarrow> H2FmtTokKind" where
  "placeholderKind c =
     (if c = ch CHR ''i'' then H2FmtTok_PLACEHOLDER_I
      else if c = ch CHR ''f'' then H2FmtTok_PLACEHOLDER_F
      else if c = ch CHR ''s'' then H2FmtTok_PLACEHOLDER_S
      else H2FmtTok_PLACEHOLDER_R)"

definition placeholderLetter :: "byte \<Rightarrow> bool" where
  "placeholderLetter c \<longleftrightarrow> c = ch CHR ''i'' \<or> c = ch CHR ''f'' \<or> c = ch CHR ''s'' \<or> c = ch CHR ''r''"

text \<open>
  The position arithmetic is 32 bit: \<open>i + 2\<close> can wrap when the literal is within two bytes
  of \<open>2 ^ 32\<close>.
\<close>

function fmtLoop ::
  "byte list \<Rightarrow> nat \<Rightarrow> nat \<Rightarrow> nat \<Rightarrow> H2FmtToken list \<Rightarrow> (H2FmtParseError, H2FmtToken list) outcome" where
  "fmtLoop bytes tokenCap i literalStart toks =
     (if i < length bytes then
        (let c = bytes ! i
         in if c = ch CHR ''{'' then
              (if looking bytes (i + 1) (\<lambda>d. d = ch CHR ''{'')
               then fmtLoop bytes tokenCap (i + 2) literalStart toks
               else
                 (case pushLiteral toks tokenCap literalStart i of
                    Err e \<Rightarrow> Err e
                  | Stuck \<Rightarrow> Stuck
                  | Ok toks1 \<Rightarrow>
                      peekIf (u32 (i + 2) < length bytes) bytes (i + 1) placeholderLetter (\<lambda>letter.
                      peekIf letter bytes (i + 2) (\<lambda>d. d = ch CHR ''}'') (\<lambda>placeholder.
                        if placeholder then
                          (case H2FmtPushToken toks1 tokenCap (placeholderKind (bytes ! (i + 1))) i (i + 3) of
                             Err e \<Rightarrow> Err e
                           | Stuck \<Rightarrow> Stuck
                           | Ok toks2 \<Rightarrow> fmtLoop bytes tokenCap (i + 3) (i + 3) toks2)
                        else
                          Err (mkFmtErr H2FmtParseErr_INVALID_PLACEHOLDER i
                                 (if i + 1 < length bytes then i + 2 else i + 1))))))
            else if c = ch CHR ''}'' then
              (if looking bytes (i + 1) (\<lambda>d. d = ch CHR ''}'')
               then fmtLoop bytes tokenCap (i + 2) literalStart toks
               else Err (mkFmtErr H2FmtParseErr_UNMATCHED_CLOSE_BRACE i (i + 1)))
            else fmtLoop bytes tokenCap (i + 1) literalStart toks)
      else pushLiteral toks tokenCap literalStart (length bytes))"
  by pat_completeness auto
termination
  by (relation "measure (\<lambda>(bytes, cap, i, l, toks). length bytes - i)") auto

declare fmtLoop.simps [simp del]

text \<open>\<open>None\<close> is the return of -1 for NULL arguments, which leaves the error untouched.\<close>

definition H2FmtParseBytes ::
  "byte list option \<Rightarrow> nat option \<Rightarrow> bool \<Rightarrow> (H2FmtParseError option, H2FmtToken list) outcome" where
  "H2FmtParseBytes bytes outTokens outTokenLenNonNull =
     (case (bytes, outTokens) of
        (Some bs, Some tokenCap) \<Rightarrow>
          (if outTokenLenNonNull then
             (case fmtLoop bs tokenCap 0 0 [] of
                Ok toks \<Rightarrow> Ok toks
              | Err e \<Rightarrow> Err (Some e)
              | Stuck \<Rightarrow> Stuck)
           else Err None)
      | _ \<Rightarrow> Err None)"
subsection \<open>The reference: pieces of a format text\<close>

text \<open>A literal piece, escapes included, or a placeholder with its letter.\<close>

datatype fmtPiece = Lit "byte list" | Hole byte

definition flushLit :: "byte list \<Rightarrow> fmtPiece list" where
  "flushLit lit = (if lit = [] then [] else [Lit lit])"

text \<open>The letters of placeholders and the token kinds they stand for.\<close>

definition holeKind :: "byte \<Rightarrow> H2FmtTokKind option" where
  "holeKind =
     map_of [(0x66, H2FmtTok_PLACEHOLDER_F), (0x69, H2FmtTok_PLACEHOLDER_I), (0x72, H2FmtTok_PLACEHOLDER_R),
       (0x73, H2FmtTok_PLACEHOLDER_S)]"

function fmtPieces :: "byte list \<Rightarrow> byte list \<Rightarrow> fmtPiece list option" where
  "fmtPieces lit s =
     (case s of
        [] \<Rightarrow> Some (flushLit lit)
      | c # r \<Rightarrow>
          (if c = ch CHR ''{'' then
             (if r \<noteq> [] \<and> hd r = ch CHR ''{'' then fmtPieces (lit @ [c, c]) (tl r)
              else if length r \<ge> 2 \<and> holeKind (hd r) \<noteq> None \<and> hd (tl r) = ch CHR ''}''
              then map_option (\<lambda>ps. flushLit lit @ Hole (hd r) # ps) (fmtPieces [] (tl (tl r)))
              else None)
           else if c = ch CHR ''}'' then
             (if r \<noteq> [] \<and> hd r = ch CHR ''}'' then fmtPieces (lit @ [c, c]) (tl r) else None)
           else fmtPieces (lit @ [c]) r))"
  by pat_completeness auto
termination
  by (relation "measure (\<lambda>(lit, s). length s)") auto

declare fmtPieces.simps [simp del]

lemma holeKind_code:
  "(holeKind c = None) = (\<not> placeholderLetter c)"
  "placeholderLetter c \<Longrightarrow> holeKind c = Some (placeholderKind c)"
  by (auto simp: holeKind_def placeholderLetter_def placeholderKind_def ch_def)

lemmas fmtPieces_code = fmtPieces.simps [unfolded holeKind_code not_not]

fun pieceText :: "fmtPiece \<Rightarrow> byte list" where
  "pieceText (Lit t) = t"
| "pieceText (Hole c) = [ch CHR ''{'', c, ch CHR ''}'']"

fun pieceKind :: "fmtPiece \<Rightarrow> H2FmtTokKind" where
  "pieceKind (Lit t) = H2FmtTok_LITERAL"
| "pieceKind (Hole c) = the (holeKind c)"

text \<open>The tokens of consecutive pieces from position \<open>p\<close> on.\<close>

fun placeTokens :: "nat \<Rightarrow> fmtPiece list \<Rightarrow> H2FmtToken list" where
  "placeTokens p [] = []"
| "placeTokens p (x # ps) =
     mkFmt (pieceKind x) p (p + length (pieceText x)) # placeTokens (p + length (pieceText x)) ps"

lemma placeTokens_append:
  "placeTokens p (xs @ ys) = placeTokens p xs @ placeTokens (p + length (concat (map pieceText xs))) ys"
  by (induction xs arbitrary: p) (simp_all add: add.assoc)

lemma length_placeTokens [simp]: "length (placeTokens p ps) = length ps"
  by (induction ps arbitrary: p) auto

text \<open>The pieces, put together, are the text.\<close>

lemma fmtPieces_text:
  "fmtPieces lit s = Some ps \<Longrightarrow> concat (map pieceText ps) = lit @ s \<and> (\<forall>p\<in>set ps. pieceText p \<noteq> [])"
proof (induction lit s arbitrary: ps rule: fmtPieces.induct)
  case (1 lit s)
  have fl: "concat (map pieceText (flushLit lit)) = lit" "\<forall>p\<in>set (flushLit lit). pieceText p \<noteq> []"
    by (simp_all add: flushLit_def)
  show ?case
  proof (cases s)
    case Nil
    with 1 fl show ?thesis by (subst (asm) fmtPieces_code) auto
  next
    case (Cons c r)
    consider (esc) "c = ch CHR ''{'' \<or> c = ch CHR ''}''" "r \<noteq> []" "hd r = c" "fmtPieces (lit @ [c, c]) (tl r) = Some ps"
      | (hole) qs where "c = ch CHR ''{''" "\<not> (r \<noteq> [] \<and> hd r = ch CHR ''{'')" "2 \<le> length r"
          "placeholderLetter (hd r)" "hd (tl r) = ch CHR ''}''"
          "ps = flushLit lit @ Hole (hd r) # qs" "fmtPieces [] (tl (tl r)) = Some qs"
      | (plain) "c \<noteq> ch CHR ''{''" "c \<noteq> ch CHR ''}''" "fmtPieces (lit @ [c]) r = Some ps"
      using 1(5) Cons by (subst (asm) fmtPieces_code) (auto split: if_splits)
    then show ?thesis
    proof cases
      case esc
      then obtain r' where "r = c # r'" by (cases r) auto
      with esc 1(1,3) Cons show ?thesis by auto
    next
      case hole
      then obtain d r' where "r = d # ch CHR ''}'' # r'" by (cases r; cases "tl r") auto
      with hole 1(2) Cons fl show ?thesis by (auto simp: holeKind_code)
    next
      case plain
      with 1(4) Cons show ?thesis by auto
    qed
  qed
qed
subsection \<open>The code follows the reference\<close>

definition fmtErrOk :: "byte list \<Rightarrow> H2FmtParseError \<Rightarrow> bool" where
  "fmtErrOk bs e \<longleftrightarrow> fecode e \<noteq> H2FmtParseErr_NONE \<and> festart e < feend e \<and> feend e \<le> length bs \<and>
     (fecode e = H2FmtParseErr_INVALID_PLACEHOLDER \<longrightarrow> bs ! festart e = ch CHR ''{'') \<and>
     (fecode e = H2FmtParseErr_UNMATCHED_CLOSE_BRACE \<longrightarrow> bs ! festart e = ch CHR ''}'')"

text \<open>What the loop answers, given the pieces of the rest; \<open>n\<close> tokens are there already.\<close>

definition fmtMatches ::
  "byte list \<Rightarrow> nat \<Rightarrow> nat \<Rightarrow> H2FmtToken list \<Rightarrow> fmtPiece list option
   \<Rightarrow> (H2FmtParseError, H2FmtToken list) outcome \<Rightarrow> bool" where
  "fmtMatches bs cap p toks pieces r =
     (case r of
        Ok toks' \<Rightarrow> \<exists>ps. pieces = Some ps \<and> toks' = toks @ placeTokens p ps \<and> length toks' \<le> cap
      | Err e \<Rightarrow> fmtErrOk bs e \<and>
          (fecode e = H2FmtParseErr_TOKEN_OVERFLOW \<and>
             (\<forall>ps. pieces = Some ps \<longrightarrow> cap < length toks + length ps) \<or>
           fecode e \<noteq> H2FmtParseErr_TOKEN_OVERFLOW \<and> pieces = None)
      | Stuck \<Rightarrow> False)"

lemma pushLiteral_matches:
  assumes "l \<le> i" "i \<le> length bs" "lit = take (i - l) (drop l bs)" "length toks \<le> cap"
  shows "case pushLiteral toks cap l i of
      Ok toks' \<Rightarrow> toks' = toks @ placeTokens l (flushLit lit) \<and> length toks' \<le> cap
    | Err e \<Rightarrow> fmtErrOk bs e \<and> fecode e = H2FmtParseErr_TOKEN_OVERFLOW \<and> cap < length toks + length (flushLit lit)
    | Stuck \<Rightarrow> False"
proof -
  have "length lit = i - l" using assms(1-3) by simp
  then have "lit = [] \<longleftrightarrow> l = i" using assms(1) by (metis diff_is_0_eq length_0_conv order_antisym_conv)
  with assms \<open>length lit = i - l\<close> show ?thesis
    by (auto simp: pushLiteral_def H2FmtPushToken_def flushLit_def fmtErrOk_def)
qed
lemma take_snoc: "l \<le> i \<Longrightarrow> i < length bs \<Longrightarrow> take (Suc i - l) (drop l bs) = take (i - l) (drop l bs) @ [bs ! i]"
  by (simp add: Suc_diff_le take_Suc_conv_app_nth)

lemma fmtMatches_shift:
  assumes "fmtMatches bs cap q (toks @ placeTokens p xs) pieces r" "q = p + length (concat (map pieceText xs))"
  shows "fmtMatches bs cap p toks (map_option (\<lambda>ps. xs @ ps) pieces) r"
  using assms by (cases r) (auto simp: fmtMatches_def placeTokens_append)

lemma fmtLoop_matches:
  assumes "l \<le> i" "i \<le> length bs" "length bs + 3 \<le> UINT32_MAX" "length toks \<le> cap"
  shows "fmtMatches bs cap l toks (fmtPieces (take (i - l) (drop l bs)) (drop i bs)) (fmtLoop bs cap i l toks)"
  using assms
proof (induction "length bs - i" arbitrary: i l toks rule: less_induct)
  case less
  define lit where "lit = take (i - l) (drop l bs)"
  note push = pushLiteral_matches [OF less.prems(1,2) lit_def less.prems(4)]
  have ll: "length (concat (map pieceText (flushLit lit))) = i - l"
    using less.prems(1,2) by (simp add: lit_def flushLit_def)
  show ?case
  proof (cases "i = length bs")
    case True
    with push show ?thesis
      unfolding lit_def [symmetric]
      by (subst fmtLoop.simps, subst fmtPieces_code)
        (cases "pushLiteral toks cap l i"; auto simp: fmtMatches_def)
  next
    case False
    then have i: "i < length bs" using less.prems(2) by simp
    have step: "fmtMatches bs cap l' toks' (fmtPieces (take (i + k - l') (drop l' bs)) (drop (i + k) bs)) (fmtLoop bs cap (i + k) l' toks')"
      if "l' \<le> i + k" "0 < k" "i + k \<le> length bs" "length toks' \<le> cap" for l' k toks'
      using less.hyps [of "i + k" l' toks'] that i less.prems(3) by simp
    have d: "drop i bs = bs ! i # drop (i + 1) bs" using Cons_nth_drop_Suc [OF i] by simp
    have lk: "looking bs (i + 1) P \<longleftrightarrow> drop (i + 1) bs \<noteq> [] \<and> P (hd (drop (i + 1) bs))" for P
      by (auto simp: looking_def hd_drop_conv_nth)
    have t1: "take (i + 1 - l) (drop l bs) = lit @ [bs ! i]"
      using take_snoc [OF less.prems(1) i] by (simp add: lit_def)
    have t2: "take (i + 2 - l) (drop l bs) = lit @ [bs ! i, bs ! (i + 1)]" if "i + 1 < length bs"
      using take_snoc [of l "Suc i" bs] take_snoc [OF less.prems(1) i] less.prems(1) that by (simp add: lit_def)
    have tl: "tl (drop (i + 1) bs) = drop (i + 2) bs" by (simp add: drop_Suc tl_drop)
    consider (double) "bs ! i = ch CHR ''{'' \<or> bs ! i = ch CHR ''}''" "looking bs (i + 1) (\<lambda>c. c = bs ! i)"
      | (lbrace) "bs ! i = ch CHR ''{''" "\<not> looking bs (i + 1) (\<lambda>c. c = bs ! i)"
      | (rbrace) "bs ! i = ch CHR ''}''" "\<not> looking bs (i + 1) (\<lambda>c. c = bs ! i)"
      | (plain) "bs ! i \<noteq> ch CHR ''{''" "bs ! i \<noteq> ch CHR ''}''" by blast
    then show ?thesis
    proof cases
      case double
      then have i1: "i + 1 < length bs" "bs ! (i + 1) = bs ! i" by (auto simp: looking_def)
      have "fmtPieces lit (drop i bs) = fmtPieces (lit @ [bs ! i, bs ! i]) (drop (i + 2) bs)"
      proof -
        have r: "drop (i + 1) bs \<noteq> []" "hd (drop (i + 1) bs) = bs ! i" using double(2) unfolding lk by simp_all
        show ?thesis
          unfolding d fmtPieces_code [of lit "bs ! i # drop (i + 1) bs"]
          using double(1) by (elim disjE) (simp_all only: list.case r tl if_True simp_thms ch_eq char.inject if_False)
      qed
      moreover have "fmtLoop bs cap i l toks = fmtLoop bs cap (i + 2) l toks"
        by (subst fmtLoop.simps) (use double i in auto)
      ultimately show ?thesis
        using step [of l 2 toks] t2 [OF i1(1)] i1 less.prems by (simp add: lit_def)
    next
      case lbrace
      let ?hole = "i + 2 < length bs \<and> placeholderLetter (bs ! (i + 1)) \<and> bs ! (i + 2) = ch CHR ''}''"
      let ?rest = "fmtPieces [] (drop (i + 3) bs)"
      have h: "2 \<le> length (drop (i + 1) bs) \<and> placeholderLetter (hd (drop (i + 1) bs)) \<and>
          hd (tl (drop (i + 1) bs)) = ch CHR ''}'' \<longleftrightarrow> ?hole"
        unfolding tl by (auto simp: hd_drop_conv_nth)
      have tl2: "tl (tl (drop (i + 1) bs)) = drop (i + 3) bs" by (simp add: drop_Suc tl_drop numeral_3_eq_3)
      have pieces: "fmtPieces lit (drop i bs) =
          (if ?hole then map_option (\<lambda>ps. (flushLit lit @ [Hole (bs ! (i + 1))]) @ ps) ?rest else None)"
      proof -
        have nd: "\<not> (drop (i + 1) bs \<noteq> [] \<and> hd (drop (i + 1) bs) = ch CHR ''{'')"
          using lbrace unfolding lk by simp
        have hd: "?hole \<Longrightarrow> hd (drop (i + 1) bs) = bs ! (i + 1)" by (simp add: hd_drop_conv_nth)
        have app: "map_option (\<lambda>ps. xs @ x # ps) r = map_option (\<lambda>ps. (xs @ [x]) @ ps) r" for xs x and r :: "fmtPiece list option"
          by simp
        show ?thesis
          unfolding d fmtPieces_code [of lit "bs ! i # drop (i + 1) bs"] list.case if_P [OF lbrace(1)] if_not_P [OF nd] h tl2 app
          using hd by (cases ?hole) (simp_all only: if_True if_False simp_thms)
      qed
      have wrap: "u32 (i + 2) = i + 2" using i less.prems(3) by simp
      have loop: "fmtLoop bs cap i l toks =
          (case pushLiteral toks cap l i of
             Err e \<Rightarrow> Err e
           | Stuck \<Rightarrow> Stuck
           | Ok toks1 \<Rightarrow>
               (if ?hole then
                  (case H2FmtPushToken toks1 cap (placeholderKind (bs ! (i + 1))) i (i + 3) of
                     Err e \<Rightarrow> Err e
                   | Stuck \<Rightarrow> Stuck
                   | Ok toks2 \<Rightarrow> fmtLoop bs cap (i + 3) (i + 3) toks2)
                else Err (mkFmtErr H2FmtParseErr_INVALID_PLACEHOLDER i
                            (if i + 1 < length bs then i + 2 else i + 1))))"
        unfolding fmtLoop.simps [of bs cap i] Let_def wrap
        using i lbrace by (cases "pushLiteral toks cap l i") (auto simp: peekIf_def)
      show ?thesis
      proof (cases "pushLiteral toks cap l i")
        case (Err e)
        with push loop pieces show ?thesis
          by (auto simp: fmtMatches_def lit_def [symmetric])
      next
        case Stuck
        with push show ?thesis by simp
      next
        case (Ok toks1)
        have t1: "toks1 = toks @ placeTokens l (flushLit lit)" "length toks1 \<le> cap"
          using push [unfolded Ok outcome.case] by blast+
        show ?thesis
        proof (cases ?hole)
          case False
          with loop Ok pieces i lbrace show ?thesis
            by (auto simp: fmtMatches_def fmtErrOk_def lit_def [symmetric])
        next
          case True
          let ?xs = "flushLit lit @ [Hole (bs ! (i + 1))]"
          show ?thesis
          proof (cases "length toks1 < cap")
            case False
            with True loop Ok pieces t1 show ?thesis
              by (auto simp: H2FmtPushToken_def fmtMatches_def fmtErrOk_def lit_def [symmetric])
          next
            case room: True
            let ?t2 = "toks1 @ [mkFmt (placeholderKind (bs ! (i + 1))) i (i + 3)]"
            have e: "toks @ placeTokens l ?xs = ?t2"
              using t1 ll less.prems(1) True by (simp add: placeTokens_append holeKind_code)
            have q: "i + 3 = l + length (concat (map pieceText ?xs))" using ll less.prems(1) by simp
            have "fmtMatches bs cap (i + 3) ?t2 ?rest (fmtLoop bs cap (i + 3) (i + 3) ?t2)"
              using step [of "i + 3" 3 ?t2] True room by simp
            from fmtMatches_shift [OF this [folded e] q]
            have "fmtMatches bs cap l toks (map_option (\<lambda>ps. ?xs @ ps) ?rest) (fmtLoop bs cap (i + 3) (i + 3) ?t2)"
              unfolding e .
            moreover have "fmtLoop bs cap i l toks = fmtLoop bs cap (i + 3) (i + 3) ?t2"
              using True room loop Ok by (simp add: H2FmtPushToken_def)
            ultimately show ?thesis
              unfolding lit_def [symmetric] pieces if_P [OF True] by (simp only:)
          qed
        qed
      qed
    next
      case rbrace
      have "fmtPieces lit (drop i bs) = None"
        unfolding d by (subst fmtPieces_code) (use rbrace lk [of "\<lambda>c. c = ch CHR ''}''"] in auto)
      moreover have "fmtLoop bs cap i l toks = Err (mkFmtErr H2FmtParseErr_UNMATCHED_CLOSE_BRACE i (i + 1))"
        by (subst fmtLoop.simps) (use rbrace i in auto)
      ultimately show ?thesis using i rbrace by (simp add: fmtMatches_def fmtErrOk_def lit_def)
    next
      case plain
      have "fmtPieces lit (drop i bs) = fmtPieces (lit @ [bs ! i]) (drop (i + 1) bs)"
        unfolding d by (subst fmtPieces_code) (use plain in simp)
      moreover have "fmtLoop bs cap i l toks = fmtLoop bs cap (i + 1) l toks"
        by (subst fmtLoop.simps) (use plain i in simp)
      ultimately show ?thesis
        using step [of l 1 toks] t1 i less.prems by (simp add: lit_def)
    qed
  qed
qed

lemma length_pieces: "\<forall>p\<in>set ps. pieceText p \<noteq> [] \<Longrightarrow> length ps \<le> length (concat (map pieceText ps))"
proof (induction ps)
  case (Cons p ps)
  then have "0 < length (pieceText p)" by simp
  moreover have "length ps \<le> length (concat (map pieceText ps))" using Cons by simp
  ultimately have "length (p # ps) \<le> length (pieceText p) + length (concat (map pieceText ps))"
    by (simp only: list.size)
  then show ?case by simp
qed simp

lemma placed_text:
  "drop p bs = concat (map pieceText ps) \<Longrightarrow> p \<le> length bs \<Longrightarrow>
   map (\<lambda>t. take (fend t - fstart t) (drop (fstart t) bs)) (placeTokens p ps) = map pieceText ps"
proof (induction ps arbitrary: p)
  case (Cons x ps)
  have "drop (p + length (pieceText x)) bs = drop (length (pieceText x)) (drop p bs)" by (simp add: add.commute)
  also have "\<dots> = concat (map pieceText ps)" using Cons.prems(1) by simp
  finally have r: "drop (p + length (pieceText x)) bs = concat (map pieceText ps)" .
  have "length (drop p bs) = length (pieceText x) + length (concat (map pieceText ps))"
    using Cons.prems(1) by simp
  then have "p + length (pieceText x) \<le> length bs" using Cons.prems(2) by simp
  with Cons.IH [OF r] Cons.prems(1) show ?case by simp
qed simp

lemma fmt_parse_matches:
  assumes "length bs + 3 \<le> UINT32_MAX"
  shows "fmtMatches bs cap 0 [] (fmtPieces [] bs) (fmtLoop bs cap 0 0 [])"
  using fmtLoop_matches [of 0 0 bs "[]" cap] assms by simp

subsection \<open>Where a text leaves the grammar\<close>

text \<open>
  A placeholder error points at the brace at which the text stops being a format text: what
  stands before it is one, and the brace begins neither a doubled brace nor a placeholder.
\<close>

definition fmtFault :: "byte list \<Rightarrow> nat \<Rightarrow> bool" where
  "fmtFault bs p \<longleftrightarrow> p < length bs \<and> fmtPieces [] (take p bs) \<noteq> None \<and>
     bs ! p \<in> {0x7B, 0x7D} \<and> (p + 1 < length bs \<longrightarrow> bs ! (p + 1) \<noteq> bs ! p) \<and>
     \<not> (bs ! p = 0x7B \<and> p + 2 < length bs \<and> holeKind (bs ! (p + 1)) \<noteq> None \<and> bs ! (p + 2) = 0x7D)"

lemma fmt_lit: "(fmtPieces lit s = None) = (fmtPieces lit' s = None)"
proof (induction "length s" arbitrary: lit lit' s rule: less_induct)
  case less
  show ?case
  proof (cases s)
    case Nil
    then show ?thesis by (simp add: fmtPieces_code)
  next
    case (Cons c r)
    have "(fmtPieces (lit @ x) (tl r) = None) = (fmtPieces (lit' @ x) (tl r) = None)"
      "(fmtPieces (lit @ x) r = None) = (fmtPieces (lit' @ x) r = None)" for x
      using less [of "tl r" "lit @ x" "lit' @ x"] less [of r "lit @ x" "lit' @ x"] Cons by simp_all
    then show ?thesis
      unfolding Cons fmtPieces_code [of _ "c # r"] by simp
  qed
qed

lemma fmt_append: "fmtPieces lit s = Some ps \<Longrightarrow> fmtPieces [] t \<noteq> None \<Longrightarrow> fmtPieces lit (s @ t) \<noteq> None"
proof (induction "length s" arbitrary: lit s ps rule: less_induct)
  case less
  show ?case
  proof (cases s)
    case Nil
    with less.prems(2) fmt_lit [of "[]" t lit] show ?thesis by simp
  next
    case (Cons c r)
    consider (esc) "c = ch CHR ''{'' \<or> c = ch CHR ''}''" "r \<noteq> []" "hd r = c" "fmtPieces (lit @ [c, c]) (tl r) = Some ps"
      | (hole) qs where "c = ch CHR ''{''" "\<not> (r \<noteq> [] \<and> hd r = ch CHR ''{'')" "2 \<le> length r"
          "placeholderLetter (hd r)" "hd (tl r) = ch CHR ''}''" "fmtPieces [] (tl (tl r)) = Some qs"
      | (plain) "c \<noteq> ch CHR ''{''" "c \<noteq> ch CHR ''}''" "fmtPieces (lit @ [c]) r = Some ps"
      using less.prems(1) Cons by (subst (asm) fmtPieces_code) (auto split: if_splits)
    then show ?thesis
    proof cases
      case esc
      then obtain r' where r: "r = c # r'" by (cases r) auto
      with esc less.hyps [of r' "lit @ [c, c]" ps] Cons less.prems(2)
      have "fmtPieces (lit @ [c, c]) (r' @ t) \<noteq> None" by simp
      with esc(1) r Cons show ?thesis by (subst fmtPieces_code) auto
    next
      case hole
      then obtain d r' where r: "r = d # ch CHR ''}'' # r'" by (cases r; cases "tl r") auto
      with hole less.hyps [of r' "[]" qs] Cons less.prems(2)
      have "fmtPieces [] (r' @ t) \<noteq> None" by simp
      with hole r Cons show ?thesis by (subst fmtPieces_code) auto
    next
      case plain
      with less.hyps [of r "lit @ [c]" ps] Cons less.prems(2)
      have "fmtPieces (lit @ [c]) (r @ t) \<noteq> None" by simp
      with plain Cons show ?thesis by (subst fmtPieces_code) auto
    qed
  qed
qed

lemma fmt_extend:
  assumes "fmtPieces [] (take i bs) \<noteq> None" "take (i + n) bs = take i bs @ t" "fmtPieces [] t \<noteq> None"
  shows "fmtPieces [] (take (i + n) bs) \<noteq> None"
  using assms fmt_append [of "[]" "take i bs"] by auto

lemma fmtLoop_fault:
  assumes "i \<le> length bs" "length bs + 3 \<le> UINT32_MAX" "fmtPieces [] (take i bs) \<noteq> None"
    "fmtLoop bs cap i l toks = Err e" "fecode e \<noteq> H2FmtParseErr_TOKEN_OVERFLOW"
  shows "fmtFault bs (festart e) \<and>
    feend e = (if bs ! festart e = 0x7B then min (festart e + 2) (length bs) else festart e + 1)"
  using assms
proof (induction "length bs - i" arbitrary: i l toks rule: less_induct)
  case less
  let ?goal = "fmtFault bs (festart e) \<and>
    feend e = (if bs ! festart e = 0x7B then min (festart e + 2) (length bs) else festart e + 1)"
  have over: "pushLiteral ts cap a b = Err er \<Longrightarrow> fecode er = H2FmtParseErr_TOKEN_OVERFLOW" for ts a b er
    by (auto simp: pushLiteral_def H2FmtPushToken_def split: if_splits)
  have i: "i < length bs"
    using less.prems(4,5) over by (subst (asm) fmtLoop.simps) (auto split: if_splits)
  have braces: "ch CHR ''{'' = 0x7B" "ch CHR ''}'' = 0x7D" by (simp_all add: ch_def)
  have step: ?goal if "0 < n" "i + n \<le> length bs" "fmtPieces [] (take n (drop i bs)) \<noteq> None"
      "fmtLoop bs cap (i + n) l' ts = Err e" for n l' ts
  proof -
    have "take (i + n) bs = take i bs @ take n (drop i bs)" by (rule take_add)
    from fmt_extend [OF less.prems(3) this that(3)]
    show ?thesis using that i less.prems(2,5) by (intro less.hyps [of "i + n"]) simp_all
  qed
  have d1: "take 1 (drop i bs) = [bs ! i]" using i by (simp add: take_Suc hd_drop_conv_nth)
  have d2: "take 2 (drop i bs) = [bs ! i, bs ! (i + 1)]" if "i + 1 < length bs"
    using that by (simp add: take_Suc hd_drop_conv_nth numeral_2_eq_2 tl_drop drop_Suc [symmetric])
  have d3: "take 3 (drop i bs) = [bs ! i, bs ! (i + 1), bs ! (i + 2)]" if "i + 2 < length bs"
    using that by (simp add: take_Suc hd_drop_conv_nth numeral_3_eq_3 tl_drop drop_Suc [symmetric])
  consider (double) "bs ! i = 0x7B \<or> bs ! i = 0x7D" "looking bs (i + 1) (\<lambda>c. c = bs ! i)"
    | (lbrace) "bs ! i = 0x7B" "\<not> looking bs (i + 1) (\<lambda>c. c = bs ! i)"
    | (rbrace) "bs ! i = 0x7D" "\<not> looking bs (i + 1) (\<lambda>c. c = bs ! i)"
    | (plain) "bs ! i \<noteq> 0x7B" "bs ! i \<noteq> 0x7D" by blast
  then show ?case
  proof cases
    case double
    then have n: "i + 1 < length bs" "bs ! (i + 1) = bs ! i" by (auto simp: looking_def)
    have "fmtPieces [] [bs ! i, bs ! i] \<noteq> None" using double(1) by (auto simp: fmtPieces_code braces)
    moreover have "fmtLoop bs cap (i + 2) l toks = Err e"
      using less.prems(4) double i by (subst (asm) fmtLoop.simps) (auto simp: braces)
    ultimately show ?thesis using step [of 2] n d2 by simp
  next
    case plain
    have "fmtPieces [] [bs ! i] \<noteq> None" using plain by (simp add: fmtPieces_code braces)
    moreover have "fmtLoop bs cap (i + 1) l toks = Err e"
      using less.prems(4) plain i by (subst (asm) fmtLoop.simps) (simp add: braces)
    ultimately show ?thesis using step [of 1] i d1 by simp
  next
    case rbrace
    have "e = mkFmtErr H2FmtParseErr_UNMATCHED_CLOSE_BRACE i (i + 1)"
      using less.prems(4) rbrace i by (subst (asm) fmtLoop.simps) (auto simp: braces)
    with rbrace i less.prems(3) show ?thesis by (auto simp: fmtFault_def looking_def)
  next
    case lbrace
    let ?hole = "i + 2 < length bs \<and> placeholderLetter (bs ! (i + 1)) \<and> bs ! (i + 2) = ch CHR ''}''"
    have wrap: "u32 (i + 2) = i + 2" using i less.prems(2) by simp
    have "fmtLoop bs cap i l toks =
        (case pushLiteral toks cap l i of
           Err e \<Rightarrow> Err e
         | Stuck \<Rightarrow> Stuck
         | Ok toks1 \<Rightarrow>
             (if ?hole then
                (case H2FmtPushToken toks1 cap (placeholderKind (bs ! (i + 1))) i (i + 3) of
                   Err e \<Rightarrow> Err e
                 | Stuck \<Rightarrow> Stuck
                 | Ok toks2 \<Rightarrow> fmtLoop bs cap (i + 3) (i + 3) toks2)
              else Err (mkFmtErr H2FmtParseErr_INVALID_PLACEHOLDER i
                          (if i + 1 < length bs then i + 2 else i + 1))))"
      unfolding fmtLoop.simps [of bs cap i] Let_def wrap
      using i lbrace by (cases "pushLiteral toks cap l i") (auto simp: peekIf_def braces)
    with less.prems(4) over less.prems(5) obtain toks1 where l: "pushLiteral toks cap l i = Ok toks1"
      "(if ?hole then
                (case H2FmtPushToken toks1 cap (placeholderKind (bs ! (i + 1))) i (i + 3) of
                   Err e \<Rightarrow> Err e
                 | Stuck \<Rightarrow> Stuck
                 | Ok toks2 \<Rightarrow> fmtLoop bs cap (i + 3) (i + 3) toks2)
              else Err (mkFmtErr H2FmtParseErr_INVALID_PLACEHOLDER i
                          (if i + 1 < length bs then i + 2 else i + 1))) = Err e"
      by (cases "pushLiteral toks cap l i") auto
    show ?thesis
    proof (cases ?hole)
      case True
      then have "fmtPieces [] [bs ! i, bs ! (i + 1), bs ! (i + 2)] \<noteq> None"
        using lbrace by (auto simp: fmtPieces_code braces looking_def)
      moreover obtain toks2 where "fmtLoop bs cap (i + 3) (i + 3) toks2 = Err e"
        using l(2) True less.prems(5) by (auto simp: H2FmtPushToken_def split: if_splits)
      ultimately show ?thesis using step [of 3] True d3 by simp
    next
      case False
      have "e = mkFmtErr H2FmtParseErr_INVALID_PLACEHOLDER i (if i + 1 < length bs then i + 2 else i + 1)"
        using l(2) unfolding if_not_P [OF False] by (simp only: outcome.inject)
      with lbrace i less.prems(3) False show ?thesis
        by (auto simp: fmtFault_def looking_def braces holeKind_code)
    qed
  qed
qed

subsection \<open>Properties\<close>


text \<open>the tokens of a format text cover it: the texts of their spans, in order, are the
whole text.\<close>

theorem fmt_tokens_cover:
  assumes "length bs + 3 \<le> UINT32_MAX" "H2FmtParseBytes (Some bs) (Some cap) True = Ok toks"
  shows "concat (map (\<lambda>t. take (fend t - fstart t) (drop (fstart t) bs)) toks) = bs"
proof -
  have "fmtLoop bs cap 0 0 [] = Ok toks"
    using assms(2) by (simp add: H2FmtParseBytes_def split: outcome.splits)
  with fmt_parse_matches [OF assms(1), of cap] obtain ps where
    ps: "fmtPieces [] bs = Some ps" "toks = placeTokens 0 ps" by (auto simp: fmtMatches_def)
  then show ?thesis using fmtPieces_text [OF ps(1)] placed_text [of 0 bs ps] by simp
qed

text \<open>an array with one entry per byte is always large enough.\<close>

theorem fmt_array_enough:
  assumes "length bs + 3 \<le> UINT32_MAX" "length bs \<le> cap"
    "H2FmtParseBytes (Some bs) (Some cap) True = Err (Some e)"
  shows "fmtPieces [] bs = None \<or> fecode e \<noteq> H2FmtParseErr_TOKEN_OVERFLOW"
proof -
  have l: "fmtLoop bs cap 0 0 [] = Err e"
    using assms(3) by (simp add: H2FmtParseBytes_def split: outcome.splits)
  show ?thesis
  proof (cases "fmtPieces [] bs")
    case (Some ps)
    have "length ps \<le> length bs"
      using length_pieces [of ps] fmtPieces_text [OF Some] by simp
    with fmt_parse_matches [OF assms(1), of cap] l Some assms(2) show ?thesis by (auto simp: fmtMatches_def)
  qed simp
qed


lemma fmt_tokens_cover_witness:
  "\<exists>toks. H2FmtParseBytes (Some (cstr ''{{a}}{s}'')) (Some 9) True = Ok toks \<and>
     concat (map (\<lambda>t. take (fend t - fstart t) (drop (fstart t) (cstr ''{{a}}{s}''))) toks) = cstr ''{{a}}{s}''"
proof -
  have "case H2FmtParseBytes (Some (cstr ''{{a}}{s}'')) (Some 9) True of Ok toks \<Rightarrow> True | _ \<Rightarrow> False" by code_simp
  then obtain toks where o: "H2FmtParseBytes (Some (cstr ''{{a}}{s}'')) (Some 9) True = Ok toks"
    by (auto split: outcome.splits)
  with fmt_tokens_cover [OF _ o] show ?thesis by simp
qed

lemma fmt_array_enough_witness:
  "\<exists>e. H2FmtParseBytes (Some (cstr ''a}'')) (Some 2) True = Err (Some e) \<and>
     (fmtPieces [] (cstr ''a}'') = None \<or> fecode e \<noteq> H2FmtParseErr_TOKEN_OVERFLOW)"
proof -
  have "case H2FmtParseBytes (Some (cstr ''a}'')) (Some 2) True of Err (Some e) \<Rightarrow> True | _ \<Rightarrow> False" by code_simp
  then obtain e where "H2FmtParseBytes (Some (cstr ''a}'')) (Some 2) True = Err (Some e)"
    by (auto split: outcome.splits option.splits)
  with fmt_array_enough [OF _ _ this] show ?thesis by simp
qed

end
