(* ===== verification/H2AstDump.thy ===== *)
theory H2AstDump
  imports H2LexerThms
begin

text \<open>
  The textual dump of a syntax tree (\<open>H2AstDump\<close> of \<open>src/libhop.c\<close>). A writer is the list of
  bytes written so far: every function appends to it, as the \<open>write\<close> callback of the embedder
  does. The recursion over child and sibling links gets fuel, since nothing in the code
  excludes links that form a cycle; \<open>None\<close> is out of fuel.
\<close>

subsection \<open>Writers\<close>

type_synonym writer = "byte list"

definition H2WWrite :: "writer \<Rightarrow> byte list \<Rightarrow> writer" where
  "H2WWrite w s = w @ s"

definition H2WCStr :: "writer \<Rightarrow> string \<Rightarrow> writer" where
  "H2WCStr w s = H2WWrite w (cstr s)"

text \<open>
  \<open>buf[n++] = '0' + v % 10\<close> while \<open>v > 0\<close> and the 16-byte buffer has room, then the buffer is
  written backwards.
\<close>

function u32Digits :: "nat \<Rightarrow> byte list \<Rightarrow> byte list" where
  "u32Digits v buf =
     (if v > 0 \<and> length buf < 16
      then u32Digits (v div 10) (buf @ [of_nat (0x30 + v mod 10)])
      else buf)"
  by pat_completeness auto
termination
  by (relation "measure (\<lambda>(v, buf). v)") auto

declare u32Digits.simps [simp del]

definition H2WU32 :: "writer \<Rightarrow> nat \<Rightarrow> writer" where
  "H2WU32 w v =
     (if v = 0 then H2WWrite w [ch CHR ''0''] else H2WWrite w (rev (u32Digits v [])))"

fun H2WIndent :: "writer \<Rightarrow> nat \<Rightarrow> writer" where
  "H2WIndent w 0 = w"
| "H2WIndent w (Suc depth) = H2WIndent (H2WWrite w (cstr ''  '')) depth"

definition hexDigitChar :: "nat \<Rightarrow> byte" where
  "hexDigitChar d = cstr ''0123456789abcdef'' ! d"

definition escapeByte :: "byte \<Rightarrow> byte list" where
  "escapeByte c =
     (if c = ch CHR 0x22 then [ch CHR 0x5C, ch CHR 0x22]
      else if c = ch CHR 0x5C then [ch CHR 0x5C, ch CHR 0x5C]
      else if c = 0x0A then [ch CHR 0x5C, ch CHR ''n'']
      else if c = 0x0D then [ch CHR 0x5C, ch CHR ''r'']
      else if c = 0x09 then [ch CHR 0x5C, ch CHR ''t'']
      else if c \<ge> 0x20 \<and> c \<le> 0x7E then [c]
      else [ch CHR 0x5C, ch CHR ''x'', hexDigitChar (unat (drop_bit 4 c AND 0x0F)),
            hexDigitChar (unat (c AND 0x0F))])"

text \<open>\<open>for (i = start; i < end && i < src.len; i++)\<close>\<close>

function escapeLoop :: "writer \<Rightarrow> byte list \<Rightarrow> nat \<Rightarrow> nat \<Rightarrow> writer" where
  "escapeLoop w src i endPos =
     (if i < endPos \<and> i < length src
      then escapeLoop (H2WWrite w (escapeByte (src ! i))) src (i + 1) endPos
      else w)"
  by pat_completeness auto
termination
  by (relation "measure (\<lambda>(w, src, i, e). e - i)") auto

declare escapeLoop.simps [simp del]

definition H2WEscaped :: "writer \<Rightarrow> byte list \<Rightarrow> nat \<Rightarrow> nat \<Rightarrow> writer" where
  "H2WEscaped w src start endPos =
     H2WWrite (escapeLoop (H2WWrite w [ch CHR 0x22]) src start endPos) [ch CHR 0x22]"

subsection \<open>The dump\<close>

record H2Ast =
  astNodes :: "H2AstNode list option"
  astRoot :: int
  astFeatures :: "32 word"

text \<open>The line of a node.\<close>

definition dumpLine :: "H2AstNode \<Rightarrow> nat \<Rightarrow> byte list \<Rightarrow> writer \<Rightarrow> writer" where
  "dumpLine n depth src w0 =
     (let w1 = H2WCStr (H2WIndent w0 depth) (H2AstKindName (nkind n));
          w2 = (if tokNum (nop n) \<noteq> 0 then H2WCStr (H2WCStr w1 '' op='') (H2TokenKindName (nop n)) else w1);
          w3 = (if nflags n \<noteq> 0 then H2WU32 (H2WCStr w2 '' flags='') (unat (nflags n)) else w2);
          w4 = (if dataEnd n > dataStart n
                then H2WEscaped (H2WCStr w3 '' '') src (dataStart n) (dataEnd n) else w3);
          w5 = H2WU32 (H2WCStr w4 '' ['') (nstart n);
          w6 = H2WU32 (H2WCStr w5 '','') (nend n)
      in H2WWrite (H2WCStr w6 '']'') [0x0A])"

fun H2AstDumpNode ::
  "nat \<Rightarrow> H2AstNode list \<Rightarrow> int \<Rightarrow> nat \<Rightarrow> byte list \<Rightarrow> writer \<Rightarrow> (bool \<times> writer) option"
and dumpChildren ::
  "nat \<Rightarrow> H2AstNode list \<Rightarrow> int \<Rightarrow> nat \<Rightarrow> byte list \<Rightarrow> writer \<Rightarrow> (bool \<times> writer) option" where
  "H2AstDumpNode 0 nodes idx depth src w = None"
| "H2AstDumpNode (Suc fuel) nodes idx depth src w =
     (if idx < 0 \<or> idx \<ge> int (length nodes) then Some (False, w)
      else
        (let n = nodes ! nat idx
         in dumpChildren fuel nodes (firstChild n) (depth + 1) src (dumpLine n depth src w)))"
| "dumpChildren 0 nodes c depth src w = None"
| "dumpChildren (Suc fuel) nodes c depth src w =
     (if c < 0 then Some (True, w)
      else
        (case H2AstDumpNode fuel nodes c depth src w of
           None \<Rightarrow> None
         | Some (False, w') \<Rightarrow> Some (False, w')
         | Some (True, w') \<Rightarrow> dumpChildren fuel nodes (nextSibling (nodes ! nat c)) depth src w'))"

text \<open>
  The result is the status, the writer and the diagnostic; \<open>w = None\<close> stands for a NULL
  writer or callback.
\<close>

definition H2AstDump ::
  "nat \<Rightarrow> H2Ast option \<Rightarrow> byte list \<Rightarrow> writer option \<Rightarrow> H2Diag option
   \<Rightarrow> (bool \<times> writer option \<times> H2Diag option) option" where
  "H2AstDump fuel ast src w diag0 =
     (let diag = map_option (\<lambda>d. diagZero\<lparr>dphase := H2DiagPhase_COMPILER\<rparr>) diag0;
          bad = Some (False, w, setDiag diag (4, 0, 0))
      in case (ast, w) of
           (Some a, Some wr) \<Rightarrow>
             (case astNodes a of
                None \<Rightarrow> bad
              | Some nodes \<Rightarrow>
                  (if astRoot a < 0 then bad
                   else map_option (\<lambda>(ok, w'). (ok, Some w', diag))
                          (H2AstDumpNode fuel nodes (astRoot a) 0 src wr)))
         | _ \<Rightarrow> bad)"
subsection \<open>Escaped text decodes to itself\<close>

lemma hexDigitChar_hexChar: "d < 16 \<Longrightarrow> hexDigitChar d = hexChar d"
proof -
  have "\<forall>d\<in>set [0..<16]. hexDigitChar d = hexChar d" by code_simp
  then show "d < 16 \<Longrightarrow> hexDigitChar d = hexChar d" by simp
qed

lemma unat_byte_less: "unat (c :: byte) < 256"
  using unsigned_less [of c, where 'a = nat] by simp

lemma nibbles:
  "unat (drop_bit 4 (c :: byte) AND 0x0F) = unat c div 16" "unat (c AND 0x0F) = unat c mod 16"
proof -
  have m: "(0x0F :: byte) = mask 4" by (simp add: mask_eq_exp_minus_1)
  have "unat (drop_bit 4 c) = unat c div 16" by (simp only: unat_drop_bit_eq) (simp add: drop_bit_eq_div)
  moreover have "unat c div 16 < 16" using unat_byte_less [of c] by (simp add: less_mult_imp_div_less)
  ultimately show "unat (drop_bit 4 c AND 0x0F) = unat c div 16"
    unfolding m take_bit_eq_mask [symmetric] by (simp only: unsigned_take_bit_eq) (simp add: take_bit_eq_mod)
  show "unat (c AND 0x0F) = unat c mod 16"
    unfolding m take_bit_eq_mask [symmetric] by (simp only: unsigned_take_bit_eq) (simp add: take_bit_eq_mod)
qed

lemma escapeByte_cases:
  obtains "escapeByte c = [c]" "c \<noteq> ch CHR 0x5C" "c \<noteq> ch CHR 0x22" "c \<noteq> 0x0D" "c \<noteq> 0x0A"
  | e where "escapeByte c = [ch CHR 0x5C, e]" "simpleEscape e = Some c" "e \<noteq> 0x0A" "e \<noteq> 0x0D"
  | "escapeByte c = [ch CHR 0x5C, ch CHR ''x''] @ hexDigits 2 (unat c)"
proof -
  have h: "hexDigits 2 (unat c) = [hexDigitChar (unat (drop_bit 4 c AND 0x0F)), hexDigitChar (unat (c AND 0x0F))]"
  proof -
    have d: "unat c div 16 < 16" using unat_byte_less [of c] by (simp add: less_mult_imp_div_less)
    then show ?thesis
      unfolding nibbles(1) unfolding nibbles(2) by (simp add: numeral_2_eq_2 hexDigitChar_hexChar)
  qed
  have s: "simpleEscape (ch CHR 0x22) = Some (ch CHR 0x22)" "simpleEscape (ch CHR 0x5C) = Some (ch CHR 0x5C)"
    "simpleEscape (ch CHR ''n'') = Some 0x0A" "simpleEscape (ch CHR ''r'') = Some 0x0D"
    "simpleEscape (ch CHR ''t'') = Some 0x09"
    by code_simp+
  have n: "ch CHR 0x22 \<noteq> 0x0A" "ch CHR 0x5C \<noteq> 0x0A" "ch CHR ''n'' \<noteq> 0x0A" "ch CHR ''r'' \<noteq> 0x0A" "ch CHR ''t'' \<noteq> 0x0A"
    "ch CHR 0x22 \<noteq> 0x0D" "ch CHR 0x5C \<noteq> 0x0D" "ch CHR ''n'' \<noteq> 0x0D" "ch CHR ''r'' \<noteq> 0x0D" "ch CHR ''t'' \<noteq> 0x0D"
    by (simp_all add: ch_def)
  have e: "escapeByte (ch CHR 0x22) = [ch CHR 0x5C, ch CHR 0x22]" "escapeByte (ch CHR 0x5C) = [ch CHR 0x5C, ch CHR 0x5C]"
    "escapeByte 0x0A = [ch CHR 0x5C, ch CHR ''n'']" "escapeByte 0x0D = [ch CHR 0x5C, ch CHR ''r'']"
    "escapeByte 0x09 = [ch CHR 0x5C, ch CHR ''t'']"
    by code_simp+
  consider "c = ch CHR 0x22" | "c = ch CHR 0x5C" | "c = 0x0A" | "c = 0x0D" | "c = 0x09"
    | "c \<noteq> ch CHR 0x22" "c \<noteq> ch CHR 0x5C" "c \<noteq> 0x0A" "c \<noteq> 0x0D" "c \<noteq> 0x09" by blast
  then show thesis
  proof cases
    case 6
    with that(1,3) h show thesis by (cases "c \<ge> 0x20 \<and> c \<le> 0x7E") (simp_all add: escapeByte_def)
  qed (use that(2) s n e in simp_all)
qed

lemma escape_step: "textStep False (escapeByte c @ r) = Some ([c], r)"
proof (cases c rule: escapeByte_cases)
  case 1
  then show ?thesis by (simp add: textStep_def)
next
  case (2 e)
  have "ch CHR 0x5C \<noteq> 0x0D" by (simp add: ch_def)
  with 2 show ?thesis by (simp add: textStep_def escapeText_code)
next
  case 3
  have b: "ch CHR 0x5C \<noteq> 0x0D" "ch CHR ''x'' \<noteq> 0x0D" "ch CHR ''x'' \<noteq> 0x0A" by (simp_all add: ch_def)
  have n: "simpleEscape (ch CHR ''x'') = None" by code_simp
  have "unat c < 16 ^ 2" using unat_byte_less [of c] by simp
  note h = hexNat_hexDigits [OF this]
  with 3 b n show ?thesis
    by (simp add: textStep_def escapeText_code hexText_def)
qed

lemma litText_escaped: "litText False (concat (map escapeByte bs)) = Some bs"
proof (induction bs)
  case Nil
  show ?case by (simp add: litText.simps)
next
  case (Cons b bs)
  have "escapeByte b \<noteq> []" by (simp add: escapeByte_def)
  with Cons show ?case
    by (subst litText.simps) (simp add: escape_step)
qed

lemma escapeLoop_text: "escapeLoop w src i e = w @ concat (map escapeByte (take (e - i) (drop i src)))"
proof (induction w src i e rule: escapeLoop.induct)
  case (1 w src i e)
  show ?case
  proof (cases "i < e \<and> i < length src")
    case True
    then have "take (e - i) (drop i src) = src ! i # take (e - (i + 1)) (drop (i + 1) src)"
      by (simp add: Cons_nth_drop_Suc [symmetric] take_Cons' )
    with 1 True show ?thesis by (subst escapeLoop.simps) (simp add: H2WWrite_def)
  next
    case False
    then show ?thesis by (subst escapeLoop.simps) auto
  qed
qed
subsection \<open>Numbers\<close>

text \<open>The value of decimal digits, most significant first.\<close>

definition decimalValue :: "byte list \<Rightarrow> nat" where
  "decimalValue ds = foldl (\<lambda>v d. v * 10 + (unat d - 0x30)) 0 ds"

lemma digit_value: "unat (of_nat (0x30 + v mod 10) :: byte) - 0x30 = v mod 10"
  "H2IsDigit (of_nat (0x30 + v mod 10))"
proof -
  have "v mod 10 < 10" by simp
  then have u: "unat (of_nat (0x30 + v mod 10) :: byte) = 0x30 + v mod 10"
    by (intro unat_byte_of_nat) simp
  then show "unat (of_nat (0x30 + v mod 10) :: byte) - 0x30 = v mod 10" by simp
  have "unat (ch CHR ''0'') = 0x30" "unat (ch CHR ''9'') = 0x39" by code_simp+
  with u \<open>v mod 10 < 10\<close> show "H2IsDigit (of_nat (0x30 + v mod 10))"
    unfolding H2IsDigit_def word_le_nat_alt by simp
qed

lemma u32Digits_value:
  "v < 10 ^ (16 - length buf) \<Longrightarrow> \<exists>ds. u32Digits v buf = buf @ ds \<and> decimalValue (rev ds) = v \<and>
     (\<forall>d\<in>set ds. H2IsDigit d)"
proof (induction v buf rule: u32Digits.induct)
  case (1 v buf)
  show ?case
  proof (cases "v > 0 \<and> length buf < 16")
    case True
    let ?d = "of_nat (0x30 + v mod 10) :: byte"
    have "16 - length buf = Suc (16 - length (buf @ [?d]))"
      using True by (simp only: length_append list.size) linarith
    with 1(2) have "v div 10 < 10 ^ (16 - length (buf @ [?d]))"
      by (simp add: less_mult_imp_div_less mult.commute)
    with 1(1) True obtain ds where ds: "u32Digits (v div 10) (buf @ [?d]) = (buf @ [?d]) @ ds"
      "decimalValue (rev ds) = v div 10" "\<forall>d\<in>set ds. H2IsDigit d" by blast
    have "decimalValue (rev (?d # ds)) = v"
      using ds(2) digit_value(1) [of v] by (simp add: decimalValue_def)
    moreover have "u32Digits v buf = buf @ (?d # ds)" using True ds(1) by (subst u32Digits.simps) simp
    ultimately show ?thesis using ds(3) digit_value(2) [of v] by auto
  next
    case False
    then have "v = 0" using 1(2) by auto
    then show ?thesis by (subst u32Digits.simps) (simp add: decimalValue_def)
  qed
qed

lemma u32_text:
  assumes "v \<le> UINT32_MAX"
  shows "\<exists>ds. H2WU32 w v = w @ ds \<and> decimalValue ds = v \<and> (\<forall>d\<in>set ds. H2IsDigit d) \<and> ds \<noteq> []"
proof (cases "v = 0")
  case True
  have "unat (ch CHR ''0'') = 0x30" "H2IsDigit (ch CHR ''0'')" by code_simp+
  with True show ?thesis by (simp add: H2WU32_def H2WWrite_def decimalValue_def)
next
  case False
  have "v < 10 ^ (16 - length ([] :: byte list))" using assms by simp
  from u32Digits_value [OF this] obtain ds where "u32Digits v [] = ds" "decimalValue (rev ds) = v"
    "\<forall>d\<in>set ds. H2IsDigit d" by auto
  moreover from this False have "ds \<noteq> []" by (auto simp: decimalValue_def)
  ultimately show ?thesis using False by (simp add: H2WU32_def H2WWrite_def)
qed

subsection \<open>The lines of a tree\<close>

text \<open>
  The shape of a tree as the links see it: children and later siblings. A chain of links that
  is finite has such a shape.
\<close>

datatype shape = End | Link shape shape

fun linked :: "H2AstNode list \<Rightarrow> int \<Rightarrow> shape \<Rightarrow> bool" where
  "linked nodes c End \<longleftrightarrow> c < 0"
| "linked nodes c (Link kids sibs) \<longleftrightarrow> 0 \<le> c \<and> c < int (length nodes) \<and>
     linked nodes (firstChild (nodes ! nat c)) kids \<and> linked nodes (nextSibling (nodes ! nat c)) sibs"

text \<open>The nodes in the order of the dump, with their depths.\<close>

fun preorder :: "H2AstNode list \<Rightarrow> nat \<Rightarrow> int \<Rightarrow> shape \<Rightarrow> (nat \<times> H2AstNode) list" where
  "preorder nodes depth c End = []"
| "preorder nodes depth c (Link kids sibs) =
     (depth, nodes ! nat c) # preorder nodes (depth + 1) (firstChild (nodes ! nat c)) kids @
     preorder nodes depth (nextSibling (nodes ! nat c)) sibs"

definition lineText :: "byte list \<Rightarrow> nat \<times> H2AstNode \<Rightarrow> byte list" where
  "lineText src dn = dumpLine (snd dn) (fst dn) src []"

lemma indent_text: "H2WIndent w d = w @ H2WIndent [] d"
  by (induction d arbitrary: w) (simp, metis H2WIndent.simps(2) H2WWrite_def append.assoc append_Nil)

lemma u32_append: "H2WU32 w v = w @ H2WU32 [] v"
  by (simp add: H2WU32_def H2WWrite_def)

lemma escaped_append: "H2WEscaped w src s e = w @ H2WEscaped [] src s e"
  by (simp add: H2WEscaped_def escapeLoop_text H2WWrite_def)

lemma dumpLine_text: "dumpLine n d src w = w @ lineText src (d, n)"
proof -
  have c: "H2WCStr x s = x @ cstr s" "H2WWrite x t = x @ t" for x s t
    by (simp_all add: H2WCStr_def H2WWrite_def)
  show ?thesis
    unfolding lineText_def dumpLine_def Let_def fst_conv snd_conv c
    by (simp add: indent_text [of w] u32_append [of "_ @ _"] escaped_append [of "_ @ _"])
qed

lemma dumpChildren_lines:
  "linked nodes c t \<Longrightarrow> 2 * size t < fuel \<Longrightarrow>
   dumpChildren fuel nodes c depth src w = Some (True, w @ concat (map (lineText src) (preorder nodes depth c t)))"
proof (induction t arbitrary: c depth fuel w)
  case End
  then show ?case by (cases fuel) auto
next
  case (Link kids sibs)
  obtain f where f: "fuel = Suc (Suc f)" using Link.prems(2) by (cases fuel; cases "fuel - 1") auto
  let ?n = "nodes ! nat c"
  have k: "dumpChildren f nodes (firstChild ?n) (depth + 1) src (dumpLine ?n depth src w) =
      Some (True, dumpLine ?n depth src w @ concat (map (lineText src) (preorder nodes (depth + 1) (firstChild ?n) kids)))"
    by (rule Link.IH(1)) (use Link.prems f in auto)
  have s: "dumpChildren (Suc f) nodes (nextSibling ?n) depth src v =
      Some (True, v @ concat (map (lineText src) (preorder nodes depth (nextSibling ?n) sibs)))" for v
    by (rule Link.IH(2)) (use Link.prems f in auto)
  show ?case using Link.prems(1) k s by (simp add: f Let_def dumpLine_text)
qed
subsection \<open>Properties\<close>

text \<open>C24: a dump terminates and prints the tree. When the child and sibling links below the
root are finite, the dump, with fuel of twice their number, succeeds and writes exactly one
line for each node, in preorder, at its depth.\<close>

theorem ast_dump_lines:
  assumes "0 \<le> root" "root < int (length nodes)" "linked nodes (firstChild (nodes ! nat root)) t"
    "2 * size t + 2 \<le> fuel"
  shows "H2AstDump fuel (Some \<lparr>astNodes = Some nodes, astRoot = root, astFeatures = fs\<rparr>) src (Some w) d =
    Some (True,
      Some (w @ concat (map (lineText src)
        ((0, nodes ! nat root) # preorder nodes 1 (firstChild (nodes ! nat root)) t))),
      map_option (\<lambda>d. diagZero\<lparr>dphase := H2DiagPhase_COMPILER\<rparr>) d)"
proof -
  obtain f where f: "fuel = Suc f" "2 * size t < f" using assms(4) by (cases fuel) auto
  show ?thesis
    using dumpChildren_lines [OF assms(3) f(2)] assms(1,2)
    by (simp add: H2AstDump_def f(1) Let_def dumpLine_text)
qed

text \<open>C18: dumped text reads back. What the dump prints for a span of the source is a string
literal of the language. When the bytes of the span are valid UTF-8 it decodes to exactly those
bytes; when they are not, it does not decode at all.\<close>

theorem ast_dump_text_roundtrip:
  assumes "text = H2WEscaped [] src start endPos" "length text + 8 \<le> UINT32_MAX"
  shows "H2DecodeStringLiteralMalloc (\<lambda>_ _. True) text 0 (length text) = Ok bs \<longleftrightarrow>
    bs = take (endPos - start) (drop start src) \<and> utf8Valid bs"
proof -
  let ?slice = "take (endPos - start) (drop start src)"
  let ?body = "concat (map escapeByte ?slice)"
  have t: "text = [] @ [ch CHR 0x22] @ ?body @ [ch CHR 0x22] @ []"
    unfolding assms(1) by (simp add: H2WEscaped_def H2WWrite_def escapeLoop_text)
  have d: "isDelim (ch CHR 0x22)" by (simp add: isDelim_def)
  have l: "0 = length ([] :: byte list)" "length text = 0 + length ?body + 2" by (simp, simp add: t)
  from malloc_meaning [OF t d l assms(2)] show ?thesis
    using litText_escaped [of ?slice] by auto
qed

text \<open>dumped numbers read back: the digits written for a 32-bit number are its decimal
digits.\<close>

theorem ast_dump_number_roundtrip:
  assumes "v \<le> UINT32_MAX"
  shows "\<exists>ds. H2WU32 w v = w @ ds \<and> ds \<noteq> [] \<and> (\<forall>d\<in>set ds. H2IsDigit d) \<and> decimalValue ds = v"
  using u32_text [OF assms] by blast

definition exNode :: "H2AstKind \<Rightarrow> int \<Rightarrow> int \<Rightarrow> H2AstNode" where
  "exNode k child sib = \<lparr>nstart = 0, nend = 3, firstChild = child, nextSibling = sib, dataStart = 0,
     dataEnd = 0, nop = H2Tok_INVALID, nkind = k, nflags = 0\<rparr>"

lemma ast_dump_lines_witness:
  "H2AstDump 6 (Some \<lparr>astNodes = Some [exNode H2Ast_FILE 1 (-1), exNode H2Ast_INT (-1) 2, exNode H2Ast_NULL (-1) (-1)],
     astRoot = 0, astFeatures = 0\<rparr>) [] (Some []) None =
   Some (True, Some (cstr ''FILE [0,3]'' @ [0x0A] @ cstr ''  INT [0,3]'' @ [0x0A] @ cstr ''  NULL [0,3]'' @ [0x0A]), None)"
proof -
  let ?nodes = "[exNode H2Ast_FILE 1 (-1), exNode H2Ast_INT (-1) 2, exNode H2Ast_NULL (-1) (-1)]"
  have l: "linked ?nodes (firstChild (?nodes ! nat 0)) (Link End (Link End End))"
    by (simp add: exNode_def)
  have e: "concat (map (lineText []) ((0, ?nodes ! nat 0) # preorder ?nodes 1 (firstChild (?nodes ! nat 0)) (Link End (Link End End)))) =
    cstr ''FILE [0,3]'' @ [0x0A] @ cstr ''  INT [0,3]'' @ [0x0A] @ cstr ''  NULL [0,3]'' @ [0x0A]"
    by code_simp
  show ?thesis using ast_dump_lines [OF _ _ l, of 6 0 "[]" "[]" None] unfolding e by simp
qed

lemma ast_dump_text_roundtrip_witness:
  "H2DecodeStringLiteralMalloc (\<lambda>_ _. True) (H2WEscaped [] [0x61, 0x22, 0x0A, 0x62] 0 3) 0 7 = Ok [0x61, 0x22, 0x0A]"
proof -
  have l: "length (H2WEscaped [] [0x61, 0x22, 0x0A, 0x62] 0 3) = 7" by code_simp
  have "utf8Valid [0x61, 0x22, 0x0A]" by (rule ascii_valid) simp
  with ast_dump_text_roundtrip [OF refl, where src = "[0x61, 0x22, 0x0A, 0x62]" and start = 0 and endPos = 3] l show ?thesis
    by (simp add: numeral_3_eq_3)
qed

lemma ast_dump_number_roundtrip_witness:
  "\<exists>ds. H2WU32 [] 4294967295 = ds \<and> decimalValue ds = 4294967295"
  using ast_dump_number_roundtrip [of 4294967295 "[]"] by auto

end
