(* ===== verification/H2Mir.thy ===== *)
theory H2Mir
  imports H2Lexer
begin

text \<open>
  The mid-level representation of \<open>src/mir.h\<close>: operations, instructions, the tables of a
  program and the packed words of instructions and type references. Enumerations that the
  code stores in integer fields have a numbering (\<open>intKindNum\<close>, \<open>scalarNum\<close>); \<open>tok\<close> is
  16 bits wide, indices and lengths are \<open>nat\<close> within 32 bits, flag words are 32-bit words.
  A \<open>const H2MirTypeRef*\<close> that may be NULL is an option.
\<close>

subsection \<open>Enumerations\<close>

datatype (plugins only: code size) H2MirOp =
    H2MirOp_INVALID | H2MirOp_PUSH_CONST | H2MirOp_PUSH_INT | H2MirOp_PUSH_FLOAT
  | H2MirOp_PUSH_BOOL | H2MirOp_PUSH_STRING | H2MirOp_PUSH_NULL | H2MirOp_LOAD_IDENT
  | H2MirOp_STORE_IDENT | H2MirOp_CALL | H2MirOp_UNARY | H2MirOp_BINARY | H2MirOp_INDEX
  | H2MirOp_SEQ_LEN | H2MirOp_STR_CSTR | H2MirOp_ITER_INIT | H2MirOp_ITER_NEXT | H2MirOp_CAST
  | H2MirOp_COERCE | H2MirOp_LOCAL_ZERO | H2MirOp_LOCAL_LOAD | H2MirOp_LOCAL_STORE
  | H2MirOp_LOCAL_ADDR | H2MirOp_DROP | H2MirOp_JUMP | H2MirOp_JUMP_IF_FALSE | H2MirOp_ASSERT
  | H2MirOp_CALL_FN | H2MirOp_CALL_HOST | H2MirOp_CALL_INDIRECT | H2MirOp_MAKE_CLOSURE
  | H2MirOp_CAPTURE_LOAD | H2MirOp_CAPTURE_STORE | H2MirOp_CAPTURE_ADDR | H2MirOp_DEREF_LOAD
  | H2MirOp_DEREF_STORE | H2MirOp_ADDR_OF | H2MirOp_AGG_MAKE | H2MirOp_AGG_ZERO
  | H2MirOp_AGG_GET | H2MirOp_AGG_SET | H2MirOp_AGG_ADDR | H2MirOp_ARRAY_ZERO
  | H2MirOp_ARRAY_GET | H2MirOp_ARRAY_SET | H2MirOp_ARRAY_ADDR | H2MirOp_TUPLE_MAKE
  | H2MirOp_SLICE_MAKE | H2MirOp_OPTIONAL_WRAP | H2MirOp_OPTIONAL_UNWRAP | H2MirOp_TAGGED_MAKE
  | H2MirOp_TAGGED_TAG | H2MirOp_TAGGED_PAYLOAD | H2MirOp_ALLOC_NEW | H2MirOp_CTX_GET
  | H2MirOp_CTX_ADDR | H2MirOp_CTX_SET | H2MirOp_RETURN | H2MirOp_RETURN_VOID

datatype (plugins only: code size) H2MirCastTarget =
    H2MirCastTarget_INVALID | H2MirCastTarget_INT | H2MirCastTarget_FLOAT | H2MirCastTarget_BOOL
  | H2MirCastTarget_STR_VIEW | H2MirCastTarget_PTR_LIKE

datatype (plugins only: code size) H2MirConstKind =
    H2MirConst_INVALID | H2MirConst_INT | H2MirConst_FLOAT | H2MirConst_BOOL | H2MirConst_STRING
  | H2MirConst_NULL | H2MirConst_TYPE | H2MirConst_FUNCTION | H2MirConst_HOST

datatype (plugins only: code size) H2MirTypeScalar =
    H2MirTypeScalar_NONE | H2MirTypeScalar_I32 | H2MirTypeScalar_I64 | H2MirTypeScalar_F32
  | H2MirTypeScalar_F64

datatype (plugins only: code size) H2MirIntKind =
    H2MirIntKind_NONE | H2MirIntKind_BOOL | H2MirIntKind_U8 | H2MirIntKind_I8 | H2MirIntKind_U16
  | H2MirIntKind_I16 | H2MirIntKind_U32 | H2MirIntKind_I32

datatype (plugins only: code size) H2MirHostKind =
    H2MirHost_INVALID | H2MirHost_GENERIC

datatype (plugins only: code size) H2MirHostTarget =
    H2MirHostTarget_INVALID | H2MirHostTarget_PLATFORM_EXIT | H2MirHostTarget_DEALLOC
  | H2MirHostTarget_CONCAT | H2MirHostTarget_COPY

datatype (plugins only: code size) H2MirContextField =
    H2MirContextField_INVALID | H2MirContextField_ALLOCATOR | H2MirContextField_TEMP_ALLOCATOR
  | H2MirContextField_LOGGER

datatype (plugins only: code size) H2MirSymbolKind =
    H2MirSymbol_INVALID | H2MirSymbol_IDENT | H2MirSymbol_CALL | H2MirSymbol_HOST

text \<open>Flags of \<open>tok\<close> in call instructions.\<close>

abbreviation (input) H2MirCallArgFlag_RECEIVER_ARG0 :: "16 word" where
  "H2MirCallArgFlag_RECEIVER_ARG0 \<equiv> 0x8000"

abbreviation (input) H2MirCallArgFlag_SPREAD_LAST :: "16 word" where
  "H2MirCallArgFlag_SPREAD_LAST \<equiv> 0x4000"

abbreviation (input) H2MirCallArgFlag_MASK :: "16 word" where
  "H2MirCallArgFlag_MASK \<equiv> 0xC000"

definition H2MirCallArgCountFromTok :: "16 word \<Rightarrow> nat" where
  "H2MirCallArgCountFromTok tok = unat (tok AND NOT H2MirCallArgFlag_MASK)"

definition H2MirCallTokDropsReceiverArg0 :: "16 word \<Rightarrow> bool" where
  "H2MirCallTokDropsReceiverArg0 tok \<longleftrightarrow> tok AND H2MirCallArgFlag_RECEIVER_ARG0 \<noteq> 0"

definition H2MirCallTokHasSpreadLast :: "16 word \<Rightarrow> bool" where
  "H2MirCallTokHasSpreadLast tok \<longleftrightarrow> tok AND H2MirCallArgFlag_SPREAD_LAST \<noteq> 0"

abbreviation (input) H2MirSymbolFlag_CALL_RECEIVER_ARG0 :: "32 word" where
  "H2MirSymbolFlag_CALL_RECEIVER_ARG0 \<equiv> 1"

abbreviation (input) H2MIR_RAW_CALL_AUX_FLAG_MASK :: "32 word" where
  "H2MIR_RAW_CALL_AUX_FLAG_MASK \<equiv> push_bit 1 1 - 1"

definition H2MirRawCallAuxPack :: "32 word \<Rightarrow> 32 word \<Rightarrow> 32 word" where
  "H2MirRawCallAuxPack nodeId flags = push_bit 1 nodeId OR (flags AND H2MIR_RAW_CALL_AUX_FLAG_MASK)"

definition H2MirRawCallAuxNode :: "32 word \<Rightarrow> 32 word" where
  "H2MirRawCallAuxNode aux = drop_bit 1 aux"

definition H2MirRawCallAuxFlags :: "32 word \<Rightarrow> 32 word" where
  "H2MirRawCallAuxFlags aux = aux AND H2MIR_RAW_CALL_AUX_FLAG_MASK"

subsection \<open>Instructions and tables\<close>

record H2MirInst =
  iop :: H2MirOp
  itok :: "16 word"
  iaux :: nat
  istart :: nat
  iend :: nat

text \<open>A view by address: the pointer, \<open>None\<close> for NULL, and the length.\<close>

type_synonym viewRef = "nat option \<times> nat"

record H2MirConst =
  ckind :: H2MirConstKind
  caux :: nat
  cbits :: "64 word"
  cbytes :: viewRef

record H2MirSourceRef =
  ssrc :: viewRef

record H2MirLocal =
  ltypeRef :: nat
  lflags :: "32 word"
  lnameStart :: nat
  lnameEnd :: nat

record H2MirFunction =
  instStart :: nat
  instLen :: nat
  fsourceRef :: nat
  localStart :: nat
  localCount :: nat
  paramCount :: nat
  tempCount :: nat
  ftypeRef :: nat
  fnameStart :: nat
  fnameEnd :: nat
  fastNode :: nat
  fflags :: "32 word"
  captureStart :: nat
  captureCount :: nat

record H2MirCapture =
  capNameStart :: nat
  capNameEnd :: nat
  capTypeRef :: nat

record H2MirField =
  fieldNameStart :: nat
  fieldNameEnd :: nat
  fieldSourceRef :: nat
  ownerTypeRef :: nat
  fieldTypeRef :: nat

record H2MirTypeRef =
  tastNode :: nat
  tsourceRef :: nat
  tflags :: "32 word"
  taux :: "32 word"

record H2MirHostRef =
  hostNameStart :: nat
  hostNameEnd :: nat
  hostKind :: H2MirHostKind
  hostFlags :: "32 word"
  hostTarget :: nat

record H2MirSymbolRef =
  symNameStart :: nat
  symNameEnd :: nat
  symKind :: H2MirSymbolKind
  symFlags :: "32 word"
  symTarget :: nat

record H2MirProgram =
  pinsts :: "H2MirInst list"
  pconsts :: "H2MirConst list"
  psources :: "H2MirSourceRef list"
  pfuncs :: "H2MirFunction list"
  plocals :: "H2MirLocal list"
  pfields :: "H2MirField list"
  ptypes :: "H2MirTypeRef list"
  phosts :: "H2MirHostRef list"
  psymbols :: "H2MirSymbolRef list"
  pcaptures :: "H2MirCapture list"

subsection \<open>Type references\<close>

abbreviation (input) H2MirTypeFlag_SCALAR_MASK :: "32 word" where "H2MirTypeFlag_SCALAR_MASK \<equiv> 0x000000ff"
abbreviation (input) H2MirTypeFlag_STR_REF :: "32 word" where "H2MirTypeFlag_STR_REF \<equiv> 0x00000100"
abbreviation (input) H2MirTypeFlag_STR_PTR :: "32 word" where "H2MirTypeFlag_STR_PTR \<equiv> 0x00000200"
abbreviation (input) H2MirTypeFlag_U8_PTR :: "32 word" where "H2MirTypeFlag_U8_PTR \<equiv> 0x00000400"
abbreviation (input) H2MirTypeFlag_I32_PTR :: "32 word" where "H2MirTypeFlag_I32_PTR \<equiv> 0x00000800"
abbreviation (input) H2MirTypeFlag_I8_PTR :: "32 word" where "H2MirTypeFlag_I8_PTR \<equiv> 0x00001000"
abbreviation (input) H2MirTypeFlag_U16_PTR :: "32 word" where "H2MirTypeFlag_U16_PTR \<equiv> 0x00002000"
abbreviation (input) H2MirTypeFlag_I16_PTR :: "32 word" where "H2MirTypeFlag_I16_PTR \<equiv> 0x00004000"
abbreviation (input) H2MirTypeFlag_U32_PTR :: "32 word" where "H2MirTypeFlag_U32_PTR \<equiv> 0x00008000"
abbreviation (input) H2MirTypeFlag_FIXED_ARRAY :: "32 word" where "H2MirTypeFlag_FIXED_ARRAY \<equiv> 0x00010000"
abbreviation (input) H2MirTypeFlag_FIXED_ARRAY_VIEW :: "32 word" where "H2MirTypeFlag_FIXED_ARRAY_VIEW \<equiv> 0x00020000"
abbreviation (input) H2MirTypeFlag_SLICE_VIEW :: "32 word" where "H2MirTypeFlag_SLICE_VIEW \<equiv> 0x00040000"
abbreviation (input) H2MirTypeFlag_AGGREGATE :: "32 word" where "H2MirTypeFlag_AGGREGATE \<equiv> 0x00080000"
abbreviation (input) H2MirTypeFlag_OPAQUE_PTR :: "32 word" where "H2MirTypeFlag_OPAQUE_PTR \<equiv> 0x00100000"
abbreviation (input) H2MirTypeFlag_OPTIONAL :: "32 word" where "H2MirTypeFlag_OPTIONAL \<equiv> 0x00200000"
abbreviation (input) H2MirTypeFlag_FUNC_REF :: "32 word" where "H2MirTypeFlag_FUNC_REF \<equiv> 0x00400000"
abbreviation (input) H2MirTypeFlag_STR_OBJ :: "32 word" where "H2MirTypeFlag_STR_OBJ \<equiv> 0x00800000"
abbreviation (input) H2MirTypeFlag_VARRAY_VIEW :: "32 word" where "H2MirTypeFlag_VARRAY_VIEW \<equiv> 0x01000000"
abbreviation (input) H2MirTypeFlag_AGG_SLICE_VIEW :: "32 word" where "H2MirTypeFlag_AGG_SLICE_VIEW \<equiv> 0x02000000"
abbreviation (input) H2MirTypeFlag_FIXED_ARRAY_STR :: "32 word" where "H2MirTypeFlag_FIXED_ARRAY_STR \<equiv> 0x04000000"

abbreviation (input) H2MirTypeAux_INT_KIND_MASK :: "32 word" where
  "H2MirTypeAux_INT_KIND_MASK \<equiv> 0x000000ff"

abbreviation (input) H2MirTypeAux_ARRAY_COUNT_MASK :: "32 word" where
  "H2MirTypeAux_ARRAY_COUNT_MASK \<equiv> 0x00ffff00"

definition intKindNum :: "H2MirIntKind \<Rightarrow> 32 word" where
  "intKindNum k = (case k of
     H2MirIntKind_NONE \<Rightarrow> 0 | H2MirIntKind_BOOL \<Rightarrow> 1 | H2MirIntKind_U8 \<Rightarrow> 2
   | H2MirIntKind_I8 \<Rightarrow> 3 | H2MirIntKind_U16 \<Rightarrow> 4 | H2MirIntKind_I16 \<Rightarrow> 5
   | H2MirIntKind_U32 \<Rightarrow> 6 | H2MirIntKind_I32 \<Rightarrow> 7)"

definition scalarNum :: "H2MirTypeScalar \<Rightarrow> 32 word" where
  "scalarNum s = (case s of
     H2MirTypeScalar_NONE \<Rightarrow> 0 | H2MirTypeScalar_I32 \<Rightarrow> 1 | H2MirTypeScalar_I64 \<Rightarrow> 2
   | H2MirTypeScalar_F32 \<Rightarrow> 3 | H2MirTypeScalar_F64 \<Rightarrow> 4)"

definition H2MirTypeAuxMakeScalarInt :: "H2MirIntKind \<Rightarrow> 32 word" where
  "H2MirTypeAuxMakeScalarInt intKind = intKindNum intKind"

definition H2MirTypeAuxMakeFixedArray :: "H2MirIntKind \<Rightarrow> 32 word \<Rightarrow> 32 word" where
  "H2MirTypeAuxMakeFixedArray elemKind arrayCount =
     intKindNum elemKind OR (push_bit 8 arrayCount AND H2MirTypeAux_ARRAY_COUNT_MASK)"

definition H2MirTypeAuxMakeVArrayView :: "H2MirIntKind \<Rightarrow> 32 word \<Rightarrow> 32 word" where
  "H2MirTypeAuxMakeVArrayView elemKind countFieldRef =
     intKindNum elemKind OR (push_bit 8 (countFieldRef + 1) AND H2MirTypeAux_ARRAY_COUNT_MASK)"

definition H2MirTypeRefIntKind :: "H2MirTypeRef option \<Rightarrow> 32 word" where
  "H2MirTypeRefIntKind typeRef =
     (case typeRef of None \<Rightarrow> intKindNum H2MirIntKind_NONE
      | Some t \<Rightarrow> taux t AND H2MirTypeAux_INT_KIND_MASK)"

definition H2MirTypeRefFixedArrayCount :: "H2MirTypeRef option \<Rightarrow> 32 word" where
  "H2MirTypeRefFixedArrayCount typeRef =
     (case typeRef of None \<Rightarrow> 0
      | Some t \<Rightarrow> drop_bit 8 (taux t AND H2MirTypeAux_ARRAY_COUNT_MASK))"

definition H2MirTypeRefVArrayCountField :: "H2MirTypeRef option \<Rightarrow> 32 word" where
  "H2MirTypeRefVArrayCountField typeRef =
     (case typeRef of None \<Rightarrow> 0xffffffff
      | Some t \<Rightarrow>
          (let encoded = drop_bit 8 (taux t AND H2MirTypeAux_ARRAY_COUNT_MASK)
           in if encoded = 0 then 0xffffffff else encoded - 1))"

definition H2MirTypeAuxMakeAggSliceView :: "32 word \<Rightarrow> 32 word" where
  "H2MirTypeAuxMakeAggSliceView elemTypeRef =
     (if elemTypeRef = 0xffffffff then 0 else elemTypeRef + 1)"

definition hasTypeFlag :: "H2MirTypeRef option \<Rightarrow> 32 word \<Rightarrow> bool" where
  "hasTypeFlag typeRef flag = (case typeRef of None \<Rightarrow> False | Some t \<Rightarrow> tflags t AND flag \<noteq> 0)"

definition H2MirTypeRefAggSliceElemTypeRef :: "H2MirTypeRef option \<Rightarrow> 32 word" where
  "H2MirTypeRefAggSliceElemTypeRef typeRef =
     (case typeRef of None \<Rightarrow> 0xffffffff
      | Some t \<Rightarrow>
          (if tflags t AND H2MirTypeFlag_AGG_SLICE_VIEW \<noteq> 0 \<and> taux t \<noteq> 0
           then taux t - 1 else 0xffffffff))"

definition H2MirTypeRefScalarKind :: "H2MirTypeRef option \<Rightarrow> 32 word" where
  "H2MirTypeRefScalarKind typeRef =
     (case typeRef of None \<Rightarrow> scalarNum H2MirTypeScalar_NONE
      | Some t \<Rightarrow> tflags t AND H2MirTypeFlag_SCALAR_MASK)"

definition H2MirTypeRefIsStrRef :: "H2MirTypeRef option \<Rightarrow> bool" where
  "H2MirTypeRefIsStrRef typeRef = hasTypeFlag typeRef H2MirTypeFlag_STR_REF"

definition H2MirTypeRefIsStrPtr :: "H2MirTypeRef option \<Rightarrow> bool" where
  "H2MirTypeRefIsStrPtr typeRef = hasTypeFlag typeRef H2MirTypeFlag_STR_PTR"

definition H2MirTypeRefIsStrObj :: "H2MirTypeRef option \<Rightarrow> bool" where
  "H2MirTypeRefIsStrObj typeRef = hasTypeFlag typeRef H2MirTypeFlag_STR_OBJ"

definition H2MirTypeRefIsU8Ptr :: "H2MirTypeRef option \<Rightarrow> bool" where
  "H2MirTypeRefIsU8Ptr typeRef = hasTypeFlag typeRef H2MirTypeFlag_U8_PTR"

definition H2MirTypeRefIsI32Ptr :: "H2MirTypeRef option \<Rightarrow> bool" where
  "H2MirTypeRefIsI32Ptr typeRef = hasTypeFlag typeRef H2MirTypeFlag_I32_PTR"

definition H2MirTypeRefIsI8Ptr :: "H2MirTypeRef option \<Rightarrow> bool" where
  "H2MirTypeRefIsI8Ptr typeRef = hasTypeFlag typeRef H2MirTypeFlag_I8_PTR"

definition H2MirTypeRefIsU16Ptr :: "H2MirTypeRef option \<Rightarrow> bool" where
  "H2MirTypeRefIsU16Ptr typeRef = hasTypeFlag typeRef H2MirTypeFlag_U16_PTR"

definition H2MirTypeRefIsI16Ptr :: "H2MirTypeRef option \<Rightarrow> bool" where
  "H2MirTypeRefIsI16Ptr typeRef = hasTypeFlag typeRef H2MirTypeFlag_I16_PTR"

definition H2MirTypeRefIsU32Ptr :: "H2MirTypeRef option \<Rightarrow> bool" where
  "H2MirTypeRefIsU32Ptr typeRef = hasTypeFlag typeRef H2MirTypeFlag_U32_PTR"

definition H2MirTypeRefIsFixedArray :: "H2MirTypeRef option \<Rightarrow> bool" where
  "H2MirTypeRefIsFixedArray typeRef = hasTypeFlag typeRef H2MirTypeFlag_FIXED_ARRAY"

definition H2MirTypeRefIsFixedArrayView :: "H2MirTypeRef option \<Rightarrow> bool" where
  "H2MirTypeRefIsFixedArrayView typeRef = hasTypeFlag typeRef H2MirTypeFlag_FIXED_ARRAY_VIEW"

definition H2MirTypeRefIsSliceView :: "H2MirTypeRef option \<Rightarrow> bool" where
  "H2MirTypeRefIsSliceView typeRef = hasTypeFlag typeRef H2MirTypeFlag_SLICE_VIEW"

definition H2MirTypeRefIsVArrayView :: "H2MirTypeRef option \<Rightarrow> bool" where
  "H2MirTypeRefIsVArrayView typeRef = hasTypeFlag typeRef H2MirTypeFlag_VARRAY_VIEW"

definition H2MirTypeRefIsAggSliceView :: "H2MirTypeRef option \<Rightarrow> bool" where
  "H2MirTypeRefIsAggSliceView typeRef = hasTypeFlag typeRef H2MirTypeFlag_AGG_SLICE_VIEW"

definition H2MirTypeRefIsAggregate :: "H2MirTypeRef option \<Rightarrow> bool" where
  "H2MirTypeRefIsAggregate typeRef = hasTypeFlag typeRef H2MirTypeFlag_AGGREGATE"

definition H2MirTypeRefIsOpaquePtr :: "H2MirTypeRef option \<Rightarrow> bool" where
  "H2MirTypeRefIsOpaquePtr typeRef = hasTypeFlag typeRef H2MirTypeFlag_OPAQUE_PTR"

definition H2MirTypeRefIsOptional :: "H2MirTypeRef option \<Rightarrow> bool" where
  "H2MirTypeRefIsOptional typeRef = hasTypeFlag typeRef H2MirTypeFlag_OPTIONAL"

definition H2MirTypeRefIsFuncRef :: "H2MirTypeRef option \<Rightarrow> bool" where
  "H2MirTypeRefIsFuncRef typeRef = hasTypeFlag typeRef H2MirTypeFlag_FUNC_REF"

definition H2MirTypeRefIsFixedArrayStr :: "H2MirTypeRef option \<Rightarrow> bool" where
  "H2MirTypeRefIsFixedArrayStr typeRef \<longleftrightarrow>
     H2MirTypeRefIsFixedArray typeRef \<and> hasTypeFlag typeRef H2MirTypeFlag_FIXED_ARRAY_STR"

definition H2MirTypeRefFuncRefFunctionIndex :: "H2MirTypeRef option \<Rightarrow> 32 word" where
  "H2MirTypeRefFuncRefFunctionIndex typeRef =
     (if \<not> H2MirTypeRefIsFuncRef typeRef \<or> taux (the typeRef) = 0 then 0xffffffff
      else taux (the typeRef) - 1)"

definition H2MirTypeRefOpaquePointeeTypeRef :: "H2MirTypeRef option \<Rightarrow> 32 word" where
  "H2MirTypeRefOpaquePointeeTypeRef typeRef =
     (if H2MirTypeRefIsOpaquePtr typeRef then taux (the typeRef) else 0xffffffff)"

end
