(* ===== verification/H2MirBuilder.thy ===== *)
theory H2MirBuilder
  imports H2Mir
begin

text \<open>
  The program builder of \<open>src/mir.c\<close> (\<open>H2MirProgramBuilderInit\<close> to
  \<open>H2MirProgramBuilderFinish\<close>). Each of its ten arrays is a pointer, a length and a capacity
  in the C struct; here an array is the memory it occupies (address and size in bytes), its
  elements and its capacity. A function answers 0 with \<open>Ok\<close>, -1 with \<open>Err\<close>, in both cases
  with the builder as it leaves it; \<open>Stuck\<close> is an access outside an array. The arena is
  reached through a pointer, \<open>None\<close> for NULL. NULL arguments are not modelled. Element sizes
  are those of a 64-bit target.
\<close>

subsection \<open>Growable arrays\<close>

record 'a mirArray =
  amem :: "(nat \<times> nat) option"
  aelems :: "'a list"
  acap :: nat

definition noArray :: "'a mirArray" where
  "noArray = \<lparr>amem = None, aelems = [], acap = 0\<rparr>"

definition arrBytes :: "'a mirArray \<Rightarrow> nat" where
  "arrBytes arr = (case amem arr of None \<Rightarrow> 0 | Some (p, n) \<Rightarrow> n)"

text \<open>
  The new array has \<open>(uint32_t)(elemSize * newCap)\<close> bytes; \<open>elemSize * oldCap\<close> bytes are
  copied into it.
\<close>

definition H2MirArenaGrowArray ::
  "H2Arena option \<Rightarrow> 'a mirArray \<Rightarrow> nat \<Rightarrow> nat \<Rightarrow> (H2Arena option, (nat \<times> nat) \<times> H2Arena) outcome" where
  "H2MirArenaGrowArray arena arr elemSize newCap =
     (case arena of
        None \<Rightarrow> Err None
      | Some ar \<Rightarrow>
          (if elemSize = 0 \<or> newCap < acap arr then Err (Some ar)
           else
             (case H2ArenaAlloc ar (u32 (elemSize * newCap)) 8 of
                (None, ar') \<Rightarrow> Err (Some ar')
              | (Some p, ar') \<Rightarrow>
                  (if amem arr \<noteq> None \<and> acap arr > 0 \<and>
                      (elemSize * acap arr > u32 (elemSize * newCap) \<or> elemSize * acap arr > arrBytes arr)
                   then Stuck
                   else Ok ((p, u32 (elemSize * newCap)), ar')))))"

definition H2MirProgramBuilderEnsureCap ::
  "H2Arena option \<Rightarrow> 'a mirArray \<Rightarrow> nat \<Rightarrow> nat \<Rightarrow> (H2Arena option, 'a mirArray \<times> H2Arena) outcome" where
  "H2MirProgramBuilderEnsureCap arena arr elemSize needLen =
     (case arena of
        None \<Rightarrow> Err None
      | Some ar \<Rightarrow>
          (if elemSize = 0 then Err (Some ar)
           else if needLen \<le> acap arr then Ok (arr, ar)
           else
             (let newCap = growCap (if acap arr = 0 then 8 else acap arr) needLen
              in case H2MirArenaGrowArray arena arr elemSize newCap of
                   Err ar' \<Rightarrow> Err ar'
                 | Stuck \<Rightarrow> Stuck
                 | Ok (newMem, ar') \<Rightarrow> Ok (arr\<lparr>amem := Some newMem, acap := newCap\<rparr>, ar'))))"

definition H2MirProgramBuilderAppendElem ::
  "H2Arena option \<Rightarrow> 'a mirArray \<Rightarrow> 'a \<Rightarrow> nat
   \<Rightarrow> (H2Arena option, nat \<times> 'a mirArray \<times> H2Arena) outcome" where
  "H2MirProgramBuilderAppendElem arena arr value elemSize =
     (let len = length (aelems arr)
      in case H2MirProgramBuilderEnsureCap arena arr elemSize (u32 (len + 1)) of
           Err ar \<Rightarrow> Err ar
         | Stuck \<Rightarrow> Stuck
         | Ok (arr1, ar) \<Rightarrow>
             (if (len + 1) * elemSize > arrBytes arr1 then Stuck
              else Ok (len, arr1\<lparr>aelems := aelems arr @ [value]\<rparr>, ar)))"

subsection \<open>The builder\<close>

record H2MirProgramBuilder =
  barena :: "H2Arena option"
  binsts :: "H2MirInst mirArray"
  bconsts :: "H2MirConst mirArray"
  bsources :: "H2MirSourceRef mirArray"
  bfuncs :: "H2MirFunction mirArray"
  blocals :: "H2MirLocal mirArray"
  bfields :: "H2MirField mirArray"
  btypes :: "H2MirTypeRef mirArray"
  bhosts :: "H2MirHostRef mirArray"
  bsymbols :: "H2MirSymbolRef mirArray"
  bcaptures :: "H2MirCapture mirArray"
  openFunc :: nat
  hasOpenFunc :: bool

type_synonym builderResult = "(H2MirProgramBuilder, nat \<times> H2MirProgramBuilder) outcome"

definition H2MirProgramBuilderInit :: "H2Arena option \<Rightarrow> H2MirProgramBuilder" where
  "H2MirProgramBuilderInit arena =
     \<lparr>barena = arena, binsts = noArray, bconsts = noArray, bsources = noArray, bfuncs = noArray,
      blocals = noArray, bfields = noArray, btypes = noArray, bhosts = noArray,
      bsymbols = noArray, bcaptures = noArray, openFunc = UINT32_MAX, hasOpenFunc = False\<rparr>"

text \<open>Append to one of the arrays of the builder; \<open>store\<close> writes it back.\<close>

definition appendTo ::
  "H2MirProgramBuilder \<Rightarrow> 'a mirArray \<Rightarrow> 'a \<Rightarrow> nat
   \<Rightarrow> ('a mirArray \<Rightarrow> H2MirProgramBuilder \<Rightarrow> H2MirProgramBuilder) \<Rightarrow> builderResult" where
  "appendTo b arr value elemSize store =
     (case H2MirProgramBuilderAppendElem (barena b) arr value elemSize of
        Err ar \<Rightarrow> Err (b\<lparr>barena := ar\<rparr>)
      | Stuck \<Rightarrow> Stuck
      | Ok (i, arr', ar) \<Rightarrow> Ok (i, store arr' (b\<lparr>barena := Some ar\<rparr>)))"

definition H2MirProgramBuilderAddConst :: "H2MirProgramBuilder \<Rightarrow> H2MirConst \<Rightarrow> builderResult" where
  "H2MirProgramBuilderAddConst b value =
     appendTo b (bconsts b) value 32 (\<lambda>arr b. b\<lparr>bconsts := arr\<rparr>)"

text \<open>The index of the first source with the same pointer and length.\<close>

fun findSource :: "H2MirSourceRef list \<Rightarrow> H2MirSourceRef \<Rightarrow> nat option" where
  "findSource [] value = None"
| "findSource (s # ss) value =
     (if ssrc s = ssrc value then Some 0 else map_option Suc (findSource ss value))"

definition H2MirProgramBuilderAddSource ::
  "H2MirProgramBuilder \<Rightarrow> H2MirSourceRef \<Rightarrow> builderResult" where
  "H2MirProgramBuilderAddSource b value =
     (case findSource (aelems (bsources b)) value of
        Some i \<Rightarrow> Ok (i, b)
      | None \<Rightarrow> appendTo b (bsources b) value 16 (\<lambda>arr b. b\<lparr>bsources := arr\<rparr>))"

definition setFunc :: "nat \<Rightarrow> (H2MirFunction \<Rightarrow> H2MirFunction) \<Rightarrow> H2MirProgramBuilder \<Rightarrow> H2MirProgramBuilder" where
  "setFunc i g b =
     b\<lparr>bfuncs := (bfuncs b)\<lparr>aelems := (aelems (bfuncs b))[i := g (aelems (bfuncs b) ! i)]\<rparr>\<rparr>"

definition H2MirProgramBuilderAddLocal :: "H2MirProgramBuilder \<Rightarrow> H2MirLocal \<Rightarrow> builderResult" where
  "H2MirProgramBuilderAddLocal b value =
     (if \<not> hasOpenFunc b then Err b
      else if openFunc b \<ge> length (aelems (bfuncs b)) then Stuck
      else
        (let slot = localCount (aelems (bfuncs b) ! openFunc b)
         in case appendTo b (blocals b) value 16 (\<lambda>arr b. b\<lparr>blocals := arr\<rparr>) of
              Err b' \<Rightarrow> Err b'
            | Stuck \<Rightarrow> Stuck
            | Ok (i, b') \<Rightarrow>
                Ok (slot, setFunc (openFunc b) (\<lambda>f. f\<lparr>localCount := u32 (localCount f + 1)\<rparr>) b')))"

definition H2MirProgramBuilderAddField :: "H2MirProgramBuilder \<Rightarrow> H2MirField \<Rightarrow> builderResult" where
  "H2MirProgramBuilderAddField b value =
     appendTo b (bfields b) value 20 (\<lambda>arr b. b\<lparr>bfields := arr\<rparr>)"

definition H2MirProgramBuilderAddType :: "H2MirProgramBuilder \<Rightarrow> H2MirTypeRef \<Rightarrow> builderResult" where
  "H2MirProgramBuilderAddType b value =
     appendTo b (btypes b) value 16 (\<lambda>arr b. b\<lparr>btypes := arr\<rparr>)"

definition H2MirProgramBuilderAddHost :: "H2MirProgramBuilder \<Rightarrow> H2MirHostRef \<Rightarrow> builderResult" where
  "H2MirProgramBuilderAddHost b value =
     appendTo b (bhosts b) value 20 (\<lambda>arr b. b\<lparr>bhosts := arr\<rparr>)"

definition H2MirProgramBuilderAddSymbol :: "H2MirProgramBuilder \<Rightarrow> H2MirSymbolRef \<Rightarrow> builderResult" where
  "H2MirProgramBuilderAddSymbol b value =
     appendTo b (bsymbols b) value 20 (\<lambda>arr b. b\<lparr>bsymbols := arr\<rparr>)"

definition H2MirProgramBuilderAddCapture :: "H2MirProgramBuilder \<Rightarrow> H2MirCapture \<Rightarrow> builderResult" where
  "H2MirProgramBuilderAddCapture b value =
     appendTo b (bcaptures b) value 12 (\<lambda>arr b. b\<lparr>bcaptures := arr\<rparr>)"

definition H2MirProgramBuilderBeginFunction ::
  "H2MirProgramBuilder \<Rightarrow> H2MirFunction \<Rightarrow> builderResult" where
  "H2MirProgramBuilderBeginFunction b value =
     (if hasOpenFunc b then Err b
      else
        (let fn = value\<lparr>instStart := length (aelems (binsts b)), instLen := 0,
                        localStart := length (aelems (blocals b)), localCount := 0\<rparr>
         in case appendTo b (bfuncs b) fn 56 (\<lambda>arr b. b\<lparr>bfuncs := arr\<rparr>) of
              Err b' \<Rightarrow> Err b'
            | Stuck \<Rightarrow> Stuck
            | Ok (i, b') \<Rightarrow> Ok (i, b'\<lparr>openFunc := i, hasOpenFunc := True\<rparr>)))"

text \<open>32-bit subtraction.\<close>

definition sub32 :: "nat \<Rightarrow> nat \<Rightarrow> nat" where
  "sub32 a c = u32 (a + 4294967296 - c)"

text \<open>\<open>funcs[openFunc].instLen = instLen - funcs[openFunc].instStart\<close>\<close>

definition closeLen :: "nat \<Rightarrow> H2MirProgramBuilder \<Rightarrow> H2MirProgramBuilder" where
  "closeLen i b = setFunc i (\<lambda>f. f\<lparr>instLen := sub32 (length (aelems (binsts b))) (instStart f)\<rparr>) b"

definition H2MirProgramBuilderAppendInst :: "H2MirProgramBuilder \<Rightarrow> H2MirInst \<Rightarrow> builderResult" where
  "H2MirProgramBuilderAppendInst b value =
     (if \<not> hasOpenFunc b then Err b
      else
        (case appendTo b (binsts b) value 20 (\<lambda>arr b. b\<lparr>binsts := arr\<rparr>) of
           Err b' \<Rightarrow> Err b'
         | Stuck \<Rightarrow> Stuck
         | Ok (i, b') \<Rightarrow>
             (if openFunc b' \<ge> length (aelems (bfuncs b')) then Stuck
              else Ok (0, closeLen (openFunc b') b'))))"

text \<open>The loop over the functions after the one that receives the instruction.\<close>

definition shiftStarts :: "nat \<Rightarrow> nat \<Rightarrow> H2MirFunction list \<Rightarrow> H2MirFunction list" where
  "shiftStarts functionIndex absIndex fs =
     take (Suc functionIndex) fs @
     map (\<lambda>f. if instStart f \<ge> absIndex then f\<lparr>instStart := u32 (instStart f + 1)\<rparr> else f)
       (drop (Suc functionIndex) fs)"

text \<open>
  The gap is made with \<open>memmove\<close>. Beyond the last instruction the C code would leave an
  uninitialised element, which is \<open>Stuck\<close> as well.
\<close>

definition H2MirProgramBuilderInsertInst ::
  "H2MirProgramBuilder \<Rightarrow> nat \<Rightarrow> nat \<Rightarrow> H2MirInst \<Rightarrow> builderResult" where
  "H2MirProgramBuilderInsertInst b functionIndex instIndexInFunction value =
     (let fs = aelems (bfuncs b); len = length (aelems (binsts b))
      in if hasOpenFunc b \<or> functionIndex \<ge> length fs then Err b
         else if instIndexInFunction > instLen (fs ! functionIndex) then Err b
         else
           (case H2MirProgramBuilderEnsureCap (barena b) (binsts b) 20 (u32 (len + 1)) of
              Err ar \<Rightarrow> Err (b\<lparr>barena := ar\<rparr>)
            | Stuck \<Rightarrow> Stuck
            | Ok (arr, ar) \<Rightarrow>
                (let absIndex = u32 (instStart (fs ! functionIndex) + instIndexInFunction)
                 in if absIndex > len \<or> (len + 1) * 20 > arrBytes arr then Stuck
                    else
                      (let code = take absIndex (aelems arr) @ value # drop absIndex (aelems arr);
                           fs1 = fs[functionIndex :=
                             (fs ! functionIndex)\<lparr>instLen := u32 (instLen (fs ! functionIndex) + 1)\<rparr>]
                       in Ok (0, b\<lparr>barena := Some ar, binsts := arr\<lparr>aelems := code\<rparr>,
                                   bfuncs := (bfuncs b)\<lparr>aelems := shiftStarts functionIndex absIndex fs1\<rparr>\<rparr>)))))"

definition H2MirProgramBuilderEndFunction :: "H2MirProgramBuilder \<Rightarrow> builderResult" where
  "H2MirProgramBuilderEndFunction b =
     (if \<not> hasOpenFunc b then Err b
      else if openFunc b \<ge> length (aelems (bfuncs b)) then Stuck
      else Ok (0, (closeLen (openFunc b) b)\<lparr>openFunc := UINT32_MAX, hasOpenFunc := False\<rparr>))"

definition H2MirProgramBuilderFinish :: "H2MirProgramBuilder \<Rightarrow> H2MirProgram" where
  "H2MirProgramBuilderFinish b =
     \<lparr>pinsts = aelems (binsts b), pconsts = aelems (bconsts b), psources = aelems (bsources b),
      pfuncs = aelems (bfuncs b), plocals = aelems (blocals b), pfields = aelems (bfields b),
      ptypes = aelems (btypes b), phosts = aelems (bhosts b), psymbols = aelems (bsymbols b),
      pcaptures = aelems (bcaptures b)\<rparr>"

end
