(* ===== verification/H2MirBuilderSpec.thy ===== *)
theory H2MirBuilderSpec
  imports H2MirBuilder
begin

text \<open>
  What the program builder promises: it assembles a list of functions, each with its own code
  and its own locals, although all code and all locals live in two flat arrays. The abstract
  program \<open>mirSpec\<close> has the functions as values; every operation of the builder is simulated
  by the plain list operation on it, with the same index as answer. The simulation is stated
  as an interface (locale \<open>refinement\<close>), proved for sequences of operations once, and
  interpreted on the builder.
\<close>

subsection \<open>Refinement of a state machine with failures\<close>

locale refinement =
  fixes step :: "'s \<Rightarrow> 'o \<Rightarrow> ('s, nat \<times> 's) outcome"
    and spec :: "'a \<Rightarrow> 'o \<Rightarrow> (nat \<times> 'a) option"
    and abst :: "'s \<Rightarrow> 'a"
    and ok :: "'s \<Rightarrow> bool"
    and room :: "'s \<Rightarrow> nat \<Rightarrow> bool"
    and starved :: "'s \<Rightarrow> bool"
  assumes step_Ok: "ok s \<Longrightarrow> room s (Suc n) \<Longrightarrow> step s x = Ok (i, s') \<Longrightarrow>
      ok s' \<and> room s' n \<and> spec (abst s) x = Some (i, abst s')"
    and step_Err: "ok s \<Longrightarrow> room s (Suc n) \<Longrightarrow> step s x = Err s' \<Longrightarrow>
      ok s' \<and> abst s' = abst s \<and> (spec (abst s) x = None \<or> starved s)"
    and step_Stuck: "ok s \<Longrightarrow> room s (Suc n) \<Longrightarrow> step s x \<noteq> Stuck"

text \<open>A client that stops at the first failure, answering the operation that failed.\<close>

fun runSteps ::
  "('s \<Rightarrow> 'o \<Rightarrow> ('s, nat \<times> 's) outcome) \<Rightarrow> 's \<Rightarrow> 'o list \<Rightarrow> ('s \<times> nat, 's) outcome" where
  "runSteps step s [] = Ok s"
| "runSteps step s (x # xs) =
     (case step s x of
        Ok (i, s') \<Rightarrow>
          (case runSteps step s' xs of Err (t, k) \<Rightarrow> Err (t, Suc k) | r \<Rightarrow> r)
      | Err s' \<Rightarrow> Err (s', 0)
      | Stuck \<Rightarrow> Stuck)"

fun runSpec :: "('a \<Rightarrow> 'o \<Rightarrow> (nat \<times> 'a) option) \<Rightarrow> 'a \<Rightarrow> 'o list \<Rightarrow> 'a option" where
  "runSpec spec a [] = Some a"
| "runSpec spec a (x # xs) = (case spec a x of None \<Rightarrow> None | Some (i, a') \<Rightarrow> runSpec spec a' xs)"

context refinement
begin

definition simulated :: "'s \<Rightarrow> 'o list \<Rightarrow> bool" where
  "simulated s xs =
     (case runSteps step s xs of
        Ok t \<Rightarrow> ok t \<and> runSpec spec (abst s) xs = Some (abst t)
      | Err (t, k) \<Rightarrow> ok t \<and> k < length xs \<and> runSpec spec (abst s) (take k xs) = Some (abst t) \<and>
          (runSpec spec (abst s) (take (Suc k) xs) = None \<or>
           (\<exists>u. runSteps step s (take k xs) = Ok u \<and> starved u))
      | Stuck \<Rightarrow> False)"

lemma run_simulated: "ok s \<Longrightarrow> room s (length xs) \<Longrightarrow> simulated s xs"
proof (induction xs arbitrary: s)
  case Nil
  then show ?case by (simp add: simulated_def)
next
  case (Cons x xs)
  then have rm: "room s (Suc (length xs))" by simp
  show ?case
  proof (cases "step s x")
    case (Ok r)
    obtain i s' where r: "r = (i, s')" by (cases r)
    note st = step_Ok [OF Cons.prems(1) rm Ok [unfolded r]]
    from Cons.IH st have "simulated s' xs" by blast
    with st show ?thesis
      by (auto simp: simulated_def Ok r split: outcome.splits)
  next
    case (Err s')
    note st = step_Err [OF Cons.prems(1) rm Err]
    then show ?thesis by (auto simp: simulated_def Err)
  next
    case Stuck
    with step_Stuck [OF Cons.prems(1) rm] show ?thesis by simp
  qed
qed

end

subsection \<open>The abstract program\<close>

record mirFn =
  fhead :: H2MirFunction
  fcode :: "H2MirInst list"
  flocals :: "H2MirLocal list"

record mirSpec =
  sfns :: "mirFn list"
  sopen :: bool
  sconsts :: "H2MirConst list"
  ssources :: "H2MirSourceRef list"
  sfields :: "H2MirField list"
  stypes :: "H2MirTypeRef list"
  shosts :: "H2MirHostRef list"
  ssymbols :: "H2MirSymbolRef list"
  scaptures :: "H2MirCapture list"

datatype mirOp =
    OpConst H2MirConst | OpSource H2MirSourceRef | OpLocal H2MirLocal | OpField H2MirField
  | OpType H2MirTypeRef | OpHost H2MirHostRef | OpSymbol H2MirSymbolRef | OpCapture H2MirCapture
  | OpBegin H2MirFunction | OpInst H2MirInst | OpInsert nat nat H2MirInst | OpEnd

fun mirStep :: "H2MirProgramBuilder \<Rightarrow> mirOp \<Rightarrow> builderResult" where
  "mirStep b (OpConst v) = H2MirProgramBuilderAddConst b v"
| "mirStep b (OpSource v) = H2MirProgramBuilderAddSource b v"
| "mirStep b (OpLocal v) = H2MirProgramBuilderAddLocal b v"
| "mirStep b (OpField v) = H2MirProgramBuilderAddField b v"
| "mirStep b (OpType v) = H2MirProgramBuilderAddType b v"
| "mirStep b (OpHost v) = H2MirProgramBuilderAddHost b v"
| "mirStep b (OpSymbol v) = H2MirProgramBuilderAddSymbol b v"
| "mirStep b (OpCapture v) = H2MirProgramBuilderAddCapture b v"
| "mirStep b (OpBegin v) = H2MirProgramBuilderBeginFunction b v"
| "mirStep b (OpInst v) = H2MirProgramBuilderAppendInst b v"
| "mirStep b (OpInsert f i v) = H2MirProgramBuilderInsertInst b f i v"
| "mirStep b OpEnd = H2MirProgramBuilderEndFunction b"

text \<open>The header of a function: what is not a range.\<close>

definition header :: "H2MirFunction \<Rightarrow> H2MirFunction" where
  "header f = f\<lparr>instStart := 0, instLen := 0, localStart := 0, localCount := 0\<rparr>"

definition emptySpec :: mirSpec where
  "emptySpec = \<lparr>sfns = [], sopen = False, sconsts = [], ssources = [], sfields = [], stypes = [],
     shosts = [], ssymbols = [], scaptures = []\<rparr>"

definition onLast :: "('a \<Rightarrow> 'a) \<Rightarrow> 'a list \<Rightarrow> 'a list" where
  "onLast g xs = butlast xs @ [g (last xs)]"

fun specStep :: "mirSpec \<Rightarrow> mirOp \<Rightarrow> (nat \<times> mirSpec) option" where
  "specStep a (OpConst v) = Some (length (sconsts a), a\<lparr>sconsts := sconsts a @ [v]\<rparr>)"
| "specStep a (OpSource v) =
     (if v \<in> set (ssources a) then Some (length (takeWhile (\<lambda>s. s \<noteq> v) (ssources a)), a)
      else Some (length (ssources a), a\<lparr>ssources := ssources a @ [v]\<rparr>))"
| "specStep a (OpField v) = Some (length (sfields a), a\<lparr>sfields := sfields a @ [v]\<rparr>)"
| "specStep a (OpType v) = Some (length (stypes a), a\<lparr>stypes := stypes a @ [v]\<rparr>)"
| "specStep a (OpHost v) = Some (length (shosts a), a\<lparr>shosts := shosts a @ [v]\<rparr>)"
| "specStep a (OpSymbol v) = Some (length (ssymbols a), a\<lparr>ssymbols := ssymbols a @ [v]\<rparr>)"
| "specStep a (OpCapture v) = Some (length (scaptures a), a\<lparr>scaptures := scaptures a @ [v]\<rparr>)"
| "specStep a (OpBegin f) =
     (if sopen a then None
      else Some (length (sfns a),
        a\<lparr>sfns := sfns a @ [\<lparr>fhead = header f, fcode = [], flocals = []\<rparr>], sopen := True\<rparr>))"
| "specStep a (OpInst v) =
     (if \<not> sopen a then None
      else Some (0, a\<lparr>sfns := onLast (\<lambda>f. f\<lparr>fcode := fcode f @ [v]\<rparr>) (sfns a)\<rparr>))"
| "specStep a (OpLocal v) =
     (if \<not> sopen a then None
      else Some (length (flocals (last (sfns a))),
        a\<lparr>sfns := onLast (\<lambda>f. f\<lparr>flocals := flocals f @ [v]\<rparr>) (sfns a)\<rparr>))"
| "specStep a (OpInsert j i v) =
     (if sopen a \<or> j \<ge> length (sfns a) \<or> i > length (fcode (sfns a ! j)) then None
      else Some (0, a\<lparr>sfns := (sfns a)[j := (sfns a ! j)
        \<lparr>fcode := take i (fcode (sfns a ! j)) @ v # drop i (fcode (sfns a ! j))\<rparr>]\<rparr>))"
| "specStep a OpEnd = (if \<not> sopen a then None else Some (0, a\<lparr>sopen := False\<rparr>))"

text \<open>Abstraction: cut the flat arrays at the ranges of the functions.\<close>

definition absFn :: "H2MirInst list \<Rightarrow> H2MirLocal list \<Rightarrow> H2MirFunction \<Rightarrow> mirFn" where
  "absFn code locs f =
     \<lparr>fhead = header f, fcode = take (instLen f) (drop (instStart f) code),
      flocals = take (localCount f) (drop (localStart f) locs)\<rparr>"

definition absMir :: "H2MirProgramBuilder \<Rightarrow> mirSpec" where
  "absMir b =
     \<lparr>sfns = map (absFn (aelems (binsts b)) (aelems (blocals b))) (aelems (bfuncs b)),
      sopen = hasOpenFunc b, sconsts = aelems (bconsts b), ssources = aelems (bsources b),
      sfields = aelems (bfields b), stypes = aelems (btypes b), shosts = aelems (bhosts b),
      ssymbols = aelems (bsymbols b), scaptures = aelems (bcaptures b)\<rparr>"

subsection \<open>The invariant\<close>

text \<open>The functions lie one after the other in both arrays.\<close>

fun laidOut :: "nat \<Rightarrow> nat \<Rightarrow> H2MirFunction list \<Rightarrow> nat \<Rightarrow> nat \<Rightarrow> bool" where
  "laidOut i l [] iEnd lEnd \<longleftrightarrow> i = iEnd \<and> l = lEnd"
| "laidOut i l (f # fs) iEnd lEnd \<longleftrightarrow>
     instStart f = i \<and> localStart f = l \<and> laidOut (i + instLen f) (l + localCount f) fs iEnd lEnd"

text \<open>
  Up to this many elements the size of an array, with its capacity rounded up to the next
  doubling, fits 32 bits for the largest element (56 bytes).
\<close>

definition mirMaxLen :: nat where
  "mirMaxLen = 33554432"

definition arrOk :: "nat \<Rightarrow> 'a mirArray \<Rightarrow> bool" where
  "arrOk sz arr \<longleftrightarrow> length (aelems arr) \<le> acap arr \<and> acap arr \<le> 2 * mirMaxLen \<and>
     arrBytes arr = sz * acap arr"

definition builderOk :: "H2MirProgramBuilder \<Rightarrow> bool" where
  "builderOk b \<longleftrightarrow>
     arrOk 20 (binsts b) \<and> arrOk 32 (bconsts b) \<and> arrOk 16 (bsources b) \<and> arrOk 56 (bfuncs b) \<and>
     arrOk 16 (blocals b) \<and> arrOk 20 (bfields b) \<and> arrOk 16 (btypes b) \<and> arrOk 20 (bhosts b) \<and>
     arrOk 20 (bsymbols b) \<and> arrOk 12 (bcaptures b) \<and>
     laidOut 0 0 (aelems (bfuncs b)) (length (aelems (binsts b))) (length (aelems (blocals b))) \<and>
     (hasOpenFunc b \<longrightarrow> aelems (bfuncs b) \<noteq> [] \<and> openFunc b = length (aelems (bfuncs b)) - 1)"

text \<open>The number of elements of all arrays, and room for more.\<close>

definition builderSize :: "H2MirProgramBuilder \<Rightarrow> nat" where
  "builderSize b =
     length (aelems (binsts b)) + length (aelems (bconsts b)) + length (aelems (bsources b)) +
     length (aelems (bfuncs b)) + length (aelems (blocals b)) + length (aelems (bfields b)) +
     length (aelems (btypes b)) + length (aelems (bhosts b)) + length (aelems (bsymbols b)) +
     length (aelems (bcaptures b))"

definition builderRoom :: "H2MirProgramBuilder \<Rightarrow> nat \<Rightarrow> bool" where
  "builderRoom b n \<longleftrightarrow> builderSize b + n \<le> mirMaxLen"

text \<open>No arena, or one that refuses a request in proportion to what the builder holds.\<close>

definition noMemory :: "H2MirProgramBuilder \<Rightarrow> bool" where
  "noMemory b \<longleftrightarrow>
     (case barena b of
        None \<Rightarrow> True
      | Some ar \<Rightarrow> \<exists>n\<le>112 * (builderSize b + 8). fst (H2ArenaAlloc ar n 8) = None)"

subsection \<open>Arrays\<close>

lemma arrOk_bytes: "arrOk sz arr \<Longrightarrow> arrBytes arr = sz * acap arr"
  by (simp add: arrOk_def)

lemma arrBytes_simps [simp]:
  "arrBytes (arr\<lparr>aelems := xs\<rparr>) = arrBytes arr"
  "arrBytes (arr\<lparr>amem := Some (p, n), acap := c\<rparr>) = n"
  by (simp_all add: arrBytes_def)

lemma ensureCap_cases:
  assumes "arrOk sz arr" "0 < sz" "sz \<le> 56" "want \<le> mirMaxLen"
  obtains
    (enough) ar where "arena = Some ar" "want \<le> acap arr"
      "H2MirProgramBuilderEnsureCap arena arr sz want = Ok (arr, ar)"
  | (grown) ar p ar' newCap where "arena = Some ar" "acap arr < want"
      "H2ArenaAlloc ar (sz * newCap) 8 = (Some p, ar')" "sz * newCap \<le> UINT32_MAX" "sz * newCap \<le> 112 * (want + 7)"
      "want \<le> newCap" "acap arr \<le> newCap" "newCap \<le> 2 * mirMaxLen"
      "H2MirProgramBuilderEnsureCap arena arr sz want =
         Ok (arr\<lparr>amem := Some (p, sz * newCap), acap := newCap\<rparr>, ar')"
  | (none) "arena = None" "H2MirProgramBuilderEnsureCap arena arr sz want = Err None"
  | (refused) ar ar' n where "arena = Some ar" "n \<le> 112 * (want + 7)" "n \<le> UINT32_MAX"
      "H2ArenaAlloc ar n 8 = (None, ar')" "H2MirProgramBuilderEnsureCap arena arr sz want = Err (Some ar')"
proof (cases arena)
  case None
  then show ?thesis by (intro none) (simp_all add: H2MirProgramBuilderEnsureCap_def)
next
  case (Some ar)
  show ?thesis
  proof (cases "want \<le> acap arr")
    case True
    with Some assms(2) show ?thesis by (intro enough) (simp_all add: H2MirProgramBuilderEnsureCap_def)
  next
    case False
    let ?c = "if acap arr = 0 then 8 else acap arr"
    define newCap where "newCap = growCap ?c want"
    have n: "want \<le> newCap" "acap arr \<le> newCap" "newCap \<le> 2 * (want + 7)" "newCap \<le> 2 * mirMaxLen"
    proof -
      show "want \<le> newCap" unfolding newCap_def by (rule growCap_ge_need)
      show "acap arr \<le> newCap"
        using growCap_ge [of ?c want] unfolding newCap_def by (simp split: if_splits)
      have "newCap \<le> 8 \<or> newCap < 2 * want"
        using growCap_less_double [of ?c want] False growCap.simps [of 8 want] unfolding newCap_def
        by (cases "?c < want") (auto simp: growCap.simps [of ?c want] split: if_splits)
      then show "newCap \<le> 2 * (want + 7)" "newCap \<le> 2 * mirMaxLen"
        using False assms(4) by (auto simp: mirMaxLen_def)
    qed
    have sz: "sz * newCap \<le> 56 * newCap" using assms(3) by (rule mult_le_mono1)
    have u: "sz * newCap \<le> UINT32_MAX" "sz * newCap \<le> 112 * (want + 7)"
      by (rule order_trans [OF sz], use n(3,4) in \<open>simp add: mirMaxLen_def\<close>)+
    have old: "sz * acap arr \<le> sz * newCap" "\<not> arrBytes arr < sz * acap arr"
      using n(2) arrOk_bytes [OF assms(1)] by simp_all
    show ?thesis
    proof (cases "H2ArenaAlloc ar (sz * newCap) 8")
      case (Pair r ar')
      show ?thesis
      proof (cases r)
        case None
        with Pair Some False u n assms(2) show ?thesis
          by (intro refused [of ar "sz * newCap" ar'])
            (simp_all add: H2MirProgramBuilderEnsureCap_def H2MirArenaGrowArray_def newCap_def [symmetric] Let_def)
      next
        case (Some p)
        with Pair \<open>arena = Some ar\<close> False u n assms(2) old show ?thesis
          by (intro grown [of ar newCap p ar'])
            (simp_all add: H2MirProgramBuilderEnsureCap_def H2MirArenaGrowArray_def newCap_def [symmetric] Let_def)
      qed
    qed
  qed
qed

text \<open>
  What one append does: the element is added at the end, the memory is the old one or new
  memory of the arena.
\<close>

definition arrMoved :: "H2Arena option \<Rightarrow> H2Arena \<Rightarrow> 'a mirArray \<Rightarrow> 'a mirArray \<Rightarrow> bool" where
  "arrMoved arena ar' arr arr' \<longleftrightarrow>
     arena = Some ar' \<and> amem arr' = amem arr \<or>
     (\<exists>ar p n. arena = Some ar \<and> n \<le> 112 * (length (aelems arr) + 8) \<and> n \<le> UINT32_MAX \<and>
        H2ArenaAlloc ar n 8 = (Some p, ar') \<and> amem arr' = Some (p, n))"

definition arrRefused :: "H2Arena option \<Rightarrow> H2Arena option \<Rightarrow> nat \<Rightarrow> bool" where
  "arrRefused arena arena' m \<longleftrightarrow>
     arena = None \<and> arena' = None \<or>
     (\<exists>ar ar' n. arena = Some ar \<and> n \<le> 112 * (m + 8) \<and> n \<le> UINT32_MAX \<and>
        H2ArenaAlloc ar n 8 = (None, ar') \<and> arena' = Some ar')"

lemma ensureCap_more:
  assumes "arrOk sz arr" "0 < sz" "sz \<le> 56" "length (aelems arr) < mirMaxLen"
  obtains
    (Ok) arr' ar' where "H2MirProgramBuilderEnsureCap arena arr sz (u32 (length (aelems arr) + 1)) = Ok (arr', ar')"
      "arrMoved arena ar' arr arr'" "aelems arr' = aelems arr"
      "\<And>xs. length xs = length (aelems arr) + 1 \<Longrightarrow> arrOk sz (arr'\<lparr>aelems := xs\<rparr>)"
      "(length (aelems arr) + 1) * sz \<le> arrBytes arr'"
  | (Err) arena' where "H2MirProgramBuilderEnsureCap arena arr sz (u32 (length (aelems arr) + 1)) = Err arena'"
      "arrRefused arena arena' (length (aelems arr))"
proof -
  let ?n = "length (aelems arr) + 1"
  have n: "?n \<le> mirMaxLen" "u32 ?n = ?n" using assms(4) by (simp_all add: mirMaxLen_def)
  show ?thesis
  proof (cases rule: ensureCap_cases [OF assms(1-3) n(1), of arena])
    case (1 ar)
    have "?n * sz \<le> arrBytes arr"
      using mult_le_mono2 [OF 1(2), of sz] unfolding arrOk_bytes [OF assms(1)] by (simp add: algebra_simps)
    then show ?thesis
      using 1 assms(1) n by (intro Ok [of arr ar]) (auto simp: arrMoved_def arrOk_def)
  next
    case (2 ar p ar' newCap)
    have "?n * sz \<le> sz * newCap" using mult_le_mono2 [OF 2(6), of sz] by (simp add: algebra_simps)
    then show ?thesis
      using 2 n by (intro Ok [of "arr\<lparr>amem := Some (p, sz * newCap), acap := newCap\<rparr>" ar'])
        (auto simp: arrMoved_def arrOk_def)
  next
    case 3
    then show ?thesis by (intro Err) (simp_all only: n, simp add: arrRefused_def)
  next
    case (4 ar ar' m)
    then show ?thesis by (intro Err) (simp_all only: n, auto simp: arrRefused_def intro!: exI [of _ m])
  qed
qed

lemma append_cases:
  assumes "arrOk sz arr" "0 < sz" "sz \<le> 56" "length (aelems arr) < mirMaxLen"
  obtains
    (Ok) arr' ar' where "H2MirProgramBuilderAppendElem arena arr v sz = Ok (length (aelems arr), arr', ar')"
      "arrMoved arena ar' arr arr'" "aelems arr' = aelems arr @ [v]" "arrOk sz arr'"
  | (Err) arena' where "H2MirProgramBuilderAppendElem arena arr v sz = Err arena'"
      "arrRefused arena arena' (length (aelems arr))"
proof (cases rule: ensureCap_more [OF assms, of arena])
  case (1 arr' ar')
  from 1(4) [of "aelems arr @ [v]"] have "arrOk sz (arr'\<lparr>aelems := aelems arr @ [v]\<rparr>)" by simp
  with 1(1,2,3,5) show ?thesis
    by (intro Ok [of "arr'\<lparr>aelems := aelems arr @ [v]\<rparr>" ar'])
      (auto simp: H2MirProgramBuilderAppendElem_def Let_def arrMoved_def)
next
  case (2 arena')
  then show ?thesis by (intro Err) (simp_all add: H2MirProgramBuilderAppendElem_def Let_def)
qed

lemma appendTo_cases:
  assumes "arrOk sz arr" "0 < sz" "sz \<le> 56" "length (aelems arr) < mirMaxLen"
  obtains
    (Ok) arr' ar' where "appendTo b arr v sz store = Ok (length (aelems arr), store arr' (b\<lparr>barena := Some ar'\<rparr>))"
      "arrMoved (barena b) ar' arr arr'" "aelems arr' = aelems arr @ [v]" "arrOk sz arr'"
  | (Err) arena' where "appendTo b arr v sz store = Err (b\<lparr>barena := arena'\<rparr>)"
      "arrRefused (barena b) arena' (length (aelems arr))"
proof (cases rule: append_cases [OF assms, of "barena b" v])
  case (1 arr' ar')
  then show ?thesis by (intro Ok) (simp_all add: appendTo_def)
next
  case (2 arena')
  then show ?thesis by (intro Err) (simp_all add: appendTo_def)
qed

subsection \<open>One operation\<close>

text \<open>The memory of the ten arrays, and what an operation may do to it.\<close>

definition arrayMem :: "H2MirProgramBuilder \<Rightarrow> (nat \<times> nat) option list" where
  "arrayMem b = [amem (binsts b), amem (bconsts b), amem (bsources b), amem (bfuncs b), amem (blocals b),
     amem (bfields b), amem (btypes b), amem (bhosts b), amem (bsymbols b), amem (bcaptures b)]"

definition memStep :: "H2MirProgramBuilder \<Rightarrow> H2MirProgramBuilder \<Rightarrow> bool" where
  "memStep b b' \<longleftrightarrow>
     barena b' = barena b \<and> arrayMem b' = arrayMem b \<or>
     (\<exists>ar n r ar' k. barena b = Some ar \<and> n \<le> 112 * (builderSize b + 8) \<and> n \<le> UINT32_MAX \<and>
        H2ArenaAlloc ar n 8 = (r, ar') \<and> barena b' = Some ar' \<and>
        arrayMem b' = (case r of None \<Rightarrow> arrayMem b | Some p \<Rightarrow> (arrayMem b)[k := Some (p, n)]))"

definition simStep :: "H2MirProgramBuilder \<Rightarrow> mirOp \<Rightarrow> bool" where
  "simStep b x =
     (case mirStep b x of
        Ok (i, b') \<Rightarrow> builderOk b' \<and> builderSize b' \<le> Suc (builderSize b) \<and> memStep b b' \<and>
          specStep (absMir b) x = Some (i, absMir b')
      | Err b' \<Rightarrow> builderOk b' \<and> builderSize b' \<le> Suc (builderSize b) \<and> memStep b b' \<and>
          absMir b' = absMir b \<and> (specStep (absMir b) x = None \<or> noMemory b)
      | Stuck \<Rightarrow> False)"

named_theorems mir_state \<open>reads and writes of the builder's state\<close>

lemmas [mir_state] = absMir_def builderOk_def builderSize_def

lemma moved_memStep:
  assumes "arrMoved (barena b) ar' arr arr'" "barena b' = Some ar'"
    "arrayMem b' = (arrayMem b)[k := amem arr']" "k < 10" "arrayMem b ! k = amem arr"
    "length (aelems arr) \<le> builderSize b"
  shows "memStep b b'"
  using assms(1) unfolding arrMoved_def
proof (elim disjE conjE exE)
  assume "barena b = Some ar'" "amem arr' = amem arr"
  with assms show ?thesis by (simp add: memStep_def) (metis list_update_id)
next
  fix ar p n
  assume "barena b = Some ar" "n \<le> 112 * (length (aelems arr) + 8)" "n \<le> UINT32_MAX"
    "H2ArenaAlloc ar n 8 = (Some p, ar')" "amem arr' = Some (p, n)"
  with assms(2,3,6) show ?thesis
    unfolding memStep_def
    by (intro disjI2 exI [of _ ar] exI [of _ n] exI [of _ "Some p"] exI [of _ ar'] exI [of _ k]) simp
qed

lemma refused_step:
  assumes "arrRefused (barena b) arena' m" "m \<le> builderSize b"
  shows "memStep b (b\<lparr>barena := arena'\<rparr>)" "noMemory b"
proof -
  have same: "arrayMem (b\<lparr>barena := arena'\<rparr>) = arrayMem b" by (simp add: arrayMem_def)
  show "memStep b (b\<lparr>barena := arena'\<rparr>)"
    using assms unfolding arrRefused_def memStep_def same by fastforce
  show "noMemory b"
    using assms(1) unfolding arrRefused_def
  proof (elim disjE conjE exE)
    fix ar ar' n
    assume "barena b = Some ar" "n \<le> 112 * (m + 8)" "H2ArenaAlloc ar n 8 = (None, ar')"
    with assms(2) show ?thesis by (auto simp: noMemory_def intro!: exI [of _ n])
  qed (simp add: noMemory_def)
qed

text \<open>Appending to one of the seven tables that the functions do not own.\<close>

lemma table_step:
  assumes "builderOk b" "builderRoom b (Suc m)" "mirStep b x = appendTo b arr v sz store"
    "arrOk sz arr" "0 < sz" "sz \<le> 56" "length (aelems arr) \<le> builderSize b"
    "k < 10" "arrayMem b ! k = amem arr"
    "\<And>arr' ar'. aelems arr' = aelems arr @ [v] \<Longrightarrow> arrOk sz arr' \<Longrightarrow>
       builderOk (store arr' (b\<lparr>barena := Some ar'\<rparr>)) \<and>
       builderSize (store arr' (b\<lparr>barena := Some ar'\<rparr>)) = Suc (builderSize b) \<and>
       barena (store arr' (b\<lparr>barena := Some ar'\<rparr>)) = Some ar' \<and>
       arrayMem (store arr' (b\<lparr>barena := Some ar'\<rparr>)) = (arrayMem b)[k := amem arr'] \<and>
       specStep (absMir b) x = Some (length (aelems arr), absMir (store arr' (b\<lparr>barena := Some ar'\<rparr>)))"
  shows "simStep b x"
proof -
  have l: "length (aelems arr) < mirMaxLen" using assms(2,7) by (simp add: builderRoom_def)
  show ?thesis
  proof (cases rule: appendTo_cases [OF assms(4-6) l, of b v store])
    case (1 arr' ar')
    with assms(10) [OF 1(3,4), of ar'] show ?thesis
      using moved_memStep [OF 1(2) _ _ assms(8,9,7)] by (simp add: simStep_def assms(3))
  next
    case (2 arena')
    with refused_step [OF 2(2) assms(7)] assms(1) show ?thesis
      by (simp add: simStep_def assms(3)) (simp add: mir_state)
  qed
qed

lemmas table_defs = H2MirProgramBuilderAddConst_def H2MirProgramBuilderAddField_def
  H2MirProgramBuilderAddType_def H2MirProgramBuilderAddHost_def
  H2MirProgramBuilderAddSymbol_def H2MirProgramBuilderAddCapture_def

lemma table_steps:
  assumes "builderOk b" "builderRoom b (Suc m)"
  shows "simStep b (OpConst c)" "simStep b (OpField fl)" "simStep b (OpType ty)" "simStep b (OpHost h)"
    "simStep b (OpSymbol sy)" "simStep b (OpCapture ca)"
proof -
  note step = table_step [OF assms]
  show "simStep b (OpConst c)"
    by (rule step [where k = 1], simp add: table_defs) (use assms(1) in \<open>simp_all add: mir_state arrayMem_def\<close>)
  show "simStep b (OpField fl)"
    by (rule step [where k = 5], simp add: table_defs) (use assms(1) in \<open>simp_all add: mir_state arrayMem_def\<close>)
  show "simStep b (OpType ty)"
    by (rule step [where k = 6], simp add: table_defs) (use assms(1) in \<open>simp_all add: mir_state arrayMem_def\<close>)
  show "simStep b (OpHost h)"
    by (rule step [where k = 7], simp add: table_defs) (use assms(1) in \<open>simp_all add: mir_state arrayMem_def\<close>)
  show "simStep b (OpSymbol sy)"
    by (rule step [where k = 8], simp add: table_defs) (use assms(1) in \<open>simp_all add: mir_state arrayMem_def\<close>)
  show "simStep b (OpCapture ca)"
    by (rule step [where k = 9], simp add: table_defs) (use assms(1) in \<open>simp_all add: mir_state arrayMem_def\<close>)
qed

lemma findSource_first:
  "findSource ss v = (if v \<in> set ss then Some (length (takeWhile (\<lambda>s. s \<noteq> v) ss)) else None)"
  by (induction ss) auto

lemma source_step:
  assumes "builderOk b" "builderRoom b (Suc m)"
  shows "simStep b (OpSource v)"
proof (cases "findSource (aelems (bsources b)) v")
  case (Some i)
  then have "v \<in> set (aelems (bsources b))" "i = length (takeWhile (\<lambda>s. s \<noteq> v) (aelems (bsources b)))"
    by (simp_all add: findSource_first split: if_splits)
  with Some assms(1) show ?thesis
    by (simp add: simStep_def H2MirProgramBuilderAddSource_def memStep_def) (simp add: absMir_def)
next
  case None
  then have "v \<notin> set (aelems (bsources b))" by (simp add: findSource_first split: if_splits)
  then show ?thesis
    by (intro table_step [OF assms, where k = 2]; (simp add: H2MirProgramBuilderAddSource_def None; fail)?)
      (use assms(1) in \<open>simp_all add: mir_state arrayMem_def\<close>)
qed

subsection \<open>Functions\<close>

lemma laidOut_append:
  "laidOut i l (fs @ gs) iEnd lEnd \<longleftrightarrow> (\<exists>m n. laidOut i l fs m n \<and> laidOut m n gs iEnd lEnd)"
  by (induction fs arbitrary: i l) auto

lemma laidOut_bounds:
  "laidOut i l fs m n \<Longrightarrow> i \<le> m \<and> l \<le> n \<and> (\<forall>f\<in>set fs. i \<le> instStart f \<and> instStart f + instLen f \<le> m \<and>
     l \<le> localStart f \<and> localStart f + localCount f \<le> n)"
  by (induction fs arbitrary: i l) fastforce+

lemma take_drop_prefix: "s + n \<le> length xs \<Longrightarrow> take n (drop s (xs @ ys)) = take n (drop s xs)"
  by simp

text \<open>What is appended does not change the functions already there.\<close>

lemma absFn_append:
  assumes "laidOut i l fs (length code) (length locs)"
  shows "map (absFn (code @ xs) locs) fs = map (absFn code locs) fs"
    "map (absFn code (locs @ ys)) fs = map (absFn code locs) fs"
  using laidOut_bounds [OF assms] by (auto simp: absFn_def)

lemma header_update [simp]:
  "header (f\<lparr>instLen := n\<rparr>) = header f" "header (f\<lparr>localCount := n\<rparr>) = header f"
  "header (f\<lparr>instStart := n\<rparr>) = header f"
  by (simp_all add: header_def)

lemma onLast_snoc [simp]: "onLast g (xs @ [x]) = xs @ [g x]"
  by (simp add: onLast_def)

lemma open_cases:
  assumes "builderOk b" "hasOpenFunc b"
  obtains fs f m n where "aelems (bfuncs b) = fs @ [f]" "openFunc b = length fs" "laidOut 0 0 fs m n"
    "instStart f = m" "localStart f = n" "m + instLen f = length (aelems (binsts b))"
    "n + localCount f = length (aelems (blocals b))"
proof -
  from assms have ne: "aelems (bfuncs b) \<noteq> []" "openFunc b = length (aelems (bfuncs b)) - 1"
    and lo: "laidOut 0 0 (aelems (bfuncs b)) (length (aelems (binsts b))) (length (aelems (blocals b)))"
    by (simp_all add: builderOk_def)
  obtain fs f where fs: "aelems (bfuncs b) = fs @ [f]" using ne(1) by (cases "aelems (bfuncs b)" rule: rev_cases) auto
  with lo obtain m n where "laidOut 0 0 fs m n" "laidOut m n [f] (length (aelems (binsts b))) (length (aelems (blocals b)))"
    by (auto simp: laidOut_append)
  with fs ne(2) show ?thesis by (intro that [of fs f m n]) auto
qed

lemma size_bounds:
  assumes "builderRoom b (Suc k)"
  shows "length (aelems (binsts b)) < mirMaxLen" "length (aelems (blocals b)) < mirMaxLen"
    "length (aelems (bfuncs b)) < mirMaxLen"
  using assms by (simp_all add: builderRoom_def builderSize_def)

lemma size_bounds_le:
  "length (aelems (binsts b)) \<le> builderSize b" "length (aelems (blocals b)) \<le> builderSize b"
  "length (aelems (bfuncs b)) \<le> builderSize b"
  by (simp_all add: builderSize_def)

lemma sub32_eq: "a \<le> UINT32_MAX \<Longrightarrow> c \<le> a \<Longrightarrow> sub32 a c = a - c"
proof -
  assume "a \<le> UINT32_MAX" "c \<le> a"
  then have e: "a + 4294967296 - c = (a - c) + 4294967296" and l: "a - c < 4294967296" by simp_all
  from l show ?thesis unfolding sub32_def u32_def e by simp
qed

lemma refused_sim:
  assumes "builderOk b" "mirStep b x = Err (b\<lparr>barena := arena'\<rparr>)"
    "arrRefused (barena b) arena' m" "m \<le> builderSize b"
  shows "simStep b x"
  using refused_step [OF assms(3,4)] assms(1) by (simp add: simStep_def assms(2)) (simp add: mir_state)

lemma begin_step:
  assumes "builderOk b" "builderRoom b (Suc m)"
  shows "simStep b (OpBegin v)"
proof (cases "hasOpenFunc b")
  case True
  with assms(1) show ?thesis
    by (simp add: simStep_def H2MirProgramBuilderBeginFunction_def memStep_def) (simp add: absMir_def)
next
  case False
  let ?fn = "v\<lparr>instStart := length (aelems (binsts b)), instLen := 0,
                localStart := length (aelems (blocals b)), localCount := 0\<rparr>"
  have ok: "arrOk 56 (bfuncs b)" using assms(1) by (simp add: builderOk_def)
  show ?thesis
  proof (cases rule: appendTo_cases [OF ok _ _ size_bounds(3) [OF assms(2)], of b ?fn "\<lambda>arr b. b\<lparr>bfuncs := arr\<rparr>", simplified])
    case (1 arr' ar')
    have "absFn (aelems (binsts b)) (aelems (blocals b)) ?fn = \<lparr>fhead = header v, fcode = [], flocals = []\<rparr>"
      by (simp add: absFn_def header_def)
    moreover have "laidOut 0 0 (aelems (bfuncs b)) (length (aelems (binsts b))) (length (aelems (blocals b)))"
      using assms(1) by (simp add: builderOk_def)
    moreover have "memStep b (b\<lparr>barena := Some ar', bfuncs := arr', openFunc := length (aelems (bfuncs b)), hasOpenFunc := True\<rparr>)"
      by (rule moved_memStep [OF 1(2), where k = 3]) (simp_all add: arrayMem_def builderSize_def)
    ultimately show ?thesis
      using False 1 assms(1)
      by (simp add: simStep_def H2MirProgramBuilderBeginFunction_def Let_def) (auto simp: mir_state laidOut_append)
  next
    case (2 arena')
    show ?thesis
      by (rule refused_sim [OF assms(1) _ 2(2) size_bounds_le(3)])
        (use 2(1) False in \<open>simp add: H2MirProgramBuilderBeginFunction_def Let_def\<close>)
  qed
qed

lemma setFunc_last:
  assumes "aelems (bfuncs b) = fs @ [f]"
  shows "setFunc (length fs) g b = b\<lparr>bfuncs := (bfuncs b)\<lparr>aelems := fs @ [g f]\<rparr>\<rparr>"
  using assms by (simp add: setFunc_def)

lemma arrOk_elems: "arrOk sz arr \<Longrightarrow> length xs = length (aelems arr) \<Longrightarrow> arrOk sz (arr\<lparr>aelems := xs\<rparr>)"
  by (simp add: arrOk_def)

lemma inst_step:
  assumes "builderOk b" "builderRoom b (Suc k)"
  shows "simStep b (OpInst v)"
proof (cases "hasOpenFunc b")
  case False
  with assms(1) show ?thesis
    by (simp add: simStep_def H2MirProgramBuilderAppendInst_def memStep_def) (simp add: absMir_def)
next
  case True
  from open_cases [OF assms(1) True] obtain fs f m n where o: "aelems (bfuncs b) = fs @ [f]"
    "openFunc b = length fs" "laidOut 0 0 fs m n" "instStart f = m" "localStart f = n"
    "m + instLen f = length (aelems (binsts b))" "n + localCount f = length (aelems (blocals b))" .
  have ok: "arrOk 20 (binsts b)" "arrOk 56 (bfuncs b)" using assms(1) by (simp_all add: builderOk_def)
  show ?thesis
  proof (cases rule: appendTo_cases [OF ok(1) _ _ size_bounds(1) [OF assms(2)], of b v "\<lambda>arr b. b\<lparr>binsts := arr\<rparr>", simplified])
    case (1 arr' ar')
    let ?f = "f\<lparr>instLen := Suc (instLen f)\<rparr>"
    let ?b = "b\<lparr>barena := Some ar', binsts := arr', bfuncs := (bfuncs b)\<lparr>aelems := fs @ [?f]\<rparr>\<rparr>"
    have sub: "sub32 (Suc (length (aelems (binsts b)))) m = Suc (instLen f)"
      using o(6) size_bounds(1) [OF assms(2)] by (subst sub32_eq) (simp_all add: mirMaxLen_def)
    have step: "mirStep b (OpInst v) = Ok (0, ?b)"
      using True 1 o(1,2,4) sub
      by (simp add: H2MirProgramBuilderAppendInst_def closeLen_def setFunc_last)
    have mem: "memStep b ?b"
      by (rule moved_memStep [OF 1(2), where k = 0]) (simp_all add: arrayMem_def builderSize_def)
    have lay: "laidOut 0 0 (fs @ [?f]) (Suc (length (aelems (binsts b)))) (length (aelems (blocals b)))"
      using o by (auto simp: laidOut_append)
    have old: "map (absFn (aelems (binsts b) @ [v]) (aelems (blocals b))) fs
        = map (absFn (aelems (binsts b)) (aelems (blocals b))) fs"
      using laidOut_bounds [OF o(3)] o(6,7) by (auto simp: absFn_def)
    have new: "absFn (aelems (binsts b) @ [v]) (aelems (blocals b)) ?f
        = (absFn (aelems (binsts b)) (aelems (blocals b)) f)
            \<lparr>fcode := fcode (absFn (aelems (binsts b)) (aelems (blocals b)) f) @ [v]\<rparr>"
      using o(4,6) by (simp add: absFn_def header_def Suc_diff_le [symmetric])
    have "builderOk ?b"
      using assms(1) 1(3,4) lay arrOk_elems [OF ok(2), of "fs @ [?f]"] o(1,2) by (simp add: builderOk_def)
    moreover have "specStep (absMir b) (OpInst v) = Some (0, absMir ?b)"
      using True 1(3) old new o(1) by (simp add: absMir_def)
    moreover have "builderSize ?b = Suc (builderSize b)" using 1(3) o(1) by (simp add: builderSize_def)
    ultimately show ?thesis using mem by (simp add: simStep_def step del: specStep.simps mirStep.simps)
  next
    case (2 arena')
    show ?thesis
      by (rule refused_sim [OF assms(1) _ 2(2) size_bounds_le(1)])
        (use 2(1) True in \<open>simp add: H2MirProgramBuilderAppendInst_def\<close>)
  qed
qed

lemma local_step:
  assumes "builderOk b" "builderRoom b (Suc k)"
  shows "simStep b (OpLocal v)"
proof (cases "hasOpenFunc b")
  case False
  with assms(1) show ?thesis
    by (simp add: simStep_def H2MirProgramBuilderAddLocal_def memStep_def) (simp add: absMir_def)
next
  case True
  from open_cases [OF assms(1) True] obtain fs f m n where o: "aelems (bfuncs b) = fs @ [f]"
    "openFunc b = length fs" "laidOut 0 0 fs m n" "instStart f = m" "localStart f = n"
    "m + instLen f = length (aelems (binsts b))" "n + localCount f = length (aelems (blocals b))" .
  have ok: "arrOk 16 (blocals b)" "arrOk 56 (bfuncs b)" using assms(1) by (simp_all add: builderOk_def)
  show ?thesis
  proof (cases rule: appendTo_cases [OF ok(1) _ _ size_bounds(2) [OF assms(2)], of b v "\<lambda>arr b. b\<lparr>blocals := arr\<rparr>", simplified])
    case (1 arr' ar')
    let ?f = "f\<lparr>localCount := Suc (localCount f)\<rparr>"
    let ?b = "b\<lparr>barena := Some ar', blocals := arr', bfuncs := (bfuncs b)\<lparr>aelems := fs @ [?f]\<rparr>\<rparr>"
    have sub: "u32 (Suc (localCount f)) = Suc (localCount f)"
      using o(7) size_bounds(2) [OF assms(2)] by (intro u32_id) (simp add: mirMaxLen_def)
    have step: "mirStep b (OpLocal v) = Ok (localCount f, ?b)"
      using True 1 o(1,2,4) sub
      by (simp add: H2MirProgramBuilderAddLocal_def setFunc_last)
    have mem: "memStep b ?b"
      by (rule moved_memStep [OF 1(2), where k = 4]) (simp_all add: arrayMem_def builderSize_def)
    have lay: "laidOut 0 0 (fs @ [?f]) (length (aelems (binsts b))) (Suc (length (aelems (blocals b))))"
      using o by (auto simp: laidOut_append)
    have old: "map (absFn (aelems (binsts b)) (aelems (blocals b) @ [v])) fs
        = map (absFn (aelems (binsts b)) (aelems (blocals b))) fs"
      using laidOut_bounds [OF o(3)] o(6,7) by (auto simp: absFn_def)
    have new: "absFn (aelems (binsts b)) (aelems (blocals b) @ [v]) ?f
        = (absFn (aelems (binsts b)) (aelems (blocals b)) f)
            \<lparr>flocals := flocals (absFn (aelems (binsts b)) (aelems (blocals b)) f) @ [v]\<rparr>"
      using o(5,7) by (simp add: absFn_def header_def Suc_diff_le [symmetric])
    have idx: "length (flocals (absFn (aelems (binsts b)) (aelems (blocals b)) f)) = localCount f"
      using o(5,7) by (simp add: absFn_def)
    have "builderOk ?b"
      using assms(1) 1(3,4) lay arrOk_elems [OF ok(2), of "fs @ [?f]"] o(1,2) by (simp add: builderOk_def)
    moreover have "specStep (absMir b) (OpLocal v) = Some (localCount f, absMir ?b)"
      using True 1(3) old new idx o(1) by (simp add: absMir_def)
    moreover have "builderSize ?b = Suc (builderSize b)" using 1(3) o(1) by (simp add: builderSize_def)
    ultimately show ?thesis using mem by (simp add: simStep_def step del: specStep.simps mirStep.simps)
  next
    case (2 arena')
    show ?thesis
      by (rule refused_sim [OF assms(1) _ 2(2) size_bounds_le(2)])
        (use 2(1) True in \<open>simp add: H2MirProgramBuilderAddLocal_def Let_def, use o in simp\<close>)
  qed
qed

lemma end_step:
  assumes "builderOk b" "builderRoom b (Suc k)"
  shows "simStep b OpEnd"
proof (cases "hasOpenFunc b")
  case False
  with assms(1) show ?thesis
    by (simp add: simStep_def H2MirProgramBuilderEndFunction_def memStep_def) (simp add: absMir_def)
next
  case True
  from open_cases [OF assms(1) True] obtain fs f m n where o: "aelems (bfuncs b) = fs @ [f]"
    "openFunc b = length fs" "laidOut 0 0 fs m n" "instStart f = m" "localStart f = n"
    "m + instLen f = length (aelems (binsts b))" "n + localCount f = length (aelems (blocals b))" .
  have "sub32 (length (aelems (binsts b))) m = instLen f"
    using o(6) size_bounds(1) [OF assms(2)] by (subst sub32_eq) (simp_all add: mirMaxLen_def)
  then have "closeLen (openFunc b) b = b"
    using o(1,2,4) by (simp add: closeLen_def setFunc_last)
  then show ?thesis
    using True o(1,2) assms(1)
    by (simp add: simStep_def H2MirProgramBuilderEndFunction_def memStep_def arrayMem_def) (simp add: mir_state)
qed

text \<open>Inserting into a flat array: slices before, after and around the gap.\<close>

definition insertAt :: "nat \<Rightarrow> 'a \<Rightarrow> 'a list \<Rightarrow> 'a list" where
  "insertAt k v xs = take k xs @ v # drop k xs"

lemma length_insertAt [simp]: "k \<le> length xs \<Longrightarrow> length (insertAt k v xs) = Suc (length xs)"
  by (simp add: insertAt_def)

lemma slice_before: "s + n \<le> k \<Longrightarrow> k \<le> length xs \<Longrightarrow> take n (drop s (insertAt k v xs)) = take n (drop s xs)"
  by (simp add: insertAt_def take_drop min_def)

lemma slice_after: "k \<le> s \<Longrightarrow> k \<le> length xs \<Longrightarrow> drop (Suc s) (insertAt k v xs) = drop s xs"
  by (simp add: insertAt_def Suc_diff_le)

lemma slice_around:
  assumes "i \<le> n" "m + n \<le> length xs"
  shows "take (Suc n) (drop m (insertAt (m + i) v xs)) = insertAt i v (take n (drop m xs))"
  using assms by (simp add: insertAt_def take_drop add.commute min_def Suc_diff_le)

lemma laidOut_shift:
  "laidOut i l fs iEnd lEnd \<Longrightarrow>
   laidOut (Suc i) l (map (\<lambda>f. f\<lparr>instStart := Suc (instStart f)\<rparr>) fs) (Suc iEnd) lEnd"
  by (induction fs arbitrary: i l) auto

lemma shiftStarts_later:
  assumes "laidOut a l hs iEnd lEnd" "k \<le> a" "iEnd < UINT32_MAX"
  shows "shiftStarts (length gs) k (gs @ f # hs) = gs @ f # map (\<lambda>f. f\<lparr>instStart := Suc (instStart f)\<rparr>) hs"
proof -
  have "k \<le> instStart h \<and> u32 (Suc (instStart h)) = Suc (instStart h)" if "h \<in> set hs" for h
    using laidOut_bounds [OF assms(1)] that assms(2,3) by (intro conjI u32_id) fastforce+
  then show ?thesis by (simp add: shiftStarts_def)
qed

lemma insert_step:
  assumes "builderOk b" "builderRoom b (Suc q)"
  shows "simStep b (OpInsert j i v)"
proof (cases "hasOpenFunc b \<or> j \<ge> length (aelems (bfuncs b)) \<or> i > instLen (aelems (bfuncs b) ! j)")
  case True
  have sl: "length (take (instLen f) (drop (instStart f) (aelems (binsts b)))) \<le> instLen f" for f by simp
  with True assms(1) show ?thesis
    by (auto simp: simStep_def H2MirProgramBuilderInsertInst_def memStep_def Let_def absMir_def absFn_def)
next
  case False
  let ?code = "aelems (binsts b)" and ?locs = "aelems (blocals b)"
  define gs f hs where "gs = take j (aelems (bfuncs b))" and "f = aelems (bfuncs b) ! j"
    and "hs = drop (Suc j) (aelems (bfuncs b))"
  have fs: "aelems (bfuncs b) = gs @ f # hs" "length gs = j" and i: "i \<le> instLen f"
    using False unfolding gs_def f_def hs_def by (simp_all add: id_take_nth_drop [symmetric])
  have ok: "arrOk 20 (binsts b)" "arrOk 56 (bfuncs b)" using assms(1) by (simp_all add: builderOk_def)
  obtain m n where lo: "laidOut 0 0 gs m n" "instStart f = m" "localStart f = n"
    "laidOut (m + instLen f) (n + localCount f) hs (length ?code) (length ?locs)"
    using assms(1) by (auto simp: builderOk_def fs(1) laidOut_append)
  have le: "m + instLen f \<le> length ?code" using laidOut_bounds [OF lo(4)] by simp
  have small: "length ?code < mirMaxLen" by (rule size_bounds(1) [OF assms(2)])
  have abs: "u32 (m + i) = m + i" using le i small by (intro u32_id) (simp add: mirMaxLen_def)
  have inc: "u32 (instLen f + 1) = Suc (instLen f)"
    using le small by (subst u32_id) (simp_all add: mirMaxLen_def)
  show ?thesis
  proof (cases rule: ensureCap_more [OF ok(1) _ _ small, of "barena b", simplified])
    case (1 arr ar)
    let ?f = "f\<lparr>instLen := Suc (instLen f)\<rparr>"
    let ?hs = "map (\<lambda>f. f\<lparr>instStart := Suc (instStart f)\<rparr>) hs"
    let ?b = "b\<lparr>barena := Some ar, binsts := arr\<lparr>aelems := insertAt (m + i) v ?code\<rparr>,
               bfuncs := (bfuncs b)\<lparr>aelems := gs @ ?f # ?hs\<rparr>\<rparr>"
    have sh: "shiftStarts j (m + i) (gs @ ?f # hs) = gs @ ?f # ?hs"
      using shiftStarts_later [OF lo(4), of "m + i" gs ?f] i small fs(2) by (simp add: mirMaxLen_def)
    have upd: "(aelems (bfuncs b))[j := ?f] = gs @ ?f # hs" "aelems (bfuncs b) ! j = f"
      using fs(2) unfolding fs(1) by (simp_all add: nth_append list_update_append)
    have step: "mirStep b (OpInsert j i v) = Ok (0, ?b)"
      using False 1 abs inc sh upd le i lo(2)
      by (simp add: H2MirProgramBuilderInsertInst_def Let_def insertAt_def)
    have mem: "memStep b ?b"
      by (rule moved_memStep [OF 1(2), where k = 0]) (simp_all add: arrayMem_def builderSize_def)
    have lay: "laidOut 0 0 (gs @ ?f # ?hs) (Suc (length ?code)) (length ?locs)"
      using lo laidOut_shift [OF lo(4)] by (auto simp: laidOut_append)
    have before: "map (absFn (insertAt (m + i) v ?code) ?locs) gs = map (absFn ?code ?locs) gs"
      using laidOut_bounds [OF lo(1)] le i by (auto simp: absFn_def slice_before)
    have after: "map (absFn (insertAt (m + i) v ?code) ?locs) ?hs = map (absFn ?code ?locs) hs"
      using laidOut_bounds [OF lo(4)] le i by (auto simp: absFn_def slice_after)
    have at: "absFn (insertAt (m + i) v ?code) ?locs ?f
        = (absFn ?code ?locs f)\<lparr>fcode := insertAt i v (fcode (absFn ?code ?locs f))\<rparr>"
      using slice_around [OF i le] lo(2) by (simp add: absFn_def)
    have fc: "length (fcode (absFn ?code ?locs f)) = instLen f" using le lo(2) by (simp add: absFn_def)
    have nth: "map (absFn ?code ?locs) (aelems (bfuncs b)) ! j = absFn ?code ?locs f"
      using fs(2) unfolding fs(1) by (simp add: nth_append)
    have "builderOk ?b"
      using assms(1) 1(4) [of "insertAt (m + i) v ?code"] lay arrOk_elems [OF ok(2), of "gs @ ?f # ?hs"] fs False le i
      by (simp add: builderOk_def)
    moreover have "specStep (absMir b) (OpInsert j i v) = Some (0, absMir ?b)"
      using False before after at fc nth i fs
      by (simp add: absMir_def insertAt_def [symmetric] list_update_append)
    moreover have "builderSize ?b = Suc (builderSize b)"
      using fs(1) le i by (simp add: builderSize_def)
    ultimately show ?thesis using mem by (simp add: simStep_def step del: specStep.simps mirStep.simps)
  next
    case (2 arena')
    show ?thesis
      by (rule refused_sim [OF assms(1) _ 2(2) size_bounds_le(1)])
        (use 2(1) False in \<open>simp add: H2MirProgramBuilderInsertInst_def Let_def\<close>)
  qed
qed

lemma step_simulated:
  assumes "builderOk b" "builderRoom b (Suc k)"
  shows "simStep b x"
  using table_steps [OF assms] source_step [OF assms] local_step [OF assms] begin_step [OF assms]
    inst_step [OF assms] insert_step [OF assms] end_step [OF assms]
  by (cases x) simp_all

interpretation mirb: refinement mirStep specStep absMir builderOk builderRoom noMemory
proof
  fix s :: H2MirProgramBuilder and n x
  assume "builderOk s" "builderRoom s (Suc n)"
  note sim = step_simulated [OF this, of x]
  show "builderOk s' \<and> builderRoom s' n \<and> specStep (absMir s) x = Some (i, absMir s')" if "mirStep s x = Ok (i, s')" for i s'
    using sim that \<open>builderRoom s (Suc n)\<close> by (simp add: simStep_def builderRoom_def)
  show "builderOk s' \<and> absMir s' = absMir s \<and> (specStep (absMir s) x = None \<or> noMemory s)" if "mirStep s x = Err s'" for s'
    using sim that by (simp add: simStep_def)
  show "mirStep s x \<noteq> Stuck" using sim by (auto simp: simStep_def)
qed

end
