(* ===== verification/H2MirCheck.thy ===== *)
theory H2MirCheck
  imports H2MirBuilder
begin

text \<open>
  Validation of a program and the search for instructions that still need names resolved at
  run time (\<open>H2MirValidateProgram\<close>, \<open>H2MirProgramNeedsDynamicResolution\<close> and
  \<open>H2MirFindFirstDynamicResolutionInst\<close> of \<open>src/mir.c\<close>). The loops of the validation answer
  the span of the diagnostic at the first offence, \<open>None\<close> when there is none. A NULL program
  is \<open>None\<close>.
\<close>

definition H2MirSetDiag :: "H2Diag option \<Rightarrow> nat \<Rightarrow> nat \<Rightarrow> nat \<Rightarrow> H2Diag option" where
  "H2MirSetDiag diag code start endPos =
     map_option (\<lambda>d. (H2DiagReset d code)\<lparr>dstart := start, dend := endPos\<rparr>) diag"

text \<open>The switch over the operation: is the operand out of range?\<close>

definition validateInst :: "H2MirProgram \<Rightarrow> H2MirFunction \<Rightarrow> H2MirInst \<Rightarrow> bool" where
  "validateInst program fn ins \<longleftrightarrow>
     (case iop ins of
        H2MirOp_PUSH_CONST \<Rightarrow> iaux ins \<ge> length (pconsts program)
      | H2MirOp_LOAD_IDENT \<Rightarrow> length (psymbols program) = 0 \<or> iaux ins \<ge> length (psymbols program)
      | H2MirOp_STORE_IDENT \<Rightarrow> length (psymbols program) = 0 \<or> iaux ins \<ge> length (psymbols program)
      | H2MirOp_CALL \<Rightarrow> length (psymbols program) = 0 \<or> iaux ins \<ge> length (psymbols program)
      | H2MirOp_CAST \<Rightarrow> length (ptypes program) = 0 \<or> iaux ins \<ge> length (ptypes program)
      | H2MirOp_COERCE \<Rightarrow> length (ptypes program) = 0 \<or> iaux ins \<ge> length (ptypes program)
      | H2MirOp_CALL_HOST \<Rightarrow> length (phosts program) = 0 \<or> iaux ins \<ge> length (phosts program)
      | H2MirOp_AGG_GET \<Rightarrow> length (pfields program) = 0 \<or> iaux ins \<ge> length (pfields program)
      | H2MirOp_AGG_ADDR \<Rightarrow> length (pfields program) = 0 \<or> iaux ins \<ge> length (pfields program)
      | H2MirOp_LOCAL_ZERO \<Rightarrow> iaux ins \<ge> localCount fn
      | H2MirOp_LOCAL_LOAD \<Rightarrow> iaux ins \<ge> localCount fn
      | H2MirOp_LOCAL_STORE \<Rightarrow> iaux ins \<ge> localCount fn
      | H2MirOp_LOCAL_ADDR \<Rightarrow> iaux ins \<ge> localCount fn
      | H2MirOp_JUMP \<Rightarrow> iaux ins \<ge> instLen fn
      | H2MirOp_JUMP_IF_FALSE \<Rightarrow> iaux ins \<ge> instLen fn
      | H2MirOp_CALL_FN \<Rightarrow> iaux ins \<ge> length (pfuncs program)
      | H2MirOp_MAKE_CLOSURE \<Rightarrow>
          iaux ins \<ge> length (pconsts program) \<or> ckind (pconsts program ! iaux ins) \<noteq> H2MirConst_FUNCTION
      | H2MirOp_CAPTURE_LOAD \<Rightarrow> iaux ins \<ge> captureCount fn
      | H2MirOp_CAPTURE_STORE \<Rightarrow> iaux ins \<ge> captureCount fn
      | H2MirOp_CAPTURE_ADDR \<Rightarrow> iaux ins \<ge> captureCount fn
      | _ \<Rightarrow> False)"

text \<open>The loops over the locals and the instructions of one function, from index \<open>i\<close> on.\<close>

function validateLocals :: "H2MirProgram \<Rightarrow> H2MirFunction \<Rightarrow> nat \<Rightarrow> bool" where
  "validateLocals program fn i =
     (if i < localCount fn then
        (let l = plocals program ! (localStart fn + i)
         in if ltypeRef l \<noteq> UINT32_MAX \<and> ltypeRef l \<ge> length (ptypes program) then True
            else validateLocals program fn (i + 1))
      else False)"
  by pat_completeness auto
termination
  by (relation "measure (\<lambda>(p, f, i). localCount f - i)") auto

function validateInsts :: "H2MirProgram \<Rightarrow> H2MirFunction \<Rightarrow> nat \<Rightarrow> (nat \<times> nat) option" where
  "validateInsts program fn i =
     (if i < instLen fn then
        (let ins = pinsts program ! (instStart fn + i)
         in if validateInst program fn ins then Some (istart ins, iend ins)
            else validateInsts program fn (i + 1))
      else None)"
  by pat_completeness auto
termination
  by (relation "measure (\<lambda>(p, f, i). instLen f - i)") auto

declare validateLocals.simps [simp del] validateInsts.simps [simp del]

text \<open>The body of the loop over the functions.\<close>

definition validateFunction :: "H2MirProgram \<Rightarrow> H2MirFunction \<Rightarrow> (nat \<times> nat) option" where
  "validateFunction program fn =
     (if instStart fn > length (pinsts program) \<or> instLen fn > length (pinsts program) - instStart fn
      then Some (fnameStart fn, fnameEnd fn)
      else if localStart fn > length (plocals program) \<or>
              localCount fn > length (plocals program) - localStart fn \<or> localCount fn < paramCount fn
      then Some (fnameStart fn, fnameEnd fn)
      else if fsourceRef fn \<ge> length (psources program) then Some (fnameStart fn, fnameEnd fn)
      else if localCount fn \<noteq> 0 \<and> validateLocals program fn 0 then Some (fnameStart fn, fnameEnd fn)
      else validateInsts program fn 0)"

fun validateLoop :: "H2MirProgram \<Rightarrow> H2MirFunction list \<Rightarrow> (nat \<times> nat) option" where
  "validateLoop program [] = None"
| "validateLoop program (fn # fns) =
     (case validateFunction program fn of Some e \<Rightarrow> Some e | None \<Rightarrow> validateLoop program fns)"

definition H2MirValidateProgram ::
  "H2MirProgram option \<Rightarrow> H2Diag option \<Rightarrow> bool \<times> H2Diag option" where
  "H2MirValidateProgram program diag0 =
     (let diag = map_option (\<lambda>d. diagZero) diag0
      in case program of
           None \<Rightarrow> (False, H2MirSetDiag diag 4 0 0)
         | Some p \<Rightarrow>
             (case validateLoop p (pfuncs p) of
                None \<Rightarrow> (True, diag)
              | Some (s, e) \<Rightarrow> (False, H2MirSetDiag diag 4 s e)))"

fun needsLoop :: "H2MirInst list \<Rightarrow> bool" where
  "needsLoop [] = False"
| "needsLoop (i # is) =
     (if iop i = H2MirOp_LOAD_IDENT \<or> iop i = H2MirOp_CALL then True else needsLoop is)"

definition H2MirProgramNeedsDynamicResolution :: "H2MirProgram option \<Rightarrow> bool" where
  "H2MirProgramNeedsDynamicResolution program =
     (case program of None \<Rightarrow> True | Some p \<Rightarrow> needsLoop (pinsts p))"

text \<open>
  The search reads the instructions of each function without a range check: an index outside
  the program is \<open>Stuck\<close>.
\<close>

function findInst ::
  "H2MirProgram \<Rightarrow> H2MirFunction \<Rightarrow> nat \<Rightarrow> (unit, (nat \<times> H2MirInst) option) outcome" where
  "findInst program fn pc =
     (if pc < instLen fn then
        (let k = u32 (instStart fn + pc)
         in if k \<ge> length (pinsts program) then Stuck
            else
              (let inst = pinsts program ! k
               in if iop inst \<noteq> H2MirOp_LOAD_IDENT \<and> iop inst \<noteq> H2MirOp_CALL
                  then findInst program fn (pc + 1)
                  else Ok (Some (pc, inst))))
      else Ok None)"
  by pat_completeness auto
termination
  by (relation "measure (\<lambda>(p, f, i). instLen f - i)") auto

declare findInst.simps [simp del]

fun findLoop ::
  "H2MirProgram \<Rightarrow> H2MirFunction list \<Rightarrow> nat \<Rightarrow> (unit, (nat \<times> nat \<times> H2MirInst) option) outcome" where
  "findLoop program [] funcIndex = Ok None"
| "findLoop program (fn # fns) funcIndex =
     (case findInst program fn 0 of
        Stuck \<Rightarrow> Stuck
      | Err e \<Rightarrow> Err e
      | Ok None \<Rightarrow> findLoop program fns (funcIndex + 1)
      | Ok (Some (pc, inst)) \<Rightarrow> Ok (Some (funcIndex, pc, inst)))"

text \<open>The function index, the index within the function and the instruction found.\<close>

definition H2MirFindFirstDynamicResolutionInst ::
  "H2MirProgram option \<Rightarrow> (unit, (nat \<times> nat \<times> H2MirInst) option) outcome" where
  "H2MirFindFirstDynamicResolutionInst program =
     (case program of None \<Rightarrow> Ok None | Some p \<Rightarrow> findLoop p (pfuncs p) 0)"

end
