(* ===== verification/H2MirThms.thy ===== *)
theory H2MirThms
  imports H2MirBuilderSpec H2MirCheck
begin

text \<open>
  The properties of the MIR program model: the builder implements a list of functions, in
  memory of its own; validation is the range check it stands for; the two searches for
  unresolved instructions agree on built programs; packed words read back.
\<close>

subsection \<open>The builder\<close>

lemma init_ok: "builderOk (H2MirProgramBuilderInit arena)" "absMir (H2MirProgramBuilderInit arena) = emptySpec"
  "builderSize (H2MirProgramBuilderInit arena) = 0"
  by (simp_all add: builderOk_def H2MirProgramBuilderInit_def absMir_def emptySpec_def noArray_def
      arrOk_def arrBytes_def builderSize_def)


text \<open>The memory of an array.\<close>

definition ownRegion :: "(nat \<times> nat) option \<Rightarrow> nat set" where
  "ownRegion m = (case m of None \<Rightarrow> {} | Some r \<Rightarrow> region r)"

lemma ownRegion_simps [simp]: "ownRegion None = {}" "ownRegion (Some r) = region r"
  by (simp_all add: ownRegion_def)

definition separate :: "nat set \<Rightarrow> nat set \<Rightarrow> (nat \<times> nat) option list \<Rightarrow> bool" where
  "separate old used ms \<longleftrightarrow>
     (\<forall>k<length ms. ownRegion (ms ! k) \<subseteq> used \<and> ownRegion (ms ! k) \<inter> old = {}) \<and>
     (\<forall>j k. j < k \<longrightarrow> k < length ms \<longrightarrow> ownRegion (ms ! j) \<inter> ownRegion (ms ! k) = {})"

lemma separate_update:
  assumes "separate old used ms" "old \<subseteq> used" "used \<union> region r \<subseteq> used'" "region r \<inter> used = {}"
  shows "separate old used' (ms[k := Some r])"
proof -
  have a: "ownRegion (ms[k := Some r] ! i) \<subseteq> used' \<and> ownRegion (ms[k := Some r] ! i) \<inter> old = {}"
    if "i < length ms" for i
  proof -
    have "ownRegion (ms ! i) \<subseteq> used" "ownRegion (ms ! i) \<inter> old = {}"
      using assms(1) that by (auto simp: separate_def)
    then show ?thesis using assms(2-4) that by (cases "i = k") auto
  qed
  have b: "ownRegion (ms[k := Some r] ! i) \<inter> ownRegion (ms[k := Some r] ! j) = {}"
    if "i < j" "j < length ms" for i j
  proof -
    have "ownRegion (ms ! i) \<subseteq> used" "ownRegion (ms ! j) \<subseteq> used" "ownRegion (ms ! i) \<inter> ownRegion (ms ! j) = {}"
      using assms(1) that by (auto simp: separate_def)
    then show ?thesis using assms(4) that by (cases "i = k"; cases "j = k") auto
  qed
  from a b show ?thesis by (simp add: separate_def)
qed

definition memOk :: "nat set \<Rightarrow> nat set \<Rightarrow> H2MirProgramBuilder \<Rightarrow> bool" where
  "memOk st old b \<longleftrightarrow>
     (\<exists>ar. barena b = Some ar \<and> arenaWf st ar \<and> old \<subseteq> arenaUsed ar \<and> separate old (arenaUsed ar) (arrayMem b))"

lemma memStep_keeps:
  assumes "memOk st old b" "memStep b b'"
  shows "memOk st old b'"
  using assms(2) unfolding memStep_def
proof (elim disjE conjE exE)
  assume "barena b' = barena b" "arrayMem b' = arrayMem b"
  with assms(1) show ?thesis by (simp add: memOk_def)
next
  fix ar n r ar' k
  assume a: "barena b = Some ar" "n \<le> UINT32_MAX" "H2ArenaAlloc ar n 8 = (r, ar')" "barena b' = Some ar'"
    "arrayMem b' = (case r of None \<Rightarrow> arrayMem b | Some p \<Rightarrow> (arrayMem b)[k := Some (p, n)])"
  from assms(1) a(1) have m: "arenaWf st ar" "old \<subseteq> arenaUsed ar" "separate old (arenaUsed ar) (arrayMem b)"
    by (auto simp: memOk_def)
  have lg: "legalRequest n 8" using a(2) by (simp add: legalRequest_def)
  note wf = alloc_preserves_wf [OF m(1) lg a(3)]
  note us = alloc_uses [OF m(1) lg a(3)]
  have "separate old (arenaUsed ar') (arrayMem b')"
  proof (cases r)
    case None
    with us a(5) m(3) show ?thesis by (fastforce simp: separate_def)
  next
    case (Some p)
    with us a(5) alloc_unused [OF m(1) lg, of p ar'] a(3) show ?thesis
      by (auto intro!: separate_update [OF m(3,2)])
  qed
  with wf us m(2) a(4) show ?thesis by (auto simp: memOk_def)
qed

lemma run_memory:
  "builderOk b \<Longrightarrow> builderRoom b (length ops) \<Longrightarrow> memOk st old b \<Longrightarrow> runSteps mirStep b ops = Ok b' \<Longrightarrow>
   builderOk b' \<and> builderSize b' \<le> mirMaxLen \<and> memOk st old b'"
proof (induction ops arbitrary: b)
  case Nil
  then show ?case by (simp add: builderRoom_def)
next
  case (Cons x ops)
  from step_simulated [OF Cons.prems(1), of "length ops" x] Cons.prems(2)
  have sim: "simStep b x" by simp
  obtain i b1 where s: "mirStep b x = Ok (i, b1)" "runSteps mirStep b1 ops = Ok b'"
    using Cons.prems(4) by (auto split: outcome.splits)
  have b1: "builderOk b1" "builderRoom b1 (length ops)" and m: "memStep b b1"
    using sim Cons.prems(2) unfolding simStep_def s(1) by (simp_all add: builderRoom_def)
  show ?case by (rule Cons.IH [OF b1 memStep_keeps [OF Cons.prems(3) m] s(2)])
qed

lemma init_mem: "\<forall>m\<in>set (arrayMem (H2MirProgramBuilderInit arena)). m = None"
  by (simp add: arrayMem_def H2MirProgramBuilderInit_def noArray_def)

lemma separate_none: "\<forall>m\<in>set ms. m = None \<Longrightarrow> separate old used ms"
  by (simp add: separate_def all_set_conv_all_nth)

lemma run_from_init:
  assumes "length ops \<le> mirMaxLen" "arenaWf st ar"
    "runSteps mirStep (H2MirProgramBuilderInit (Some ar)) ops = Ok b"
  shows "builderOk b" "builderSize b \<le> mirMaxLen" "memOk st (arenaUsed ar) b"
proof -
  have "memOk st (arenaUsed ar) (H2MirProgramBuilderInit (Some ar))"
    using assms(2) separate_none [OF init_mem, of "arenaUsed ar" "arenaUsed ar" "Some ar"]
    unfolding memOk_def by (intro exI [of _ ar]) (simp add: H2MirProgramBuilderInit_def)
  from run_memory [OF _ _ this assms(3)] show "builderOk b" "builderSize b \<le> mirMaxLen" "memOk st (arenaUsed ar) b"
    by (simp_all add: init_ok builderRoom_def assms(1))
qed

text \<open>C22: the arrays of the builder never overlap. After any sequence of operations, every array
lies in memory the arena reserved since the start, the ten arrays are pairwise disjoint, and no
array overlaps what was in use before, so writing to one table changes no other.\<close>

theorem mir_arrays_separate:
  assumes "length ops \<le> mirMaxLen" "arenaWf st ar"
    "runSteps mirStep (H2MirProgramBuilderInit (Some ar)) ops = Ok b"
  shows "\<exists>ar'. barena b = Some ar' \<and> arenaWf st ar' \<and> arenaUsed ar \<subseteq> arenaUsed ar' \<and>
    (\<forall>k<10. ownRegion (arrayMem b ! k) \<subseteq> arenaUsed ar' \<and> ownRegion (arrayMem b ! k) \<inter> arenaUsed ar = {}) \<and>
    (\<forall>j k. j < k \<longrightarrow> k < 10 \<longrightarrow> ownRegion (arrayMem b ! j) \<inter> ownRegion (arrayMem b ! k) = {})"
proof -
  have "length (arrayMem b) = 10" by (simp add: arrayMem_def)
  with run_from_init(3) [OF assms] show ?thesis by (auto simp: memOk_def separate_def)
qed

subsection \<open>Code and locals are partitioned among the functions\<close>

lemma laidOut_concat:
  "laidOut i l fs iEnd lEnd \<Longrightarrow> iEnd \<le> length code \<Longrightarrow> lEnd \<le> length locs \<Longrightarrow>
   concat (map (\<lambda>f. fcode (absFn code locs f)) fs) = take (iEnd - i) (drop i code) \<and>
   concat (map (\<lambda>f. flocals (absFn code locs f)) fs) = take (lEnd - l) (drop l locs)"
proof (induction fs arbitrary: i l)
  case Nil
  then show ?case by simp
next
  case (Cons f fs)
  then have h: "instStart f = i" "localStart f = l" "laidOut (i + instLen f) (l + localCount f) fs iEnd lEnd" by simp_all
  note b = laidOut_bounds [OF h(3)]
  have "take (instLen f) (drop i code) @ take (iEnd - (i + instLen f)) (drop (i + instLen f) code)
      = take (iEnd - i) (drop i code)"
    using b take_add [of "instLen f" "iEnd - (i + instLen f)" "drop i code"] by (simp add: add.commute)
  moreover have "take (localCount f) (drop l locs) @ take (lEnd - (l + localCount f)) (drop (l + localCount f) locs)
      = take (lEnd - l) (drop l locs)"
    using b take_add [of "localCount f" "lEnd - (l + localCount f)" "drop l locs"] by (simp add: add.commute)
  ultimately show ?case using Cons.IH [OF h(3) Cons.prems(2,3)] by (simp add: h(1,2)) (simp add: absFn_def h(1,2))
qed

lemma run_steps_ok:
  "builderOk b0 \<Longrightarrow> builderRoom b0 (length ops) \<Longrightarrow> runSteps mirStep b0 ops = Ok b \<Longrightarrow>
   builderOk b \<and> builderSize b \<le> builderSize b0 + length ops"
proof (induction ops arbitrary: b0)
  case Nil
  then show ?case by simp
next
  case (Cons x ops)
  obtain i b1 where s: "mirStep b0 x = Ok (i, b1)" "runSteps mirStep b1 ops = Ok b"
    using Cons.prems(3) by (auto split: outcome.splits)
  from step_simulated [OF Cons.prems(1), of "length ops" x] Cons.prems(2) have "simStep b0 x" by simp
  with s(1) have b1: "builderOk b1" "builderSize b1 \<le> Suc (builderSize b0)" unfolding simStep_def by simp_all
  then have "builderRoom b1 (length ops)" using Cons.prems(2) by (simp add: builderRoom_def)
  from Cons.IH [OF b1(1) this s(2)] b1(2) show ?case by simp
qed

lemma run_layout:
  assumes "length ops \<le> mirMaxLen" "runSteps mirStep (H2MirProgramBuilderInit arena) ops = Ok b"
  shows "builderOk b" "builderSize b \<le> length ops"
    "laidOut 0 0 (pfuncs (H2MirProgramBuilderFinish b)) (length (pinsts (H2MirProgramBuilderFinish b)))
       (length (plocals (H2MirProgramBuilderFinish b)))"
    "length (pinsts (H2MirProgramBuilderFinish b)) \<le> mirMaxLen"
proof -
  from run_steps_ok [OF _ _ assms(2)] show *: "builderOk b" "builderSize b \<le> length ops"
    by (simp_all add: init_ok builderRoom_def assms(1))
  with assms(1) show "laidOut 0 0 (pfuncs (H2MirProgramBuilderFinish b)) (length (pinsts (H2MirProgramBuilderFinish b)))
       (length (plocals (H2MirProgramBuilderFinish b)))"
    "length (pinsts (H2MirProgramBuilderFinish b)) \<le> mirMaxLen"
    by (simp_all add: H2MirProgramBuilderFinish_def builderOk_def builderSize_def)
qed

text \<open>C21: a finished program partitions its code. Whatever operations built it, the code of its
functions, one after the other, is the whole instruction array, and their locals are the whole
local array: every instruction belongs to exactly one function.\<close>

theorem mir_functions_partition:
  assumes "length ops \<le> mirMaxLen" "runSteps mirStep (H2MirProgramBuilderInit arena) ops = Ok b"
  shows "concat (map fcode (sfns (absMir b))) = pinsts (H2MirProgramBuilderFinish b) \<and>
    concat (map flocals (sfns (absMir b))) = plocals (H2MirProgramBuilderFinish b) \<and>
    length (sfns (absMir b)) = length (pfuncs (H2MirProgramBuilderFinish b))"
proof -
  let ?p = "H2MirProgramBuilderFinish b"
  have "sfns (absMir b) = map (absFn (pinsts ?p) (plocals ?p)) (pfuncs ?p)"
    by (simp add: absMir_def H2MirProgramBuilderFinish_def)
  with laidOut_concat [OF run_layout(3) [OF assms] order_refl order_refl] show ?thesis
    by (simp add: comp_def)
qed

subsection \<open>The search for unresolved instructions\<close>

definition unresolved :: "H2MirInst \<Rightarrow> bool" where
  "unresolved i \<longleftrightarrow> iop i = H2MirOp_LOAD_IDENT \<or> iop i = H2MirOp_CALL"

definition codeOf :: "H2MirProgram \<Rightarrow> H2MirFunction \<Rightarrow> H2MirInst list" where
  "codeOf p f = take (instLen f) (drop (instStart f) (pinsts p))"

text \<open>\<open>r\<close> is the first unresolved instruction of a list from index \<open>i\<close> on.\<close>

definition firstFrom :: "H2MirInst list \<Rightarrow> nat \<Rightarrow> (nat \<times> H2MirInst) option \<Rightarrow> bool" where
  "firstFrom code i r \<longleftrightarrow>
     (case r of
        None \<Rightarrow> \<forall>j. i \<le> j \<longrightarrow> j < length code \<longrightarrow> \<not> unresolved (code ! j)
      | Some (pc, ins) \<Rightarrow> i \<le> pc \<and> pc < length code \<and> ins = code ! pc \<and> unresolved ins \<and>
          (\<forall>j. i \<le> j \<longrightarrow> j < pc \<longrightarrow> \<not> unresolved (code ! j)))"

lemma firstFrom_here: "i < length code \<Longrightarrow> unresolved (code ! i) \<Longrightarrow> firstFrom code i (Some (i, code ! i))"
  by (simp add: firstFrom_def)

lemma firstFrom_next:
  assumes "\<not> unresolved (code ! i)" "firstFrom code (Suc i) r"
  shows "firstFrom code i r"
proof -
  have "\<not> unresolved (code ! j)" if "i \<le> j" "Suc i \<le> j \<Longrightarrow> \<not> unresolved (code ! j)" for j
    using that assms(1) by (cases "i = j") auto
  then show ?thesis using assms(2) by (auto simp: firstFrom_def split: option.splits)
qed

lemma findInst_first:
  assumes "instStart f + instLen f \<le> length (pinsts p)" "length (pinsts p) \<le> UINT32_MAX"
  shows "\<exists>r. findInst p f i = Ok r \<and> firstFrom (codeOf p f) i r"
proof (induction "instLen f - i" arbitrary: i rule: less_induct)
  case less
  show ?case
  proof (cases "i < instLen f")
    case False
    then show ?thesis by (subst findInst.simps) (simp add: firstFrom_def codeOf_def)
  next
    case True
    have len: "length (codeOf p f) = instLen f" using assms(1) by (simp add: codeOf_def)
    have k: "u32 (instStart f + i) = instStart f + i" "instStart f + i < length (pinsts p)"
      using True assms by (simp_all add: u32_id)
    have at: "codeOf p f ! i = pinsts p ! (instStart f + i)"
      using True k(2) by (simp add: codeOf_def)
    show ?thesis
    proof (cases "unresolved (codeOf p f ! i)")
      case un: True
      with k at True have "findInst p f i = Ok (Some (i, codeOf p f ! i))"
        by (subst findInst.simps) (auto simp: unresolved_def Let_def)
      with firstFrom_here [of i "codeOf p f"] un len True show ?thesis by auto
    next
      case res: False
      then have "findInst p f i = findInst p f (Suc i)"
        using k at True by (subst findInst.simps) (simp add: unresolved_def Let_def)
      moreover obtain r where "findInst p f (Suc i) = Ok r" "firstFrom (codeOf p f) (Suc i) r"
        using less [OF diff_less_mono2 [OF lessI True]] by blast
      ultimately show ?thesis using firstFrom_next [OF res] by auto
    qed
  qed
qed

lemma needsLoop_iff: "needsLoop is \<longleftrightarrow> (\<exists>i\<in>set is. unresolved i)"
  by (induction "is") (auto simp: unresolved_def)

text \<open>The first function with an unresolved instruction, and the first such instruction in it.\<close>

fun firstUnresolved :: "H2MirInst list list \<Rightarrow> nat \<Rightarrow> (nat \<times> nat \<times> H2MirInst) option" where
  "firstUnresolved [] k = None"
| "firstUnresolved (c # cs) k =
     (if \<exists>i\<in>set c. unresolved i
      then (let pc = length (takeWhile (\<lambda>i. \<not> unresolved i) c) in Some (k, pc, c ! pc))
      else firstUnresolved cs (Suc k))"

lemma firstFrom_takeWhile:
  assumes "firstFrom c 0 r"
  shows "r = (if \<exists>i\<in>set c. unresolved i
    then (let pc = length (takeWhile (\<lambda>i. \<not> unresolved i) c) in Some (pc, c ! pc)) else None)"
proof (cases r)
  case None
  with assms have "\<forall>i\<in>set c. \<not> unresolved i" by (simp add: firstFrom_def all_set_conv_all_nth)
  with None show ?thesis by simp
next
  case (Some q)
  obtain pc ins where q: "q = (pc, ins)" by (cases q)
  from assms have f: "pc < length c" "ins = c ! pc" "unresolved (c ! pc)" "\<forall>j<pc. \<not> unresolved (c ! j)"
    by (auto simp: firstFrom_def Some q)
  have "takeWhile (\<lambda>i. \<not> unresolved i) c = take pc c"
    by (rule takeWhile_eq_take_P_nth) (use f in auto)
  then have "length (takeWhile (\<lambda>i. \<not> unresolved i) c) = pc" using f(1) by simp
  with f show ?thesis using nth_mem [OF f(1)] by (auto simp: Some q Let_def)
qed

lemma findLoop_first:
  assumes "\<forall>f\<in>set fs. instStart f + instLen f \<le> length (pinsts p)" "length (pinsts p) \<le> UINT32_MAX"
  shows "findLoop p fs k = Ok (firstUnresolved (map (codeOf p) fs) k)"
  using assms(1)
proof (induction fs arbitrary: k)
  case Nil
  then show ?case by simp
next
  case (Cons f fs)
  then obtain r where r: "findInst p f 0 = Ok r" "firstFrom (codeOf p f) 0 r"
    using findInst_first [OF _ assms(2), of f 0] by auto
  from firstFrom_takeWhile [OF r(2)] r(1) Cons show ?case by (simp add: Let_def)
qed

lemma firstUnresolved_none: "firstUnresolved cs k = None \<longleftrightarrow> (\<forall>i\<in>set (concat cs). \<not> unresolved i)"
  by (induction cs arbitrary: k) (auto simp: Let_def)

text \<open>C31: on a program the builder finished, the search stays inside the program and answers the
first instruction, in order of functions and within the function, that still loads an
identifier or calls by name; and it finds one exactly when the flat scan
\<open>H2MirProgramNeedsDynamicResolution\<close> says there is one.\<close>

theorem mir_first_unresolved:
  assumes "length ops \<le> mirMaxLen" "runSteps mirStep (H2MirProgramBuilderInit arena) ops = Ok b"
  shows "H2MirFindFirstDynamicResolutionInst (Some (H2MirProgramBuilderFinish b)) =
      Ok (firstUnresolved (map fcode (sfns (absMir b))) 0) \<and>
    (H2MirProgramNeedsDynamicResolution (Some (H2MirProgramBuilderFinish b)) \<longleftrightarrow>
      firstUnresolved (map fcode (sfns (absMir b))) 0 \<noteq> None)"
proof -
  let ?p = "H2MirProgramBuilderFinish b"
  have fns: "sfns (absMir b) = map (absFn (pinsts ?p) (plocals ?p)) (pfuncs ?p)"
    by (simp add: absMir_def H2MirProgramBuilderFinish_def)
  have codes: "map fcode (sfns (absMir b)) = map (codeOf ?p) (pfuncs ?p)"
    by (simp add: fns absFn_def codeOf_def)
  note lay = run_layout [OF assms]
  have "findLoop ?p (pfuncs ?p) 0 = Ok (firstUnresolved (map fcode (sfns (absMir b))) 0)"
    unfolding codes using laidOut_bounds [OF lay(3)] lay(4)
    by (intro findLoop_first) (auto simp: mirMaxLen_def)
  moreover have "concat (map fcode (sfns (absMir b))) = pinsts ?p"
    using laidOut_concat [OF lay(3) order_refl order_refl] by (simp add: fns comp_def)
  ultimately show ?thesis
    by (simp add: H2MirFindFirstDynamicResolutionInst_def H2MirProgramNeedsDynamicResolution_def
        needsLoop_iff firstUnresolved_none del: set_concat)
qed

subsection \<open>Validation\<close>

text \<open>What an instruction may refer to: its operand is below the size of the table it indexes.\<close>

definition operandLimit :: "H2MirProgram \<Rightarrow> H2MirFunction \<Rightarrow> H2MirOp \<Rightarrow> nat option" where
  "operandLimit p fn oper =
     (if oper \<in> {H2MirOp_PUSH_CONST, H2MirOp_MAKE_CLOSURE} then Some (length (pconsts p))
      else if oper \<in> {H2MirOp_LOAD_IDENT, H2MirOp_STORE_IDENT, H2MirOp_CALL} then Some (length (psymbols p))
      else if oper \<in> {H2MirOp_CAST, H2MirOp_COERCE} then Some (length (ptypes p))
      else if oper = H2MirOp_CALL_HOST then Some (length (phosts p))
      else if oper \<in> {H2MirOp_AGG_GET, H2MirOp_AGG_ADDR} then Some (length (pfields p))
      else if oper \<in> {H2MirOp_LOCAL_ZERO, H2MirOp_LOCAL_LOAD, H2MirOp_LOCAL_STORE, H2MirOp_LOCAL_ADDR}
      then Some (localCount fn)
      else if oper \<in> {H2MirOp_JUMP, H2MirOp_JUMP_IF_FALSE} then Some (instLen fn)
      else if oper = H2MirOp_CALL_FN then Some (length (pfuncs p))
      else if oper \<in> {H2MirOp_CAPTURE_LOAD, H2MirOp_CAPTURE_STORE, H2MirOp_CAPTURE_ADDR}
      then Some (captureCount fn)
      else None)"

definition operandOk :: "H2MirProgram \<Rightarrow> H2MirFunction \<Rightarrow> H2MirInst \<Rightarrow> bool" where
  "operandOk p fn ins \<longleftrightarrow>
     (case operandLimit p fn (iop ins) of None \<Rightarrow> True | Some n \<Rightarrow> iaux ins < n) \<and>
     (iop ins = H2MirOp_MAKE_CLOSURE \<longrightarrow> ckind (pconsts p ! iaux ins) = H2MirConst_FUNCTION)"

definition functionOk :: "H2MirProgram \<Rightarrow> H2MirFunction \<Rightarrow> bool" where
  "functionOk p fn \<longleftrightarrow>
     instStart fn + instLen fn \<le> length (pinsts p) \<and>
     localStart fn + localCount fn \<le> length (plocals p) \<and> paramCount fn \<le> localCount fn \<and>
     fsourceRef fn < length (psources p) \<and>
     (\<forall>l\<in>set (take (localCount fn) (drop (localStart fn) (plocals p))).
        ltypeRef l = UINT32_MAX \<or> ltypeRef l < length (ptypes p)) \<and>
     (\<forall>ins\<in>set (codeOf p fn). operandOk p fn ins)"

lemma validateInst_iff: "validateInst p fn ins \<longleftrightarrow> \<not> operandOk p fn ins"
  by (cases "iop ins") (auto simp: validateInst_def operandOk_def operandLimit_def)

lemma validateLocals_iff:
  "validateLocals p fn i \<longleftrightarrow>
     (\<exists>j. i \<le> j \<and> j < localCount fn \<and> ltypeRef (plocals p ! (localStart fn + j)) \<noteq> UINT32_MAX \<and>
        length (ptypes p) \<le> ltypeRef (plocals p ! (localStart fn + j)))"
proof (induction "localCount fn - i" arbitrary: i rule: less_induct)
  case less
  have split: "(\<exists>j. i \<le> j \<and> Q j) \<longleftrightarrow> Q i \<or> (\<exists>j. Suc i \<le> j \<and> Q j)" for Q
    by (metis Suc_leD le_antisym not_less_eq_eq order_refl)
  show ?case
  proof (cases "i < localCount fn")
    case True
    with less [OF diff_less_mono2 [OF lessI True]] show ?thesis
      by (subst validateLocals.simps, subst split) (auto simp: Let_def)
  qed (subst validateLocals.simps, auto)
qed

lemma validateInsts_cases:
  "case validateInsts p fn i of
     None \<Rightarrow> \<forall>j. i \<le> j \<longrightarrow> j < instLen fn \<longrightarrow> operandOk p fn (pinsts p ! (instStart fn + j))
   | Some e \<Rightarrow> \<exists>j<instLen fn. \<not> operandOk p fn (pinsts p ! (instStart fn + j)) \<and>
       e = (istart (pinsts p ! (instStart fn + j)), iend (pinsts p ! (instStart fn + j)))"
proof (induction "instLen fn - i" arbitrary: i rule: less_induct)
  case less
  show ?case
  proof (cases "i < instLen fn \<and> operandOk p fn (pinsts p ! (instStart fn + i))")
    case True
    then have "validateInsts p fn i = validateInsts p fn (Suc i)"
      by (subst validateInsts.simps) (simp add: validateInst_iff Let_def)
    moreover have "i \<le> j \<longleftrightarrow> j = i \<or> Suc i \<le> j" for j by auto
    ultimately show ?thesis
      using less [OF diff_less_mono2 [OF lessI conjunct1 [OF True]]] True
      by (simp split: option.splits) blast
  next
    case False
    then show ?thesis by (subst validateInsts.simps) (auto simp: validateInst_iff Let_def)
  qed
qed

definition nameSpan :: "H2MirFunction \<Rightarrow> nat \<times> nat" where
  "nameSpan fn = (fnameStart fn, fnameEnd fn)"

text \<open>The spans a diagnostic about a program can have.\<close>

definition badSpans :: "H2MirProgram \<Rightarrow> (nat \<times> nat) set" where
  "badSpans p =
     {nameSpan fn |fn. fn \<in> set (pfuncs p) \<and> \<not> functionOk p fn} \<union>
     {(istart ins, iend ins) |ins fn. fn \<in> set (pfuncs p) \<and> ins \<in> set (codeOf p fn) \<and> \<not> operandOk p fn ins}"

lemma set_slice: "s + n \<le> length xs \<Longrightarrow> set (take n (drop s xs)) = {xs ! (s + j) |j. j < n}"
proof -
  assume len: "s + n \<le> length xs"
  then have "length (take n (drop s xs)) = n" by simp
  then have "set (take n (drop s xs)) = {take n (drop s xs) ! j |j. j < n}" by (simp only: set_conv_nth)
  also have "\<dots> = {xs ! (s + j) |j. j < n}" by (rule Collect_cong, rule ex_cong1) (use len in auto)
  finally show ?thesis .
qed

lemma validateFunction_iff:
  "case validateFunction p fn of
     None \<Rightarrow> functionOk p fn
   | Some e \<Rightarrow> \<not> functionOk p fn \<and>
       (e = nameSpan fn \<or> (\<exists>ins\<in>set (codeOf p fn). \<not> operandOk p fn ins \<and> e = (istart ins, iend ins)))"
proof -
  define rng where "rng \<longleftrightarrow> instStart fn + instLen fn \<le> length (pinsts p) \<and>
    localStart fn + localCount fn \<le> length (plocals p) \<and> paramCount fn \<le> localCount fn \<and>
    fsourceRef fn < length (psources p) \<and> \<not> validateLocals p fn 0"
  have v: "validateFunction p fn = (if rng then validateInsts p fn 0 else Some (nameSpan fn))"
    unfolding validateFunction_def rng_def nameSpan_def
    by (cases "localCount fn = 0") (auto simp: validateLocals.simps [of p fn 0])
  have loc: "\<not> validateLocals p fn 0 \<longleftrightarrow>
      (\<forall>l\<in>set (take (localCount fn) (drop (localStart fn) (plocals p))).
         ltypeRef l = UINT32_MAX \<or> ltypeRef l < length (ptypes p))"
    if "localStart fn + localCount fn \<le> length (plocals p)"
    using that by (auto simp: validateLocals_iff set_slice not_le)
  have ok: "functionOk p fn \<longleftrightarrow> rng \<and> (\<forall>ins\<in>set (codeOf p fn). operandOk p fn ins)"
    unfolding functionOk_def rng_def using loc by blast
  show ?thesis
  proof (cases rng)
    case True
    then have c: "set (codeOf p fn) = {pinsts p ! (instStart fn + j) |j. j < instLen fn}"
      unfolding codeOf_def rng_def by (simp add: set_slice)
    from True validateInsts_cases [where p = p and fn = fn and i = 0] show ?thesis
      unfolding v ok c by (auto split: option.splits)
  qed (simp add: v ok)
qed

lemma validateLoop_iff:
  "case validateLoop p fs of
     None \<Rightarrow> \<forall>fn\<in>set fs. functionOk p fn
   | Some e \<Rightarrow> \<exists>fn\<in>set fs. \<not> functionOk p fn \<and>
       (e = nameSpan fn \<or> (\<exists>ins\<in>set (codeOf p fn). \<not> operandOk p fn ins \<and> e = (istart ins, iend ins)))"
proof (induction fs)
  case Nil
  then show ?case by simp
next
  case (Cons f fs)
  with validateFunction_iff [where p = p and fn = f] show ?case by (auto split: option.splits)
qed

text \<open>C16: validation is exact. \<open>H2MirValidateProgram\<close> accepts precisely the programs in which
every range and every reference is inside its table, every parameter is a local and every
closure names a function; for any other it reports an unexpected token at the name of an
offending function or at an offending instruction.\<close>

theorem mir_validate_exact:
  "if (\<forall>fn\<in>set (pfuncs p). functionOk p fn)
   then H2MirValidateProgram (Some p) diag = (True, map_option (\<lambda>d. diagZero) diag)
   else \<exists>e\<in>badSpans p. H2MirValidateProgram (Some p) diag =
     (False, H2MirSetDiag (map_option (\<lambda>d. diagZero) diag) 4 (fst e) (snd e))"
proof (cases "validateLoop p (pfuncs p)")
  case None
  with validateLoop_iff [where p = p and fs = "pfuncs p"] show ?thesis
    by (simp add: H2MirValidateProgram_def)
next
  case (Some e)
  with validateLoop_iff [where p = p and fs = "pfuncs p"] obtain fn where
    fn: "fn \<in> set (pfuncs p)" "\<not> functionOk p fn"
    and e: "e = nameSpan fn \<or> (\<exists>ins\<in>set (codeOf p fn). \<not> operandOk p fn ins \<and> e = (istart ins, iend ins))" by auto
  then have "e \<in> badSpans p" by (auto simp: badSpans_def)
  moreover have "H2MirValidateProgram (Some p) diag =
     (False, H2MirSetDiag (map_option (\<lambda>d. diagZero) diag) 4 (fst e) (snd e))"
    by (cases e) (simp add: H2MirValidateProgram_def Some)
  ultimately show ?thesis using fn by auto
qed

subsection \<open>Inserting before a jump target\<close>

lemma nth_insertAt_before: "i < k \<Longrightarrow> k \<le> length xs \<Longrightarrow> insertAt k v xs ! i = xs ! i"
  by (simp add: insertAt_def nth_append)

lemma nth_insertAt_after: "k \<le> i \<Longrightarrow> i < length xs \<Longrightarrow> insertAt k v xs ! Suc i = xs ! i"
  by (simp add: insertAt_def nth_append Suc_diff_le)

text \<open>C36: insertion does not relocate jumps. Jump operands are indices within their function
(\<open>docs/mir.md\<close>), but \<open>H2MirProgramBuilderInsertInst\<close> leaves them as they are: a jump over the
insertion point then lands one instruction before the one it was built for.\<close>

theorem insert_keeps_jump_targets:
  assumes "length ops < mirMaxLen" "runSteps mirStep (H2MirProgramBuilderInit arena) ops = Ok b"
    and "H2MirProgramBuilderInsertInst b j k v = Ok (i, b')"
    and "code = fcode (sfns (absMir b) ! j)" "code' = fcode (sfns (absMir b') ! j)"
    and "pc < k" "iop (code ! pc) = H2MirOp_JUMP" "iaux (code ! pc) = t" "k < t" "t < length code"
  shows "code' ! pc = code ! pc \<and> code' ! iaux (code' ! pc) = code ! (t - 1) \<and> code' ! Suc t = code ! t"
proof -
  have "length ops \<le> mirMaxLen" using assms(1) by simp
  note lay = run_layout [OF this assms(2)]
  have room: "builderRoom b (Suc 0)" using lay(2) assms(1) by (simp add: builderRoom_def)
  have "specStep (absMir b) (OpInsert j k v) = Some (i, absMir b')"
    using step_simulated [OF lay(1) room, of "OpInsert j k v"] assms(3) by (simp add: simStep_def)
  then have "absMir b' = (absMir b)\<lparr>sfns := (sfns (absMir b))[j := (sfns (absMir b) ! j)\<lparr>fcode := insertAt k v code\<rparr>]\<rparr> \<and>
      j < length (sfns (absMir b)) \<and> k \<le> length code"
    by (auto simp: assms(4) insertAt_def split: if_splits)
  then have c': "code' = insertAt k v code" and k: "k \<le> length code" by (simp_all add: assms(5))
  have "code' ! t = code ! (t - 1)" "code' ! Suc t = code ! t" "code' ! pc = code ! pc"
    unfolding c'
    using nth_insertAt_after [of k "t - 1" code v] nth_insertAt_after [of k t code v]
      nth_insertAt_before [of pc k code v] assms(6-10) k by simp_all
  then show ?thesis using assms(8) by simp
qed

subsection \<open>The size of a grown array\<close>

text \<open>C37: growing a full array of \<open>2 ^ 27\<close> instructions writes outside its memory. The byte size
of the doubled array is computed in 64 bits but passed to the arena in 32: a successful
allocation is smaller than the old array that is copied into it.\<close>

theorem mir_array_growth_overflows:
  assumes "acap arr = 134217728" "amem arr = Some (p, 20 * 134217728)"
    and "H2ArenaAlloc ar 1073741824 8 = (Some q, ar')"
  shows "H2MirProgramBuilderEnsureCap (Some ar) arr 20 134217729 = Stuck"
proof -
  have "growCap 134217728 134217729 = 268435456"
    by (subst growCap.simps, subst growCap.simps) simp
  moreover have "u32 (20 * 268435456) = 1073741824" by (simp add: u32_def)
  ultimately show ?thesis
    using assms by (simp add: H2MirProgramBuilderEnsureCap_def H2MirArenaGrowArray_def)
qed

subsection \<open>Packed words\<close>

lemma count_mask: "(0x00ffff00 :: 32 word) = push_bit 8 (mask 16)" "(0x000000ff :: 32 word) = mask 8"
  "(0xC000 :: 16 word) = push_bit 14 (mask 2)"
  by (simp_all add: mask_eq_exp_minus_1)

lemma intKindNum_small: "take_bit 8 (intKindNum k) = intKindNum k"
  by (cases k) (simp_all add: intKindNum_def)

lemma aux_fields:
  "drop_bit 8 ((take_bit 8 a OR (push_bit 8 n AND push_bit 8 (mask 16))) AND push_bit 8 (mask 16)) = (take_bit 16 n :: 32 word)"
  "(take_bit 8 a OR (push_bit 8 n AND push_bit 8 (mask 16))) AND mask 8 = (take_bit 8 a :: 32 word)"
  by (rule bit_word_eqI; auto simp: bit_simps)+

lemma pack_fields:
  "drop_bit s (push_bit s n OR (f AND mask s)) = (take_bit (32 - s) n :: 32 word)"
  "(push_bit s n OR (f AND mask s)) AND mask s = (take_bit s f :: 32 word)"
  by (rule bit_word_eqI; auto simp: bit_simps)+

text \<open>C38: packed operands read back exactly the bits that fit. The element kind always does; a
fixed array count is kept modulo 65536, the count field of a variable array likewise (after the
increment), the node of a raw call modulo \<open>2 ^ 31\<close> with its flag, and the argument count of a
call modulo \<open>2 ^ 14\<close>. Larger counts are silently reduced.\<close>

theorem mir_packed_fields:
  "H2MirTypeRefIntKind (Some (r\<lparr>taux := H2MirTypeAuxMakeFixedArray k n\<rparr>)) = intKindNum k \<and>
   H2MirTypeRefFixedArrayCount (Some (r\<lparr>taux := H2MirTypeAuxMakeFixedArray k n\<rparr>)) = take_bit 16 n \<and>
   H2MirTypeRefIntKind (Some (r\<lparr>taux := H2MirTypeAuxMakeVArrayView k n\<rparr>)) = intKindNum k \<and>
   H2MirTypeRefVArrayCountField (Some (r\<lparr>taux := H2MirTypeAuxMakeVArrayView k n\<rparr>)) =
     (if take_bit 16 (n + 1) = 0 then 0xffffffff else take_bit 16 (n + 1) - 1) \<and>
   H2MirRawCallAuxNode (H2MirRawCallAuxPack n f) = take_bit 31 n \<and>
   H2MirRawCallAuxFlags (H2MirRawCallAuxPack n f) = take_bit 1 f \<and>
   H2MirCallArgCountFromTok (argc OR (flag AND 0xC000)) = unat (take_bit 14 argc)"
proof -
  have raw: "drop_bit 1 (push_bit 1 n OR (f AND mask 1)) = take_bit 31 n"
    using pack_fields(1) [of 1 n f] by simp
  note raw = raw pack_fields(2) [of 1 n f]
  have m1: "push_bit 1 1 - 1 = (mask 1 :: 32 word)" by (simp add: mask_eq_exp_minus_1)
  have tok: "(argc OR (flag AND push_bit 14 (mask 2))) AND NOT (push_bit 14 (mask 2)) = take_bit 14 (argc :: 16 word)"
    by (rule bit_word_eqI; auto simp: bit_simps)
  show ?thesis
    using aux_fields [of "intKindNum k" n] aux_fields [of "intKindNum k" "n + 1"]
    unfolding intKindNum_small
    by (simp only: H2MirTypeRefIntKind_def H2MirTypeRefFixedArrayCount_def H2MirTypeRefVArrayCountField_def
        H2MirTypeAuxMakeFixedArray_def H2MirTypeAuxMakeVArrayView_def H2MirRawCallAuxNode_def
        H2MirRawCallAuxPack_def H2MirRawCallAuxFlags_def H2MirCallArgCountFromTok_def m1 raw tok count_mask)
      (simp add: Let_def)
qed

subsection \<open>Witnesses\<close>

definition exFn :: H2MirFunction where
  "exFn = \<lparr>instStart = 7, instLen = 7, fsourceRef = 0, localStart = 7, localCount = 7, paramCount = 0,
     tempCount = 0, ftypeRef = UINT32_MAX, fnameStart = 3, fnameEnd = 4, fastNode = 0, fflags = 0,
     captureStart = 0, captureCount = 0\<rparr>"

definition exInst :: "H2MirOp \<Rightarrow> nat \<Rightarrow> H2MirInst" where
  "exInst oper a = \<lparr>iop = oper, itok = 0, iaux = a, istart = 0, iend = 0\<rparr>"

text \<open>A jump over one instruction to a load of an identifier.\<close>

definition exOps :: "mirOp list" where
  "exOps = [OpBegin exFn, OpInst (exInst H2MirOp_JUMP 2), OpInst (exInst H2MirOp_PUSH_NULL 0),
     OpInst (exInst H2MirOp_LOAD_IDENT 0), OpEnd]"

definition exBuilder :: H2MirProgramBuilder where
  "exBuilder = (case runSteps mirStep (H2MirProgramBuilderInit (Some exArena)) exOps of
     Ok b \<Rightarrow> b | _ \<Rightarrow> H2MirProgramBuilderInit None)"

lemma exRun: "runSteps mirStep (H2MirProgramBuilderInit (Some exArena)) exOps = Ok exBuilder"
proof -
  have "case runSteps mirStep (H2MirProgramBuilderInit (Some exArena)) exOps of Ok b \<Rightarrow> True | _ \<Rightarrow> False"
    by code_simp
  then show ?thesis by (simp add: exBuilder_def split: outcome.splits)
qed

lemma exOps_len: "length exOps < mirMaxLen" "length exOps \<le> mirMaxLen"
  by (simp_all add: exOps_def mirMaxLen_def)


lemma mir_arrays_separate_witness:
  "\<exists>ar'. barena exBuilder = Some ar' \<and> arenaWf {4096..<4160} ar' \<and>
     ownRegion (arrayMem exBuilder ! 0) \<inter> ownRegion (arrayMem exBuilder ! 3) = {}"
  using mir_arrays_separate [OF exOps_len(2) exArena_wf exRun] by fastforce

lemma mir_functions_partition_witness:
  "concat (map fcode (sfns (absMir exBuilder))) = pinsts (H2MirProgramBuilderFinish exBuilder)"
  using mir_functions_partition [OF exOps_len(2) exRun] by simp

lemma mir_first_unresolved_witness:
  "H2MirFindFirstDynamicResolutionInst (Some (H2MirProgramBuilderFinish exBuilder)) =
     Ok (Some (0, 2, exInst H2MirOp_LOAD_IDENT 0)) \<and>
   H2MirProgramNeedsDynamicResolution (Some (H2MirProgramBuilderFinish exBuilder))"
proof -
  have "firstUnresolved (map fcode (sfns (absMir exBuilder))) 0 = Some (0, 2, exInst H2MirOp_LOAD_IDENT 0)"
    by code_simp
  with mir_first_unresolved [OF exOps_len(2) exRun] show ?thesis by simp
qed

lemma insert_keeps_jump_targets_witness:
  "\<exists>i b'. H2MirProgramBuilderInsertInst exBuilder 0 1 (exInst H2MirOp_DROP 0) = Ok (i, b') \<and>
     iaux (fcode (sfns (absMir b') ! 0) ! 0) = 2 \<and>
     fcode (sfns (absMir b') ! 0) ! 2 = exInst H2MirOp_PUSH_NULL 0 \<and>
     fcode (sfns (absMir b') ! 0) ! 3 = exInst H2MirOp_LOAD_IDENT 0"
proof -
  have code: "fcode (sfns (absMir exBuilder) ! 0) =
      [exInst H2MirOp_JUMP 2, exInst H2MirOp_PUSH_NULL 0, exInst H2MirOp_LOAD_IDENT 0]" by code_simp
  have "case H2MirProgramBuilderInsertInst exBuilder 0 1 (exInst H2MirOp_DROP 0) of Ok r \<Rightarrow> True | _ \<Rightarrow> False"
    by code_simp
  then obtain i b' where ins: "H2MirProgramBuilderInsertInst exBuilder 0 1 (exInst H2MirOp_DROP 0) = Ok (i, b')"
    by (cases "H2MirProgramBuilderInsertInst exBuilder 0 1 (exInst H2MirOp_DROP 0)") auto
  let ?c = "fcode (sfns (absMir b') ! 0)"
  have t: "?c ! 0 = exInst H2MirOp_JUMP 2" "?c ! iaux (?c ! 0) = exInst H2MirOp_PUSH_NULL 0"
      "?c ! Suc 2 = exInst H2MirOp_LOAD_IDENT 0"
    using insert_keeps_jump_targets [OF exOps_len(1) exRun ins code [symmetric] refl, of 0 2]
    by (auto simp: exInst_def)
  have a: "iaux (?c ! 0) = 2" unfolding t(1) by (simp add: exInst_def)
  have "?c ! 2 = exInst H2MirOp_PUSH_NULL 0" "?c ! 3 = exInst H2MirOp_LOAD_IDENT 0"
    using t(2,3) unfolding a by (simp_all only: eval_nat_numeral)
  with a ins show ?thesis by blast
qed

lemma mir_array_growth_overflows_witness:
  "H2MirProgramBuilderEnsureCap (Some exArena)
     \<lparr>amem = Some (0, 20 * 134217728), aelems = [exInst H2MirOp_RETURN 0], acap = 134217728\<rparr> 20 134217729 = Stuck"
proof -
  have "fst (H2ArenaAlloc exArena 1073741824 8) \<noteq> None" by code_simp
  then obtain q ar' where "H2ArenaAlloc exArena 1073741824 8 = (Some q, ar')"
    by (cases "H2ArenaAlloc exArena 1073741824 8") auto
  then show ?thesis by (rule mir_array_growth_overflows [rotated 2]) simp_all
qed

lemma mir_validate_exact_witness:
  "\<exists>e\<in>badSpans (H2MirProgramBuilderFinish exBuilder).
     H2MirValidateProgram (Some (H2MirProgramBuilderFinish exBuilder)) (Some diagZero) =
       (False, H2MirSetDiag (Some diagZero) 4 (fst e) (snd e))"
proof -
  let ?p = "H2MirProgramBuilderFinish exBuilder"
  have "pfuncs ?p \<noteq> [] \<and> length (psources ?p) \<le> fsourceRef (hd (pfuncs ?p))" by code_simp
  then have "\<not> (\<forall>fn\<in>set (pfuncs ?p). functionOk ?p fn)"
    by (meson functionOk_def hd_in_set not_le)
  with mir_validate_exact [of ?p "Some diagZero"] show ?thesis by simp
qed

end
