(* ===== verification/H2MirExpr.thy ===== *)
theory H2MirExpr
  imports H2MirCheck H2AstDump
begin

text \<open>
  The expression builder of \<open>src/mir.c\<close> (\<open>H2MirBuildExpr\<close> and the functions it calls): the
  syntax tree of an expression becomes postfix code. The tree is the node array with its int32
  links; links are followed without a range check where the C code does so, which is \<open>Stuck\<close>
  outside the array. The recursion and the loops over siblings follow links that could form a
  cycle, so they take fuel, and \<open>None\<close> is a run that did not end within it. Each case of the
  C switch is a definition of its own over the recursive call \<open>build\<close>. An
  \<open>Ok\<close> result is the return value 0, \<open>Err\<close> is -1. Sizes are those of a 64-bit target.
\<close>

subsection \<open>Names\<close>

fun viewLen :: "H2StrView \<Rightarrow> nat" where
  "viewLen (NullView n) = n"
| "viewLen (View bs) = length bs"

text \<open>The bytes \<open>memcmp(src.ptr + start, ..., n)\<close> reads.\<close>

fun readSpan :: "H2StrView \<Rightarrow> nat \<Rightarrow> nat \<Rightarrow> ('e, byte list) outcome" where
  "readSpan (NullView m) start n = (if n = 0 then Ok [] else Stuck)"
| "readSpan (View bs) start n = (if start + n \<le> length bs then Ok (take n (drop start bs)) else Stuck)"

definition H2MirNameEqLiteral :: "H2StrView \<Rightarrow> nat \<Rightarrow> nat \<Rightarrow> string \<Rightarrow> ('e, bool) outcome" where
  "H2MirNameEqLiteral src start endPos lit =
     (if endPos < start \<or> endPos > viewLen src then Ok False
      else if endPos - start \<noteq> length lit then Ok False
      else obind (readSpan src start (length lit)) (\<lambda>s. Ok (s = cstr lit)))"

definition H2MirNameEqLiteralOrPkgBuiltin ::
  "H2StrView \<Rightarrow> nat \<Rightarrow> nat \<Rightarrow> string \<Rightarrow> string \<Rightarrow> ('e, bool) outcome" where
  "H2MirNameEqLiteralOrPkgBuiltin src start endPos lit pkgPrefix =
     obind (H2MirNameEqLiteral src start endPos lit) (\<lambda>same.
       if same then Ok True
       else if endPos < start \<or> endPos > viewLen src then Ok False
       else if endPos - start \<noteq> length pkgPrefix + 2 + length lit then Ok False
       else obind (readSpan src start (length pkgPrefix)) (\<lambda>s.
         if s \<noteq> cstr pkgPrefix then Ok False
         else obind (readSpan src (start + length pkgPrefix) 2) (\<lambda>s.
           if s \<noteq> cstr ''__'' then Ok False
           else obind (readSpan src (start + length pkgPrefix + 2) (length lit)) (\<lambda>s. Ok (s = cstr lit)))))"

text \<open>A chain of \<open>||\<close>.\<close>

fun anyOf :: "('a \<Rightarrow> ('e, bool) outcome) \<Rightarrow> 'a list \<Rightarrow> ('e, bool) outcome" where
  "anyOf p [] = Ok False"
| "anyOf p (x # xs) = obind (p x) (\<lambda>r. if r then Ok True else anyOf p xs)"

definition H2MirNameIsCompilerDiagBuiltin :: "H2StrView \<Rightarrow> nat \<Rightarrow> nat \<Rightarrow> ('e, bool) outcome" where
  "H2MirNameIsCompilerDiagBuiltin src start endPos =
     anyOf (\<lambda>lit. H2MirNameEqLiteralOrPkgBuiltin src start endPos lit ''compiler'')
       [''error'', ''error_at'', ''warn'', ''warn_at'']"

definition H2MirNameIsLazyTypeBuiltin :: "H2StrView \<Rightarrow> nat \<Rightarrow> nat \<Rightarrow> ('e, bool) outcome" where
  "H2MirNameIsLazyTypeBuiltin src start endPos =
     anyOf (H2MirNameEqLiteral src start endPos)
       [''typeof'', ''kind'', ''base'', ''is_alias'', ''is_const'', ''type_name'', ''ptr'', ''slice'', ''array'']"

text \<open>Follow a link that is not negative.\<close>

definition nodeAt :: "H2AstNode list \<Rightarrow> int \<Rightarrow> (H2AstNode \<Rightarrow> ('e, 'a) outcome) \<Rightarrow> ('e, 'a) outcome" where
  "nodeAt nodes i k = (if 0 \<le> i \<and> i < int (length nodes) then k (nodes ! nat i) else Stuck)"

definition H2MirCallUsesLazyBuiltinLowering ::
  "H2AstNode list \<Rightarrow> H2StrView \<Rightarrow> int \<Rightarrow> ('e, bool) outcome" where
  "H2MirCallUsesLazyBuiltinLowering nodes src callNode =
     (if callNode < 0 \<or> callNode \<ge> int (length nodes) then Ok False
      else
        (let call = nodes ! nat callNode; calleeNode = firstChild call
         in if nkind call \<noteq> H2Ast_CALL \<or> calleeNode < 0 then Ok False
            else nodeAt nodes calleeNode (\<lambda>callee.
              if nkind callee = H2Ast_IDENT then
                anyOf (\<lambda>p. p src (dataStart callee) (dataEnd callee))
                  [\<lambda>s a e. H2MirNameEqLiteralOrPkgBuiltin s a e ''source_location_of'' ''builtin'',
                   H2MirNameIsCompilerDiagBuiltin, H2MirNameIsLazyTypeBuiltin]
              else if nkind callee \<noteq> H2Ast_FIELD_EXPR then Ok False
              else
                (let recvNode = firstChild callee
                 in if recvNode < 0 \<or> recvNode \<ge> int (length nodes) \<or> nkind (nodes ! nat recvNode) \<noteq> H2Ast_IDENT
                    then Ok False
                    else
                      (let recv = nodes ! nat recvNode
                       in obind (H2MirNameEqLiteral src (dataStart recv) (dataEnd recv) ''builtin'') (\<lambda>isBuiltin.
                            obind (if isBuiltin
                                   then H2MirNameEqLiteral src (dataStart callee) (dataEnd callee) ''source_location_of''
                                   else Ok False) (\<lambda>loc.
                              if loc then Ok True
                              else obind (H2MirNameEqLiteral src (dataStart recv) (dataEnd recv) ''compiler'') (\<lambda>comp.
                                if \<not> comp then Ok False
                                else H2MirNameIsCompilerDiagBuiltin src (dataStart callee) (dataEnd callee)))))))))"

subsection \<open>Operators, casts and sizes\<close>

definition H2MirIsAllowedUnaryToken :: "H2TokenKind \<Rightarrow> bool" where
  "H2MirIsAllowedUnaryToken tok \<longleftrightarrow> tok = H2Tok_ADD \<or> tok = H2Tok_SUB \<or> tok = H2Tok_NOT"

definition H2MirIsAllowedBinaryToken :: "H2TokenKind \<Rightarrow> bool" where
  "H2MirIsAllowedBinaryToken tok \<longleftrightarrow>
     tok \<in> {H2Tok_ADD, H2Tok_SUB, H2Tok_MUL, H2Tok_DIV, H2Tok_MOD, H2Tok_AND, H2Tok_OR, H2Tok_XOR,
       H2Tok_LSHIFT, H2Tok_RSHIFT, H2Tok_EQ, H2Tok_NEQ, H2Tok_LT, H2Tok_GT, H2Tok_LTE, H2Tok_GTE,
       H2Tok_LOGICAL_AND, H2Tok_LOGICAL_OR}"

text \<open>All guards of this comparison come before it reads: it never leaves the source.\<close>

definition H2MirTypeNameEqCStr :: "H2StrView \<Rightarrow> H2AstNode \<Rightarrow> string \<Rightarrow> bool" where
  "H2MirTypeNameEqCStr src n s =
     (case src of
        NullView m \<Rightarrow> False
      | View bs \<Rightarrow>
          (if dataEnd n < dataStart n then False
           else if length s \<noteq> dataEnd n - dataStart n \<or> dataEnd n > length bs then False
           else take (length s) (drop (dataStart n) bs) = cstr s))"

definition castTargetNum :: "H2MirCastTarget \<Rightarrow> nat" where
  "castTargetNum t = (case t of
     H2MirCastTarget_INVALID \<Rightarrow> 0 | H2MirCastTarget_INT \<Rightarrow> 1 | H2MirCastTarget_FLOAT \<Rightarrow> 2
   | H2MirCastTarget_BOOL \<Rightarrow> 3 | H2MirCastTarget_STR_VIEW \<Rightarrow> 4 | H2MirCastTarget_PTR_LIKE \<Rightarrow> 5)"

definition H2MirClassifyCastTarget :: "H2AstNode list \<Rightarrow> H2StrView \<Rightarrow> int \<Rightarrow> H2MirCastTarget" where
  "H2MirClassifyCastTarget nodes src typeNode =
     (if typeNode < 0 \<or> typeNode \<ge> int (length nodes) then H2MirCastTarget_INVALID
      else
        (let n = nodes ! nat typeNode
         in if nkind n \<in> {H2Ast_TYPE_REF, H2Ast_TYPE_PTR} \<and> firstChild n \<ge> 0 \<and>
               firstChild n < int (length nodes)
            then (let child = nodes ! nat (firstChild n)
                  in if nkind child = H2Ast_TYPE_NAME \<and> H2MirTypeNameEqCStr src child ''str''
                     then H2MirCastTarget_STR_VIEW else H2MirCastTarget_PTR_LIKE)
            else if nkind n = H2Ast_TYPE_MUTREF then H2MirCastTarget_PTR_LIKE
            else if nkind n \<noteq> H2Ast_TYPE_NAME then H2MirCastTarget_INVALID
            else if H2MirTypeNameEqCStr src n ''rawptr'' then H2MirCastTarget_PTR_LIKE
            else if H2MirTypeNameEqCStr src n ''bool'' then H2MirCastTarget_BOOL
            else if H2MirTypeNameEqCStr src n ''f32'' \<or> H2MirTypeNameEqCStr src n ''f64''
            then H2MirCastTarget_FLOAT
            else if list_ex (H2MirTypeNameEqCStr src n)
              [''u8'', ''u16'', ''u32'', ''u64'', ''uint'', ''i8'', ''i16'', ''i32'', ''i64'', ''int'']
            then H2MirCastTarget_INT
            else H2MirCastTarget_INVALID))"

text \<open>
  \<open>len == n && memcmp(name, lit, n) == 0\<close>: here nothing checks that the span lies in the
  source.
\<close>

definition spanIs :: "H2StrView \<Rightarrow> H2AstNode \<Rightarrow> string \<Rightarrow> ('e, bool) outcome" where
  "spanIs src n lit =
     (let len = (if dataEnd n \<ge> dataStart n then dataEnd n - dataStart n else 0)
      in if len = length lit
         then obind (readSpan src (dataStart n) (length lit)) (\<lambda>s. Ok (s = cstr lit)) else Ok False)"

text \<open>The groups of names in the order of the code, with the size each group has.\<close>

fun sizeOfName :: "H2StrView \<Rightarrow> H2AstNode \<Rightarrow> (string list \<times> nat) list \<Rightarrow> ('e, nat option) outcome" where
  "sizeOfName src n [] = Ok None"
| "sizeOfName src n ((lits, sz) # rest) =
     obind (anyOf (spanIs src n) lits) (\<lambda>r. if r then Ok (Some sz) else sizeOfName src n rest)"

definition H2MirBuiltinTypeSize :: "H2AstNode list \<Rightarrow> H2StrView \<Rightarrow> int \<Rightarrow> ('e, nat option) outcome" where
  "H2MirBuiltinTypeSize nodes src typeNode =
     (if typeNode < 0 \<or> typeNode \<ge> int (length nodes) then Ok None
      else
        (let type = nodes ! nat typeNode
         in if nkind type \<in> {H2Ast_TYPE_PTR, H2Ast_TYPE_REF, H2Ast_TYPE_MUTREF, H2Ast_TYPE_FN} then Ok (Some 8)
            else if nkind type \<in> {H2Ast_TYPE_SLICE, H2Ast_TYPE_MUTSLICE} then Ok (Some 16)
            else if nkind type \<noteq> H2Ast_TYPE_NAME then Ok None
            else sizeOfName src type
              [([''u8'', ''i8'', ''bool''], 1), ([''u16'', ''i16''], 2),
               ([''u32'', ''i32'', ''f32'', ''rune''], 4), ([''u64'', ''i64'', ''f64''], 8),
               ([''int'', ''uint'', ''usize'', ''isize''], 8), ([''rawptr''], 8), ([''str''], 16),
               ([''type''], 8)]))"

definition H2MirInferExprSize :: "H2AstNode list \<Rightarrow> H2StrView \<Rightarrow> int \<Rightarrow> ('e, nat option) outcome" where
  "H2MirInferExprSize nodes src exprNode =
     (if exprNode < 0 \<or> exprNode \<ge> int (length nodes) then Ok None
      else
        (let expr = nodes ! nat exprNode
         in case nkind expr of
              H2Ast_INT \<Rightarrow> Ok (Some 8)
            | H2Ast_FLOAT \<Rightarrow> Ok (Some 8)
            | H2Ast_BOOL \<Rightarrow> Ok (Some 1)
            | H2Ast_STRING \<Rightarrow> Ok (Some 16)
            | H2Ast_CAST \<Rightarrow>
                (let valueNode = firstChild expr
                 in if valueNode < 0 then Ok None
                    else nodeAt nodes valueNode (\<lambda>value.
                      if nextSibling value < 0 then Ok None
                      else nodeAt nodes (nextSibling value) (\<lambda>type.
                        if nextSibling type \<ge> 0 then Ok None
                        else H2MirBuiltinTypeSize nodes src (nextSibling value))))
            | _ \<Rightarrow> Ok None))"

subsection \<open>The builder\<close>

record H2MirBuilder =
  mnodes :: "H2AstNode list"
  msrc :: H2StrView
  mv :: "H2MirInst list"
  mcap :: nat
  mbytes :: nat
  msupported :: bool
  mdiag :: "H2Diag option"

type_synonym built = "(H2MirBuilder, H2MirBuilder) outcome"

definition failAt :: "H2MirBuilder \<Rightarrow> nat \<Rightarrow> nat \<Rightarrow> nat \<Rightarrow> built" where
  "failAt b code start endPos = Err (b\<lparr>mdiag := H2MirSetDiag (mdiag b) code start endPos\<rparr>)"

definition unsupported :: "H2MirBuilder \<Rightarrow> built" where
  "unsupported b = Ok (b\<lparr>msupported := False\<rparr>)"

definition H2MirEmitInstEx ::
  "H2MirBuilder \<Rightarrow> H2MirOp \<Rightarrow> 16 word \<Rightarrow> nat \<Rightarrow> nat \<Rightarrow> nat \<Rightarrow> built" where
  "H2MirEmitInstEx b oper tok aux start endPos =
     (if \<not> msupported b then Ok b
      else if length (mv b) \<ge> mcap b then failAt b 141 start endPos
      else if (length (mv b) + 1) * 20 > mbytes b then Stuck
      else Ok (b\<lparr>mv := mv b @ [\<lparr>iop = oper, itok = tok, iaux = aux, istart = start, iend = endPos\<rparr>]\<rparr>))"

definition tokWord :: "H2TokenKind \<Rightarrow> 16 word" where
  "tokWord tok = of_nat (tokNum tok)"

definition H2MirEmitInst :: "H2MirBuilder \<Rightarrow> H2MirOp \<Rightarrow> H2TokenKind \<Rightarrow> nat \<Rightarrow> nat \<Rightarrow> built" where
  "H2MirEmitInst b oper tok start endPos = H2MirEmitInstEx b oper (tokWord tok) 0 start endPos"

text \<open>Sequencing: \<open>if (f(b) != 0) return -1;\<close>, and steps that only read.\<close>

definition andThen :: "built option \<Rightarrow> (H2MirBuilder \<Rightarrow> built option) \<Rightarrow> built option" where
  "andThen r k = (case r of
     None \<Rightarrow> None | Some (Ok b) \<Rightarrow> k b | Some (Err b) \<Rightarrow> Some (Err b) | Some Stuck \<Rightarrow> Some Stuck)"

definition reading :: "(H2MirBuilder, 'a) outcome \<Rightarrow> ('a \<Rightarrow> built option) \<Rightarrow> built option" where
  "reading r k = (case r of Ok x \<Rightarrow> k x | Err b \<Rightarrow> Some (Err b) | Stuck \<Rightarrow> Some Stuck)"

definition linkAt :: "H2AstNode list \<Rightarrow> int \<Rightarrow> (H2MirBuilder, H2AstNode) outcome" where
  "linkAt nodes i = nodeAt nodes i Ok"

text \<open>The sibling of a node, or -1 for a negative link.\<close>

definition siblingOf :: "H2AstNode list \<Rightarrow> int \<Rightarrow> (H2MirBuilder, int) outcome" where
  "siblingOf nodes i = (if i \<ge> 0 then nodeAt nodes i (\<lambda>n. Ok (nextSibling n)) else Ok (-1))"

type_synonym buildFn = "H2MirBuilder \<Rightarrow> int \<Rightarrow> built option"

subsection \<open>The cases of the expression switch\<close>

definition buildSizeof :: "H2MirBuilder \<Rightarrow> H2AstNode \<Rightarrow> built option" where
  "buildSizeof b n =
     (let innerNode = firstChild n
      in if innerNode < 0 \<or> innerNode \<ge> int (length (mnodes b)) then Some (failAt b 6 (nstart n) (nend n))
         else reading (if nflags n = 1 then H2MirBuiltinTypeSize (mnodes b) (msrc b) innerNode
                       else H2MirInferExprSize (mnodes b) (msrc b) innerNode) (\<lambda>r.
           case r of
             None \<Rightarrow> Some (unsupported b)
           | Some sizeValue \<Rightarrow>
               Some (H2MirEmitInstEx b H2MirOp_PUSH_INT (tokWord H2Tok_INVALID) sizeValue (nstart n) (nend n))))"

text \<open>
  The loop over the elements of a tuple or array: the count, or \<open>None\<close> when the loop returned
  because there are too many.
\<close>

fun buildElems ::
  "buildFn \<Rightarrow> nat \<Rightarrow> H2MirBuilder \<Rightarrow> int \<Rightarrow> nat \<Rightarrow> (nat option \<Rightarrow> H2MirBuilder \<Rightarrow> built option) \<Rightarrow> built option" where
  "buildElems build 0 b child elemCount k = None"
| "buildElems build (Suc fuel) b child elemCount k =
     (if child < 0 then k (Some elemCount) b
      else andThen (build b child) (\<lambda>b.
        if elemCount = 65535 then k None b
        else reading (linkAt (mnodes b) child) (\<lambda>c. buildElems build fuel b (nextSibling c) (elemCount + 1) k)))"

definition buildTuple :: "buildFn \<Rightarrow> nat \<Rightarrow> bool \<Rightarrow> H2MirBuilder \<Rightarrow> int \<Rightarrow> H2AstNode \<Rightarrow> built option" where
  "buildTuple build fuel emptyAllowed b nodeId n =
     buildElems build fuel b (firstChild n) 0 (\<lambda>r b.
       case r of
         None \<Rightarrow> Some (unsupported b)
       | Some elemCount \<Rightarrow>
           (if elemCount = 0 \<and> \<not> emptyAllowed then Some (unsupported b)
            else Some (H2MirEmitInstEx b H2MirOp_TUPLE_MAKE (of_nat elemCount) (nat nodeId) (nstart n) (nend n))))"

text \<open>The loop over the arguments of a call, with the argument count and the flags of \<open>tok\<close>.\<close>

fun buildArgs ::
  "buildFn \<Rightarrow> nat \<Rightarrow> H2MirBuilder \<Rightarrow> int \<Rightarrow> nat \<Rightarrow> 16 word
   \<Rightarrow> ((nat \<times> 16 word) option \<Rightarrow> H2MirBuilder \<Rightarrow> built option) \<Rightarrow> built option" where
  "buildArgs build 0 b arg argc callTokFlags k = None"
| "buildArgs build (Suc fuel) b arg argc callTokFlags k =
     (if arg < 0 then k (Some (argc, callTokFlags)) b
      else reading (linkAt (mnodes b) arg) (\<lambda>a.
        let isArg = nkind a = H2Ast_CALL_ARG;
            exprNode = (if isArg then firstChild a else arg);
            isSpread = isArg \<and> nflags a AND H2AstFlag_CALL_ARG_SPREAD \<noteq> 0
        in if isArg \<and> exprNode < 0 then k None b
           else if isSpread \<and> (nextSibling a \<ge> 0 \<or> callTokFlags AND H2MirCallArgFlag_SPREAD_LAST \<noteq> 0)
           then k None b
           else andThen (build b exprNode) (\<lambda>b.
             if argc = 65535 then k None b
             else buildArgs build fuel b (nextSibling a) (argc + 1)
                    (if isSpread then callTokFlags OR H2MirCallArgFlag_SPREAD_LAST else callTokFlags) k)))"

text \<open>\<open>callEnd == callStart + n && memcmp(src + callStart, lit, n) == 0\<close>\<close>

definition calleeIs :: "H2StrView \<Rightarrow> H2AstNode \<Rightarrow> string \<Rightarrow> (H2MirBuilder, bool) outcome" where
  "calleeIs src callee lit =
     (if dataEnd callee = u32 (dataStart callee + length lit)
      then obind (readSpan src (dataStart callee) (length lit)) (\<lambda>s. Ok (s = cstr lit)) else Ok False)"

text \<open>The instruction a call ends with.\<close>

definition emitCall ::
  "H2MirBuilder \<Rightarrow> int \<Rightarrow> H2AstNode \<Rightarrow> bool \<Rightarrow> bool \<Rightarrow> 32 word \<Rightarrow> nat \<Rightarrow> 16 word \<Rightarrow> built" where
  "emitCall b nodeId callee isBuiltinLen isBuiltinCStr callFlags argc callTokFlags =
     (if isBuiltinLen \<and> callFlags = 0 \<and> argc = 1
      then H2MirEmitInstEx b H2MirOp_SEQ_LEN (tokWord H2Tok_INVALID) 0 (dataStart callee) (dataEnd callee)
      else if isBuiltinCStr \<and> argc = 1
      then H2MirEmitInstEx b H2MirOp_STR_CSTR (tokWord H2Tok_INVALID) 0 (dataStart callee) (dataEnd callee)
      else H2MirEmitInstEx b H2MirOp_CALL (of_nat argc OR callTokFlags)
             (unat (H2MirRawCallAuxPack (of_int nodeId) callFlags)) (dataStart callee) (dataEnd callee))"

text \<open>Everything after the receiver: the arguments, unless lazy, and the call itself.\<close>

definition finishCall ::
  "buildFn \<Rightarrow> nat \<Rightarrow> H2MirBuilder \<Rightarrow> int \<Rightarrow> H2AstNode \<Rightarrow> bool \<Rightarrow> bool \<Rightarrow> bool \<Rightarrow> 32 word \<Rightarrow> nat \<Rightarrow> built option" where
  "finishCall build fuel b nodeId callee isLazy isLen isCStr callFlags argc =
     (if isLazy then Some (emitCall b nodeId callee isLen isCStr callFlags argc 0)
      else buildArgs build fuel b (nextSibling callee) argc 0 (\<lambda>r b.
        case r of
          None \<Rightarrow> Some (unsupported b)
        | Some (argc, callTokFlags) \<Rightarrow>
            Some (emitCall b nodeId callee isLen isCStr callFlags argc callTokFlags)))"

definition buildCall :: "buildFn \<Rightarrow> nat \<Rightarrow> H2MirBuilder \<Rightarrow> int \<Rightarrow> H2AstNode \<Rightarrow> built option" where
  "buildCall build fuel b nodeId n =
     reading (H2MirCallUsesLazyBuiltinLowering (mnodes b) (msrc b) nodeId) (\<lambda>isLazy.
       if firstChild n < 0 \<or> firstChild n \<ge> int (length (mnodes b)) then Some (unsupported b)
       else
         (let callee = mnodes b ! nat (firstChild n)
          in if nkind callee = H2Ast_IDENT then
               reading (calleeIs (msrc b) callee ''len'') (\<lambda>isLen.
                 reading (calleeIs (msrc b) callee ''cstr'') (\<lambda>isCStr.
                   finishCall build fuel b nodeId callee isLazy isLen isCStr 0 0))
             else if nkind callee = H2Ast_FIELD_EXPR then
               (if firstChild callee < 0 then Some (unsupported b)
                else if isLazy then
                  reading (calleeIs (msrc b) callee ''cstr'') (\<lambda>isCStr.
                    finishCall build fuel b nodeId callee True False isCStr 0 0)
                else andThen (build b (firstChild callee)) (\<lambda>b.
                  reading (calleeIs (msrc b) callee ''cstr'') (\<lambda>isCStr.
                    finishCall build fuel b nodeId callee False False isCStr H2MirSymbolFlag_CALL_RECEIVER_ARG0 1)))
             else Some (unsupported b)))"

definition buildUnary :: "buildFn \<Rightarrow> H2MirBuilder \<Rightarrow> H2AstNode \<Rightarrow> built option" where
  "buildUnary build b n =
     (if \<not> H2MirIsAllowedUnaryToken (nop n) then Some (unsupported b)
      else if firstChild n < 0 then Some (failAt b 6 (nstart n) (nend n))
      else andThen (build b (firstChild n)) (\<lambda>b.
        Some (H2MirEmitInst b H2MirOp_UNARY (nop n) (nstart n) (nend n))))"

definition buildBinary :: "buildFn \<Rightarrow> H2MirBuilder \<Rightarrow> H2AstNode \<Rightarrow> built option" where
  "buildBinary build b n =
     (let lhs = firstChild n
      in reading (siblingOf (mnodes b) lhs) (\<lambda>rhs.
        if \<not> H2MirIsAllowedBinaryToken (nop n) then Some (unsupported b)
        else if lhs < 0 \<or> rhs < 0 then Some (failAt b 6 (nstart n) (nend n))
        else andThen (build b lhs) (\<lambda>b. andThen (build b rhs) (\<lambda>b.
          Some (H2MirEmitInst b H2MirOp_BINARY (nop n) (nstart n) (nend n))))))"

text \<open>
  One bound of a slice: build the index node and move on to the next sibling. \<open>None\<close> in the
  continuation stands for a missing node.
\<close>

definition buildBound ::
  "buildFn \<Rightarrow> bool \<Rightarrow> H2MirBuilder \<Rightarrow> H2AstNode \<Rightarrow> int \<Rightarrow> int
   \<Rightarrow> (H2MirBuilder \<Rightarrow> int \<Rightarrow> int \<Rightarrow> built option) \<Rightarrow> built option" where
  "buildBound build present b n idxNode extraNode k =
     (if \<not> present then k b idxNode extraNode
      else if idxNode < 0 then Some (failAt b 6 (nstart n) (nend n))
      else andThen (build b idxNode) (\<lambda>b.
        reading (siblingOf (mnodes b) extraNode) (\<lambda>extraNode'. k b extraNode extraNode')))"

definition buildIndex :: "buildFn \<Rightarrow> H2MirBuilder \<Rightarrow> H2AstNode \<Rightarrow> built option" where
  "buildIndex build b n =
     (let baseNode = firstChild n
      in reading (siblingOf (mnodes b) baseNode) (\<lambda>idxNode.
        reading (siblingOf (mnodes b) idxNode) (\<lambda>extraNode.
          let sliceFlags = ucast (nflags n AND (H2AstFlag_INDEX_HAS_START OR H2AstFlag_INDEX_HAS_END))
          in if nflags n AND H2AstFlag_INDEX_SLICE \<noteq> 0 then
               (if baseNode < 0 then Some (failAt b 6 (nstart n) (nend n))
                else andThen (build b baseNode) (\<lambda>b.
                  buildBound build (nflags n AND H2AstFlag_INDEX_HAS_START \<noteq> 0) b n idxNode extraNode (\<lambda>b idxNode extraNode.
                    buildBound build (nflags n AND H2AstFlag_INDEX_HAS_END \<noteq> 0) b n idxNode extraNode (\<lambda>b idxNode extraNode.
                      if extraNode \<ge> 0 \<or> idxNode \<ge> 0 then Some (failAt b 6 (nstart n) (nend n))
                      else Some (H2MirEmitInstEx b H2MirOp_SLICE_MAKE sliceFlags 0 (nstart n) (nend n))))))
             else if baseNode < 0 \<or> idxNode < 0 \<or> extraNode \<ge> 0 then Some (failAt b 6 (nstart n) (nend n))
             else andThen (build b baseNode) (\<lambda>b. andThen (build b idxNode) (\<lambda>b.
               Some (H2MirEmitInst b H2MirOp_INDEX H2Tok_INVALID (nstart n) (nend n)))))))"

definition buildField :: "buildFn \<Rightarrow> H2MirBuilder \<Rightarrow> H2AstNode \<Rightarrow> built option" where
  "buildField build b n =
     (if firstChild n < 0 then Some (failAt b 6 (nstart n) (nend n))
      else andThen (build b (firstChild n)) (\<lambda>b.
        Some (H2MirEmitInstEx b H2MirOp_AGG_GET (tokWord H2Tok_INVALID) 0 (dataStart n) (dataEnd n))))"

definition buildCast :: "buildFn \<Rightarrow> H2MirBuilder \<Rightarrow> H2AstNode \<Rightarrow> built option" where
  "buildCast build b n =
     (let valueNode = firstChild n
      in reading (siblingOf (mnodes b) valueNode) (\<lambda>typeNode.
        reading (siblingOf (mnodes b) typeNode) (\<lambda>extraNode.
          if valueNode < 0 \<or> typeNode < 0 \<or> extraNode \<ge> 0 then Some (failAt b 6 (nstart n) (nend n))
          else
            (let target = H2MirClassifyCastTarget (mnodes b) (msrc b) typeNode
             in if target = H2MirCastTarget_INVALID then Some (unsupported b)
                else andThen (build b valueNode) (\<lambda>b.
                  Some (H2MirEmitInstEx b H2MirOp_CAST (of_nat (castTargetNum target)) (nat typeNode)
                          (nstart n) (nend n)))))))"

subsection \<open>\<open>H2MirBuildExprNode\<close> and \<open>H2MirBuildExpr\<close>\<close>

fun H2MirBuildExprNode :: "nat \<Rightarrow> buildFn" where
  "H2MirBuildExprNode 0 b nodeId = None"
| "H2MirBuildExprNode (Suc fuel) b nodeId =
     (if \<not> msupported b then Some (Ok b)
      else if nodeId < 0 \<or> nodeId \<ge> int (length (mnodes b)) then Some (failAt b 6 0 0)
      else
        (let n = mnodes b ! nat nodeId
         in case nkind n of
              H2Ast_INT \<Rightarrow> Some (H2MirEmitInst b H2MirOp_PUSH_INT H2Tok_INT (dataStart n) (dataEnd n))
            | H2Ast_RUNE \<Rightarrow> Some (H2MirEmitInst b H2MirOp_PUSH_INT H2Tok_RUNE (dataStart n) (dataEnd n))
            | H2Ast_FLOAT \<Rightarrow> Some (H2MirEmitInst b H2MirOp_PUSH_FLOAT H2Tok_FLOAT (dataStart n) (dataEnd n))
            | H2Ast_BOOL \<Rightarrow> Some (H2MirEmitInst b H2MirOp_PUSH_BOOL H2Tok_TRUE (dataStart n) (dataEnd n))
            | H2Ast_STRING \<Rightarrow> Some (H2MirEmitInst b H2MirOp_PUSH_STRING H2Tok_STRING (dataStart n) (dataEnd n))
            | H2Ast_NULL \<Rightarrow> Some (H2MirEmitInst b H2MirOp_PUSH_NULL H2Tok_NULL (nstart n) (nend n))
            | H2Ast_IDENT \<Rightarrow>
                Some (H2MirEmitInstEx b H2MirOp_LOAD_IDENT (tokWord H2Tok_IDENT) (nat nodeId) (dataStart n) (dataEnd n))
            | H2Ast_SIZEOF \<Rightarrow> buildSizeof b n
            | H2Ast_TUPLE_EXPR \<Rightarrow> buildTuple (H2MirBuildExprNode fuel) fuel False b nodeId n
            | H2Ast_ARRAY_LIT \<Rightarrow> buildTuple (H2MirBuildExprNode fuel) fuel True b nodeId n
            | H2Ast_CALL \<Rightarrow> buildCall (H2MirBuildExprNode fuel) fuel b nodeId n
            | H2Ast_UNARY \<Rightarrow> buildUnary (H2MirBuildExprNode fuel) b n
            | H2Ast_BINARY \<Rightarrow> buildBinary (H2MirBuildExprNode fuel) b n
            | H2Ast_INDEX \<Rightarrow> buildIndex (H2MirBuildExprNode fuel) b n
            | H2Ast_FIELD_EXPR \<Rightarrow> buildField (H2MirBuildExprNode fuel) b n
            | H2Ast_CAST \<Rightarrow> buildCast (H2MirBuildExprNode fuel) b n
            | _ \<Rightarrow> Some (unsupported b)))"

text \<open>
  The result is the status, the arena, the code with its address when the expression is
  supported (\<open>*outSupported\<close>), and the diagnostic. \<open>astNodes = None\<close> is a NULL node array;
  the other NULL arguments are not modelled.
\<close>

record buildOut =
  outOk :: bool
  outArena :: H2Arena
  outChunk :: "(nat \<times> H2MirInst list) option"
  outDiag :: "H2Diag option"

definition H2MirBuildExpr ::
  "nat \<Rightarrow> H2Arena \<Rightarrow> H2Ast \<Rightarrow> H2StrView \<Rightarrow> int \<Rightarrow> H2Diag option \<Rightarrow> (unit, buildOut) outcome option" where
  "H2MirBuildExpr fuel arena ast src nodeId diag0 =
     (let diag = map_option (\<lambda>d. diagZero) diag0;
          failed = (\<lambda>ar d. Some (Ok \<lparr>outOk = False, outArena = ar, outChunk = None, outDiag = d\<rparr>))
      in case astNodes ast of
           None \<Rightarrow> failed arena (H2MirSetDiag diag 4 0 0)
         | Some nodes \<Rightarrow>
             (let cap = u32 (length nodes * 4 + 8); bytes = u32 (cap * 20)
              in case H2ArenaAlloc arena bytes 4 of
                   (None, ar) \<Rightarrow> failed ar (H2MirSetDiag diag 141 0 0)
                 | (Some v, ar) \<Rightarrow>
                     (case H2MirBuildExprNode fuel
                             \<lparr>mnodes = nodes, msrc = src, mv = [], mcap = cap, mbytes = bytes,
                              msupported = True, mdiag = diag\<rparr> nodeId of
                        None \<Rightarrow> None
                      | Some Stuck \<Rightarrow> Some Stuck
                      | Some (Err b) \<Rightarrow> failed ar (mdiag b)
                      | Some (Ok b) \<Rightarrow>
                          (if \<not> msupported b
                           then Some (Ok \<lparr>outOk = True, outArena = ar, outChunk = None, outDiag = mdiag b\<rparr>)
                           else
                             (let inside = nodeId \<ge> 0 \<and> nodeId < int (length nodes);
                                  n = nodes ! nat nodeId
                              in case H2MirEmitInst b H2MirOp_RETURN H2Tok_EOF
                                        (if inside then nstart n else 0) (if inside then nend n else 0) of
                                   Stuck \<Rightarrow> Some Stuck
                                 | Err b \<Rightarrow> failed ar (mdiag b)
                                 | Ok b \<Rightarrow>
                                     Some (Ok \<lparr>outOk = True, outArena = ar, outChunk = Some (v, mv b),
                                              outDiag = mdiag b\<rparr>))))))"

end
