(* ===== verification/H2MirExprCases.thy ===== *)
theory H2MirExprCases
  imports H2MirExpr
begin

text \<open>
  The cases of the expression builder on linked syntax trees: each returns, stays inside the
  source, the nodes and the instruction array, and keeps the depth of the stack. The predicate
  \<open>fine\<close> carries this through the sequencing, \<open>grew\<close> is what a case has done to the builder.
\<close>

subsection \<open>Stack depth of expression code\<close>

text \<open>How many values an instruction of expression code takes; each pushes one.\<close>

definition exprPops :: "H2MirInst \<Rightarrow> nat option" where
  "exprPops i =
     (if iop i \<in> {H2MirOp_PUSH_INT, H2MirOp_PUSH_FLOAT, H2MirOp_PUSH_BOOL, H2MirOp_PUSH_STRING,
        H2MirOp_PUSH_NULL, H2MirOp_LOAD_IDENT} then Some 0
      else if iop i \<in> {H2MirOp_UNARY, H2MirOp_CAST, H2MirOp_AGG_GET, H2MirOp_SEQ_LEN, H2MirOp_STR_CSTR} then Some 1
      else if iop i \<in> {H2MirOp_BINARY, H2MirOp_INDEX} then Some 2
      else if iop i = H2MirOp_TUPLE_MAKE then Some (unat (itok i))
      else if iop i = H2MirOp_CALL then Some (H2MirCallArgCountFromTok (itok i))
      else if iop i = H2MirOp_SLICE_MAKE then
        Some (1 + (if itok i AND 2 \<noteq> 0 then 1 else 0) + (if itok i AND 4 \<noteq> 0 then 1 else 0))
      else None)"

text \<open>The depth after running code from depth \<open>d\<close>; \<open>None\<close> when a value is missing.\<close>

fun exprDepth :: "H2MirInst list \<Rightarrow> nat \<Rightarrow> nat option" where
  "exprDepth [] d = Some d"
| "exprDepth (i # is) d =
     (case exprPops i of
        None \<Rightarrow> None
      | Some p \<Rightarrow> if p \<le> d then exprDepth is (d - p + 1) else None)"

lemma exprDepth_append:
  "exprDepth (xs @ ys) d = (case exprDepth xs d of None \<Rightarrow> None | Some e \<Rightarrow> exprDepth ys e)"
  by (induction xs arbitrary: d) (auto split: option.splits)

subsection \<open>Results of building\<close>

text \<open>
  \<open>grew n k b b'\<close>: at most \<open>n\<close> instructions were added, and while the expression is supported
  they are code that leaves \<open>k\<close> more values on the stack, whatever was there.
\<close>

definition grew :: "nat \<Rightarrow> nat \<Rightarrow> H2MirBuilder \<Rightarrow> H2MirBuilder \<Rightarrow> bool" where
  "grew n k b b' \<longleftrightarrow>
     mnodes b' = mnodes b \<and> msrc b' = msrc b \<and> mcap b' = mcap b \<and> mbytes b' = mbytes b \<and> mdiag b' = mdiag b \<and>
     length (mv b') \<le> length (mv b) + n \<and>
     (msupported b' \<longrightarrow> msupported b \<and> (\<exists>is. mv b' = mv b @ is \<and> (\<forall>d. exprDepth is d = Some (d + k))))"

definition fine :: "H2MirBuilder \<Rightarrow> built option \<Rightarrow> (H2MirBuilder \<Rightarrow> bool) \<Rightarrow> bool" where
  "fine b0 r Q \<longleftrightarrow>
     (case r of
        None \<Rightarrow> False
      | Some (Ok b) \<Rightarrow> Q b
      | Some (Err b) \<Rightarrow> \<exists>s e. mdiag b = H2MirSetDiag (mdiag b0) 6 s e
      | Some Stuck \<Rightarrow> False)"

definition room :: "nat \<Rightarrow> H2MirBuilder \<Rightarrow> bool" where
  "room n b \<longleftrightarrow> length (mv b) + n \<le> mcap b \<and> mcap b * 20 \<le> mbytes b"

lemma grew_refl: "grew 0 0 b b"
  by (simp add: grew_def)

lemma grew_trans:
  assumes "grew n k a b" "grew m l b c"
  shows "grew (n + m) (k + l) a c"
proof -
  have "\<exists>is. mv c = mv a @ is \<and> (\<forall>d. exprDepth is d = Some (d + (k + l)))" if s: "msupported c"
  proof -
    from assms(2) s obtain js where "mv c = mv b @ js" "\<forall>d. exprDepth js d = Some (d + l)" "msupported b"
      by (auto simp: grew_def)
    moreover from assms(1) this(3) obtain us where "mv b = mv a @ us" "\<forall>d. exprDepth us d = Some (d + k)"
      by (auto simp: grew_def)
    ultimately show ?thesis
      by (intro exI [of _ "us @ js"]) (simp add: exprDepth_append add.assoc)
  qed
  with assms show ?thesis by (auto simp: grew_def)
qed

lemma fine_andThen: "fine b0 r P \<Longrightarrow> (\<And>b. P b \<Longrightarrow> fine b0 (k b) Q) \<Longrightarrow> fine b0 (andThen r k) Q"
  by (cases r rule: option.exhaust; cases "the r") (simp_all add: fine_def andThen_def)

lemma fine_reading: "r = Ok x \<Longrightarrow> fine b0 (k x) Q \<Longrightarrow> fine b0 (reading r k) Q"
  by (simp add: reading_def)

lemma fine_fail: "mdiag b = mdiag b0 \<Longrightarrow> fine b0 (Some (failAt b 6 s e)) Q"
  by (auto simp: fine_def failAt_def)

lemma fine_unsupported: "grew n k b0 b \<Longrightarrow> n \<le> m \<Longrightarrow> fine b0 (Some (unsupported b)) (grew m l b0)"
  by (auto simp: fine_def unsupported_def grew_def)

lemma fine_rebase:
  "fine b r (grew m l b) \<Longrightarrow> grew n k b0 b \<Longrightarrow> fine b0 r (grew (n + m) (k + l) b0)"
  using grew_trans [of n k b0 b m l] by (auto simp: fine_def grew_def split: option.splits outcome.splits)

lemma fine_emit:
  assumes "grew n k b0 b" "room (Suc n) b0" "p \<le> k" "Suc n \<le> m"
    "\<And>s e. exprPops \<lparr>iop = oper, itok = tok, iaux = aux, istart = s, iend = e\<rparr> = Some p"
  shows "fine b0 (Some (H2MirEmitInstEx b oper tok aux start endPos)) (grew m (k - p + 1) b0)"
proof (cases "msupported b")
  case False
  with assms show ?thesis by (auto simp: fine_def H2MirEmitInstEx_def grew_def)
next
  case True
  have b: "length (mv b) \<le> length (mv b0) + n" "mcap b = mcap b0" "mbytes b = mbytes b0" "mdiag b = mdiag b0"
    using assms(1) by (simp_all add: grew_def)
  have "(length (mv b) + 1) * 20 \<le> mcap b * 20" using b(1,2) assms(2) by (simp add: room_def)
  then have r: "\<not> length (mv b) \<ge> mcap b" "\<not> (length (mv b) + 1) * 20 > mbytes b"
    using b assms(2) by (simp_all add: room_def)
  let ?i = "\<lparr>iop = oper, itok = tok, iaux = aux, istart = start, iend = endPos\<rparr>"
  from assms(1) True obtain us where "mv b = mv b0 @ us" "\<forall>d. exprDepth us d = Some (d + k)" "msupported b0"
    by (auto simp: grew_def)
  then have "\<exists>js. mv b @ [?i] = mv b0 @ js \<and> (\<forall>d. exprDepth js d = Some (d + (k - p + 1)))"
    using assms(3,5) by (intro exI [of _ "us @ [?i]"]) (simp add: exprDepth_append)
  with True r b assms(1,4) \<open>msupported b0\<close> show ?thesis
    by (simp add: fine_def H2MirEmitInstEx_def grew_def)
qed

subsection \<open>Sources and shapes\<close>

text \<open>Spans the source covers, and sibling chains short enough for the argument count.\<close>

definition spanIn :: "byte list \<Rightarrow> H2AstNode \<Rightarrow> bool" where
  "spanIn bs n \<longleftrightarrow> dataStart n \<le> dataEnd n \<and> dataEnd n \<le> length bs"

definition spansOk :: "H2MirBuilder \<Rightarrow> bool" where
  "spansOk b \<longleftrightarrow>
     (\<exists>bs. msrc b = View bs \<and> length bs \<le> UINT32_MAX \<and>
        (\<forall>n\<in>set (mnodes b). spanIn bs n))"

fun chainLen :: "shape \<Rightarrow> nat" where
  "chainLen End = 0"
| "chainLen (Link kids sibs) = Suc (chainLen sibs)"

fun narrow :: "shape \<Rightarrow> bool" where
  "narrow End = True"
| "narrow (Link kids sibs) \<longleftrightarrow> Suc (chainLen sibs) < 16384 \<and> narrow kids \<and> narrow sibs"

lemma chainLen_size: "chainLen t \<le> size t"
  by (induction t) auto

subsection \<open>Reading names never leaves the source\<close>

definition answers :: "('e, 'a) outcome \<Rightarrow> bool" where
  "answers r \<longleftrightarrow> (\<exists>x. r = Ok x)"

lemma answers_Ok [simp]: "answers (Ok x)"
  by (simp add: answers_def)

lemma answers_obind: "answers r \<Longrightarrow> (\<And>x. r = Ok x \<Longrightarrow> answers (k x)) \<Longrightarrow> answers (obind r k)"
  by (auto simp: answers_def)

lemma answers_read: "s + n \<le> length bs \<Longrightarrow> (\<And>x. answers (k x)) \<Longrightarrow> answers (obind (readSpan (View bs) s n) k)"
  by simp

lemma answers_anyOf: "(\<And>x. x \<in> set xs \<Longrightarrow> answers (p x)) \<Longrightarrow> answers (anyOf p xs)"
  by (induction xs) (auto intro!: answers_obind)

lemma answers_NameEqLiteral: "answers (H2MirNameEqLiteral (View bs) s e lit)"
  unfolding H2MirNameEqLiteral_def by (intro ifI [where P = answers] answers_Ok answers_read) auto

lemma answers_NameEqLiteralOrPkgBuiltin: "answers (H2MirNameEqLiteralOrPkgBuiltin (View bs) s e lit pkg)"
  unfolding H2MirNameEqLiteralOrPkgBuiltin_def
  by (intro answers_obind answers_NameEqLiteral ifI [where P = answers] answers_Ok answers_read) auto

lemmas answers_names = answers_NameEqLiteral answers_NameEqLiteralOrPkgBuiltin

lemma answers_compiler: "answers (H2MirNameIsCompilerDiagBuiltin (View bs) s e)"
  unfolding H2MirNameIsCompilerDiagBuiltin_def by (rule answers_anyOf) (rule answers_names)

lemma answers_lazyType: "answers (H2MirNameIsLazyTypeBuiltin (View bs) s e)"
  unfolding H2MirNameIsLazyTypeBuiltin_def by (rule answers_anyOf) (rule answers_names)

lemma answers_lazy:
  assumes "firstChild (nodes ! nat i) < int (length nodes)"
  shows "answers (H2MirCallUsesLazyBuiltinLowering nodes (View bs) i)"
  unfolding H2MirCallUsesLazyBuiltinLowering_def Let_def nodeAt_def
  using assms answers_compiler answers_lazyType answers_names
  by (auto intro!: ifI [where P = answers] answers_anyOf answers_obind)

lemma answers_spanIs: "spanIn bs n \<Longrightarrow> answers (spanIs (View bs) n lit)"
  unfolding spanIs_def spanIn_def Let_def
  by (intro ifI [where P = answers] answers_Ok answers_read) auto

lemma answers_sizeOfName: "spanIn bs n \<Longrightarrow> answers (sizeOfName (View bs) n groups)"
  by (induction groups) (auto intro!: answers_obind answers_anyOf answers_spanIs)

lemma answers_BuiltinTypeSize:
  "\<forall>n\<in>set nodes. spanIn bs n \<Longrightarrow> answers (H2MirBuiltinTypeSize nodes (View bs) i)"
  unfolding H2MirBuiltinTypeSize_def Let_def
  by (intro ifI [where P = answers] answers_Ok answers_sizeOfName) (auto simp: nth_mem)

lemma answers_InferExprSize:
  assumes "\<forall>n\<in>set nodes. spanIn bs n" "linked nodes (firstChild (nodes ! nat i)) t"
  shows "answers (H2MirInferExprSize nodes (View bs) i)"
proof (cases t)
  case End
  with assms(2) show ?thesis
    by (cases "nkind (nodes ! nat i)") (simp_all add: H2MirInferExprSize_def Let_def)
next
  case (Link kids sibs)
  with assms(2) show ?thesis
    by (cases sibs; cases "nkind (nodes ! nat i)")
      (auto simp: H2MirInferExprSize_def Let_def nodeAt_def intro!: answers_BuiltinTypeSize [OF assms(1)])
qed

lemma answers_calleeIs:
  assumes "spanIn bs n" "length bs \<le> UINT32_MAX" "length lit \<le> 4"
  shows "answers (calleeIs (View bs) n lit)"
proof -
  have "dataStart n + length lit \<le> length bs" if "dataEnd n = u32 (dataStart n + length lit)"
  proof (cases "dataStart n + length lit \<le> UINT32_MAX")
    case True
    with that assms(1) show ?thesis by (simp add: spanIn_def)
  next
    case False
    have "u32 (dataStart n + length lit) < dataStart n"
      using False assms(1,2,3) unfolding spanIn_def u32_def
      by (subst mod_if) (auto simp: mod_less)
    with that assms(1) show ?thesis by (simp add: spanIn_def)
  qed
  then show ?thesis
    unfolding calleeIs_def by (intro ifI [where P = answers] answers_Ok answers_read) auto
qed

subsection \<open>The cases\<close>

text \<open>
  What the recursive call does on a linked node, in a builder with room: with enough fuel it
  returns, adds at most one instruction per node and one value.
\<close>

definition buildsTo :: "nat \<Rightarrow> buildFn \<Rightarrow> bool" where
  "buildsTo f build \<longleftrightarrow>
     (\<forall>b i kids sibs. linked (mnodes b) i (Link kids sibs) \<longrightarrow> size kids + 1 < f \<longrightarrow> narrow kids \<longrightarrow>
        room (Suc (size kids)) b \<longrightarrow> spansOk b \<longrightarrow> fine b (build b i) (grew (Suc (size kids)) 1 b))"

lemma buildsToD:
  "buildsTo f build \<Longrightarrow> linked (mnodes b) i (Link kids sibs) \<Longrightarrow> size kids + 1 < f \<Longrightarrow> narrow kids \<Longrightarrow>
   room (Suc (size kids)) b \<Longrightarrow> spansOk b \<Longrightarrow> fine b (build b i) (grew (Suc (size kids)) 1 b)"
  unfolding buildsTo_def by blast

lemma grew_frame:
  assumes "grew n k b0 b"
  shows "mnodes b = mnodes b0" "msrc b = msrc b0" "mdiag b = mdiag b0" "spansOk b \<longleftrightarrow> spansOk b0"
    "room (n + m) b0 \<Longrightarrow> room m b"
  using assms by (auto simp: grew_def room_def spansOk_def)

text \<open>One recursive call within a case.\<close>

lemma fine_build:
  assumes "buildsTo f build" "grew n k b0 b" "linked (mnodes b0) i (Link kids sibs)" "size kids + 1 < f"
    "narrow kids" "room (n + Suc (size kids)) b0" "spansOk b0"
    "\<And>b'. grew (n + Suc (size kids)) (k + 1) b0 b' \<Longrightarrow> fine b0 (cont b') Q"
  shows "fine b0 (andThen (build b i) cont) Q"
proof (rule fine_andThen [OF _ assms(8)])
  note fr = grew_frame [OF assms(2)]
  have "fine b (build b i) (grew (Suc (size kids)) 1 b)"
    by (rule buildsToD [OF assms(1) _ assms(4,5)]) (use assms(3,6,7) fr in \<open>simp_all del: linked.simps\<close>)
  then show "fine b0 (build b i) (grew (n + Suc (size kids)) (k + 1) b0)"
    by (rule fine_rebase [OF _ assms(2)])
qed

lemma fine_link:
  assumes "0 \<le> i" "i < int (length nodes)" "fine b0 (k (nodes ! nat i)) Q"
  shows "fine b0 (reading (linkAt nodes i) k) Q"
  using assms by (intro fine_reading) (simp_all add: linkAt_def nodeAt_def)

lemma fine_sibling:
  assumes "linked nodes i t" "\<And>kids sibs. t = Link kids sibs \<Longrightarrow> fine b0 (k (nextSibling (nodes ! nat i))) Q"
    "t = End \<Longrightarrow> fine b0 (k (-1)) Q"
  shows "fine b0 (reading (siblingOf nodes i) k) Q"
proof (cases t)
  case End
  with assms(1) show ?thesis
    using assms(3) by (intro fine_reading [of _ "-1"]) (simp_all add: siblingOf_def)
next
  case (Link kids sibs)
  with assms(1) show ?thesis
    using assms(2) by (intro fine_reading [of _ "nextSibling (nodes ! nat i)"]) (simp_all add: siblingOf_def nodeAt_def)
qed

lemma fine_answers: "answers r \<Longrightarrow> (\<And>x. fine b0 (k x) Q) \<Longrightarrow> fine b0 (reading r k) Q"
  by (auto simp: answers_def reading_def)

lemma fine_emitInst:
  assumes "grew n k b0 b" "room (Suc n) b0" "p \<le> k" "Suc n \<le> m"
    "\<And>t s e. exprPops \<lparr>iop = oper, itok = t, iaux = 0, istart = s, iend = e\<rparr> = Some p"
  shows "fine b0 (Some (H2MirEmitInst b oper tok start endPos)) (grew m (k - p + 1) b0)"
  unfolding H2MirEmitInst_def by (rule fine_emit [OF assms(1-4)]) (simp add: assms(5))

text \<open>Monotony of the bound, so that each case may add less than its nodes.\<close>

lemma fine_weaken: "fine b0 r (grew n k b0) \<Longrightarrow> n \<le> m \<Longrightarrow> fine b0 r (grew m k b0)"
  by (auto simp: fine_def grew_def split: option.splits outcome.splits)

lemma build_sizeof:
  assumes "linked (mnodes b) (firstChild n) kids" "room 1 b" "spansOk b"
  shows "fine b (buildSizeof b n) (grew (Suc (size kids)) 1 b)"
proof (cases kids)
  case End
  with assms(1) show ?thesis unfolding buildSizeof_def Let_def by (simp add: fine_fail)
next
  case (Link kk ss)
  obtain bs where bs: "msrc b = View bs" "\<forall>n\<in>set (mnodes b). spanIn bs n" using assms(3) by (auto simp: spansOk_def)
  have k: "0 \<le> firstChild n" "firstChild n < int (length (mnodes b))"
    "linked (mnodes b) (firstChild (mnodes b ! nat (firstChild n))) kk" using assms(1) Link by simp_all
  have fin: "fine b (case r of None \<Rightarrow> Some (unsupported b) | Some sizeValue \<Rightarrow>
      Some (H2MirEmitInstEx b H2MirOp_PUSH_INT (tokWord H2Tok_INVALID) sizeValue (nstart n) (nend n)))
      (grew (Suc (size kids)) 1 b)" for r
    using fine_unsupported [OF grew_refl, of "Suc (size kids)" b 1]
      fine_emit [OF grew_refl, of b 0 "Suc (size kids)" H2MirOp_PUSH_INT] assms(2)
    by (cases r) (simp_all add: exprPops_def)
  show ?thesis
    unfolding buildSizeof_def Let_def bs(1)
    using k answers_BuiltinTypeSize [OF bs(2)] answers_InferExprSize [OF bs(2) k(3)]
    by (intro ifI [where P = "\<lambda>r. fine b r Q" for Q] fine_answers fin) auto
qed

lemma elems_build:
  assumes "buildsTo f build"
  shows "linked (mnodes b0) child t \<Longrightarrow> grew n k b0 b \<Longrightarrow> narrow t \<Longrightarrow> size t < f \<Longrightarrow> size t < g \<Longrightarrow>
    room (n + size t) b0 \<Longrightarrow> spansOk b0 \<Longrightarrow>
    (\<And>c b'. grew (n + size t) (k + chainLen t) b0 b' \<Longrightarrow> c = Some (cnt + chainLen t) \<Longrightarrow> fine b0 (cont c b') Q) \<Longrightarrow>
    (\<And>b' n' k'. grew n' k' b0 b' \<Longrightarrow> n' \<le> n + size t \<Longrightarrow> fine b0 (cont None b') Q) \<Longrightarrow>
    fine b0 (buildElems build g b child cnt cont) Q"
proof (induction t arbitrary: child n k b cnt g)
  case End
  then obtain g' where "g = Suc g'" by (cases g) auto
  with End show ?case by simp
next
  case (Link kids sibs)
  from Link.prems(5) obtain g' where g: "g = Suc g'" by (cases g) auto
  let ?c = "mnodes b0 ! nat child"
  have c: "0 \<le> child" "child < int (length (mnodes b0))" "linked (mnodes b0) (nextSibling ?c) sibs"
    using Link.prems(1) by simp_all
  show ?case
    unfolding g buildElems.simps
  proof (subst if_not_P, use c(1) in simp, rule fine_build [OF assms Link.prems(2,1)])
    show "size kids + 1 < f" "narrow kids" "room (n + Suc (size kids)) b0" "spansOk b0"
      using Link.prems by (simp_all add: room_def)
    fix b' assume b': "grew (n + Suc (size kids)) (k + 1) b0 b'"
    have rest: "fine b0 (buildElems build g' b' (nextSibling ?c) (cnt + 1) cont) Q"
    proof (rule Link.IH(2) [OF c(3) b'])
      show "narrow sibs" "size sibs < f" "size sibs < g'" "room (n + Suc (size kids) + size sibs) b0" "spansOk b0"
        using Link.prems g by (simp_all add: add_ac)
      show "fine b0 (cont x b'') Q" if "grew (n + Suc (size kids) + size sibs) (k + 1 + chainLen sibs) b0 b''"
        "x = Some (cnt + 1 + chainLen sibs)" for x b''
        using Link.prems(8) [of b'' x] that by (simp add: add_ac)
      show "fine b0 (cont None b'') Q" if "grew n' k' b0 b''" "n' \<le> n + Suc (size kids) + size sibs" for b'' n' k'
        using Link.prems(9) [OF that(1)] that(2) by simp
    qed
    show "fine b0 (if cnt = 65535 then cont None b'
        else reading (linkAt (mnodes b') child) (\<lambda>c. buildElems build g' b' (nextSibling c) (cnt + 1) cont)) Q"
    proof (intro ifI [where P = "\<lambda>r. fine b0 r Q"])
      show "fine b0 (cont None b') Q" using Link.prems(9) [OF b'] by simp
      show "fine b0 (reading (linkAt (mnodes b') child) (\<lambda>c. buildElems build g' b' (nextSibling c) (cnt + 1) cont)) Q"
        unfolding grew_frame(1) [OF b'] by (rule fine_link [OF c(1,2)]) (rule rest)
    qed
  qed
qed

lemma narrow_chain: "narrow t \<Longrightarrow> chainLen t < 16384"
  by (cases t) auto

lemma unat_small16: "n < 65536 \<Longrightarrow> unat (of_nat n :: 16 word) = n"
  by (simp add: unat_of_nat take_bit_eq_mod)

lemma build_tuple:
  assumes "buildsTo f build" "linked (mnodes b) (firstChild n) kids" "narrow kids" "size kids < f"
    "room (Suc (size kids)) b" "spansOk b"
  shows "fine b (buildTuple build f allowed b nodeId n) (grew (Suc (size kids)) 1 b)"
  unfolding buildTuple_def
proof (rule elems_build [OF assms(1,2) grew_refl assms(3,4,4) _ assms(6)])
  show "room (0 + size kids) b" using assms(5) by (simp add: room_def)
  fix c b' assume g: "grew (0 + size kids) (0 + chainLen kids) b b'" and c: "c = Some (0 + chainLen kids)"
  have l: "unat (of_nat (chainLen kids) :: 16 word) = chainLen kids"
    using narrow_chain [OF assms(3)] by (intro unat_small16) simp
  have e: "fine b (Some (H2MirEmitInstEx b' H2MirOp_TUPLE_MAKE (of_nat (chainLen kids)) (nat nodeId) (nstart n) (nend n)))
      (grew (Suc (size kids)) (0 + chainLen kids - chainLen kids + 1) b)"
    by (rule fine_emit [OF g]) (use assms(5) l in \<open>simp_all add: exprPops_def\<close>)
  show "fine b (case c of None \<Rightarrow> Some (unsupported b')
      | Some elemCount \<Rightarrow> if elemCount = 0 \<and> \<not> allowed then Some (unsupported b')
          else Some (H2MirEmitInstEx b' H2MirOp_TUPLE_MAKE (of_nat elemCount) (nat nodeId) (nstart n) (nend n)))
      (grew (Suc (size kids)) 1 b)"
    using e fine_unsupported [OF g, of "Suc (size kids)" 1] by (simp add: c)
next
  fix b' n' k' assume "grew n' k' b b'" "n' \<le> 0 + size kids"
  then show "fine b (case None of None \<Rightarrow> Some (unsupported b')
      | Some elemCount \<Rightarrow> if elemCount = 0 \<and> \<not> allowed then Some (unsupported b')
          else Some (H2MirEmitInstEx b' H2MirOp_TUPLE_MAKE (of_nat elemCount) (nat nodeId) (nstart n) (nend n)))
      (grew (Suc (size kids)) 1 b)"
    using fine_unsupported [of n' k' b b' "Suc (size kids)" 1] by simp
qed

lemma build_unary:
  assumes "buildsTo f build" "linked (mnodes b) (firstChild n) kids" "narrow kids" "size kids < f"
    "room (Suc (size kids)) b" "spansOk b"
  shows "fine b (buildUnary build b n) (grew (Suc (size kids)) 1 b)"
proof (cases kids)
  case End
  with assms(2) fine_unsupported [OF grew_refl, of "Suc (size kids)" b 1] show ?thesis
    unfolding buildUnary_def by (simp add: fine_fail)
next
  case (Link kk ss)
  have "fine b (andThen (build b (firstChild n)) (\<lambda>b. Some (H2MirEmitInst b H2MirOp_UNARY (nop n) (nstart n) (nend n))))
      (grew (Suc (size kids)) 1 b)"
  proof (rule fine_build [OF assms(1) grew_refl assms(2) [unfolded Link]])
    show "size kk + 1 < f" "narrow kk" "room (0 + Suc (size kk)) b" "spansOk b"
      using assms Link by (simp_all add: room_def)
    fix b' assume "grew (0 + Suc (size kk)) (0 + 1) b b'"
    from fine_emitInst [OF this, of 1 "Suc (size kids)"]
    show "fine b (Some (H2MirEmitInst b' H2MirOp_UNARY (nop n) (nstart n) (nend n))) (grew (Suc (size kids)) 1 b)"
      using assms(5) Link by (simp add: exprPops_def room_def)
  qed
  with assms(2) Link fine_unsupported [OF grew_refl, of "Suc (size kids)" b 1] show ?thesis
    unfolding buildUnary_def by simp
qed

text \<open>Two operands, then an instruction that takes both.\<close>

lemma fine_two:
  assumes "buildsTo f build" "linked (mnodes b) i (Link kk (Link k2 s2))" "narrow (Link kk (Link k2 s2))"
    "size (Link kk (Link k2 s2)) < f" "room (Suc (size (Link kk (Link k2 s2)))) b" "spansOk b"
    "\<And>t s e. exprPops \<lparr>iop = oper, itok = t, iaux = 0, istart = s, iend = e\<rparr> = Some 2"
  shows "fine b (andThen (build b i) (\<lambda>b'. andThen (build b' (nextSibling (mnodes b ! nat i))) (\<lambda>b.
      Some (H2MirEmitInst b oper tok start endPos)))) (grew (Suc (size (Link kk (Link k2 s2)))) 1 b)"
proof (rule fine_build [OF assms(1) grew_refl assms(2)])
  show "size kk + 1 < f" "narrow kk" "room (0 + Suc (size kk)) b" "spansOk b"
    using assms by (simp_all add: room_def)
  fix b1 assume b1: "grew (0 + Suc (size kk)) (0 + 1) b b1"
  have l2: "linked (mnodes b) (nextSibling (mnodes b ! nat i)) (Link k2 s2)" using assms(2) by simp
  show "fine b (andThen (build b1 (nextSibling (mnodes b ! nat i))) (\<lambda>b.
      Some (H2MirEmitInst b oper tok start endPos))) (grew (Suc (size (Link kk (Link k2 s2)))) 1 b)"
  proof (rule fine_build [OF assms(1) b1 l2])
    show "size k2 + 1 < f" "narrow k2" "room (0 + Suc (size kk) + Suc (size k2)) b" "spansOk b"
      using assms by (simp_all add: room_def)
    fix b2 assume "grew (0 + Suc (size kk) + Suc (size k2)) (0 + 1 + 1) b b2"
    from fine_emitInst [OF this, of 2 "Suc (size (Link kk (Link k2 s2)))", OF _ _ _ assms(7)]
    show "fine b (Some (H2MirEmitInst b2 oper tok start endPos)) (grew (Suc (size (Link kk (Link k2 s2)))) 1 b)"
      using assms(5) by (simp add: room_def)
  qed
qed

lemma build_binary:
  assumes "buildsTo f build" "linked (mnodes b) (firstChild n) kids" "narrow kids" "size kids < f"
    "room (Suc (size kids)) b" "spansOk b"
  shows "fine b (buildBinary build b n) (grew (Suc (size kids)) 1 b)"
  unfolding buildBinary_def Let_def
proof (rule fine_sibling [OF assms(2)])
  note un = fine_unsupported [OF grew_refl, of "Suc (size kids)" b 1]
  assume "kids = End"
  with assms(2) un show "fine b (if \<not> H2MirIsAllowedBinaryToken (nop n) then Some (unsupported b)
      else if firstChild n < 0 \<or> (- 1 :: int) < 0 then Some (failAt b 6 (nstart n) (nend n))
      else andThen (build b (firstChild n)) (\<lambda>b. andThen (build b (- 1)) (\<lambda>b.
        Some (H2MirEmitInst b H2MirOp_BINARY (nop n) (nstart n) (nend n))))) (grew (Suc (size kids)) 1 b)"
    by (simp add: fine_fail)
next
  note un = fine_unsupported [OF grew_refl, of "Suc (size kids)" b 1]
  fix kk ss assume k: "kids = Link kk ss"
  let ?rhs = "nextSibling (mnodes b ! nat (firstChild n))"
  show "fine b (if \<not> H2MirIsAllowedBinaryToken (nop n) then Some (unsupported b)
      else if firstChild n < 0 \<or> ?rhs < 0 then Some (failAt b 6 (nstart n) (nend n))
      else andThen (build b (firstChild n)) (\<lambda>b. andThen (build b ?rhs) (\<lambda>b.
        Some (H2MirEmitInst b H2MirOp_BINARY (nop n) (nstart n) (nend n))))) (grew (Suc (size kids)) 1 b)"
  proof (cases ss)
    case End
    with k assms(2) un show ?thesis by (simp add: fine_fail)
  next
    case (Link k2 s2)
    have two: "fine b (andThen (build b (firstChild n)) (\<lambda>b. andThen (build b ?rhs) (\<lambda>b.
        Some (H2MirEmitInst b H2MirOp_BINARY (nop n) (nstart n) (nend n))))) (grew (Suc (size kids)) 1 b)"
      unfolding k Link
      by (rule fine_two [OF assms(1)]; (simp add: exprPops_def; fail)?) (use assms k Link in \<open>simp_all only:\<close>)
    show ?thesis
      by (intro ifI [where P = "\<lambda>r. fine b r Q" for Q] un fine_fail two) simp_all
  qed
qed

lemma build_field:
  assumes "buildsTo f build" "linked (mnodes b) (firstChild n) kids" "narrow kids" "size kids < f"
    "room (Suc (size kids)) b" "spansOk b"
  shows "fine b (buildField build b n) (grew (Suc (size kids)) 1 b)"
proof (cases kids)
  case End
  with assms(2) show ?thesis unfolding buildField_def by (simp add: fine_fail)
next
  case (Link kk ss)
  have "fine b (andThen (build b (firstChild n)) (\<lambda>b. Some (H2MirEmitInstEx b H2MirOp_AGG_GET (tokWord H2Tok_INVALID) 0
      (dataStart n) (dataEnd n)))) (grew (Suc (size kids)) 1 b)"
  proof (rule fine_build [OF assms(1) grew_refl assms(2) [unfolded Link]])
    show "size kk + 1 < f" "narrow kk" "room (0 + Suc (size kk)) b" "spansOk b"
      using assms Link by (simp_all add: room_def)
    fix b' assume "grew (0 + Suc (size kk)) (0 + 1) b b'"
    from fine_emit [OF this, of 1 "Suc (size kids)"]
    show "fine b (Some (H2MirEmitInstEx b' H2MirOp_AGG_GET (tokWord H2Tok_INVALID) 0 (dataStart n) (dataEnd n)))
        (grew (Suc (size kids)) 1 b)"
      using assms(5) Link by (simp add: exprPops_def room_def)
  qed
  with assms(2) Link show ?thesis unfolding buildField_def by simp
qed

text \<open>A node and the sibling the code has already looked up, with the shape of the chain.\<close>

definition chainAt :: "H2AstNode list \<Rightarrow> shape \<Rightarrow> int \<Rightarrow> int \<Rightarrow> bool" where
  "chainAt nodes t i sib \<longleftrightarrow>
     linked nodes i t \<and> sib = (if i \<ge> 0 then nextSibling (nodes ! nat i) else -1)"

lemma fine_sibling_chain:
  "linked nodes i t \<Longrightarrow> (\<And>sib. chainAt nodes t i sib \<Longrightarrow> fine b0 (k sib) Q) \<Longrightarrow>
   fine b0 (reading (siblingOf nodes i) k) Q"
  by (rule fine_sibling) (auto simp: chainAt_def)

lemma chainAt_cases:
  assumes "chainAt nodes t i sib"
  obtains (none) "t = End" "i < 0" "sib = -1"
  | (some) kids sibs where "t = Link kids sibs" "0 \<le> i" "i < int (length nodes)"
      "linked nodes (firstChild (nodes ! nat i)) kids" "linked nodes sib sibs" "sib = nextSibling (nodes ! nat i)"
  using assms by (cases t) (auto simp: chainAt_def)

lemma chainAt_linked: "chainAt nodes t i sib \<Longrightarrow> linked nodes i t"
  by (simp add: chainAt_def)

lemma chainAt_next:
  assumes "chainAt nodes t i sib"
  obtains t' where "linked nodes sib t'"
  using assms
proof (cases rule: chainAt_cases)
  case none
  then show ?thesis by (intro that [of End]) simp
next
  case some
  then show ?thesis by (intro that)
qed

lemma build_cast:
  assumes "buildsTo f build" "linked (mnodes b) (firstChild n) kids" "narrow kids" "size kids < f"
    "room (Suc (size kids)) b" "spansOk b"
  shows "fine b (buildCast build b n) (grew (Suc (size kids)) 1 b)"
  unfolding buildCast_def Let_def
proof (rule fine_sibling_chain [OF assms(2)])
  fix ty assume ty: "chainAt (mnodes b) kids (firstChild n) ty"
  then obtain t where t: "linked (mnodes b) ty t" by (rule chainAt_next)
  show "fine b (reading (siblingOf (mnodes b) ty) (\<lambda>extraNode.
      if firstChild n < 0 \<or> ty < 0 \<or> extraNode \<ge> 0 then Some (failAt b 6 (nstart n) (nend n))
      else if H2MirClassifyCastTarget (mnodes b) (msrc b) ty = H2MirCastTarget_INVALID then Some (unsupported b)
      else andThen (build b (firstChild n)) (\<lambda>b'. Some (H2MirEmitInstEx b' H2MirOp_CAST
        (of_nat (castTargetNum (H2MirClassifyCastTarget (mnodes b) (msrc b) ty))) (nat ty) (nstart n) (nend n)))))
      (grew (Suc (size kids)) 1 b)"
  proof (rule fine_sibling_chain [OF t])
    fix ex assume "chainAt (mnodes b) t ty ex"
    show "fine b (if firstChild n < 0 \<or> ty < 0 \<or> ex \<ge> 0 then Some (failAt b 6 (nstart n) (nend n))
      else if H2MirClassifyCastTarget (mnodes b) (msrc b) ty = H2MirCastTarget_INVALID then Some (unsupported b)
      else andThen (build b (firstChild n)) (\<lambda>b'. Some (H2MirEmitInstEx b' H2MirOp_CAST
        (of_nat (castTargetNum (H2MirClassifyCastTarget (mnodes b) (msrc b) ty))) (nat ty) (nstart n) (nend n))))
      (grew (Suc (size kids)) 1 b)" (is "fine b (if ?bad then _ else if ?inv then _ else ?go) _")
    proof (intro ifI [where P = "\<lambda>r. fine b r Q" for Q])
      show "fine b (Some (failAt b 6 (nstart n) (nend n))) (grew (Suc (size kids)) 1 b)" by (simp add: fine_fail)
      show "fine b (Some (unsupported b)) (grew (Suc (size kids)) 1 b)" by (rule fine_unsupported [OF grew_refl]) simp
      assume "\<not> ?bad"
      with ty obtain kk ss where k: "kids = Link kk ss" by (cases rule: chainAt_cases) auto
      show "fine b ?go (grew (Suc (size kids)) 1 b)"
      proof (rule fine_build [OF assms(1) grew_refl assms(2) [unfolded k]])
        show "size kk + 1 < f" "narrow kk" "room (0 + Suc (size kk)) b" "spansOk b"
          using assms k by (simp_all add: room_def)
        fix b' assume b': "grew (0 + Suc (size kk)) (0 + 1) b b'"
        show "fine b (Some (H2MirEmitInstEx b' H2MirOp_CAST
            (of_nat (castTargetNum (H2MirClassifyCastTarget (mnodes b) (msrc b) ty))) (nat ty) (nstart n) (nend n)))
            (grew (Suc (size kids)) 1 b)"
          using fine_emit [OF b', of 1 "Suc (size kids)"] assms(5) k by (simp add: exprPops_def room_def)
      qed
    qed
  qed
qed

lemma fine_bound:
  assumes "buildsTo f build" "grew n0 k b0 b" "chainAt (mnodes b0) t idx ex" "narrow t" "size t < f"
    "room (n0 + size t) b0" "spansOk b0"
    "\<And>b' t' idx' ex' m. grew m (k + (if present then 1 else 0)) b0 b' \<Longrightarrow> chainAt (mnodes b0) t' idx' ex' \<Longrightarrow>
       narrow t' \<Longrightarrow> size t' < f \<Longrightarrow> m + size t' \<le> n0 + size t \<Longrightarrow> fine b0 (cont b' idx' ex') Q"
  shows "fine b0 (buildBound build present b n idx ex cont) Q"
proof (cases present)
  case False
  with assms(8) [OF _ assms(3,4,5)] assms(2) show ?thesis by (simp add: buildBound_def)
next
  case True
  from assms(3) show ?thesis
  proof (cases rule: chainAt_cases)
    case none
    with True grew_frame(3) [OF assms(2)] show ?thesis by (simp add: buildBound_def fine_fail)
  next
    case (some kids sibs)
    have "fine b0 (andThen (build b idx) (\<lambda>b. reading (siblingOf (mnodes b) ex) (\<lambda>e. cont b ex e))) Q"
    proof (rule fine_build [OF assms(1,2) chainAt_linked [OF assms(3), unfolded some(1)]])
      show "size kids + 1 < f" "narrow kids" "room (n0 + Suc (size kids)) b0" "spansOk b0"
        using assms some(1) by (simp_all add: room_def)
      fix b' assume b': "grew (n0 + Suc (size kids)) (k + 1) b0 b'"
      show "fine b0 (reading (siblingOf (mnodes b') ex) (\<lambda>e. cont b' ex e)) Q"
        unfolding grew_frame(1) [OF b']
      proof (rule fine_sibling_chain [OF some(5)])
        fix e assume "chainAt (mnodes b0) sibs ex e"
        then show "fine b0 (cont b' ex e) Q"
          using assms(4,5) b' some(1) True by (intro assms(8) [where m = "n0 + Suc (size kids)" and t' = sibs]) simp_all
      qed
    qed
    with True some(2) show ?thesis by (simp add: buildBound_def)
  qed
qed

text \<open>The bits of a slice instruction are those of the node.\<close>

lemma sliceFlag_AND:
  fixes x :: "32 word"
  shows "(ucast (x AND (2 OR 4)) :: 16 word) AND 2 \<noteq> 0 \<longleftrightarrow> x AND 2 \<noteq> 0"
    "(ucast (x AND (2 OR 4)) :: 16 word) AND 4 \<noteq> 0 \<longleftrightarrow> x AND 4 \<noteq> 0"
proof -
  have a: "(y :: 'a::len word) AND 2 \<noteq> 0 \<longleftrightarrow> bit y 1" for y
    using and_exp_eq_0_iff_not_bit [of y 1] by simp
  have b: "(y :: 'a::len word) AND 4 \<noteq> 0 \<longleftrightarrow> bit y 2" for y
    using and_exp_eq_0_iff_not_bit [of y 2] by simp
  show "(ucast (x AND (2 OR 4)) :: 16 word) AND 2 \<noteq> 0 \<longleftrightarrow> x AND 2 \<noteq> 0"
    "(ucast (x AND (2 OR 4)) :: 16 word) AND 4 \<noteq> 0 \<longleftrightarrow> x AND 4 \<noteq> 0"
    unfolding a b by (simp_all add: bit_simps bit_numeral_rec)
qed

lemma build_slice:
  assumes "buildsTo f build" "chainAt (mnodes b) kids (firstChild n) idx" "chainAt (mnodes b) t idx ex"
    "kids = Link kk t" "narrow kids" "size kids < f" "room (Suc (size kids)) b" "spansOk b"
  shows "fine b (andThen (build b (firstChild n)) (\<lambda>b.
      buildBound build (nflags n AND H2AstFlag_INDEX_HAS_START \<noteq> 0) b n idx ex (\<lambda>b idx ex.
        buildBound build (nflags n AND H2AstFlag_INDEX_HAS_END \<noteq> 0) b n idx ex (\<lambda>b idx ex.
          if ex \<ge> 0 \<or> idx \<ge> 0 then Some (failAt b 6 (nstart n) (nend n))
          else Some (H2MirEmitInstEx b H2MirOp_SLICE_MAKE
            (ucast (nflags n AND (H2AstFlag_INDEX_HAS_START OR H2AstFlag_INDEX_HAS_END))) 0 (nstart n) (nend n))))))
    (grew (Suc (size kids)) 1 b)"
proof (rule fine_build [OF assms(1) grew_refl chainAt_linked [OF assms(2), unfolded assms(4)]])
  let ?hs = "nflags n AND H2AstFlag_INDEX_HAS_START \<noteq> 0" and ?he = "nflags n AND H2AstFlag_INDEX_HAS_END \<noteq> 0"
  let ?fl = "ucast (nflags n AND (H2AstFlag_INDEX_HAS_START OR H2AstFlag_INDEX_HAS_END)) :: 16 word"
  let ?s = "(if ?hs then 1 else 0) :: nat" and ?e = "(if ?he then 1 else 0) :: nat"
  show "size kk + 1 < f" "narrow kk" "room (0 + Suc (size kk)) b" "spansOk b"
    using assms by (simp_all add: room_def)
  fix b1 assume b1: "grew (0 + Suc (size kk)) (0 + 1) b b1"
  have pops: "exprPops \<lparr>iop = H2MirOp_SLICE_MAKE, itok = ?fl, iaux = 0, istart = s, iend = e\<rparr> = Some (1 + ?s + ?e)" for s e
  proof -
    have "exprPops \<lparr>iop = H2MirOp_SLICE_MAKE, itok = f, iaux = 0, istart = s, iend = e\<rparr> =
        Some (1 + (if f AND 2 \<noteq> 0 then 1 else 0) + (if f AND 4 \<noteq> 0 then 1 else 0))" for f
      by (simp add: exprPops_def)
    then show ?thesis by (simp only: sliceFlag_AND)
  qed
  show "fine b (buildBound build ?hs b1 n idx ex (\<lambda>b idx ex. buildBound build ?he b n idx ex (\<lambda>b idx ex.
      if ex \<ge> 0 \<or> idx \<ge> 0 then Some (failAt b 6 (nstart n) (nend n))
      else Some (H2MirEmitInstEx b H2MirOp_SLICE_MAKE ?fl 0 (nstart n) (nend n))))) (grew (Suc (size kids)) 1 b)"
  proof (rule fine_bound [OF assms(1) b1 assms(3)])
    show "narrow t" "size t < f" "room (0 + Suc (size kk) + size t) b" "spansOk b"
      using assms by (simp_all add: room_def)
    fix b2 t2 i2 e2 m2
    assume 2: "grew m2 (0 + 1 + ?s) b b2" "chainAt (mnodes b) t2 i2 e2" "narrow t2" "size t2 < f"
      "m2 + size t2 \<le> 0 + Suc (size kk) + size t"
    show "fine b (buildBound build ?he b2 n i2 e2 (\<lambda>b idx ex.
      if ex \<ge> 0 \<or> idx \<ge> 0 then Some (failAt b 6 (nstart n) (nend n))
      else Some (H2MirEmitInstEx b H2MirOp_SLICE_MAKE ?fl 0 (nstart n) (nend n)))) (grew (Suc (size kids)) 1 b)"
    proof (rule fine_bound [OF assms(1) 2(1-4)])
      show "room (m2 + size t2) b" "spansOk b" using assms 2(5) by (simp_all add: room_def)
      fix b3 t3 i3 e3 m3
      assume 3: "grew m3 (0 + 1 + ?s + ?e) b b3" "m3 + size t3 \<le> m2 + size t2"
      have r: "room (Suc m3) b" "Suc m3 \<le> Suc (size kids)" using 2(5) 3(2) assms(4,7) by (simp_all add: room_def)
      from fine_emit [OF 3(1) r(1) _ r(2) pops]
      have "fine b (Some (H2MirEmitInstEx b3 H2MirOp_SLICE_MAKE ?fl 0 (nstart n) (nend n))) (grew (Suc (size kids)) 1 b)"
        by simp
      then show "fine b (if e3 \<ge> 0 \<or> i3 \<ge> 0 then Some (failAt b3 6 (nstart n) (nend n))
          else Some (H2MirEmitInstEx b3 H2MirOp_SLICE_MAKE ?fl 0 (nstart n) (nend n))) (grew (Suc (size kids)) 1 b)"
        using grew_frame(3) [OF 3(1)] by (simp add: fine_fail)
    qed
  qed
qed

lemma build_index:
  assumes "buildsTo f build" "linked (mnodes b) (firstChild n) kids" "narrow kids" "size kids < f"
    "room (Suc (size kids)) b" "spansOk b"
  shows "fine b (buildIndex build b n) (grew (Suc (size kids)) 1 b)"
  unfolding buildIndex_def Let_def
proof (rule fine_sibling_chain [OF assms(2)])
  fix idx assume idx: "chainAt (mnodes b) kids (firstChild n) idx"
  obtain t where t: "linked (mnodes b) idx t" "kids \<noteq> End \<longrightarrow> (\<exists>kk. kids = Link kk t)"
    using idx
  proof (cases rule: chainAt_cases)
    case none
    then show ?thesis by (intro that [of End]) simp_all
  next
    case (some kk ss)
    then show ?thesis by (intro that [of ss]) simp_all
  qed
  show "fine b (reading (siblingOf (mnodes b) idx) (\<lambda>extraNode.
      if nflags n AND H2AstFlag_INDEX_SLICE \<noteq> 0 then
        (if firstChild n < 0 then Some (failAt b 6 (nstart n) (nend n))
         else andThen (build b (firstChild n)) (\<lambda>b.
           buildBound build (nflags n AND H2AstFlag_INDEX_HAS_START \<noteq> 0) b n idx extraNode (\<lambda>b idxNode extraNode.
             buildBound build (nflags n AND H2AstFlag_INDEX_HAS_END \<noteq> 0) b n idxNode extraNode (\<lambda>b idxNode extraNode.
               if extraNode \<ge> 0 \<or> idxNode \<ge> 0 then Some (failAt b 6 (nstart n) (nend n))
               else Some (H2MirEmitInstEx b H2MirOp_SLICE_MAKE
                 (ucast (nflags n AND (H2AstFlag_INDEX_HAS_START OR H2AstFlag_INDEX_HAS_END))) 0 (nstart n) (nend n))))))
      else if firstChild n < 0 \<or> idx < 0 \<or> extraNode \<ge> 0 then Some (failAt b 6 (nstart n) (nend n))
      else andThen (build b (firstChild n)) (\<lambda>b. andThen (build b idx) (\<lambda>b.
        Some (H2MirEmitInst b H2MirOp_INDEX H2Tok_INVALID (nstart n) (nend n)))))) (grew (Suc (size kids)) 1 b)"
  proof (rule fine_sibling_chain [OF t(1)], intro ifI [where P = "\<lambda>r. fine b r Q" for Q])
    fix ex assume ex: "chainAt (mnodes b) t idx ex"
    show "fine b (Some (failAt b 6 (nstart n) (nend n))) (grew (Suc (size kids)) 1 b)"
      "fine b (Some (failAt b 6 (nstart n) (nend n))) (grew (Suc (size kids)) 1 b)" by (simp_all add: fine_fail)
    {
      assume "\<not> firstChild n < 0"
      then obtain kk where "kids = Link kk t" using t(2) assms(2) by (cases kids) auto
      from build_slice [OF assms(1) idx ex this assms(3-6)]
      show "fine b (andThen (build b (firstChild n)) (\<lambda>b.
           buildBound build (nflags n AND H2AstFlag_INDEX_HAS_START \<noteq> 0) b n idx ex (\<lambda>b idxNode extraNode.
             buildBound build (nflags n AND H2AstFlag_INDEX_HAS_END \<noteq> 0) b n idxNode extraNode (\<lambda>b idxNode extraNode.
               if extraNode \<ge> 0 \<or> idxNode \<ge> 0 then Some (failAt b 6 (nstart n) (nend n))
               else Some (H2MirEmitInstEx b H2MirOp_SLICE_MAKE
                 (ucast (nflags n AND (H2AstFlag_INDEX_HAS_START OR H2AstFlag_INDEX_HAS_END))) 0 (nstart n) (nend n))))))
        (grew (Suc (size kids)) 1 b)" .
    }
    assume ok: "\<not> (firstChild n < 0 \<or> idx < 0 \<or> ex \<ge> 0)"
    then obtain kk k2 s2 where k: "kids = Link kk (Link k2 s2)" using t assms(2) by (cases kids; cases t) auto
    have i: "idx = nextSibling (mnodes b ! nat (firstChild n))" using idx k ok by (simp add: chainAt_def)
    show "fine b (andThen (build b (firstChild n)) (\<lambda>b. andThen (build b idx) (\<lambda>b.
        Some (H2MirEmitInst b H2MirOp_INDEX H2Tok_INVALID (nstart n) (nend n))))) (grew (Suc (size kids)) 1 b)"
      unfolding k i
      by (rule fine_two [OF assms(1)]; (simp add: exprPops_def; fail)?) (use assms k in \<open>simp_all only:\<close>)
  qed
qed

end
