(* ===== verification/H2MirExprThms.thy ===== *)
theory H2MirExprThms
  imports H2MirExprCases
begin

lemma grew_weaken: "grew n k b b' \<Longrightarrow> n \<le> m \<Longrightarrow> grew m k b b'"
  by (auto simp: grew_def)

text \<open>The flag bits that a call can carry, and the count below them.\<close>

definition spreadFlags :: "16 word set" where
  "spreadFlags = {0, H2MirCallArgFlag_SPREAD_LAST}"

lemma spreadFlags_OR: "fl \<in> spreadFlags \<Longrightarrow> fl OR H2MirCallArgFlag_SPREAD_LAST \<in> spreadFlags"
  by (auto simp: spreadFlags_def)

lemma argCount_of_tok:
  assumes "argc < 16384" "fl \<in> spreadFlags"
  shows "H2MirCallArgCountFromTok (of_nat argc OR fl) = argc"
proof -
  have m: "NOT H2MirCallArgFlag_MASK = mask 14" by (simp add: mask_eq_exp_minus_1)
  have "take_bit 14 fl = 0" using assms(2) by (auto simp: spreadFlags_def)
  then have "(of_nat argc OR fl) AND NOT H2MirCallArgFlag_MASK = take_bit 14 (of_nat argc)"
    unfolding m take_bit_eq_mask [symmetric] by simp
  moreover have "unat (take_bit 14 (of_nat argc :: 16 word)) = argc"
    using assms(1) unfolding unsigned_take_bit_eq by (simp add: unat_of_nat take_bit_eq_mod)
  ultimately show ?thesis by (simp only: H2MirCallArgCountFromTok_def)
qed

text \<open>The argument loop: at most one instruction per node, one value per argument.\<close>

lemma args_build:
  assumes "buildsTo f build"
  shows "linked (mnodes b0) arg t \<Longrightarrow> grew n k b0 b \<Longrightarrow> narrow t \<Longrightarrow> size t < f \<Longrightarrow> size t < g \<Longrightarrow>
    room (n + size t) b0 \<Longrightarrow> spansOk b0 \<Longrightarrow> fl \<in> spreadFlags \<Longrightarrow>
    (\<And>fl' b'. grew (n + size t) (k + chainLen t) b0 b' \<Longrightarrow> fl' \<in> spreadFlags \<Longrightarrow>
       fine b0 (cont (Some (argc + chainLen t, fl')) b') Q) \<Longrightarrow>
    (\<And>b' n' k'. grew n' k' b0 b' \<Longrightarrow> n' \<le> n + size t \<Longrightarrow> fine b0 (cont None b') Q) \<Longrightarrow>
    fine b0 (buildArgs build g b arg argc fl cont) Q"
proof (induction t arbitrary: arg n k b argc fl g)
  case End
  then obtain g' where "g = Suc g'" by (cases g) auto
  with End show ?case by simp
next
  case (Link kids sibs)
  from Link.prems(5) obtain g' where g: "g = Suc g'" by (cases g) auto
  let ?a = "mnodes b0 ! nat arg"
  have c: "0 \<le> arg" "arg < int (length (mnodes b0))" "linked (mnodes b0) (firstChild ?a) kids"
    "linked (mnodes b0) (nextSibling ?a) sibs"
    using Link.prems(1) by simp_all
  have none: "fine b0 (cont None b) Q" by (rule Link.prems(10) [OF Link.prems(2)]) simp
  have rest: "fine b0 (if argc = 65535 then cont None b'
      else buildArgs build g' b' (nextSibling ?a) (argc + 1) fl2 cont) Q"
    if b': "grew (n + Suc (size kids)) (k + 1) b0 b'" and fl2: "fl2 \<in> spreadFlags" for b' fl2
  proof (intro ifI [where P = "\<lambda>r. fine b0 r Q"])
    show "fine b0 (cont None b') Q" using Link.prems(10) [OF b'] by simp
    show "fine b0 (buildArgs build g' b' (nextSibling ?a) (argc + 1) fl2 cont) Q"
    proof (rule Link.IH(2) [OF c(4) b' _ _ _ _ Link.prems(7) fl2])
      show "narrow sibs" "size sibs < f" "size sibs < g'" "room (n + Suc (size kids) + size sibs) b0"
        using Link.prems g by (simp_all add: add_ac)
      show "fine b0 (cont (Some (argc + 1 + chainLen sibs, fl')) b'') Q"
        if "grew (n + Suc (size kids) + size sibs) (k + 1 + chainLen sibs) b0 b''" "fl' \<in> spreadFlags" for fl' b''
        using Link.prems(9) [of b'' fl'] that by (simp add: add_ac)
      show "fine b0 (cont None b'') Q" if "grew n' k' b0 b''" "n' \<le> n + Suc (size kids) + size sibs" for b'' n' k'
        using Link.prems(10) [OF that(1)] that(2) by simp
    qed
  qed
  have go: "fine b0 (andThen (build b e) (\<lambda>b'. if argc = 65535 then cont None b'
      else buildArgs build g' b' (nextSibling ?a) (argc + 1) fl2 cont)) Q"
    if e: "linked (mnodes b0) e (Link kk ss)" "size kk \<le> size kids" "narrow kk" and fl2: "fl2 \<in> spreadFlags"
    for e kk ss fl2
  proof (rule fine_build [OF assms Link.prems(2) e(1) _ e(3) _ Link.prems(7)])
    show "size kk + 1 < f" "room (n + Suc (size kk)) b0" using Link.prems e(2) by (simp_all add: room_def)
    fix b' assume "grew (n + Suc (size kk)) (k + 1) b0 b'"
    then have "grew (n + Suc (size kids)) (k + 1) b0 b'" by (rule grew_weaken) (use e(2) in simp)
    from rest [OF this fl2] show "fine b0 (if argc = 65535 then cont None b'
      else buildArgs build g' b' (nextSibling ?a) (argc + 1) fl2 cont) Q" .
  qed
  show ?case
    unfolding g buildArgs.simps
  proof (subst if_not_P, use c(1) in simp, unfold grew_frame(1) [OF Link.prems(2)], rule fine_link [OF c(1,2)],
      unfold Let_def, intro ifI [where P = "\<lambda>r. fine b0 r Q"] none)
    let ?isArg = "nkind ?a = H2Ast_CALL_ARG"
    let ?e = "if ?isArg then firstChild ?a else arg"
    let ?sp = "?isArg \<and> nflags ?a AND H2AstFlag_CALL_ARG_SPREAD \<noteq> 0"
    assume ne: "\<not> (?isArg \<and> ?e < 0)"
    have "\<exists>kk ss. linked (mnodes b0) ?e (Link kk ss) \<and> size kk \<le> size kids \<and> narrow kk"
    proof (cases ?isArg)
      case True
      with ne c(3) obtain kk ss where "kids = Link kk ss" by (cases kids) auto
      with True c(3) Link.prems(3) show ?thesis by (intro exI [of _ kk] exI [of _ ss]) simp
    next
      case False
      with Link.prems(1,3) show ?thesis by (intro exI [of _ kids] exI [of _ sibs]) simp
    qed
    then obtain kk ss where e: "linked (mnodes b0) ?e (Link kk ss)" "size kk \<le> size kids" "narrow kk" by blast
    have fl2: "(if ?sp then fl OR H2MirCallArgFlag_SPREAD_LAST else fl) \<in> spreadFlags"
      using Link.prems(8) spreadFlags_OR by simp
    show "fine b0 (andThen (build b ?e) (\<lambda>b'. if argc = 65535 then cont None b'
      else buildArgs build g' b' (nextSibling ?a) (argc + 1)
        (if ?sp then fl OR H2MirCallArgFlag_SPREAD_LAST else fl) cont)) Q"
      by (rule go [OF e fl2])
  qed
qed

lemma fine_emitCall:
  assumes "grew n argc b0 b" "argc < 16384" "fl \<in> spreadFlags" "room (Suc n) b0" "Suc n \<le> m"
  shows "fine b0 (Some (emitCall b nodeId callee isLen isCStr callFlags argc fl)) (grew m 1 b0)"
proof -
  have one: "fine b0 (Some (H2MirEmitInstEx b oper tok aux s e)) (grew m 1 b0)"
    if "argc = 1" "oper \<in> {H2MirOp_SEQ_LEN, H2MirOp_STR_CSTR}" for oper tok aux s e
    using fine_emit [OF assms(1,4) _ assms(5), of 1 oper tok aux s e] that by (auto simp: exprPops_def)
  have all: "fine b0 (Some (H2MirEmitInstEx b H2MirOp_CALL (of_nat argc OR fl) aux s e)) (grew m 1 b0)" for aux s e
    using fine_emit [OF assms(1,4) _ assms(5), of argc H2MirOp_CALL "of_nat argc OR fl" aux s e]
      argCount_of_tok [OF assms(2,3)]
    by (simp add: exprPops_def)
  show ?thesis
    unfolding emitCall_def using one all by auto
qed

lemma fine_finishCall:
  assumes "buildsTo f build" "grew n k b0 b" "linked (mnodes b0) (nextSibling callee) sibs" "narrow sibs"
    "size sibs < f" "room (Suc (n + size sibs)) b0" "spansOk b0" "k + chainLen sibs < 16384"
    "Suc (n + size sibs) \<le> m"
  shows "fine b0 (finishCall build f b nodeId callee isLazy isLen isCStr callFlags k) (grew m 1 b0)"
proof (cases isLazy)
  case True
  have "fine b0 (Some (emitCall b nodeId callee isLen isCStr callFlags k 0)) (grew m 1 b0)"
    by (rule fine_emitCall [OF assms(2)]) (use assms in \<open>simp_all add: spreadFlags_def room_def\<close>)
  with True show ?thesis by (simp add: finishCall_def)
next
  case False
  have "fine b0 (buildArgs build f b (nextSibling callee) k 0 (\<lambda>r b.
      case r of
        None \<Rightarrow> Some (unsupported b)
      | Some (argc, fl) \<Rightarrow> Some (emitCall b nodeId callee isLen isCStr callFlags argc fl))) (grew m 1 b0)"
  proof (rule args_build [OF assms(1,3,2,4,5,5) _ assms(7)])
    show "room (n + size sibs) b0" using assms(6) by (simp add: room_def)
    show "0 \<in> spreadFlags" by (simp add: spreadFlags_def)
  next
    fix fl' b' assume b': "grew (n + size sibs) (k + chainLen sibs) b0 b'" "fl' \<in> spreadFlags"
    show "fine b0 (case Some (k + chainLen sibs, fl') of
        None \<Rightarrow> Some (unsupported b')
      | Some (argc, fl) \<Rightarrow> Some (emitCall b' nodeId callee isLen isCStr callFlags argc fl)) (grew m 1 b0)"
      using fine_emitCall [OF b'(1) assms(8) b'(2) assms(6,9)] by simp
  next
    fix b' n' k' assume "grew n' k' b0 b'" "n' \<le> n + size sibs"
    then show "fine b0 (case None of
        None \<Rightarrow> Some (unsupported b')
      | Some (argc, fl) \<Rightarrow> Some (emitCall b' nodeId callee isLen isCStr callFlags argc fl)) (grew m 1 b0)"
      using fine_unsupported [of n' k' b0 b' m 1] assms(9) by simp
  qed
  with False show ?thesis by (simp add: finishCall_def)
qed

lemma build_call:
  assumes "buildsTo f build" "linked (mnodes b) (firstChild n) kids" "narrow kids" "size kids < f"
    "room (Suc (size kids)) b" "spansOk b" "n = mnodes b ! nat nodeId"
  shows "fine b (buildCall build f b nodeId n) (grew (Suc (size kids)) 1 b)"
proof -
  obtain bs where bs: "msrc b = View bs" "length bs \<le> UINT32_MAX" "\<forall>n\<in>set (mnodes b). spanIn bs n"
    using assms(6) by (auto simp: spansOk_def)
  have len: "0 < length (mnodes b) \<or> kids = End" using assms(2) by (cases kids) auto
  have "firstChild n < int (length (mnodes b))" using assms(2) len by (cases kids) auto
  then have lazy: "answers (H2MirCallUsesLazyBuiltinLowering (mnodes b) (msrc b) nodeId)"
    unfolding bs(1) using answers_lazy assms(7) by blast
  have un: "fine b (Some (unsupported b)) (grew (Suc (size kids)) 1 b)"
    by (rule fine_unsupported [OF grew_refl]) simp
  show ?thesis
    unfolding buildCall_def Let_def
  proof (rule fine_answers [OF lazy], intro ifI [where P = "\<lambda>r. fine b r Q" for Q] un)
    fix isLazy
    let ?c = "mnodes b ! nat (firstChild n)"
    assume "\<not> (firstChild n < 0 \<or> int (length (mnodes b)) \<le> firstChild n)"
    with assms(2) obtain kk sibs where k: "kids = Link kk sibs" and in_range: "nat (firstChild n) < length (mnodes b)"
      by (cases kids) auto
    have l: "linked (mnodes b) (firstChild ?c) kk" "linked (mnodes b) (nextSibling ?c) sibs" using assms(2) k by simp_all
    have cal: "answers (calleeIs (msrc b) ?c lit)" if "length lit \<le> 4" for lit
      unfolding bs(1) by (rule answers_calleeIs) (use bs in_range that in \<open>auto simp: nth_mem\<close>)
    have fin: "fine b (finishCall build f b nodeId ?c lz isLen isCStr callFlags 0) (grew (Suc (size kids)) 1 b)"
      for lz isLen isCStr callFlags
      by (rule fine_finishCall [OF assms(1) grew_refl l(2)]) (use assms k in \<open>simp_all add: room_def\<close>)
    show "fine b (reading (calleeIs (msrc b) ?c ''len'') (\<lambda>isLen. reading (calleeIs (msrc b) ?c ''cstr'') (\<lambda>isCStr.
        finishCall build f b nodeId ?c isLazy isLen isCStr 0 0))) (grew (Suc (size kids)) 1 b)"
      by (intro fine_answers cal fin) simp_all
    show "fine b (reading (calleeIs (msrc b) ?c ''cstr'') (\<lambda>isCStr.
        finishCall build f b nodeId ?c True False isCStr 0 0)) (grew (Suc (size kids)) 1 b)"
      by (intro fine_answers cal fin) simp_all
    assume "\<not> firstChild ?c < 0"
    with l(1) obtain k2 s2 where k2: "kk = Link k2 s2" by (cases kk) auto
    show "fine b (andThen (build b (firstChild ?c)) (\<lambda>b. reading (calleeIs (msrc b) ?c ''cstr'') (\<lambda>isCStr.
        finishCall build f b nodeId ?c False False isCStr H2MirSymbolFlag_CALL_RECEIVER_ARG0 1)))
        (grew (Suc (size kids)) 1 b)"
    proof (rule fine_build [OF assms(1) grew_refl l(1) [unfolded k2]])
      show "size k2 + 1 < f" "narrow k2" "room (0 + Suc (size k2)) b" "spansOk b"
        using assms k k2 by (simp_all add: room_def)
      fix b' assume b': "grew (0 + Suc (size k2)) (0 + 1) b b'"
      have "fine b (finishCall build f b' nodeId ?c False False isCStr H2MirSymbolFlag_CALL_RECEIVER_ARG0 (0 + 1))
          (grew (Suc (size kids)) 1 b)" for isCStr
        by (rule fine_finishCall [OF assms(1) b' l(2)]) (use assms k k2 in \<open>simp_all add: room_def\<close>)
      then show "fine b (reading (calleeIs (msrc b') ?c ''cstr'') (\<lambda>isCStr.
          finishCall build f b' nodeId ?c False False isCStr H2MirSymbolFlag_CALL_RECEIVER_ARG0 1))
          (grew (Suc (size kids)) 1 b)"
        unfolding grew_frame(2) [OF b'] by (intro fine_answers cal) simp_all
    qed
  qed
qed

subsection \<open>The whole expression\<close>

lemma fine_leaf:
  assumes "room 1 b" "oper \<in> {H2MirOp_PUSH_INT, H2MirOp_PUSH_FLOAT, H2MirOp_PUSH_BOOL, H2MirOp_PUSH_STRING,
    H2MirOp_PUSH_NULL, H2MirOp_LOAD_IDENT}"
  shows "fine b (Some (H2MirEmitInstEx b oper tok aux s e)) (grew (Suc m) 1 b)"
    "fine b (Some (H2MirEmitInst b oper tk s e)) (grew (Suc m) 1 b)"
proof -
  have p: "exprPops \<lparr>iop = oper, itok = t, iaux = x, istart = s, iend = e\<rparr> = Some 0" for t x s e
    using assms(2) by (auto simp: exprPops_def)
  show "fine b (Some (H2MirEmitInstEx b oper tok aux s e)) (grew (Suc m) 1 b)"
    "fine b (Some (H2MirEmitInst b oper tk s e)) (grew (Suc m) 1 b)"
    using fine_emit [OF grew_refl, of b 0 "Suc m"] fine_emitInst [OF grew_refl, of b 0 "Suc m"] assms(1) p
    by simp_all
qed

lemma buildsTo_node: "buildsTo fuel (H2MirBuildExprNode fuel)"
proof (induction fuel)
  case 0
  show ?case by (simp add: buildsTo_def)
next
  case (Suc f)
  show ?case
    unfolding buildsTo_def
  proof (intro allI impI)
    fix b i kids sibs
    assume l: "linked (mnodes b) i (Link kids sibs)" and f: "size kids + 1 < Suc f" and n: "narrow kids"
      and r: "room (Suc (size kids)) b" and s: "spansOk b"
    let ?n = "mnodes b ! nat i"
    have k: "linked (mnodes b) (firstChild ?n) kids" "size kids < f" using l f by simp_all
    have un: "fine b (Some (unsupported b)) (grew (Suc (size kids)) 1 b)"
      by (rule fine_unsupported [OF grew_refl]) simp
    have r1: "room 1 b" using r by (simp add: room_def)
    note cs = build_sizeof [OF k(1) r1 s] build_tuple [OF Suc k(1) n k(2) r s] build_call [OF Suc k(1) n k(2) r s refl]
      build_unary [OF Suc k(1) n k(2) r s] build_binary [OF Suc k(1) n k(2) r s] build_index [OF Suc k(1) n k(2) r s]
      build_field [OF Suc k(1) n k(2) r s] build_cast [OF Suc k(1) n k(2) r s]
    show "fine b (H2MirBuildExprNode (Suc f) b i) (grew (Suc (size kids)) 1 b)"
    proof (cases "msupported b")
      case False
      then show ?thesis by (simp add: fine_def grew_def)
    next
      case True
      show ?thesis
        unfolding H2MirBuildExprNode.simps Let_def
        by (intro ifI [where P = "\<lambda>r. fine b r Q" for Q]; (use l True in simp; fail)?; cases "nkind ?n";
          simp only: H2AstKind.case cs un fine_leaf [OF r1] insert_iff simp_thms)
    qed
  qed
qed

text \<open>
  What \<open>H2MirBuildExpr\<close> is asked to build: a node array small enough for the size computation, a
  linked expression that visits no more nodes than there are, and spans inside the source.
\<close>

definition exprInput :: "H2AstNode list \<Rightarrow> byte list \<Rightarrow> int \<Rightarrow> shape \<Rightarrow> bool" where
  "exprInput nodes bs nodeId t \<longleftrightarrow>
     length nodes \<le> 53687089 \<and> length bs \<le> UINT32_MAX \<and> (\<forall>n\<in>set nodes. spanIn bs n) \<and>
     linked nodes nodeId t \<and> narrow t \<and> size t \<le> length nodes"

text \<open>The answers: an error with its diagnostic, an unsupported expression, or code.\<close>

definition exprAnswer :: "H2Diag option \<Rightarrow> buildOut \<Rightarrow> bool" where
  "exprAnswer diag out \<longleftrightarrow>
     (if \<not> outOk out then outChunk out = None \<and>
        (outDiag out = H2MirSetDiag diag 141 0 0 \<or> (\<exists>s e. outDiag out = H2MirSetDiag diag 6 s e))
      else outDiag out = diag \<and>
        (case outChunk out of None \<Rightarrow> True
         | Some (v, code) \<Rightarrow> \<exists>is s e. code = is @ [\<lparr>iop = H2MirOp_RETURN, itok = tokWord H2Tok_EOF, iaux = 0, istart = s, iend = e\<rparr>] \<and>
             (\<forall>d. exprDepth is d = Some (d + 1))))"

lemma fine_returns: "fine b r Q \<Longrightarrow> \<exists>r'. r = Some r' \<and> r' \<noteq> Stuck"
  by (auto simp: fine_def split: option.splits)

lemma buildExpr_answer:
  assumes "exprInput nodes bs nodeId t" "size t < fuel" "astNodes ast = Some nodes"
  shows "\<exists>out. H2MirBuildExpr fuel arena ast (View bs) nodeId diag0 = Some (Ok out) \<and>
    exprAnswer (map_option (\<lambda>d. diagZero) diag0) out \<and>
    (\<forall>v code. outChunk out = Some (v, code) \<longrightarrow> length code \<le> length nodes + 1)"
proof -
  let ?d = "map_option (\<lambda>d. diagZero) diag0"
  let ?cap = "length nodes * 4 + 8"
  have len: "length nodes \<le> 53687089" and t: "linked nodes nodeId t" "narrow t" "size t \<le> length nodes"
    using assms(1) by (auto simp: exprInput_def)
  have cap: "u32 ?cap = ?cap" "u32 (?cap * 20) = ?cap * 20" using len by (auto intro: u32_id)
  let ?b = "\<lparr>mnodes = nodes, msrc = View bs, mv = [], mcap = ?cap, mbytes = ?cap * 20, msupported = True, mdiag = ?d\<rparr>"
  have sp: "spansOk ?b" using assms(1) by (simp add: spansOk_def exprInput_def)
  obtain r ar where alloc: "H2ArenaAlloc arena (?cap * 20) 4 = (r, ar)" by force
  have node: "fine ?b (H2MirBuildExprNode fuel ?b nodeId) (grew (size t) 1 ?b)"
  proof (cases t)
    case End
    with assms(2) t show ?thesis
      by (cases fuel) (simp_all add: fine_fail)
  next
    case (Link kids sibs)
    have "fine ?b (H2MirBuildExprNode fuel ?b nodeId) (grew (Suc (size kids)) 1 ?b)"
      by (rule buildsToD [OF buildsTo_node, where sibs = sibs]) (use t Link assms(2) sp in \<open>simp_all add: room_def\<close>)
    then show ?thesis by (rule fine_weaken) (simp add: Link)
  qed
  obtain r' where run: "H2MirBuildExprNode fuel ?b nodeId = Some r'" "r' \<noteq> Stuck"
    using fine_returns [OF node] by blast
  show ?thesis
  proof (cases r)
    case None
    with alloc assms(3) cap show ?thesis by (simp add: H2MirBuildExpr_def Let_def exprAnswer_def)
  next
    case (Some v)
    show ?thesis
    proof (cases r')
      case Stuck
      with run(2) show ?thesis by simp
    next
      case (Err b)
      with node run(1) obtain s e where "mdiag b = H2MirSetDiag ?d 6 s e" by (auto simp: fine_def)
      with Some Err run(1) alloc assms(3) cap show ?thesis
        by (auto simp: H2MirBuildExpr_def Let_def exprAnswer_def)
    next
      case (Ok b)
      with node run(1) have g: "grew (size t) 1 ?b b" by (simp add: fine_def)
      then have b: "mdiag b = ?d" "mcap b = ?cap" "mbytes b = ?cap * 20" "length (mv b) \<le> size t"
        by (simp_all add: grew_def)
      show ?thesis
      proof (cases "msupported b")
        case False
        with Some Ok run(1) alloc assms(3) cap b show ?thesis
          by (simp add: H2MirBuildExpr_def Let_def exprAnswer_def)
      next
        case True
        with g have "\<forall>d. exprDepth (mv b) d = Some (d + 1)" by (simp add: grew_def)
        with True Some Ok run(1) alloc assms(3) cap b t(3) show ?thesis
          by (simp add: H2MirBuildExpr_def Let_def exprAnswer_def H2MirEmitInst_def H2MirEmitInstEx_def)
      qed
    qed
  qed
qed

subsection \<open>Operator expressions are compiled to their postorder\<close>

text \<open>The instruction of a node with \<open>k\<close> operands.\<close>

definition nodeInst :: "H2AstNode list \<Rightarrow> int \<Rightarrow> nat \<Rightarrow> H2MirInst" where
  "nodeInst nodes i k =
     (let n = nodes ! nat i;
          leaf = (\<lambda>oper tok aux. \<lparr>iop = oper, itok = tokWord tok, iaux = aux, istart = dataStart n, iend = dataEnd n\<rparr>);
          whole = (\<lambda>oper tok aux. \<lparr>iop = oper, itok = tok, iaux = aux, istart = nstart n, iend = nend n\<rparr>)
      in case nkind n of
           H2Ast_INT \<Rightarrow> leaf H2MirOp_PUSH_INT H2Tok_INT 0
         | H2Ast_RUNE \<Rightarrow> leaf H2MirOp_PUSH_INT H2Tok_RUNE 0
         | H2Ast_FLOAT \<Rightarrow> leaf H2MirOp_PUSH_FLOAT H2Tok_FLOAT 0
         | H2Ast_BOOL \<Rightarrow> leaf H2MirOp_PUSH_BOOL H2Tok_TRUE 0
         | H2Ast_STRING \<Rightarrow> leaf H2MirOp_PUSH_STRING H2Tok_STRING 0
         | H2Ast_IDENT \<Rightarrow> leaf H2MirOp_LOAD_IDENT H2Tok_IDENT (nat i)
         | H2Ast_FIELD_EXPR \<Rightarrow> leaf H2MirOp_AGG_GET H2Tok_INVALID 0
         | H2Ast_UNARY \<Rightarrow> whole H2MirOp_UNARY (tokWord (nop n)) 0
         | H2Ast_BINARY \<Rightarrow> whole H2MirOp_BINARY (tokWord (nop n)) 0
         | H2Ast_INDEX \<Rightarrow> whole H2MirOp_INDEX (tokWord H2Tok_INVALID) 0
         | H2Ast_TUPLE_EXPR \<Rightarrow> whole H2MirOp_TUPLE_MAKE (of_nat k) (nat i)
         | H2Ast_ARRAY_LIT \<Rightarrow> whole H2MirOp_TUPLE_MAKE (of_nat k) (nat i)
         | _ \<Rightarrow> whole H2MirOp_PUSH_NULL (tokWord H2Tok_NULL) 0)"

fun postorder :: "H2AstNode list \<Rightarrow> int \<Rightarrow> shape \<Rightarrow> H2MirInst list" where
  "postorder nodes c End = []"
| "postorder nodes c (Link kids sibs) =
     postorder nodes (firstChild (nodes ! nat c)) kids @ [nodeInst nodes c (chainLen kids)] @
     postorder nodes (nextSibling (nodes ! nat c)) sibs"

text \<open>Operator expressions: each operator has the operands it needs.\<close>

definition operandsOk :: "H2AstNode \<Rightarrow> nat \<Rightarrow> bool" where
  "operandsOk n k \<longleftrightarrow>
     (if nkind n \<in> {H2Ast_INT, H2Ast_RUNE, H2Ast_FLOAT, H2Ast_BOOL, H2Ast_STRING, H2Ast_NULL, H2Ast_IDENT} then k = 0
      else if nkind n = H2Ast_UNARY then k = 1 \<and> H2MirIsAllowedUnaryToken (nop n)
      else if nkind n = H2Ast_BINARY then k = 2 \<and> H2MirIsAllowedBinaryToken (nop n)
      else if nkind n = H2Ast_INDEX then k = 2 \<and> nflags n AND H2AstFlag_INDEX_SLICE = 0
      else if nkind n = H2Ast_FIELD_EXPR then k = 1
      else if nkind n = H2Ast_TUPLE_EXPR then 1 \<le> k
      else nkind n = H2Ast_ARRAY_LIT)"

fun operatorsOnly :: "H2AstNode list \<Rightarrow> int \<Rightarrow> shape \<Rightarrow> bool" where
  "operatorsOnly nodes c End = True"
| "operatorsOnly nodes c (Link kids sibs) \<longleftrightarrow>
     operandsOk (nodes ! nat c) (chainLen kids) \<and>
     operatorsOnly nodes (firstChild (nodes ! nat c)) kids \<and> operatorsOnly nodes (nextSibling (nodes ! nat c)) sibs"

definition emitted :: "H2MirBuilder \<Rightarrow> H2MirInst list \<Rightarrow> H2MirBuilder" where
  "emitted b is = b\<lparr>mv := mv b @ is\<rparr>"

lemma emitted_simps [simp]:
  "mnodes (emitted b is) = mnodes b" "msrc (emitted b is) = msrc b" "msupported (emitted b is) = msupported b"
  "mdiag (emitted b is) = mdiag b" "emitted (emitted b is) js = emitted b (is @ js)" "emitted b [] = b"
  "mv (emitted b is) = mv b @ is"
  "room n (emitted b is) \<longleftrightarrow> room (length is + n) b"
  by (simp_all add: emitted_def room_def add_ac)

lemma length_postorder [simp]: "length (postorder nodes c t) = size t"
  by (induction t arbitrary: c) simp_all

lemma emit_emitted:
  assumes "msupported b" "room 1 b"
  shows "H2MirEmitInstEx b oper tok aux s e =
    Ok (emitted b [\<lparr>iop = oper, itok = tok, iaux = aux, istart = s, iend = e\<rparr>])"
proof -
  have "(length (mv b) + 1) * 20 \<le> mcap b * 20" using assms(2) by (simp add: room_def)
  with assms show ?thesis by (simp add: H2MirEmitInstEx_def emitted_def room_def)
qed

definition compiles :: "nat \<Rightarrow> buildFn \<Rightarrow> bool" where
  "compiles f build \<longleftrightarrow>
     (\<forall>b i kids sibs. linked (mnodes b) i (Link kids sibs) \<longrightarrow> operatorsOnly (mnodes b) i (Link kids End) \<longrightarrow>
        size kids + 1 < f \<longrightarrow> narrow kids \<longrightarrow> msupported b \<longrightarrow> room (Suc (size kids)) b \<longrightarrow>
        build b i = Some (Ok (emitted b (postorder (mnodes b) i (Link kids End)))))"

text \<open>The node at the head of a chain; what remains is the chain of its siblings.\<close>

lemma compiles_next:
  assumes "compiles f build" "linked (mnodes b) i (Link kids sibs)" "operatorsOnly (mnodes b) i (Link kids sibs)"
    "size kids + 1 < f" "narrow kids" "msupported b" "room (length is + Suc (size kids)) b"
  shows "andThen (build (emitted b is) i) cont =
    cont (emitted b (is @ postorder (mnodes b) (firstChild (mnodes b ! nat i)) kids @ [nodeInst (mnodes b) i (chainLen kids)]))"
proof -
  have "build (emitted b is) i = Some (Ok (emitted (emitted b is) (postorder (mnodes (emitted b is)) i (Link kids End))))"
    using assms unfolding compiles_def by (metis emitted_simps(1,3,8) operatorsOnly.simps)
  then show ?thesis by (simp add: andThen_def)
qed

lemma compile_elems:
  assumes "compiles f build"
  shows "linked (mnodes b) c t \<Longrightarrow> operatorsOnly (mnodes b) c t \<Longrightarrow> narrow t \<Longrightarrow> size t < f \<Longrightarrow> size t < g \<Longrightarrow>
    msupported b \<Longrightarrow> room (length is + size t) b \<Longrightarrow> cnt + chainLen t < 65536 \<Longrightarrow>
    buildElems build g (emitted b is) c cnt cont = cont (Some (cnt + chainLen t)) (emitted b (is @ postorder (mnodes b) c t))"
proof (induction t arbitrary: c "is" cnt g)
  case End
  then obtain g' where "g = Suc g'" by (cases g) auto
  with End show ?case by simp
next
  case (Link kids sibs)
  from Link.prems(5) obtain g' where g: "g = Suc g'" by (cases g) auto
  let ?n = "mnodes b ! nat c"
  have c: "0 \<le> c" "c < int (length (mnodes b))" using Link.prems(1) by simp_all
  let ?is = "is @ postorder (mnodes b) (firstChild ?n) kids @ [nodeInst (mnodes b) c (chainLen kids)]"
  have "buildElems build g' (emitted b ?is) (nextSibling ?n) (cnt + 1) cont =
      cont (Some (cnt + 1 + chainLen sibs)) (emitted b (?is @ postorder (mnodes b) (nextSibling ?n) sibs))"
    by (rule Link.IH(2)) (use Link.prems g in \<open>simp_all add: room_def\<close>)
  moreover have first: "andThen (build (emitted b is) c) k = k (emitted b ?is)" for k
    by (rule compiles_next [OF assms Link.prems(1,2)]) (use Link.prems in \<open>simp_all add: room_def\<close>)
  moreover have "buildElems build g (emitted b is) c cnt cont = buildElems build g' (emitted b ?is) (nextSibling ?n) (cnt + 1) cont"
    using c Link.prems(8) by (simp add: g first reading_def linkAt_def nodeAt_def)
  ultimately show ?case by simp
qed

text \<open>One and two operands.\<close>

lemma chainLen_0 [simp]: "chainLen t = 0 \<longleftrightarrow> t = End"
  by (cases t) auto

lemma chainLen_1: "chainLen t = Suc 0 \<longleftrightarrow> (\<exists>kk. t = Link kk End)"
  by (cases t; cases "case t of End \<Rightarrow> End | Link a s \<Rightarrow> s") auto

lemma chainLen_2: "chainLen t = 2 \<longleftrightarrow> (\<exists>kk k2. t = Link kk (Link k2 End))"
  by (cases t; cases "case t of End \<Rightarrow> End | Link a s \<Rightarrow> s") (auto simp: chainLen_1 numeral_2_eq_2)

lemma compile_one:
  assumes "compiles f build" "linked (mnodes b) c t" "operatorsOnly (mnodes b) c t" "size t < f" "narrow t"
    "msupported b" "room (size t) b" "chainLen t = 1"
  shows "andThen (build b c) cont = cont (emitted b (postorder (mnodes b) c t))"
proof -
  obtain kk where t: "t = Link kk End" using assms(8) by (auto simp: chainLen_1)
  have "andThen (build (emitted b []) c) cont =
      cont (emitted b ([] @ postorder (mnodes b) (firstChild (mnodes b ! nat c)) kk @ [nodeInst (mnodes b) c (chainLen kk)]))"
    by (rule compiles_next [OF assms(1), where sibs = End]) (use assms(2-7) t in simp_all)
  then show ?thesis by (simp add: t)
qed

lemma compile_two:
  assumes "compiles f build" "linked (mnodes b) c t" "operatorsOnly (mnodes b) c t" "size t < f" "narrow t"
    "msupported b" "room (size t) b" "chainLen t = 2"
  shows "andThen (build b c) (\<lambda>b'. andThen (build b' (nextSibling (mnodes b ! nat c))) cont) =
      cont (emitted b (postorder (mnodes b) c t))"
    "0 \<le> c" "0 \<le> nextSibling (mnodes b ! nat c)" "nextSibling (mnodes b ! nat c) < int (length (mnodes b))"
    "nextSibling (mnodes b ! nat (nextSibling (mnodes b ! nat c))) < 0" "c < int (length (mnodes b))"
proof -
  obtain kk k2 where t: "t = Link kk (Link k2 End)" using assms(8) by (auto simp: chainLen_2)
  let ?o = "\<lambda>i k. postorder (mnodes b) (firstChild (mnodes b ! nat i)) k @ [nodeInst (mnodes b) i (chainLen k)]"
  let ?r = "nextSibling (mnodes b ! nat c)"
  have 1: "andThen (build (emitted b []) c) (\<lambda>b'. andThen (build b' ?r) cont) = andThen (build (emitted b ([] @ ?o c kk)) ?r) cont"
    by (rule compiles_next [OF assms(1), where sibs = "Link k2 End"]) (use assms(2-7) t in \<open>simp_all add: room_def\<close>)
  have 2: "andThen (build (emitted b (?o c kk)) ?r) cont = cont (emitted b (?o c kk @ ?o ?r k2))"
    by (rule compiles_next [OF assms(1), where sibs = End]) (use assms(2-7) t in \<open>simp_all add: room_def\<close>)
  show "andThen (build b c) (\<lambda>b'. andThen (build b' ?r) cont) = cont (emitted b (postorder (mnodes b) c t))"
    using 1 2 by (simp add: t)
  show "0 \<le> c" "0 \<le> ?r" "?r < int (length (mnodes b))" "nextSibling (mnodes b ! nat ?r) < 0" "c < int (length (mnodes b))"
    using assms(2) t by simp_all
qed

lemma compiles_node: "compiles fuel (H2MirBuildExprNode fuel)"
proof (induction fuel)
  case 0
  show ?case by (simp add: compiles_def)
next
  case (Suc f)
  show ?case
    unfolding compiles_def
  proof (intro allI impI)
    fix b i kids sibs
    assume l: "linked (mnodes b) i (Link kids sibs)" and o: "operatorsOnly (mnodes b) i (Link kids End)"
      and f: "size kids + 1 < Suc f" and n: "narrow kids" and s: "msupported b" and r: "room (Suc (size kids)) b"
    let ?n = "mnodes b ! nat i"
    let ?p = "postorder (mnodes b) (firstChild ?n) kids"
    have k: "linked (mnodes b) (firstChild ?n) kids" "operatorsOnly (mnodes b) (firstChild ?n) kids" "size kids < f"
      "room (size kids) b" "operandsOk ?n (chainLen kids)"
      using l o f r by (simp_all add: room_def)
    have pos: "\<not> firstChild ?n < 0" if "chainLen kids = Suc 0" using that k(1) by (auto simp: chainLen_1)
    have em: "H2MirEmitInstEx (emitted b ?p) oper tok aux st en =
        Ok (emitted b (?p @ [\<lparr>iop = oper, itok = tok, iaux = aux, istart = st, iend = en\<rparr>]))" for oper tok aux st en
      using s r by (simp add: emit_emitted)
    note one = compile_one [OF Suc k(1,2,3) n s k(4), unfolded One_nat_def] and two = compile_two [OF Suc k(1,2,3) n s k(4)]
    have elems: "buildElems (H2MirBuildExprNode f) f b (firstChild ?n) 0 cont = cont (Some (chainLen kids)) (emitted b ?p)" for cont
      using compile_elems [OF Suc k(1,2) n k(3,3) s, of "[]" 0 cont] k(4) narrow_chain [OF n] by simp
    show "H2MirBuildExprNode (Suc f) b i = Some (Ok (emitted b (postorder (mnodes b) i (Link kids End))))"
      using l s k(5) r
      by (auto simp: operandsOk_def nodeInst_def Let_def H2MirEmitInst_def buildUnary_def buildBinary_def buildIndex_def
        buildField_def buildTuple_def siblingOf_def reading_def nodeAt_def emit_emitted room_def
        pos one two(1) elems em dest: two(2-6) split: if_splits)
  qed
qed

subsection \<open>Properties\<close>

text \<open>C23: On a linked expression the builder of expression code returns with fuel for the nodes of
  the expression: it never reads outside the nodes or the source nor writes past the instruction
  array, and the only errors are a missing operand and memory refused by the arena, reported
  in the diagnostic.\<close>
theorem mir_expr_total:
  assumes "exprInput nodes bs nodeId t" "size t < fuel" "astNodes ast = Some nodes"
  shows "\<exists>out. H2MirBuildExpr fuel arena ast (View bs) nodeId diag0 = Some (Ok out) \<and>
    (outOk out \<and> outDiag out = map_option (\<lambda>d. diagZero) diag0 \<or>
     \<not> outOk out \<and> outChunk out = None \<and>
       (\<exists>code\<in>{6, 141}. \<exists>s e. outDiag out = H2MirSetDiag (map_option (\<lambda>d. diagZero) diag0) code s e))"
  using buildExpr_answer [OF assms, of arena diag0]
  by (fastforce simp: exprAnswer_def split: if_splits)

text \<open>C7: The code built for a linked expression is stack code the interpreter can run: every
  instruction finds the values it takes, the code before the final return leaves exactly one
  value whatever was on the stack before, and there is at most one instruction per node beside the return.\<close>
theorem mir_expr_stack_code:
  assumes "exprInput nodes bs nodeId t" "size t < fuel" "astNodes ast = Some nodes"
    "H2MirBuildExpr fuel arena ast (View bs) nodeId diag0 = Some (Ok out)" "outChunk out = Some (v, code)"
  shows "iop (last code) = H2MirOp_RETURN \<and> exprDepth (butlast code) d = Some (d + 1) \<and>
    length code \<le> length nodes + 1"
  using buildExpr_answer [OF assms(1-3), of arena diag0] assms(4,5)
  by (auto simp: exprAnswer_def split: if_splits)

lemma buildExpr_postorder:
  assumes "exprInput nodes bs nodeId (Link kids sibs)" "operatorsOnly nodes nodeId (Link kids End)"
    "size kids + 1 < fuel" "astNodes ast = Some nodes"
    "H2ArenaAlloc arena ((length nodes * 4 + 8) * 20) 4 = (Some v, ar)"
  shows "H2MirBuildExpr fuel arena ast (View bs) nodeId diag0 = Some (Ok
    \<lparr>outOk = True, outArena = ar,
     outChunk = Some (v, postorder nodes nodeId (Link kids End) @
       [\<lparr>iop = H2MirOp_RETURN, itok = tokWord H2Tok_EOF, iaux = 0,
         istart = nstart (nodes ! nat nodeId), iend = nend (nodes ! nat nodeId)\<rparr>]),
     outDiag = map_option (\<lambda>d. diagZero) diag0\<rparr>)"
proof -
  let ?cap = "length nodes * 4 + 8"
  let ?b = "\<lparr>mnodes = nodes, msrc = View bs, mv = [], mcap = ?cap, mbytes = ?cap * 20, msupported = True,
    mdiag = map_option (\<lambda>d. diagZero) diag0\<rparr>"
  have len: "length nodes \<le> 53687089" and t: "linked nodes nodeId (Link kids sibs)" "narrow kids"
      "Suc (size kids) \<le> length nodes"
    using assms(1) by (auto simp: exprInput_def)
  have cap: "u32 ?cap = ?cap" "u32 (?cap * 20) = ?cap * 20" using len by (auto intro: u32_id)
  have room: "room n ?b" if "n \<le> ?cap" for n using that by (simp add: room_def)
  have run: "H2MirBuildExprNode fuel ?b nodeId = Some (Ok (emitted ?b (postorder nodes nodeId (Link kids End))))"
    using compiles_node [of fuel, unfolded compiles_def, rule_format, of ?b nodeId kids sibs] assms(2,3) t room
    by simp
  have "H2MirEmitInst (emitted ?b (postorder nodes nodeId (Link kids End))) H2MirOp_RETURN H2Tok_EOF st en =
      Ok (emitted (emitted ?b (postorder nodes nodeId (Link kids End)))
        [\<lparr>iop = H2MirOp_RETURN, itok = tokWord H2Tok_EOF, iaux = 0, istart = st, iend = en\<rparr>])" for st en
    unfolding H2MirEmitInst_def
    by (rule emit_emitted) (use t room in simp_all)
  then show ?thesis
    using assms(4,5) t run cap by (simp add: H2MirBuildExpr_def Let_def)
qed

text \<open>C10: For an expression of literals, names and operators the code is the postorder traversal of
  the syntax tree, one instruction per node with the operator and the span of the node, and then the return.\<close>
theorem mir_expr_postorder:
  assumes "exprInput nodes bs nodeId (Link kids sibs)" "operatorsOnly nodes nodeId (Link kids End)"
    "size kids + 1 < fuel" "astNodes ast = Some nodes"
    "H2ArenaAlloc arena ((length nodes * 4 + 8) * 20) 4 = (Some v, ar)"
  shows "H2MirBuildExpr fuel arena ast (View bs) nodeId diag0 = Some (Ok
    \<lparr>outOk = True, outArena = ar,
     outChunk = Some (v, postorder nodes nodeId (Link kids End) @
       [\<lparr>iop = H2MirOp_RETURN, itok = tokWord H2Tok_EOF, iaux = 0,
         istart = nstart (nodes ! nat nodeId), iend = nend (nodes ! nat nodeId)\<rparr>]),
     outDiag = map_option (\<lambda>d. diagZero) diag0\<rparr>)"
  by (rule buildExpr_postorder [OF assms])

text \<open>\<open>-a + 2\<close>: nodes 0 (binary), 1 (unary), 2 (identifier), 3 (literal).\<close>

definition exExprNode :: "H2AstKind \<Rightarrow> H2TokenKind \<Rightarrow> int \<Rightarrow> int \<Rightarrow> nat \<Rightarrow> nat \<Rightarrow> H2AstNode" where
  "exExprNode k oper child sib s e = \<lparr>nstart = s, nend = e, firstChild = child, nextSibling = sib, dataStart = s,
     dataEnd = e, nop = oper, nkind = k, nflags = 0\<rparr>"

definition exExpr :: "H2AstNode list" where
  "exExpr = [exExprNode H2Ast_BINARY H2Tok_ADD 1 (-1) 0 6, exExprNode H2Ast_UNARY H2Tok_SUB 2 3 0 2,
     exExprNode H2Ast_IDENT H2Tok_INVALID (-1) (-1) 1 2, exExprNode H2Ast_INT H2Tok_INVALID (-1) (-1) 5 6]"

lemma exExpr_input:
  "exprInput exExpr (cstr ''-a + 2'') 0 (Link (Link (Link End End) (Link End End)) End)"
  by (simp add: exprInput_def exExpr_def exExprNode_def spanIn_def cstr_def)

definition exExprAst :: H2Ast where
  "exExprAst = \<lparr>astNodes = Some exExpr, astRoot = 0, astFeatures = 0\<rparr>"

lemma mir_expr_total_witness:
  "H2MirBuildExpr 6 (H2ArenaInit 64 4096) exExprAst (View (cstr ''-a + 2'')) 0 (Some diagZero) \<noteq> None"
  using mir_expr_total [OF exExpr_input, of 6 exExprAst "H2ArenaInit 64 4096" "Some diagZero"]
  by (auto simp: exExprAst_def)

lemma exExpr_shape: "size (Link (Link (Link End End) (Link End End)) End) < (6 :: nat)"
  by simp

lemma exExpr_run:
  "\<exists>out. H2MirBuildExpr 6 (H2ArenaInit 64 4096) exExprAst (View (cstr ''-a + 2'')) 0 None = Some (Ok out) \<and>
     map_option (map iop \<circ> snd) (outChunk out) =
       Some [H2MirOp_LOAD_IDENT, H2MirOp_UNARY, H2MirOp_PUSH_INT, H2MirOp_BINARY, H2MirOp_RETURN]"
proof -
  have "case H2MirBuildExpr 6 (H2ArenaInit 64 4096) exExprAst (View (cstr ''-a + 2'')) 0 None of
      Some (Ok out) \<Rightarrow> map_option (map iop \<circ> snd) (outChunk out) =
        Some [H2MirOp_LOAD_IDENT, H2MirOp_UNARY, H2MirOp_PUSH_INT, H2MirOp_BINARY, H2MirOp_RETURN]
    | _ \<Rightarrow> False"
    by code_simp
  then show ?thesis by (auto split: option.splits outcome.splits)
qed

lemma mir_expr_stack_code_witness:
  "\<exists>v code. map_option outChunk (case H2MirBuildExpr 6 (H2ArenaInit 64 4096) exExprAst (View (cstr ''-a + 2'')) 0 None of
      Some (Ok out) \<Rightarrow> Some out | _ \<Rightarrow> None) = Some (Some (v, code)) \<and>
     exprDepth (butlast code) 3 = Some 4"
proof -
  obtain out where out: "H2MirBuildExpr 6 (H2ArenaInit 64 4096) exExprAst (View (cstr ''-a + 2'')) 0 None = Some (Ok out)"
    "outChunk out \<noteq> None"
    using exExpr_run by fastforce
  then obtain v code where c: "outChunk out = Some (v, code)" by auto
  show ?thesis
    using mir_expr_stack_code [OF exExpr_input exExpr_shape _ out(1) c, of 3] out(1) c by (simp add: exExprAst_def)
qed

lemma mir_expr_postorder_witness:
  "\<exists>out. H2MirBuildExpr 6 (H2ArenaInit 64 4096) exExprAst (View (cstr ''-a + 2'')) 0 None = Some (Ok out) \<and>
     map_option (map iaux \<circ> snd) (outChunk out) = Some [2, 0, 0, 0, 0]"
proof -
  let ?al = "H2ArenaAlloc (H2ArenaInit 64 4096) ((length exExpr * 4 + 8) * 20) 4"
  have "fst ?al = Some 64" by code_simp
  then have a: "?al = (Some 64, snd ?al)" by (metis prod.collapse)
  have o: "operatorsOnly exExpr 0 (Link (Link (Link End End) (Link End End)) End)" by code_simp
  have p: "map iaux (postorder exExpr 0 (Link (Link (Link End End) (Link End End)) End)) = [2, 0, 0, 0]" by code_simp
  show ?thesis
    using mir_expr_postorder [OF exExpr_input o _ _ a, of 6 exExprAst None] p by (simp add: exExprAst_def)
qed

end
