(* ===== verification/H2Double.thy ===== *)
theory H2Double
  imports H2Prelude
begin

text \<open>
  The \<open>double\<close> of the C code: IEEE 754 binary64, round to nearest, ties to even, each
  operation rounded on its own. A double is its bit pattern, so that storing one in the bits of
  a constant is the identity. The operations decode their operands to exact values, compute
  exactly on integers, and round once. A NaN result is the quiet NaN with a clear sign; nothing
  in the code depends on the sign or payload of a NaN.
\<close>

type_synonym f64 = "64 word"

text \<open>A finite double is \<open>(-1)^s * m * 2^e\<close>.\<close>

datatype (plugins only: code size) dbl = NaN | Infinite bool | Finite bool nat int

definition f64Decode :: "f64 \<Rightarrow> dbl" where
  "f64Decode w =
     (let s = bit w 63; e = unat (drop_bit 52 (take_bit 63 w)); m = unat (take_bit 52 w)
      in if e = 2047 then (if m = 0 then Infinite s else NaN)
         else if e = 0 then Finite s m (-1074)
         else Finite s (m + 2 ^ 52) (int e - 1075))"

definition f64Pack :: "bool \<Rightarrow> nat \<Rightarrow> f64" where
  "f64Pack s n = of_nat (n + (if s then 2 ^ 63 else 0))"

definition f64NaN :: f64 where
  "f64NaN = 0x7FF8000000000000"

definition f64Inf :: "bool \<Rightarrow> f64" where
  "f64Inf s = f64Pack s (2047 * 2 ^ 52)"

fun ilog2 :: "nat \<Rightarrow> nat" where
  "ilog2 n = (if n < 2 then 0 else Suc (ilog2 (n div 2)))"

declare ilog2.simps [simp del]

text \<open>\<open>num * 2^e\<close> and \<open>den\<close> scaled to naturals.\<close>

definition scaleUp :: "nat \<Rightarrow> int \<Rightarrow> nat" where
  "scaleUp n e = n * 2 ^ nat e"

text \<open>The exponent of the last place of \<open>num / den\<close>, not below that of the subnormals.\<close>

definition quantum :: "nat \<Rightarrow> nat \<Rightarrow> int" where
  "quantum num den =
     (let e = int (ilog2 num) - int (ilog2 den);
          below = scaleUp num (- e) < scaleUp den e
      in max ((if below then e - 1 else e) - 52) (-1074))"

definition roundDiv :: "nat \<Rightarrow> nat \<Rightarrow> nat" where
  "roundDiv n d =
     (let q = n div d; r = n mod d in if 2 * r > d \<or> 2 * r = d \<and> odd q then q + 1 else q)"

text \<open>
  The double nearest to \<open>(-1)^s * num / den\<close>. A carry out of the mantissa runs into the
  exponent field, which is the next binade or infinity.
\<close>

definition f64Round :: "bool \<Rightarrow> nat \<Rightarrow> nat \<Rightarrow> f64" where
  "f64Round s num den =
     (if num = 0 then f64Pack s 0
      else
        (let q = quantum num den;
             m = roundDiv (scaleUp num (- q)) (scaleUp den q);
             n = nat (q + 1074) * 2 ^ 52 + m
         in if n \<ge> 2047 * 2 ^ 52 then f64Inf s else f64Pack s n))"

definition f64OfInt :: "int \<Rightarrow> f64" where
  "f64OfInt i = f64Round (i < 0) (nat \<bar>i\<bar>) 1"

text \<open>\<open>m * 2^e\<close> as a fraction.\<close>

definition f64RoundDyadic :: "bool \<Rightarrow> nat \<Rightarrow> int \<Rightarrow> f64" where
  "f64RoundDyadic s m e = (if m = 0 then f64Pack s 0 else f64Round s (scaleUp m e) (scaleUp 1 (- e)))"

definition signed :: "bool \<Rightarrow> nat \<Rightarrow> int" where
  "signed s m = (if s then - int m else int m)"

definition f64Neg :: "f64 \<Rightarrow> f64" where
  "f64Neg w = w XOR 0x8000000000000000"

definition f64Add :: "f64 \<Rightarrow> f64 \<Rightarrow> f64" where
  "f64Add x y =
     (case (f64Decode x, f64Decode y) of
        (NaN, _) \<Rightarrow> f64NaN
      | (_, NaN) \<Rightarrow> f64NaN
      | (Infinite s, Infinite t) \<Rightarrow> if s = t then f64Inf s else f64NaN
      | (Infinite s, Finite _ _ _) \<Rightarrow> f64Inf s
      | (Finite _ _ _, Infinite t) \<Rightarrow> f64Inf t
      | (Finite s m e, Finite t n f) \<Rightarrow>
          (if m = 0 \<and> n \<noteq> 0 then y
           else if n = 0 \<and> m \<noteq> 0 then x
           else let g = min e f; sum = signed s (scaleUp m (e - g)) + signed t (scaleUp n (f - g))
           in if sum = 0 then f64Pack (s \<and> t) 0 else f64RoundDyadic (sum < 0) (nat \<bar>sum\<bar>) g))"

definition f64Sub :: "f64 \<Rightarrow> f64 \<Rightarrow> f64" where
  "f64Sub x y = f64Add x (f64Neg y)"

definition f64Mul :: "f64 \<Rightarrow> f64 \<Rightarrow> f64" where
  "f64Mul x y =
     (case (f64Decode x, f64Decode y) of
        (NaN, _) \<Rightarrow> f64NaN
      | (_, NaN) \<Rightarrow> f64NaN
      | (Infinite s, Infinite t) \<Rightarrow> f64Inf (s \<noteq> t)
      | (Infinite s, Finite t n f) \<Rightarrow> if n = 0 then f64NaN else f64Inf (s \<noteq> t)
      | (Finite s m e, Infinite t) \<Rightarrow> if m = 0 then f64NaN else f64Inf (s \<noteq> t)
      | (Finite s m e, Finite t n f) \<Rightarrow> f64RoundDyadic (s \<noteq> t) (m * n) (e + f))"

definition f64Div :: "f64 \<Rightarrow> f64 \<Rightarrow> f64" where
  "f64Div x y =
     (case (f64Decode x, f64Decode y) of
        (NaN, _) \<Rightarrow> f64NaN
      | (_, NaN) \<Rightarrow> f64NaN
      | (Infinite s, Infinite t) \<Rightarrow> f64NaN
      | (Infinite s, Finite t n f) \<Rightarrow> f64Inf (s \<noteq> t)
      | (Finite s m e, Infinite t) \<Rightarrow> f64Pack (s \<noteq> t) 0
      | (Finite s m e, Finite t n f) \<Rightarrow>
          (if n = 0 then (if m = 0 then f64NaN else f64Inf (s \<noteq> t))
           else f64Round (s \<noteq> t) (scaleUp m (e - f)) (scaleUp n (f - e))))"

text \<open>Comparisons; every one with a NaN is false but \<open>!=\<close>.\<close>

datatype (plugins only: code size) ordering = Less | Equal | Greater | Unordered

definition f64Compare :: "f64 \<Rightarrow> f64 \<Rightarrow> ordering" where
  "f64Compare x y =
     (case (f64Decode x, f64Decode y) of
        (NaN, _) \<Rightarrow> Unordered
      | (_, NaN) \<Rightarrow> Unordered
      | (Infinite s, Infinite t) \<Rightarrow> if s = t then Equal else if s then Less else Greater
      | (Infinite s, Finite _ _ _) \<Rightarrow> if s then Less else Greater
      | (Finite _ _ _, Infinite t) \<Rightarrow> if t then Greater else Less
      | (Finite s m e, Finite t n f) \<Rightarrow>
          (let a = signed s (scaleUp m (e - f)); b = signed t (scaleUp n (f - e))
           in if a < b then Less else if a = b then Equal else Greater))"

definition f64Eq :: "f64 \<Rightarrow> f64 \<Rightarrow> bool" where
  "f64Eq x y \<longleftrightarrow> f64Compare x y = Equal"

definition f64Lt :: "f64 \<Rightarrow> f64 \<Rightarrow> bool" where
  "f64Lt x y \<longleftrightarrow> f64Compare x y = Less"

definition f64Le :: "f64 \<Rightarrow> f64 \<Rightarrow> bool" where
  "f64Le x y \<longleftrightarrow> f64Compare x y = Less \<or> f64Compare x y = Equal"

text \<open>Conversion to a 64-bit integer truncates; outside the range of the type it is undefined.\<close>

definition f64Trunc :: "f64 \<Rightarrow> int option" where
  "f64Trunc x =
     (case f64Decode x of
        NaN \<Rightarrow> None
      | Infinite s \<Rightarrow> None
      | Finite s m e \<Rightarrow> Some (signed s (scaleUp m e div scaleUp 1 (- e))))"

end
