(* ===== verification/H2Ctfe.thy ===== *)
theory H2Ctfe
  imports H2MirExpr H2Double "HOL-Library.Signed_Division"
begin

text \<open>
  Values of the constant evaluator (\<open>src/ctfe.h\<close>) and the operations of \<open>src/mir_exec.c\<close> on
  them: literals, equality, unary and binary operators, casts. Pointers in values are addresses
  into a memory of bytes and of values, so that aliasing is the same as in the C code. Reading
  where nothing was written is \<open>Stuck\<close>.
\<close>

subsection \<open>Values\<close>

datatype (plugins only: code size) H2CTFEValueKind =
    H2CTFEValue_INVALID | H2CTFEValue_INT | H2CTFEValue_FLOAT | H2CTFEValue_BOOL
  | H2CTFEValue_STRING | H2CTFEValue_TYPE | H2CTFEValue_SPAN | H2CTFEValue_NULL
  | H2CTFEValue_OPTIONAL | H2CTFEValue_AGGREGATE | H2CTFEValue_ARRAY | H2CTFEValue_REFERENCE

record H2CTFEString =
  sbytes :: "nat option"
  slen :: nat

record H2CTFESpan =
  fileBytes :: "nat option"
  fileLen :: nat
  startLine :: nat
  startColumn :: nat
  endLine :: nat
  endColumn :: nat

record H2CTFEValue =
  vkind :: H2CTFEValueKind
  vi64 :: "64 word"
  vf64 :: f64
  vb :: byte
  vtag :: "64 word"
  vs :: H2CTFEString
  vspan :: H2CTFESpan

abbreviation (input) sizeof_H2CTFEValue :: nat where
  "sizeof_H2CTFEValue \<equiv> 88"

abbreviation (input) H2CTFEValueTag_AGG_PARTIAL :: "64 word" where
  "H2CTFEValueTag_AGG_PARTIAL \<equiv> 0x0200000000000000"

definition H2CTFEValueInvalid :: H2CTFEValue where
  "H2CTFEValueInvalid =
     \<lparr>vkind = H2CTFEValue_INVALID, vi64 = 0, vf64 = 0, vb = 0, vtag = 0,
      vs = \<lparr>sbytes = None, slen = 0\<rparr>,
      vspan = \<lparr>fileBytes = None, fileLen = 0, startLine = 0, startColumn = 0, endLine = 0, endColumn = 0\<rparr>\<rparr>"

definition H2CTFEValueToInt64 :: "H2CTFEValue \<Rightarrow> 64 word option" where
  "H2CTFEValueToInt64 v = (if vkind v \<noteq> H2CTFEValue_INT then None else Some (vi64 v))"

definition intValue :: "64 word \<Rightarrow> H2CTFEValue" where
  "intValue i = H2CTFEValueInvalid\<lparr>vkind := H2CTFEValue_INT, vi64 := i\<rparr>"

definition boolByte :: "bool \<Rightarrow> byte" where
  "boolByte b = (if b then 1 else 0)"

subsection \<open>Memory\<close>

text \<open>
  The arena the evaluator allocates from, what its memory holds (bytes, values, and the counts
  and arrays of closures), the diagnostic the callers handed in, and the state \<open>'x\<close> that only the
  callbacks of the environment see.
\<close>

record 'x H2Mem =
  marena :: H2Arena
  hbytes :: "nat \<Rightarrow> byte option"
  hvals :: "nat \<Rightarrow> H2CTFEValue option"
  hclosures :: "nat \<Rightarrow> (nat \<times> nat option) option"
  hdiag :: "H2Diag option"
  hext :: 'x

text \<open>How a computation ends early: the C function returns, or the fuel of the model is used up.\<close>

datatype (plugins only: code size) 'r stop = Returned 'r | OutOfFuel

definition H2CTFESetDiag :: "'x H2Mem \<Rightarrow> nat \<Rightarrow> nat \<Rightarrow> nat \<Rightarrow> 'x H2Mem" where
  "H2CTFESetDiag m code start endPos = m\<lparr>hdiag := H2MirSetDiag (hdiag m) code start endPos\<rparr>"

text \<open>The \<open>n\<close> items of a given size from an address on; the same for a store.\<close>

fun loadAll :: "nat \<Rightarrow> (nat \<Rightarrow> 'a option) \<Rightarrow> nat \<Rightarrow> nat \<Rightarrow> 'a list option" where
  "loadAll width h p 0 = Some []"
| "loadAll width h p (Suc n) =
     (case h p of None \<Rightarrow> None | Some x \<Rightarrow> map_option ((#) x) (loadAll width h (p + width) n))"

definition readBytes :: "'x H2Mem \<Rightarrow> nat option \<Rightarrow> nat \<Rightarrow> ('e, byte list) outcome" where
  "readBytes m ptr n =
     (if n = 0 then Ok []
      else case ptr of
        None \<Rightarrow> Stuck
      | Some p \<Rightarrow> (case loadAll 1 (hbytes m) p n of None \<Rightarrow> Stuck | Some bs \<Rightarrow> Ok bs))"

definition readText :: "'x H2Mem \<Rightarrow> H2CTFEString \<Rightarrow> ('e, byte list) outcome" where
  "readText m s = readBytes m (sbytes s) (slen s)"

text \<open>A view by address as text. A NULL pointer is handed on; an unreadable view is \<open>Stuck\<close>.\<close>

definition readView :: "'x H2Mem \<Rightarrow> viewRef \<Rightarrow> ('e, H2StrView) outcome" where
  "readView m v =
     (case v of
        (None, n) \<Rightarrow> Ok (NullView n)
      | (Some p, n) \<Rightarrow> obind (readBytes m (Some p) n) (\<lambda>bs. Ok (View bs)))"

fun storeAll :: "nat \<Rightarrow> (nat \<Rightarrow> 'a option) \<Rightarrow> nat \<Rightarrow> 'a list \<Rightarrow> (nat \<Rightarrow> 'a option)" where
  "storeAll width h p [] = h"
| "storeAll width h p (x # xs) = storeAll width (h(p := Some x)) (p + width) xs"

definition writeBytes :: "nat \<Rightarrow> byte list \<Rightarrow> 'x H2Mem \<Rightarrow> 'x H2Mem" where
  "writeBytes p bs m = m\<lparr>hbytes := storeAll 1 (hbytes m) p bs\<rparr>"

fun viewBytes :: "H2StrView \<Rightarrow> (byte list \<Rightarrow> ('e, 'a) outcome) \<Rightarrow> ('e, 'a) outcome" where
  "viewBytes (NullView n) k = Stuck"
| "viewBytes (View bs) k = k bs"

text \<open>The decoded bytes of a string literal are in the buffer the decoder allocated.\<close>

definition storeBuf :: "H2ArenaByteBuf \<Rightarrow> 'x H2Mem \<Rightarrow> 'x H2Mem" where
  "storeBuf buf m =
     (let m' = m\<lparr>marena := bufArena buf\<rparr>
      in case bufV buf of None \<Rightarrow> m' | Some p \<Rightarrow> writeBytes p (bufBytes buf) m')"

definition readValue :: "'x H2Mem \<Rightarrow> nat \<Rightarrow> ('e, H2CTFEValue) outcome" where
  "readValue m p = (case hvals m p of None \<Rightarrow> Stuck | Some v \<Rightarrow> Ok v)"

definition readArray :: "'x H2Mem \<Rightarrow> nat option \<Rightarrow> nat \<Rightarrow> ('e, H2CTFEValue list) outcome" where
  "readArray m ptr n =
     (if n = 0 then Ok []
      else case ptr of
        None \<Rightarrow> Stuck
      | Some p \<Rightarrow> (case loadAll sizeof_H2CTFEValue (hvals m) p n of None \<Rightarrow> Stuck | Some xs \<Rightarrow> Ok xs))"

definition writeValue :: "nat \<Rightarrow> H2CTFEValue \<Rightarrow> 'x H2Mem \<Rightarrow> 'x H2Mem" where
  "writeValue p v m = m\<lparr>hvals := (hvals m)(p := Some v)\<rparr>"

definition writeValues :: "nat \<Rightarrow> H2CTFEValue list \<Rightarrow> 'x H2Mem \<Rightarrow> 'x H2Mem" where
  "writeValues p xs m = m\<lparr>hvals := storeAll sizeof_H2CTFEValue (hvals m) p xs\<rparr>"

subsection \<open>Literals\<close>

text \<open>
  The bytes of a literal. The range is checked first; a NULL source with a length is read
  anyway.
\<close>

definition literalText :: "H2StrView \<Rightarrow> nat \<Rightarrow> nat \<Rightarrow> (byte list \<Rightarrow> ('e, 'a option) outcome) \<Rightarrow> ('e, 'a option) outcome" where
  "literalText src start endPos k =
     (if endPos \<le> start \<or> endPos > viewLen src then Ok None
      else obind (readSpan src start (endPos - start)) k)"

definition digitValue :: "nat \<Rightarrow> byte \<Rightarrow> nat option" where
  "digitValue base c =
     (if c \<ge> ch CHR ''0'' \<and> c \<le> ch CHR ''9'' then Some (unat (c - ch CHR ''0''))
      else if base = 16 \<and> c \<ge> ch CHR ''a'' \<and> c \<le> ch CHR ''f'' then Some (10 + unat (c - ch CHR ''a''))
      else if base = 16 \<and> c \<ge> ch CHR ''A'' \<and> c \<le> ch CHR ''F'' then Some (10 + unat (c - ch CHR ''A''))
      else None)"

abbreviation (input) INT64_MAX :: nat where
  "INT64_MAX \<equiv> 9223372036854775807"

fun intDigits :: "nat \<Rightarrow> nat \<Rightarrow> byte list \<Rightarrow> nat option" where
  "intDigits base v [] = Some v"
| "intDigits base v (c # cs) =
     (case digitValue base c of
        None \<Rightarrow> None
      | Some digit \<Rightarrow>
          (if digit \<ge> base then None
           else if v > INT64_MAX div base \<or> v = INT64_MAX div base \<and> digit > INT64_MAX mod base then None
           else intDigits base (v * base + digit) cs))"

definition isHexPrefix :: "byte list \<Rightarrow> bool" where
  "isHexPrefix text \<longleftrightarrow> length text \<ge> 3 \<and> text ! 0 = ch CHR ''0'' \<and> (text ! 1 = ch CHR ''x'' \<or> text ! 1 = ch CHR ''X'')"

definition H2CTFEParseIntLiteral :: "H2StrView \<Rightarrow> nat \<Rightarrow> nat \<Rightarrow> ('e, 64 word option) outcome" where
  "H2CTFEParseIntLiteral src start endPos =
     literalText src start endPos (\<lambda>text.
       Ok (map_option of_nat
             (if isHexPrefix text then intDigits 16 0 (drop 2 text) else intDigits 10 0 text)))"

definition isDigit :: "byte \<Rightarrow> bool" where
  "isDigit c \<longleftrightarrow> c \<ge> ch CHR ''0'' \<and> c \<le> ch CHR ''9''"

definition f64Ten :: f64 where
  "f64Ten = 0x4024000000000000"

definition f64Tenth :: f64 where
  "f64Tenth = 0x3FB999999999999A"

definition digitDouble :: "byte \<Rightarrow> f64" where
  "digitDouble c = f64OfInt (int (unat (c - ch CHR ''0'')))"

text \<open>The three loops over digits: each answers its result and the rest of the text.\<close>

fun wholeDigits :: "f64 \<Rightarrow> byte list \<Rightarrow> f64 \<times> byte list" where
  "wholeDigits v [] = (v, [])"
| "wholeDigits v (c # cs) =
     (if isDigit c then wholeDigits (f64Add (f64Mul v f64Ten) (digitDouble c)) cs else (v, c # cs))"

fun fractionDigits :: "f64 \<Rightarrow> f64 \<Rightarrow> byte list \<Rightarrow> f64 \<times> byte list" where
  "fractionDigits v place [] = (v, [])"
| "fractionDigits v place (c # cs) =
     (if isDigit c then fractionDigits (f64Add v (f64Mul (digitDouble c) place)) (f64Mul place f64Tenth) cs
      else (v, c # cs))"

fun exponentDigits :: "nat \<Rightarrow> byte list \<Rightarrow> (nat \<times> byte list) option" where
  "exponentDigits e [] = Some (e, [])"
| "exponentDigits e (c # cs) =
     (if isDigit c then
        (if e > UINT32_MAX div 10 then None
         else exponentDigits (u32 (e * 10 + unat (c - ch CHR ''0''))) cs)
      else Some (e, c # cs))"

definition scaleTen :: "bool \<Rightarrow> nat \<Rightarrow> f64 \<Rightarrow> f64" where
  "scaleTen down n v = ((\<lambda>v. if down then f64Div v f64Ten else f64Mul v f64Ten) ^^ n) v"

text \<open>The exponent part: \<open>None\<close> when it is malformed.\<close>

definition exponentPart :: "byte list \<Rightarrow> (bool \<times> nat \<times> byte list) option" where
  "exponentPart text =
     (case text of
        c # cs \<Rightarrow>
          (if c = ch CHR ''e'' \<or> c = ch CHR ''E'' then
             (let down = (cs \<noteq> [] \<and> hd cs = ch CHR ''-'');
                  ds = (if cs \<noteq> [] \<and> (hd cs = ch CHR ''+'' \<or> hd cs = ch CHR ''-'') then tl cs else cs)
              in if ds = [] \<or> \<not> isDigit (hd ds) then None
                 else map_option (Pair down) (exponentDigits 0 ds))
           else Some (False, 0, text))
      | [] \<Rightarrow> Some (False, 0, []))"

definition H2CTFEParseFloatLiteral :: "H2StrView \<Rightarrow> nat \<Rightarrow> nat \<Rightarrow> ('e, f64 option) outcome" where
  "H2CTFEParseFloatLiteral src start endPos =
     literalText src start endPos (\<lambda>text. Ok (
       let (v1, r1) = wholeDigits 0 text;
           frac = (r1 \<noteq> [] \<and> hd r1 = ch CHR ''.'');
           (v2, r2) = (if frac then fractionDigits v1 f64Tenth (tl r1) else (v1, r1));
           sawDigit = (length r1 < length text \<or> frac \<and> length r2 < length (tl r1))
       in if \<not> sawDigit then None
          else case exponentPart r2 of
            None \<Rightarrow> None
          | Some (down, n, rest) \<Rightarrow> if rest \<noteq> [] then None else Some (scaleTen down n v2)))"

text \<open>No range check here.\<close>

definition H2CTFEParseBoolLiteral :: "H2StrView \<Rightarrow> nat \<Rightarrow> nat \<Rightarrow> ('e, byte option) outcome" where
  "H2CTFEParseBoolLiteral src start endPos =
     (let len = (if endPos > start then endPos - start else 0)
      in obind (if len = 4 then readSpan src start 4 else Ok []) (\<lambda>s.
           if len = 4 \<and> s = cstr ''true'' then Ok (Some 1)
           else obind (if len = 5 then readSpan src start 5 else Ok []) (\<lambda>s.
             if len = 5 \<and> s = cstr ''false'' then Ok (Some 0) else Ok None)))"

subsection \<open>Strings, optionals and equality\<close>

definition H2CTFEStringEq :: "'x H2Mem \<Rightarrow> H2CTFEString \<Rightarrow> H2CTFEString \<Rightarrow> ('e, bool) outcome" where
  "H2CTFEStringEq m a b =
     (if slen a \<noteq> slen b then Ok False
      else if slen a = 0 then Ok True
      else obind (readText m a) (\<lambda>x. obind (readText m b) (\<lambda>y. Ok (x = y))))"

text \<open>\<open>None\<close> is the answer 0; else the pointer to the payload, if any.\<close>

definition H2CTFEOptionalPayload :: "H2CTFEValue \<Rightarrow> nat option option" where
  "H2CTFEOptionalPayload opt =
     (if vkind opt \<noteq> H2CTFEValue_OPTIONAL then None
      else if vb opt = 0 then Some None
      else if sbytes (vs opt) = None then None
      else Some (sbytes (vs opt)))"

definition spanEq :: "'x H2Mem \<Rightarrow> H2CTFESpan \<Rightarrow> H2CTFESpan \<Rightarrow> ('e, bool) outcome" where
  "spanEq m a b =
     (if startLine a \<noteq> startLine b \<or> startColumn a \<noteq> startColumn b \<or> endLine a \<noteq> endLine b \<or>
         endColumn a \<noteq> endColumn b \<or> fileLen a \<noteq> fileLen b then Ok False
      else if fileLen a = 0 then Ok True
      else if fileBytes a = None \<or> fileBytes b = None then Ok False
      else obind (readBytes m (fileBytes a) (fileLen a)) (\<lambda>x.
           obind (readBytes m (fileBytes b) (fileLen b)) (\<lambda>y. Ok (x = y))))"

text \<open>\<open>left\<close> is \<open>33 - depth\<close>: the recursion stops at depth 33.\<close>

fun eqRec :: "nat \<Rightarrow> 'x H2Mem \<Rightarrow> H2CTFEValue \<Rightarrow> H2CTFEValue \<Rightarrow> ('e, bool) outcome" where
  "eqRec 0 m a b = Ok False"
| "eqRec (Suc left) m a b =
     (if vkind a \<noteq> vkind b then Ok False
      else case vkind a of
        H2CTFEValue_INT \<Rightarrow> Ok (vi64 a = vi64 b)
      | H2CTFEValue_FLOAT \<Rightarrow> Ok (f64Eq (vf64 a) (vf64 b))
      | H2CTFEValue_BOOL \<Rightarrow> Ok (vb a = vb b)
      | H2CTFEValue_STRING \<Rightarrow> H2CTFEStringEq m (vs a) (vs b)
      | H2CTFEValue_TYPE \<Rightarrow> Ok (vtag a = vtag b)
      | H2CTFEValue_SPAN \<Rightarrow> spanEq m (vspan a) (vspan b)
      | H2CTFEValue_NULL \<Rightarrow> Ok True
      | H2CTFEValue_OPTIONAL \<Rightarrow>
          (case (H2CTFEOptionalPayload a, H2CTFEOptionalPayload b) of
             (Some (Some p), Some (Some q)) \<Rightarrow>
               obind (readValue m p) (\<lambda>x. obind (readValue m q) (\<lambda>y. eqRec left m x y))
           | (Some _, Some _) \<Rightarrow> Ok (vb a = vb b)
           | _ \<Rightarrow> Ok False)
      | _ \<Rightarrow> Ok False)"

definition H2CTFEValueEqRec :: "'x H2Mem \<Rightarrow> H2CTFEValue \<Rightarrow> H2CTFEValue \<Rightarrow> nat \<Rightarrow> ('e, bool) outcome" where
  "H2CTFEValueEqRec m a b depth = eqRec (33 - depth) m a b"

text \<open>\<open>None\<close> is -1.\<close>

definition H2CTFEStringConcat ::
  "'x H2Mem \<Rightarrow> H2CTFEString \<Rightarrow> H2CTFEString \<Rightarrow> ('e, H2CTFEString option \<times> 'x H2Mem) outcome" where
  "H2CTFEStringConcat m a b =
     (let total = slen a + slen b
      in if total > UINT32_MAX then Ok (None, m)
         else if total = 0 then Ok (Some \<lparr>sbytes = None, slen = 0\<rparr>, m)
         else case H2ArenaAlloc (marena m) total 1 of
           (None, ar) \<Rightarrow> Ok (None, H2CTFESetDiag (m\<lparr>marena := ar\<rparr>) 141 0 0)
         | (Some p, ar) \<Rightarrow>
             obind (readText m a) (\<lambda>x. obind (readText m b) (\<lambda>y.
               Ok (Some \<lparr>sbytes = Some p, slen = total\<rparr>, writeBytes p (x @ y) (m\<lparr>marena := ar\<rparr>)))))"

subsection \<open>Operators\<close>

text \<open>The answer 1 is \<open>Some\<close>, 0 is \<open>None\<close>. Operators are token numbers, as in an instruction.\<close>

definition H2CTFEEvalUnary :: "16 word \<Rightarrow> H2CTFEValue \<Rightarrow> H2CTFEValue option" where
  "H2CTFEEvalUnary oper v =
     (if oper = tokWord H2Tok_ADD \<and> vkind v = H2CTFEValue_INT then Some v
      else if oper = tokWord H2Tok_ADD \<and> vkind v = H2CTFEValue_FLOAT then Some v
      else if oper = tokWord H2Tok_SUB \<and> vkind v = H2CTFEValue_INT then
        (if sint (vi64 v) = - 9223372036854775808 then None else Some (intValue (- vi64 v)))
      else if oper = tokWord H2Tok_SUB \<and> vkind v = H2CTFEValue_FLOAT then
        Some (H2CTFEValueInvalid\<lparr>vkind := H2CTFEValue_FLOAT, vf64 := f64Neg (vf64 v)\<rparr>)
      else if oper = tokWord H2Tok_NOT \<and> vkind v = H2CTFEValue_BOOL then
        Some (H2CTFEValueInvalid\<lparr>vkind := H2CTFEValue_BOOL, vb := (if vb v \<noteq> 0 then 0 else 1)\<rparr>)
      else None)"

definition H2CTFEValueToF64 :: "H2CTFEValue \<Rightarrow> f64 option" where
  "H2CTFEValueToF64 v =
     (if vkind v = H2CTFEValue_INT then Some (f64OfInt (sint (vi64 v)))
      else if vkind v = H2CTFEValue_FLOAT then Some (vf64 v)
      else None)"

text \<open>
  \<open>__builtin_add_overflow\<close> and its relatives: the exact result, unless it does not fit. The
  portable bodies, for compilers without these builtins, follow as written.
\<close>

definition fits64 :: "int \<Rightarrow> bool" where
  "fits64 i \<longleftrightarrow> - 9223372036854775808 \<le> i \<and> i \<le> 9223372036854775807"

definition checked64 :: "int \<Rightarrow> 64 word option" where
  "checked64 i = (if fits64 i then Some (word_of_int i) else None)"

definition H2CTFEAddI64 :: "64 word \<Rightarrow> 64 word \<Rightarrow> 64 word option" where
  "H2CTFEAddI64 a b = checked64 (sint a + sint b)"

definition H2CTFESubI64 :: "64 word \<Rightarrow> 64 word \<Rightarrow> 64 word option" where
  "H2CTFESubI64 a b = checked64 (sint a - sint b)"

definition H2CTFEMulI64 :: "64 word \<Rightarrow> 64 word \<Rightarrow> 64 word option" where
  "H2CTFEMulI64 a b = checked64 (sint a * sint b)"

abbreviation (input) I64MAX :: int where "I64MAX \<equiv> 9223372036854775807"
abbreviation (input) I64MIN :: int where "I64MIN \<equiv> - 9223372036854775808"

definition portableAddI64 :: "64 word \<Rightarrow> 64 word \<Rightarrow> 64 word option" where
  "portableAddI64 wa wb =
     (let a = sint wa; b = sint wb
      in if (b > 0 \<and> a > I64MAX - b) \<or> (b < 0 \<and> a < I64MIN - b) then None else Some (wa + wb))"

definition portableSubI64 :: "64 word \<Rightarrow> 64 word \<Rightarrow> 64 word option" where
  "portableSubI64 wa wb =
     (let a = sint wa; b = sint wb
      in if (b > 0 \<and> a < I64MIN + b) \<or> (b < 0 \<and> a > I64MAX + b) then None else Some (wa - wb))"

definition portableMulI64 :: "64 word \<Rightarrow> 64 word \<Rightarrow> 64 word option" where
  "portableMulI64 wa wb =
     (let a = sint wa; b = sint wb
      in if a = 0 \<or> b = 0 then Some 0
         else if a = -1 \<and> b = I64MIN then None
         else if b = -1 \<and> a = I64MIN then None
         else if a > 0 then
           (if b > 0 then (if a > I64MAX sdiv b then None else Some (wa * wb))
            else if b < I64MIN sdiv a then None else Some (wa * wb))
         else
           (if b > 0 then (if a < I64MIN sdiv b then None else Some (wa * wb))
            else if a \<noteq> 0 \<and> b < I64MAX sdiv a then None else Some (wa * wb)))"

definition boolValue :: "bool \<Rightarrow> H2CTFEValue" where
  "boolValue b = H2CTFEValueInvalid\<lparr>vkind := H2CTFEValue_BOOL, vb := boolByte b\<rparr>"

definition evalIntOp :: "16 word \<Rightarrow> 64 word \<Rightarrow> 64 word \<Rightarrow> H2CTFEValue option" where
  "evalIntOp oper a b =
     (let tok = (\<lambda>t. oper = tokWord t); shiftOk = (0 \<le> sint b \<and> sint b \<le> 63 \<and> 0 \<le> sint a);
          divOk = (b \<noteq> 0 \<and> \<not> (sint a = I64MIN \<and> sint b = -1))
      in if tok H2Tok_ADD then map_option intValue (H2CTFEAddI64 a b)
         else if tok H2Tok_SUB then map_option intValue (H2CTFESubI64 a b)
         else if tok H2Tok_MUL then map_option intValue (H2CTFEMulI64 a b)
         else if tok H2Tok_DIV then (if divOk then Some (intValue (word_of_int (sint a sdiv sint b))) else None)
         else if tok H2Tok_MOD then (if divOk then Some (intValue (word_of_int (sint a smod sint b))) else None)
         else if tok H2Tok_AND then Some (intValue (a AND b))
         else if tok H2Tok_OR then Some (intValue (a OR b))
         else if tok H2Tok_XOR then Some (intValue (a XOR b))
         else if tok H2Tok_LSHIFT then (if shiftOk then Some (intValue (push_bit (unat b) a)) else None)
         else if tok H2Tok_RSHIFT then (if shiftOk then Some (intValue (drop_bit (unat b) a)) else None)
         else if tok H2Tok_EQ then Some (boolValue (a = b))
         else if tok H2Tok_NEQ then Some (boolValue (a \<noteq> b))
         else if tok H2Tok_LT then Some (boolValue (sint a < sint b))
         else if tok H2Tok_GT then Some (boolValue (sint a > sint b))
         else if tok H2Tok_LTE then Some (boolValue (sint a \<le> sint b))
         else if tok H2Tok_GTE then Some (boolValue (sint a \<ge> sint b))
         else None)"

definition evalBoolOp :: "16 word \<Rightarrow> byte \<Rightarrow> byte \<Rightarrow> H2CTFEValue option" where
  "evalBoolOp oper a b =
     (let tok = (\<lambda>t. oper = tokWord t)
      in if tok H2Tok_LOGICAL_AND then Some (boolValue (a \<noteq> 0 \<and> b \<noteq> 0))
         else if tok H2Tok_LOGICAL_OR then Some (boolValue (a \<noteq> 0 \<or> b \<noteq> 0))
         else if tok H2Tok_EQ then Some (boolValue (a = b))
         else if tok H2Tok_NEQ then Some (boolValue (a \<noteq> b))
         else None)"

text \<open>\<open>memcmp\<close> on two lists of the same length, and the comparison of strings.\<close>

fun compareBytes :: "byte list \<Rightarrow> byte list \<Rightarrow> ordering" where
  "compareBytes (a # as) (b # bs) = (if a < b then Less else if a > b then Greater else compareBytes as bs)"
| "compareBytes _ _ = Equal"

definition compareStrings :: "'x H2Mem \<Rightarrow> H2CTFEString \<Rightarrow> H2CTFEString \<Rightarrow> ('e, ordering) outcome" where
  "compareStrings m a b =
     (let n = min (slen a) (slen b)
      in obind (readBytes m (sbytes a) n) (\<lambda>x. obind (readBytes m (sbytes b) n) (\<lambda>y.
           Ok (let c = compareBytes x y
               in if c = Equal \<and> slen a \<noteq> slen b then (if slen a < slen b then Less else Greater) else c))))"

definition evalStringOp ::
  "'x H2Mem \<Rightarrow> 16 word \<Rightarrow> H2CTFEString \<Rightarrow> H2CTFEString \<Rightarrow> ('e, H2CTFEValue option \<times> 'x H2Mem) outcome" where
  "evalStringOp m oper a b =
     (let tok = (\<lambda>t. oper = tokWord t)
      in obind (compareStrings m a b) (\<lambda>c.
           if tok H2Tok_ADD then
             obind (H2CTFEStringConcat m a b) (\<lambda>(s, m').
               Ok (map_option (\<lambda>s. H2CTFEValueInvalid\<lparr>vkind := H2CTFEValue_STRING, vs := s\<rparr>) s, m'))
           else if tok H2Tok_EQ then obind (H2CTFEStringEq m a b) (\<lambda>r. Ok (Some (boolValue r), m))
           else if tok H2Tok_NEQ then obind (H2CTFEStringEq m a b) (\<lambda>r. Ok (Some (boolValue (\<not> r)), m))
           else if tok H2Tok_LT then Ok (Some (boolValue (c = Less)), m)
           else if tok H2Tok_GT then Ok (Some (boolValue (c = Greater)), m)
           else if tok H2Tok_LTE then Ok (Some (boolValue (c \<noteq> Greater)), m)
           else if tok H2Tok_GTE then Ok (Some (boolValue (c \<noteq> Less)), m)
           else Ok (None, m)))"

text \<open>
  From here on \<open>out\<close> may hold what the callback left in it, so its other fields are kept.
\<close>

definition setBool :: "H2CTFEValue \<Rightarrow> bool \<Rightarrow> H2CTFEValue" where
  "setBool out b = out\<lparr>vkind := H2CTFEValue_BOOL, vb := boolByte b\<rparr>"

definition evalFloatOp :: "16 word \<Rightarrow> f64 \<Rightarrow> f64 \<Rightarrow> H2CTFEValue \<Rightarrow> H2CTFEValue option" where
  "evalFloatOp oper a b out =
     (let tok = (\<lambda>t. oper = tokWord t); flt = (\<lambda>x. Some (out\<lparr>vkind := H2CTFEValue_FLOAT, vf64 := x\<rparr>))
      in if tok H2Tok_ADD then flt (f64Add a b)
         else if tok H2Tok_SUB then flt (f64Sub a b)
         else if tok H2Tok_MUL then flt (f64Mul a b)
         else if tok H2Tok_DIV then flt (f64Div a b)
         else if tok H2Tok_EQ then Some (setBool out (f64Eq a b))
         else if tok H2Tok_NEQ then Some (setBool out (\<not> f64Eq a b))
         else if tok H2Tok_LT then Some (setBool out (f64Lt a b))
         else if tok H2Tok_GT then Some (setBool out (f64Lt b a))
         else if tok H2Tok_LTE then Some (setBool out (f64Le a b))
         else if tok H2Tok_GTE then Some (setBool out (f64Le b a))
         else None)"

type_synonym 'x binaryHook =
  "'x H2Mem \<Rightarrow> 16 word \<Rightarrow> H2CTFEValue \<Rightarrow> H2CTFEValue \<Rightarrow> 'x H2Mem \<times> int \<times> H2CTFEValue \<times> bool"

text \<open>The two calls of the environment: -1 and a constant answer return, else it goes on.\<close>

definition tryHook ::
  "'x binaryHook option \<Rightarrow> 'x H2Mem \<Rightarrow> 16 word \<Rightarrow> H2CTFEValue \<Rightarrow> H2CTFEValue \<Rightarrow> H2CTFEValue
   \<Rightarrow> ('x H2Mem \<Rightarrow> H2CTFEValue \<Rightarrow> ('e, 'x H2Mem \<times> int \<times> H2CTFEValue) outcome)
   \<Rightarrow> ('e, 'x H2Mem \<times> int \<times> H2CTFEValue) outcome" where
  "tryHook hook m oper lhs rhs out k =
     (case hook of
        None \<Rightarrow> k m out
      | Some h \<Rightarrow>
          (let (m', rc, out', isConst) = h m oper lhs rhs
           in if rc < 0 then Ok (m', -1, out')
              else if rc > 0 \<and> isConst then Ok (m', 1, out')
              else k m' out'))"

definition answerOp ::
  "'x H2Mem \<Rightarrow> H2CTFEValue option \<Rightarrow> ('e, 'x H2Mem \<times> int \<times> H2CTFEValue) outcome" where
  "answerOp m r = Ok (case r of Some v \<Rightarrow> (m, 1, v) | None \<Rightarrow> (m, 0, H2CTFEValueInvalid))"

text \<open>Comparison with null and of optionals: \<open>None\<close> when the operands are something else.\<close>

definition evalNullEq :: "'x H2Mem \<Rightarrow> H2CTFEValue \<Rightarrow> H2CTFEValue \<Rightarrow> ('e, bool option) outcome" where
  "evalNullEq m lhs rhs =
     (let one = (\<lambda>k v. vkind v = k);
          isNull = one H2CTFEValue_NULL; isRef = one H2CTFEValue_REFERENCE;
          isStr = one H2CTFEValue_STRING; isOpt = one H2CTFEValue_OPTIONAL
      in if isNull lhs \<and> isNull rhs then Ok (Some True)
         else if isRef lhs \<and> isNull rhs then Ok (Some (sbytes (vs lhs) = None))
         else if isNull lhs \<and> isRef rhs then Ok (Some (sbytes (vs rhs) = None))
         else if isStr lhs \<and> isNull rhs then Ok (Some (sbytes (vs lhs) = None))
         else if isNull lhs \<and> isStr rhs then Ok (Some (sbytes (vs rhs) = None))
         else if isOpt lhs \<and> isNull rhs then Ok (Some (vb lhs = 0))
         else if isNull lhs \<and> isOpt rhs then Ok (Some (vb rhs = 0))
         else if isOpt lhs \<and> isOpt rhs then obind (H2CTFEValueEqRec m lhs rhs 0) (\<lambda>r. Ok (Some r))
         else if isNull lhs \<or> isNull rhs then Ok (Some False)
         else Ok None)"

fun H2CTFEEvalBinary ::
  "'x binaryHook option \<Rightarrow> nat \<Rightarrow> 'x H2Mem \<Rightarrow> 16 word \<Rightarrow> H2CTFEValue \<Rightarrow> H2CTFEValue
   \<Rightarrow> ('r stop, 'x H2Mem \<times> int \<times> H2CTFEValue) outcome" where
  "H2CTFEEvalBinary hook 0 m oper lhs rhs = Err OutOfFuel"
| "H2CTFEEvalBinary hook (Suc fuel) m oper lhs rhs =
     (let tok = (\<lambda>t. oper = tokWord t);
          both = (\<lambda>k. vkind lhs = k \<and> vkind rhs = k);
          unwraps = (\<lambda>a b. vkind a = H2CTFEValue_OPTIONAL \<and> vkind b \<noteq> H2CTFEValue_OPTIONAL \<and> vkind b \<noteq> H2CTFEValue_NULL);
          none = Ok (m, 0, H2CTFEValueInvalid)
      in if unwraps lhs rhs then
           (case H2CTFEOptionalPayload lhs of
              Some (Some p) \<Rightarrow> obind (readValue m p) (\<lambda>v. H2CTFEEvalBinary hook fuel m oper v rhs)
            | _ \<Rightarrow> none)
         else if unwraps rhs lhs then
           (case H2CTFEOptionalPayload rhs of
              Some (Some p) \<Rightarrow> obind (readValue m p) (\<lambda>v. H2CTFEEvalBinary hook fuel m oper lhs v)
            | _ \<Rightarrow> none)
         else if both H2CTFEValue_INT then answerOp m (evalIntOp oper (vi64 lhs) (vi64 rhs))
         else if both H2CTFEValue_BOOL then answerOp m (evalBoolOp oper (vb lhs) (vb rhs))
         else if both H2CTFEValue_STRING then
           obind (evalStringOp m oper (vs lhs) (vs rhs)) (\<lambda>(r, m'). answerOp m' r)
         else tryHook (if both H2CTFEValue_TYPE then hook else None) m oper lhs rhs H2CTFEValueInvalid (\<lambda>m out.
           if both H2CTFEValue_TYPE \<and> tok H2Tok_EQ then Ok (m, 1, setBool out (vtag lhs = vtag rhs))
           else if both H2CTFEValue_TYPE \<and> tok H2Tok_NEQ then Ok (m, 1, setBool out (vtag lhs \<noteq> vtag rhs))
           else case (H2CTFEValueToF64 lhs, H2CTFEValueToF64 rhs) of
             (Some a, Some b) \<Rightarrow> answerOp m (evalFloatOp oper a b out)
           | _ \<Rightarrow>
             obind (if tok H2Tok_EQ \<or> tok H2Tok_NEQ then evalNullEq m lhs rhs else Ok None) (\<lambda>eq.
               case eq of
                 Some e \<Rightarrow> Ok (m, 1, setBool out (if tok H2Tok_EQ then e else \<not> e))
               | None \<Rightarrow> tryHook hook m oper lhs rhs out (\<lambda>m out. Ok (m, 0, out)))))"

subsection \<open>Casts\<close>

definition castWord :: "H2MirCastTarget \<Rightarrow> 16 word" where
  "castWord t = of_nat (castTargetNum t)"

text \<open>
  A double is converted after the two comparisons with the limits of the type, taken as
  doubles; a value that the conversion does not admit is undefined behaviour.
\<close>

definition castFloatToInt :: "f64 \<Rightarrow> ('e, 64 word option) outcome" where
  "castFloatToInt x =
     (if \<not> f64Eq x x \<or> f64Lt (f64OfInt I64MAX) x \<or> f64Lt x (f64OfInt I64MIN) then Ok None
      else case f64Trunc x of
        Some i \<Rightarrow> if fits64 i then Ok (Some (word_of_int i)) else Stuck
      | None \<Rightarrow> Stuck)"

definition castToInt :: "H2CTFEValue \<Rightarrow> ('e, 64 word option) outcome" where
  "castToInt v =
     (case vkind v of
        H2CTFEValue_INT \<Rightarrow> Ok (Some (vi64 v))
      | H2CTFEValue_BOOL \<Rightarrow> Ok (Some (if vb v \<noteq> 0 then 1 else 0))
      | H2CTFEValue_FLOAT \<Rightarrow> castFloatToInt (vf64 v)
      | H2CTFEValue_NULL \<Rightarrow> Ok (Some 0)
      | _ \<Rightarrow> Ok None)"

definition castToFloat :: "H2CTFEValue \<Rightarrow> f64 option" where
  "castToFloat v =
     (case vkind v of
        H2CTFEValue_FLOAT \<Rightarrow> Some (vf64 v)
      | H2CTFEValue_INT \<Rightarrow> Some (f64OfInt (sint (vi64 v)))
      | H2CTFEValue_BOOL \<Rightarrow> Some (if vb v \<noteq> 0 then 0x3FF0000000000000 else 0)
      | H2CTFEValue_NULL \<Rightarrow> Some 0
      | _ \<Rightarrow> None)"

definition castToBool :: "H2CTFEValue \<Rightarrow> bool option" where
  "castToBool v =
     (case vkind v of
        H2CTFEValue_BOOL \<Rightarrow> Some (vb v \<noteq> 0)
      | H2CTFEValue_INT \<Rightarrow> Some (vi64 v \<noteq> 0)
      | H2CTFEValue_FLOAT \<Rightarrow> Some (\<not> f64Eq (vf64 v) 0)
      | H2CTFEValue_OPTIONAL \<Rightarrow> Some (vb v \<noteq> 0)
      | H2CTFEValue_STRING \<Rightarrow> Some True
      | H2CTFEValue_NULL \<Rightarrow> Some False
      | _ \<Rightarrow> None)"

definition H2CTFEEvalCast :: "16 word \<Rightarrow> H2CTFEValue \<Rightarrow> ('e, H2CTFEValue option) outcome" where
  "H2CTFEEvalCast target v =
     (if target = castWord H2MirCastTarget_INT then
        obind (castToInt v) (\<lambda>r. Ok (map_option intValue r))
      else if target = castWord H2MirCastTarget_FLOAT then
        Ok (map_option (\<lambda>x. H2CTFEValueInvalid\<lparr>vkind := H2CTFEValue_FLOAT, vf64 := x\<rparr>) (castToFloat v))
      else if target = castWord H2MirCastTarget_BOOL then Ok (map_option boolValue (castToBool v))
      else if target = castWord H2MirCastTarget_PTR_LIKE then
        Ok (if vkind v \<in> {H2CTFEValue_REFERENCE, H2CTFEValue_NULL, H2CTFEValue_STRING} then Some v else None)
      else if target = castWord H2MirCastTarget_STR_VIEW then Ok (Some v)
      else Ok None)"

end
