(* ===== verification/H2CtfeThms.thy ===== *)
theory H2CtfeThms
  imports H2Ctfe
begin

text \<open>The scalar operations of the constant evaluator compute what integers and digits say.\<close>

subsection \<open>Checked arithmetic\<close>

lemma div_less_mult_int: "0 < (q :: int) \<Longrightarrow> m div q < n \<longleftrightarrow> m < n * q"
proof -
  assume q: "0 < q"
  have m: "m = m div q * q + m mod q" "0 \<le> m mod q" "m mod q < q" using q by simp_all
  show ?thesis
  proof
    assume "m div q < n"
    then have "(m div q + 1) * q \<le> n * q" using q by (intro mult_right_mono) simp_all
    with m show "m < n * q" unfolding distrib_right by linarith
  next
    assume "m < n * q"
    show "m div q < n"
    proof (rule ccontr)
      assume "\<not> m div q < n"
      then have "n * q \<le> m div q * q" using q by (intro mult_right_mono) simp_all
      with m \<open>m < n * q\<close> show False by linarith
    qed
  qed
qed

lemma word_ops_sint:
  fixes a b :: "64 word"
  shows "word_of_int (sint a + sint b) = a + b" "word_of_int (sint a - sint b) = a - b"
    "word_of_int (sint a * sint b) = a * b"
  by simp_all

lemma sint_range: "- 9223372036854775808 \<le> sint (a :: 64 word)" "sint (a :: 64 word) \<le> 9223372036854775807"
  using sint_greater_eq [of a] sint_less [of a] by simp_all

lemma fits64_sint: "fits64 i \<Longrightarrow> sint (word_of_int i :: 64 word) = i"
  by (simp add: fits64_def signed_of_int signed_take_bit_int_eq_self)

lemma sdiv_signs:
  "0 \<le> (x :: int) \<Longrightarrow> 0 < y \<Longrightarrow> x sdiv y = x div y"
  "0 \<le> (x :: int) \<Longrightarrow> y < 0 \<Longrightarrow> x sdiv y = - (x div - y)"
  "(x :: int) < 0 \<Longrightarrow> 0 < y \<Longrightarrow> x sdiv y = - (- x div y)"
  by (auto simp: signed_divide_int_def sgn_if abs_if mult_less_0_iff zero_less_mult_iff)

lemma portableMul: "portableMulI64 a b = H2CTFEMulI64 a b"
proof -
  let ?a = "sint a" and ?b = "sint b"
  consider "?a = 0 \<or> ?b = 0" | "?a > 0" "?b > 0" | "?a > 0" "?b < 0" | "?a < 0" "?b > 0" | "?a < 0" "?b < 0"
    by linarith
  then show ?thesis
  proof cases
    case 1
    then have "a = 0 \<or> b = 0" by (metis signed_eq_0_iff)
    with 1 show ?thesis
      by (auto simp: portableMulI64_def H2CTFEMulI64_def checked64_def fits64_def)
  next
    case 2
    moreover have "- 9223372036854775808 \<le> ?a * ?b" using mult_pos_pos [OF 2] by linarith
    ultimately show ?thesis using div_less_mult_int [of ?b I64MAX ?a]
      by (auto simp: portableMulI64_def H2CTFEMulI64_def checked64_def fits64_def sdiv_signs word_ops_sint Let_def)
  next
    case 3
    have "?b < I64MIN sdiv ?a \<longleftrightarrow> ?a * ?b < I64MIN"
      using 3 div_less_mult_int [of ?a 9223372036854775808 "- ?b"]
      by (simp add: sdiv_signs mult.commute less_minus_iff [of "sint b"] less_minus_iff [of _ "sint a * sint b"])
    moreover have "?a * ?b \<le> I64MAX" using 3 mult_pos_neg [of ?a ?b] by linarith
    ultimately show ?thesis using 3
      by (auto simp: portableMulI64_def H2CTFEMulI64_def checked64_def fits64_def word_ops_sint Let_def)
  next
    case 4
    have "?a < I64MIN sdiv ?b \<longleftrightarrow> ?a * ?b < I64MIN"
      using 4 div_less_mult_int [of ?b 9223372036854775808 "- ?a"]
      by (simp add: sdiv_signs less_minus_iff [of "sint a"] less_minus_iff [of _ "sint a * sint b"])
    moreover have "?a * ?b \<le> I64MAX" using 4 mult_neg_pos [of ?a ?b] by linarith
    ultimately show ?thesis using 4
      by (auto simp: portableMulI64_def H2CTFEMulI64_def checked64_def fits64_def word_ops_sint Let_def)
  next
    case 5
    have "?b < I64MAX sdiv ?a \<longleftrightarrow> ?a * ?b > I64MAX"
      using 5 div_less_mult_int [of "- ?a" I64MAX "- ?b"]
      by (simp add: sdiv_signs mult.commute less_minus_iff [of "sint b"])
    moreover have "?a * ?b > 0" using 5 mult_neg_neg [of ?a ?b] by linarith
    ultimately show ?thesis using 5
      by (auto simp: portableMulI64_def H2CTFEMulI64_def checked64_def fits64_def word_ops_sint Let_def)
  qed
qed

lemma portableAdd: "portableAddI64 a b = H2CTFEAddI64 a b"
  using sint_range [of a] sint_range [of b]
  by (auto simp: portableAddI64_def H2CTFEAddI64_def checked64_def fits64_def Let_def)

lemma portableSub: "portableSubI64 a b = H2CTFESubI64 a b"
  using sint_range [of a] sint_range [of b]
  by (auto simp: portableSubI64_def H2CTFESubI64_def checked64_def fits64_def Let_def)

text \<open>C25: The portable bodies of the checked additions, subtractions and multiplications of 64-bit
  integers agree with the compiler builtins on all operands: both answer exactly the
  mathematical result when it is in range, and nothing else.\<close>
theorem ctfe_checked_arith:
  "portableAddI64 a b = H2CTFEAddI64 a b \<and> portableSubI64 a b = H2CTFESubI64 a b \<and>
   portableMulI64 a b = H2CTFEMulI64 a b \<and>
   map_option sint (H2CTFEAddI64 a b) = (if fits64 (sint a + sint b) then Some (sint a + sint b) else None) \<and>
   map_option sint (H2CTFESubI64 a b) = (if fits64 (sint a - sint b) then Some (sint a - sint b) else None) \<and>
   map_option sint (H2CTFEMulI64 a b) = (if fits64 (sint a * sint b) then Some (sint a * sint b) else None)"
  using portableAdd portableSub portableMul
  by (simp add: H2CTFEAddI64_def H2CTFESubI64_def H2CTFEMulI64_def checked64_def fits64_sint del: of_int_add of_int_diff of_int_mult)

subsection \<open>Integer literals\<close>

fun digitsValue :: "nat \<Rightarrow> nat \<Rightarrow> nat list \<Rightarrow> nat" where
  "digitsValue base v [] = v"
| "digitsValue base v (d # ds) = digitsValue base (v * base + d) ds"

text \<open>The digits of the two bases, from the tables of the language.\<close>

definition decimalDigit :: "byte \<Rightarrow> nat option" where
  "decimalDigit = map_of (zip (cstr ''0123456789'') [0..<10])"

definition baseDigit :: "nat \<Rightarrow> byte \<Rightarrow> nat option" where
  "baseDigit base = (if base = 16 then hexValue else decimalDigit)"

lemma decimalDigit_code: "decimalDigit c = (if 48 \<le> unat c \<and> unat c \<le> 57 then Some (unat c - 48) else None)"
proof -
  have t: "decimalDigit c = (if unat c = 48 then Some 0 else if unat c = 49 then Some 1 else if unat c = 50 then Some 2
     else if unat c = 51 then Some 3 else if unat c = 52 then Some 4 else if unat c = 53 then Some 5
     else if unat c = 54 then Some 6 else if unat c = 55 then Some 7 else if unat c = 56 then Some 8
     else if unat c = 57 then Some 9 else None)"
    by (simp add: decimalDigit_def cstr_def upt_rec word_unat_eq_iff unat_ch)
  show ?thesis
  proof (cases "48 \<le> unat c \<and> unat c \<le> 57")
    case True
    then have "unat c \<in> set [48..<58]" unfolding set_upt atLeastLessThan_iff by linarith
    with t show ?thesis by (simp add: upt_rec) (elim disjE; simp)
  next
    case False
    then have "decimalDigit c = None" unfolding t by (auto split del: if_split)
    with False show ?thesis by (simp only: if_False)
  qed
qed

lemma baseDigit_code:
  assumes "base \<in> {10, 16}"
  shows "baseDigit base c = digitValue base c"
proof -
  have d: "digitValue base c = (if 48 \<le> unat c \<and> unat c \<le> 57 then Some (unat c - 48)
    else if base = 16 \<and> 97 \<le> unat c \<and> unat c \<le> 102 then Some (unat c - 87)
    else if base = 16 \<and> 65 \<le> unat c \<and> unat c \<le> 70 then Some (unat c - 55) else None)"
    by (auto simp: digitValue_def word_le_nat_alt unat_ch unat_sub_if_size)
  show ?thesis using assms unfolding d baseDigit_def hexValue_ranges decimalDigit_code by auto
qed

fun digitsOf :: "nat \<Rightarrow> byte list \<Rightarrow> nat list option" where
  "digitsOf base [] = Some []"
| "digitsOf base (c # cs) =
     (case baseDigit base c of None \<Rightarrow> None | Some d \<Rightarrow> map_option ((#) d) (digitsOf base cs))"

lemma digitsValue_mono: "0 < base \<Longrightarrow> v \<le> digitsValue base v ds"
proof (induction ds arbitrary: v)
  case (Cons d ds)
  have "v \<le> v * base + d" using Cons.prems by (cases base) simp_all
  also have "\<dots> \<le> digitsValue base (v * base + d) ds" by (rule Cons.IH) (rule Cons.prems)
  finally show ?case by simp
qed simp

lemma digitValue_less: "base \<in> {10, 16} \<Longrightarrow> digitValue base c = Some d \<Longrightarrow> d < base"
  by (auto simp: digitValue_def ch_def of_char_of word_le_nat_alt unat_sub_if_size split: if_splits)

lemma digit_overflow:
  assumes "d < base"
  shows "(v > M div base \<or> v = M div base \<and> d > M mod base) = (v * base + d > (M :: nat))"
proof -
  have M: "M = M div base * base + M mod base" "M mod base < base" using assms by simp_all
  consider "v < M div base" | "v = M div base" | "v > M div base" by linarith
  then show ?thesis
  proof cases
    case 1
    then have "Suc v * base \<le> M div base * base" by (intro mult_le_mono1) simp
    then have "v * base + d \<le> M" using M assms unfolding mult_Suc by linarith
    with 1 show ?thesis by linarith
  next
    case 2
    show ?thesis unfolding 2 using M by linarith
  next
    case 3
    then have "Suc (M div base) * base \<le> v * base" by (intro mult_le_mono1) simp
    then have "M < v * base + d" using M unfolding mult_Suc by linarith
    with 3 show ?thesis by linarith
  qed
qed

lemma intDigits_value:
  assumes "base \<in> {10, 16}"
  shows "intDigits base v cs =
    (case digitsOf base cs of
       None \<Rightarrow> None
     | Some ds \<Rightarrow> if ds = [] \<or> digitsValue base v ds \<le> INT64_MAX then Some (digitsValue base v ds) else None)"
proof (induction cs arbitrary: v)
  case (Cons c cs)
  have b: "0 < base" using assms by auto
  show ?case
  proof (cases "digitValue base c")
    case (Some d)
    note d = digitValue_less [OF assms Some]
    have "v * base + d \<le> digitsValue base (v * base + d) ds" for ds by (rule digitsValue_mono [OF b])
    then have big: "\<not> digitsValue base (v * base + d) ds \<le> INT64_MAX" if "v * base + d > INT64_MAX" for ds
      using that less_le_trans not_le by blast
    show ?thesis
      unfolding intDigits.simps digitsOf.simps baseDigit_code [OF assms] Some option.case digit_overflow [OF d] Cons [of "v * base + d"]
      using d big by (cases "digitsOf base cs") (auto simp: not_less)
  qed (simp add: baseDigit_code [OF assms])
qed simp

text \<open>What an integer literal denotes (LEX-LIT-001): digits in base 10, or in base 16 after
  \<open>0x\<close> or \<open>0X\<close>.\<close>

definition intLiteral :: "byte list \<Rightarrow> nat option" where
  "intLiteral text =
     (if 3 \<le> length text \<and> take 2 text \<in> {cstr ''0x'', cstr ''0X''}
      then map_option (digitsValue 16 0) (digitsOf 16 (drop 2 text))
      else map_option (digitsValue 10 0) (digitsOf 10 text))"

lemma hexPrefix_code: "3 \<le> length text \<and> take 2 text \<in> {cstr ''0x'', cstr ''0X''} \<longleftrightarrow> isHexPrefix text"
  by (cases "text"; cases "tl text") (auto simp: isHexPrefix_def cstr_def)

lemma int_literal_value:
  "H2CTFEParseIntLiteral (View bs) start endPos = Ok (
     if start < endPos \<and> endPos \<le> length bs then
       (case intLiteral (take (endPos - start) (drop start bs)) of
          None \<Rightarrow> None
        | Some n \<Rightarrow> if n \<le> INT64_MAX then Some (of_nat n) else None)
     else None)"
proof -
  let ?text = "take (endPos - start) (drop start bs)"
  have "(if isHexPrefix ?text then intDigits 16 0 (drop 2 ?text) else intDigits 10 0 ?text) =
      (case intLiteral ?text of None \<Rightarrow> None | Some n \<Rightarrow> if n \<le> INT64_MAX then Some n else None)"
    unfolding intLiteral_def hexPrefix_code by (auto simp: intDigits_value split: option.splits)
  then show ?thesis
    by (auto simp: H2CTFEParseIntLiteral_def literalText_def split: option.splits)
qed

text \<open>C27: The integer literal at a span of the source is parsed to the number its digits denote,
  decimal or hexadecimal; the parser refuses it exactly when the span is empty or leaves the source, a
  character is no digit of the base, or the number exceeds the range of a signed 64-bit integer.\<close>
theorem ctfe_int_literal:
  "H2CTFEParseIntLiteral (View bs) start endPos = Ok (
     if start < endPos \<and> endPos \<le> length bs then
       (case intLiteral (take (endPos - start) (drop start bs)) of
          None \<Rightarrow> None
        | Some n \<Rightarrow> if n < 2 ^ 63 then Some (of_nat n) else None)
     else None)"
  by (simp add: int_literal_value less_Suc_eq_le [symmetric] split: option.split)

subsection \<open>Doubles and their conversion\<close>

lemma f64_fields:
  "unat (drop_bit 52 (take_bit 63 (w :: f64))) = unat w mod 2 ^ 63 div 2 ^ 52"
  "unat (take_bit 52 (w :: f64)) = unat w mod 2 ^ 52" "bit (w :: f64) 63 \<longleftrightarrow> unat w \<ge> 2 ^ 63"
proof -
  show "unat (drop_bit 52 (take_bit 63 w)) = unat w mod 2 ^ 63 div 2 ^ 52" "unat (take_bit 52 w) = unat w mod 2 ^ 52"
    unfolding unat_drop_bit_eq unsigned_take_bit_eq by (simp_all add: take_bit_eq_mod drop_bit_eq_div)
  have "bit w 63 \<longleftrightarrow> odd (unat w div 2 ^ 63)" 
    using bit_unsigned_iff [of w 63, where 'a = nat] bit_iff_odd [of "unat w" 63] by simp
  moreover have "unat w < 2 ^ 64" using unsigned_less [of w, where 'a = nat] by simp
  then have "unat w div 2 ^ 63 \<in> {0, 1}" by auto
  ultimately show "bit w 63 \<longleftrightarrow> unat w \<ge> 2 ^ 63" by auto
qed

lemma decode_finite:
  assumes "f64Decode w = Finite s m e"
  shows "m < 2 ^ 53" "e = -1074 \<or> 2 ^ 52 \<le> m" "-1074 \<le> e"
    "unat w = (if s then 2 ^ 63 else 0) + nat (e + 1074) * 2 ^ 52 + m"
proof -
  let ?u = "unat w" and ?x = "unat w mod 2 ^ 63 div 2 ^ 52" and ?f = "unat w mod 2 ^ 52"
  have u: "?u < 2 ^ 64" using unsigned_less [of w, where 'a = nat] by simp
  have "?u mod 2 ^ 63 mod 2 ^ 52 = ?f" by (rule mod_mod_cancel) (simp add: le_imp_power_dvd)
  then have split: "?u mod 2 ^ 63 = ?x * 2 ^ 52 + ?f" using div_mult_mod_eq [of "?u mod 2 ^ 63" "2 ^ 52"] by simp
  have "?u div 2 ^ 63 = (if ?u \<ge> 2 ^ 63 then 1 else 0)" using u by auto
  then have top: "?u = (if ?u \<ge> 2 ^ 63 then 2 ^ 63 else 0) + ?u mod 2 ^ 63"
    using div_mult_mod_eq [of ?u "2 ^ 63"] by (simp split: if_splits)
  have f: "?f < 2 ^ 52" by simp
  consider "?x = 0" "s = (?u \<ge> 2 ^ 63)" "m = ?f" "e = -1074"
    | "?x \<noteq> 0" "s = (?u \<ge> 2 ^ 63)" "m = ?f + 2 ^ 52" "e = int ?x - 1075"
    using assms unfolding f64Decode_def Let_def f64_fields by (auto split: if_splits)
  then have all: "m < 2 ^ 53 \<and> (e = -1074 \<or> 2 ^ 52 \<le> m) \<and> -1074 \<le> e \<and>
      ?u = (if s then 2 ^ 63 else 0) + nat (e + 1074) * 2 ^ 52 + m"
  proof cases
    case 1
    with f split top show ?thesis by simp
  next
    case 2
    then have x: "?x \<ge> 1" by linarith
    then have "e + 1074 = int (?x - 1)" using 2(4) by (simp add: of_nat_diff)
    then have "nat (e + 1074) = ?x - 1" by simp
    then have "nat (e + 1074) * 2 ^ 52 + m = ?x * 2 ^ 52 + ?f" using 2(3) x by (simp add: diff_mult_distrib)
    with 2 f split top show ?thesis by simp
  qed
  then show "m < 2 ^ 53" "e = -1074 \<or> 2 ^ 52 \<le> m" "-1074 \<le> e"
    "unat w = (if s then 2 ^ 63 else 0) + nat (e + 1074) * 2 ^ 52 + m" by blast+
qed

lemma ilog2_eqI: "2 ^ k \<le> n \<Longrightarrow> n < 2 ^ Suc k \<Longrightarrow> ilog2 n = k"
proof (induction k arbitrary: n)
  case 0
  then show ?case by (simp add: ilog2.simps)
next
  case (Suc k)
  have "2 \<le> (2 :: nat) ^ Suc k" by simp
  with Suc.prems(1) have n: "2 \<le> n" by linarith
  have "ilog2 (n div 2) = k" by (rule Suc.IH) (use Suc.prems in auto)
  with n show ?case by (subst ilog2.simps) simp
qed

text \<open>\<open>INT64_MAX\<close> converts to \<open>2^63\<close>, which is one more.\<close>

lemma limit_doubles:
  "f64OfInt I64MAX = 0x43E0000000000000" "f64OfInt I64MIN = 0xC3E0000000000000"
  "f64Decode 0x43E0000000000000 = Finite False (2 ^ 52) 11" "f64Decode 0xC3E0000000000000 = Finite True (2 ^ 52) 11"
proof -
  have l: "ilog2 9223372036854775807 = 62" "ilog2 9223372036854775808 = 63" "ilog2 1 = 0" by (rule ilog2_eqI; simp)+
  show "f64OfInt I64MAX = 0x43E0000000000000" "f64OfInt I64MIN = 0xC3E0000000000000"
    by (simp_all add: f64OfInt_def f64Round_def quantum_def l [unfolded One_nat_def] scaleUp_def roundDiv_def f64Pack_def Let_def)
  show "f64Decode 0x43E0000000000000 = Finite False (2 ^ 52) 11" "f64Decode 0xC3E0000000000000 = Finite True (2 ^ 52) 11"
    by code_simp+
qed

lemma limit_bits: "unat w = 10 * 0 + 1085 * 2 ^ 52 + 2 ^ 52 \<Longrightarrow> w = (0x43E0000000000000 :: f64)"
  by (simp add: word_unat_eq_iff)

text \<open>A finite double between the limits truncates into the range, but for \<open>2^63\<close> itself.\<close>

lemma trunc_limit:
  assumes "\<not> signed False (scaleUp (2 ^ 52) (11 - e)) < signed s (scaleUp m (e - 11))"
    "\<not> signed s (scaleUp m (e - 11)) < signed True (scaleUp (2 ^ 52) (11 - e))" "m < 2 ^ 53" "e = -1074 \<or> 2 ^ 52 \<le> m"
  shows "fits64 (signed s (scaleUp m e div scaleUp 1 (- e))) \<or> \<not> s \<and> m = 2 ^ 52 \<and> e = 11"
proof -
  let ?n = "scaleUp m e div scaleUp 1 (- e)"
  have le: "scaleUp m (e - 11) \<le> scaleUp (2 ^ 52) (11 - e)"
    using assms(1,2) by (cases s) (simp_all add: signed_def not_less)
  have "?n \<le> 2 ^ 63 \<and> (?n = 2 ^ 63 \<longrightarrow> m = 2 ^ 52 \<and> e = 11)"
  proof -
    consider "e \<ge> 11" | "0 \<le> e" "e < 11" | "e < 0" by linarith
    then show ?thesis
    proof cases
      case 1
      then obtain k where k: "e = 11 + int k" by (metis zle_iff_zadd)
      with le have "m * 2 ^ k \<le> 2 ^ 52" by (simp add: scaleUp_def nat_add_distrib)
      moreover have "m \<ge> 2 ^ 52" using assms(4) 1 by linarith
      ultimately have b: "m * 2 ^ k \<le> 2 ^ 52" "m \<ge> 2 ^ 52" by blast+
      have "k = 0"
      proof (rule ccontr)
        assume "k \<noteq> 0"
        then have "(2 :: nat) ^ 1 \<le> 2 ^ k" by (intro power_increasing) simp_all
        then have "m * 2 \<le> m * 2 ^ k" by (intro mult_le_mono2) simp
        with b(1) have "m * 2 \<le> 2 ^ 52" by linarith
        with b(2) show False by simp
      qed
      with b have "m = 2 ^ 52" by simp
      then show ?thesis by (simp add: k \<open>k = 0\<close> scaleUp_def)
    next
      case 2
      then have "m * 2 ^ nat e < 2 ^ 53 * 2 ^ 10"
        using assms(3) by (intro mult_less_le_imp_less power_increasing) simp_all
      with 2 show ?thesis by (simp add: scaleUp_def)
    next
      case 3
      have "?n \<le> m" using 3 by (simp add: scaleUp_def div_le_dividend)
      with assms(3) show ?thesis by simp
    qed
  qed
  then show ?thesis by (cases s) (auto simp: fits64_def signed_def)
qed

lemma castFloat_stuck: "castFloatToInt x = Stuck \<longleftrightarrow> x = 0x43E0000000000000"
proof (cases "f64Decode x")
  case NaN
  then show ?thesis using limit_doubles(3) by (auto simp: castFloatToInt_def f64Eq_def f64Compare_def)
next
  case (Infinite s)
  then show ?thesis using limit_doubles
    by (auto simp: castFloatToInt_def f64Eq_def f64Lt_def f64Compare_def)
next
  case (Finite s m e)
  note fin = decode_finite [OF Finite]
  show ?thesis
  proof
    assume stuck: "castFloatToInt x = Stuck"
    then have "\<not> f64Lt (f64OfInt I64MAX) x" "\<not> f64Lt x (f64OfInt I64MIN)"
      "\<not> fits64 (signed s (scaleUp m e div scaleUp 1 (- e)))"
      using Finite by (auto simp: castFloatToInt_def f64Trunc_def split: if_splits)
    then have "\<not> s \<and> m = 2 ^ 52 \<and> e = 11"
      using trunc_limit [of e s m] fin(1,2) Finite unfolding f64Lt_def f64Compare_def limit_doubles
      by (auto simp: Let_def split: if_splits)
    with fin(4) show "x = 0x43E0000000000000" by (intro limit_bits) simp
  next
    assume "x = 0x43E0000000000000"
    moreover have "castFloatToInt 0x43E0000000000000 = (Stuck :: ('e, 64 word option) outcome)"
      by (simp add: castFloatToInt_def f64Eq_def f64Lt_def f64Compare_def limit_doubles f64Trunc_def Let_def
        scaleUp_def signed_def fits64_def)
    ultimately show "castFloatToInt x = Stuck" by simp
  qed
qed

lemma obind_Ok_stuck: "obind r (\<lambda>x. Ok (g x)) = Stuck \<longleftrightarrow> r = Stuck"
  by (cases r) simp_all

text \<open>C35: A cast to an integer type is undefined for exactly one value, the double \<open>2^63\<close>: the
  guard compares with \<open>INT64_MAX\<close> converted to double, which is \<open>2^63\<close>, and lets it through to
  a conversion that cannot represent it. All other values are converted or refused.\<close>
theorem ctfe_cast_int_range:
  "H2CTFEEvalCast (castWord H2MirCastTarget_INT) v = Stuck \<longleftrightarrow>
     vkind v = H2CTFEValue_FLOAT \<and> vf64 v = 0x43E0000000000000"
  by (cases "vkind v") (simp_all add: H2CTFEEvalCast_def castToInt_def obind_Ok_stuck castFloat_stuck)

subsection \<open>Exponents of floating point literals\<close>

lemma digitValue_isDigit: "baseDigit 10 c = Some d \<longleftrightarrow> isDigit c \<and> d = unat (c - ch CHR ''0'')"
  by (simp add: baseDigit_code) (auto simp: digitValue_def isDigit_def)

lemma exponent_value:
  "digitsOf 10 cs = Some ds \<Longrightarrow> (\<And>k. k < length ds \<Longrightarrow> digitsValue 10 e (take k ds) \<le> UINT32_MAX div 10) \<Longrightarrow>
   exponentDigits e cs = Some (if cs = [] then e else u32 (digitsValue 10 e ds), [])"
proof (induction cs arbitrary: e ds)
  case (Cons c cs)
  from Cons.prems(1) obtain d ds' where d: "isDigit c" "d = unat (c - ch CHR ''0'')" "digitsOf 10 cs = Some ds'"
    "ds = d # ds'"
    by (auto simp: digitValue_isDigit split: option.splits)
  have e: "e \<le> UINT32_MAX div 10" using Cons.prems(2) [of 0] d(4) by simp
  show ?case
  proof (cases cs)
    case Nil
    with d e show ?thesis by simp
  next
    case (Cons c' cs')
    with d(3) have "ds' \<noteq> []" by (auto split: option.splits)
    then have small: "e * 10 + d \<le> UINT32_MAX div 10"
      using Cons.prems(2) [of 1] d(4) by simp
    have "exponentDigits (e * 10 + d) cs = Some (if cs = [] then e * 10 + d else u32 (digitsValue 10 (e * 10 + d) ds'), [])"
      by (rule Cons.IH [OF d(3)]) (use Cons.prems(2) [of "Suc k" for k] d(4) in simp)
    with d e small Cons show ?thesis by simp
  qed
qed simp

text \<open>The exponent of a floating point literal is read modulo \<open>2^32\<close> when the overflow
  guard of the digit loop lets its last digit through: the guard admits 429496729 followed by
  any digit, so \<open>1e4294967299\<close> is the same number as \<open>1e3\<close>.\<close>
theorem ctfe_exponent_wraps:
  assumes "digitsOf 10 cs = Some ds" "cs \<noteq> []" "\<And>k. k < length ds \<Longrightarrow> digitsValue 10 0 (take k ds) \<le> UINT32_MAX div 10"
  shows "exponentPart (ch CHR ''e'' # cs) = Some (False, digitsValue 10 0 ds mod 2 ^ 32, [])"
proof -
  obtain c cs' where c: "cs = c # cs'" using assms(2) by (cases cs) auto
  with assms(1) have "isDigit c" by (auto simp: digitValue_isDigit split: option.splits)
  then have "c \<noteq> ch CHR ''+''" "c \<noteq> ch CHR ''-''" by (auto simp: isDigit_def ch_def of_char_of)
  with c \<open>isDigit c\<close> exponent_value [OF assms(1,3)] show ?thesis
    by (simp add: exponentPart_def u32_def)
qed

lemma ctfe_exponent_wraps_witness:
  "exponentPart (cstr ''e4294967299'') = Some (False, 3, []) \<and>
   H2CTFEParseFloatLiteral (View (cstr ''1e4294967299'')) 0 12 =
   (H2CTFEParseFloatLiteral (View (cstr ''1e3'')) 0 3 :: (unit, f64 option) outcome)"
proof -
  have "exponentPart (ch CHR ''e'' # cstr ''4294967299'') = Some (False, digitsValue 10 0 [4,2,9,4,9,6,7,2,9,9] mod 2 ^ 32, [])"
  proof (rule ctfe_exponent_wraps)
    show "digitsOf 10 (cstr ''4294967299'') = Some [4,2,9,4,9,6,7,2,9,9]" by code_simp
    fix k assume "k < length [4, 2, 9, 4, 9, 6, 7, 2, 9, 9 :: nat]"
    then have "k \<in> {0, 1, 2, 3, 4, 5, 6, 7, 8, 9}" by auto
    then show "digitsValue 10 0 (take k [4, 2, 9, 4, 9, 6, 7, 2, 9, 9]) \<le> UINT32_MAX div 10" by auto
  qed (simp add: cstr_def)
  then have "exponentPart (cstr ''e4294967299'') = Some (False, 3, [])" unfolding cstr_def list.map by simp
  moreover have "exponentPart (cstr ''e3'') = Some (False, 3, [])" by code_simp
  moreover have "wholeDigits 0 (cstr (CHR ''1'' # CHR ''e'' # t)) =
      (f64Add (f64Mul 0 f64Ten) (digitDouble (ch CHR ''1'')), cstr (CHR ''e'' # t))" for t
  proof -
    have "isDigit (ch CHR ''1'')" "\<not> isDigit (ch CHR ''e'')" by code_simp+
    then show ?thesis by (simp add: cstr_def)
  qed
  moreover have "ch CHR ''e'' \<noteq> ch CHR ''.''" by simp
  ultimately show ?thesis
    by (simp add: H2CTFEParseFloatLiteral_def literalText_def) (simp add: cstr_def)
qed

subsection \<open>Integer operators\<close>

lemma value_simps [simp]:
  "vkind (intValue i) = H2CTFEValue_INT" "vi64 (intValue i) = i"
  "vkind (boolValue b) = H2CTFEValue_BOOL" "vb (boolValue b) = boolByte b"
  by (simp_all add: intValue_def boolValue_def)

lemma tokWord_eq [simp]: "tokWord t = tokWord u \<longleftrightarrow> t = u"
proof -
  have small: "tokNum k < 65536" for k by (cases k) (simp_all add: tokNum_def)
  have "unat (tokWord k) = tokNum k" for k unfolding tokWord_def using small [of k] by (simp add: unat_of_nat take_bit_eq_mod)
  then show ?thesis by (metis option.inject tokOf_tokNum)
qed

text \<open>What the operators mean on integers: a number in range, a truth value, or nothing.\<close>

definition inRange :: "int \<Rightarrow> (int + bool) option" where
  "inRange i = (if fits64 i then Some (Inl i) else None)"

fun intMeaning :: "H2TokenKind \<Rightarrow> int \<Rightarrow> int \<Rightarrow> (int + bool) option" where
  "intMeaning H2Tok_ADD a b = inRange (a + b)"
| "intMeaning H2Tok_SUB a b = inRange (a - b)"
| "intMeaning H2Tok_MUL a b = inRange (a * b)"
| "intMeaning H2Tok_DIV a b = (if b = 0 then None else inRange (a sdiv b))"
| "intMeaning H2Tok_MOD a b = (if b = 0 \<or> \<not> fits64 (a sdiv b) then None else Some (Inl (a smod b)))"
| "intMeaning H2Tok_AND a b = Some (Inl (a AND b))"
| "intMeaning H2Tok_OR a b = Some (Inl (a OR b))"
| "intMeaning H2Tok_XOR a b = Some (Inl (a XOR b))"
| "intMeaning H2Tok_LSHIFT a b =
     (if 0 \<le> b \<and> b \<le> 63 \<and> 0 \<le> a then Some (Inl (signed_take_bit 63 (a * 2 ^ nat b))) else None)"
| "intMeaning H2Tok_RSHIFT a b = (if 0 \<le> b \<and> b \<le> 63 \<and> 0 \<le> a then Some (Inl (a div 2 ^ nat b)) else None)"
| "intMeaning H2Tok_EQ a b = Some (Inr (a = b))"
| "intMeaning H2Tok_NEQ a b = Some (Inr (a \<noteq> b))"
| "intMeaning H2Tok_LT a b = Some (Inr (a < b))"
| "intMeaning H2Tok_GT a b = Some (Inr (a > b))"
| "intMeaning H2Tok_LTE a b = Some (Inr (a \<le> b))"
| "intMeaning H2Tok_GTE a b = Some (Inr (a \<ge> b))"
| "intMeaning _ a b = None"

definition meant :: "(int + bool) option \<Rightarrow> H2CTFEValue option" where
  "meant r = (case r of
     None \<Rightarrow> None | Some (Inl i) \<Rightarrow> Some (intValue (word_of_int i)) | Some (Inr b) \<Rightarrow> Some (boolValue b))"

lemma sdiv_fits:
  assumes "b \<noteq> (0 :: int)" "fits64 a" "fits64 b"
  shows "fits64 (a sdiv b) \<longleftrightarrow> \<not> (a = I64MIN \<and> b = -1)"
proof -
  have "\<bar>a sdiv b\<bar> = \<bar>a\<bar> div \<bar>b\<bar>"
    using assms(1) by (auto simp: signed_divide_int_def sgn_if abs_mult div_int_pos_iff)
  have le: "\<bar>a\<bar> div \<bar>b\<bar> \<le> \<bar>a\<bar>" using zdiv_mono2 [of "\<bar>a\<bar>" 1 "\<bar>b\<bar>"] assms(1) by simp
  show ?thesis
  proof (cases "a = I64MIN")
    case False
    with assms(2) have "\<bar>a\<bar> \<le> I64MAX" by (auto simp: fits64_def)
    with le \<open>\<bar>a sdiv b\<bar> = \<bar>a\<bar> div \<bar>b\<bar>\<close> False show ?thesis by (auto simp: fits64_def)
  next
    case True
    consider "b = -1" | "b = 1" | "\<bar>b\<bar> \<ge> 2" using assms(1) by linarith
    then show ?thesis
    proof cases
      case 3
      have "\<bar>a\<bar> div \<bar>b\<bar> \<le> \<bar>a\<bar> div 2" by (rule zdiv_mono2) (use 3 in simp_all)
      with True 3 \<open>\<bar>a sdiv b\<bar> = \<bar>a\<bar> div \<bar>b\<bar>\<close> show ?thesis by (auto simp: fits64_def)
    qed (simp_all add: True fits64_def signed_divide_int_def)
  qed
qed

lemma sint_nonneg:
  fixes b :: "64 word"
  shows "0 \<le> sint b \<Longrightarrow> sint b = uint b" "0 \<le> sint b \<Longrightarrow> nat (sint b) = unat b"
proof -
  show "0 \<le> sint b \<Longrightarrow> sint b = uint b"
    using sint_range(2) [of b] unfolding uint_sint by (simp add: take_bit_int_eq_self)
  then show "0 \<le> sint b \<Longrightarrow> nat (sint b) = unat b" by simp
qed

lemma word_of_int_signed: "word_of_int (signed_take_bit 63 k) = (word_of_int k :: 64 word)"
  by (rule signed_word_eqI) (simp add: signed_of_int)

lemma word_bits_of_int:
  fixes a b :: "64 word"
  shows "word_of_int (sint a AND sint b) = a AND b" "word_of_int (sint a OR sint b) = a OR b"
    "word_of_int (sint a XOR sint b) = a XOR b"
    "word_of_int (signed_take_bit 63 (sint a * 2 ^ n)) = push_bit n a"
    "0 \<le> sint a \<Longrightarrow> word_of_int (sint a div 2 ^ n) = drop_bit n a"
proof -
  show "word_of_int (sint a AND sint b) = a AND b" "word_of_int (sint a OR sint b) = a OR b"
    "word_of_int (sint a XOR sint b) = a XOR b"
    by (rule bit_word_eqI; simp add: bit_simps)+
  have "sint a * 2 ^ n = push_bit n (sint a)" by (simp add: push_bit_eq_mult)
  then show "word_of_int (signed_take_bit 63 (sint a * 2 ^ n)) = push_bit n a"
    using signed_of_int [of "push_bit n (sint a)", where 'a = 64]
    by (simp add: word_of_int_signed) (intro bit_word_eqI, auto simp: bit_simps)
  assume "0 \<le> sint a"
  then have "sint a div 2 ^ n = drop_bit n (uint a)" by (simp add: sint_nonneg drop_bit_eq_div)
  then show "word_of_int (sint a div 2 ^ n) = drop_bit n a"
    by (intro bit_word_eqI) (auto simp: bit_simps)
qed

lemma evalIntOp_meaning: "evalIntOp (tokWord t) a b = meant (intMeaning t (sint a) (sint b))"
proof -
  have f: "fits64 (sint a)" "fits64 (sint b)" using sint_range [of a] sint_range [of b] by (simp_all add: fits64_def)
  have e: "sint a = sint b \<longleftrightarrow> a = b" by (auto intro: signed_word_eqI)
  have z: "sint b = 0 \<longleftrightarrow> b = 0" by (rule signed_eq_0_iff)
  note defs = evalIntOp_def meant_def inRange_def H2CTFEAddI64_def H2CTFESubI64_def H2CTFEMulI64_def checked64_def
    word_bits_of_int sint_nonneg(2)
  have nf: "\<not> fits64 9223372036854775808" by (simp add: fits64_def)
  show ?thesis
    by (cases t) (simp_all add: defs z sdiv_fits [OF _ f] e nf)
qed

text \<open>C26: Every binary operator on two integer values computes what it means on integers: sums,
  differences and products when they fit 64 bits, quotients and remainders that truncate toward zero
  (the smallest integer by -1 excepted, for both), bit operations, right shifts by 0 to 63 of non-negative numbers, comparisons, all exact. The
  left shift of a non-negative number by 0 to 63 is the one operator that is not exact: its result is
  the product reduced to 64 signed bits. In all other cases, division by zero and overflow of the
  other operators among them, there is no constant value.\<close>
theorem ctfe_int_operators:
  assumes "vkind lhs = H2CTFEValue_INT" "vkind rhs = H2CTFEValue_INT"
  shows "H2CTFEEvalBinary hook (Suc fuel) m (tokWord t) lhs rhs = Ok (
      case intMeaning t (sint (vi64 lhs)) (sint (vi64 rhs)) of
        None \<Rightarrow> (m, 0, H2CTFEValueInvalid)
      | Some (Inl i) \<Rightarrow> (m, 1, intValue (word_of_int i))
      | Some (Inr b) \<Rightarrow> (m, 1, boolValue b))"
  using assms
  by (simp add: Let_def answerOp_def evalIntOp_meaning meant_def split: option.splits sum.splits)

definition exMem :: "unit H2Mem" where
  "exMem = \<lparr>marena = H2ArenaInit 64 4096, hbytes = Map.empty, hvals = Map.empty, hclosures = Map.empty, hdiag = Some diagZero, hext = ()\<rparr>"

lemma ctfe_int_operators_witness:
  "H2CTFEEvalBinary None 1 exMem (tokWord H2Tok_DIV) (intValue (-7)) (intValue 2) =
   (Ok (exMem, 1, intValue (-3)) :: (unit stop, _) outcome)"
proof -
  have "H2CTFEEvalBinary None (Suc 0) exMem (tokWord H2Tok_DIV) (intValue (-7)) (intValue 2) =
      (Ok (case intMeaning H2Tok_DIV (sint (vi64 (intValue (-7)))) (sint (vi64 (intValue 2))) of
        None \<Rightarrow> (exMem, 0, H2CTFEValueInvalid)
      | Some (Inl i) \<Rightarrow> (exMem, 1, intValue (word_of_int i))
      | Some (Inr b) \<Rightarrow> (exMem, 1, boolValue b)) :: (unit stop, _) outcome)"
    by (rule ctfe_int_operators) simp_all
  then show ?thesis by (simp add: inRange_def fits64_def signed_divide_int_def del: H2CTFEEvalBinary.simps)
qed

end
