(* ===== verification/H2MirExec.thy ===== *)
theory H2MirExec
  imports H2Ctfe
begin

text \<open>
  The interpreter of \<open>src/mir_exec.c\<close>: a stack machine over the values of the constant
  evaluator. The environment is a record of the callbacks of \<open>H2MirExecEnv\<close>, each \<open>None\<close> for
  NULL; a callback is a function of the memory and its arguments that answers the memory, its
  return code and what it stores through its out pointers. Callbacks are parameters of the
  interpreter in the C code as well. A NULL environment is one of NULL callbacks. One step of the
  loop is a function on runs; a run that returns is \<open>Err (Returned ..)\<close>. The loop and the
  calls it makes take fuel.
\<close>

subsection \<open>Environment and runs\<close>

type_synonym 'x answer = "'x H2Mem \<times> int \<times> H2CTFEValue \<times> bool"

type_synonym callSite = "H2MirProgram option \<times> H2MirFunction option \<times> H2MirInst"

text \<open>An argument array: its address and the number of values.\<close>

type_synonym valueArray = "nat option \<times> nat"

record iterItem =
  hasItem :: bool
  itemKey :: H2CTFEValue
  itemKeyIsConst :: bool
  itemValue :: H2CTFEValue
  itemValueIsConst :: bool

record 'x H2MirExecEnv =
  envSrc :: viewRef
  resolveIdent :: "('x H2Mem \<Rightarrow> nat \<Rightarrow> nat \<Rightarrow> 'x answer) option"
  assignIdent :: "('x H2Mem \<Rightarrow> nat \<Rightarrow> nat \<Rightarrow> H2CTFEValue \<Rightarrow> 'x H2Mem \<times> int \<times> bool) option"
  resolveCallPre :: "('x H2Mem \<Rightarrow> callSite \<Rightarrow> nat \<Rightarrow> nat \<Rightarrow> 'x answer) option"
  resolveCall :: "('x H2Mem \<Rightarrow> callSite \<Rightarrow> nat \<Rightarrow> nat \<Rightarrow> valueArray \<Rightarrow> 'x answer) option"
  adjustCallArgs :: "('x H2Mem \<Rightarrow> callSite \<Rightarrow> nat \<Rightarrow> valueArray \<Rightarrow> 'x H2Mem \<times> int) option"
  indirectCall :: "('x H2Mem \<Rightarrow> callSite \<Rightarrow> H2CTFEValue \<Rightarrow> valueArray \<Rightarrow> 'x answer) option"
  hostCall :: "('x H2Mem \<Rightarrow> nat \<Rightarrow> valueArray \<Rightarrow> 'x answer) option"
  zeroInitLocal :: "('x H2Mem \<Rightarrow> H2MirTypeRef \<Rightarrow> 'x answer) option"
  coerceValueForType :: "('x H2Mem \<Rightarrow> H2MirTypeRef \<Rightarrow> H2CTFEValue \<Rightarrow> 'x H2Mem \<times> int \<times> H2CTFEValue) option"
  indexValue :: "('x H2Mem \<Rightarrow> H2CTFEValue \<Rightarrow> H2CTFEValue \<Rightarrow> 'x answer) option"
  indexAddr :: "('x H2Mem \<Rightarrow> H2CTFEValue \<Rightarrow> H2CTFEValue \<Rightarrow> 'x answer) option"
  sliceValue ::
    "('x H2Mem \<Rightarrow> H2CTFEValue \<Rightarrow> H2CTFEValue option \<Rightarrow> H2CTFEValue option \<Rightarrow> 16 word \<Rightarrow> 'x answer) option"
  sequenceLen :: "('x H2Mem \<Rightarrow> H2CTFEValue \<Rightarrow> 'x answer) option"
  iterInit :: "('x H2Mem \<Rightarrow> nat \<Rightarrow> H2CTFEValue \<Rightarrow> 16 word \<Rightarrow> 'x answer) option"
  iterNext :: "('x H2Mem \<Rightarrow> H2CTFEValue \<Rightarrow> 16 word \<Rightarrow> 'x H2Mem \<times> int \<times> iterItem) option"
  aggGetField :: "('x H2Mem \<Rightarrow> H2CTFEValue \<Rightarrow> nat \<Rightarrow> nat \<Rightarrow> 'x answer) option"
  aggAddrField :: "('x H2Mem \<Rightarrow> H2CTFEValue \<Rightarrow> nat \<Rightarrow> nat \<Rightarrow> 'x answer) option"
  aggSetField :: "('x H2Mem \<Rightarrow> H2CTFEValue \<Rightarrow> nat \<Rightarrow> nat \<Rightarrow> H2CTFEValue \<Rightarrow> 'x answer) option"
  makeAggregate :: "('x H2Mem \<Rightarrow> nat \<Rightarrow> nat \<Rightarrow> 'x answer) option"
  makeTuple :: "('x H2Mem \<Rightarrow> valueArray \<Rightarrow> nat \<Rightarrow> 'x answer) option"
  makeVariadicPack ::
    "('x H2Mem \<Rightarrow> H2MirProgram \<Rightarrow> H2MirFunction \<Rightarrow> H2MirTypeRef option \<Rightarrow> 16 word \<Rightarrow> valueArray \<Rightarrow> 'x answer) option"
  evalBinary :: "'x binaryHook option"
  allocNew :: "('x H2Mem \<Rightarrow> nat \<Rightarrow> 'x answer) option"
  contextGet :: "('x H2Mem \<Rightarrow> nat \<Rightarrow> 'x answer) option"
  contextAddr :: "('x H2Mem \<Rightarrow> nat \<Rightarrow> 'x answer) option"
  evalWithContext :: "('x H2Mem \<Rightarrow> nat \<Rightarrow> 'x answer) option"
  enterFunction :: "('x H2Mem \<Rightarrow> nat \<Rightarrow> nat \<Rightarrow> 'x H2Mem \<times> int) option"
  leaveFunction :: "('x H2Mem \<Rightarrow> 'x H2Mem) option"
  bindFrame :: "('x H2Mem \<Rightarrow> H2MirProgram \<Rightarrow> H2MirFunction \<Rightarrow> valueArray \<Rightarrow> 'x H2Mem \<times> int) option"
  unbindFrame :: "('x H2Mem \<Rightarrow> 'x H2Mem) option"
  setReason :: "('x H2Mem \<Rightarrow> nat \<Rightarrow> nat \<Rightarrow> string \<Rightarrow> 'x H2Mem) option"
  backwardJumpLimit :: nat

definition H2MirExecEnvDisableDynamicResolution :: "'x H2MirExecEnv \<Rightarrow> 'x H2MirExecEnv" where
  "H2MirExecEnvDisableDynamicResolution env = env\<lparr>resolveIdent := None, resolveCall := None\<rparr>"

text \<open>
  A run: its stack has the top first, its locals are an array in memory. \<open>rout\<close> and \<open>risConst\<close>
  are what the out pointers of the caller hold.
\<close>

record 'x H2MirExecRun =
  rcode :: "H2MirInst list"
  rpc :: nat
  rstack :: "H2CTFEValue list"
  rstackCap :: nat
  rstackBytes :: nat
  rlocals :: "nat option"
  rlocalCount :: nat
  rprogram :: "H2MirProgram option"
  rfunction :: "H2MirFunction option"
  renv :: "'x H2MirExecEnv"
  rbackJumps :: nat
  rmem :: "'x H2Mem"
  rout :: H2CTFEValue
  risConst :: bool

type_synonym ('x, 'a) running = "(('x H2MirExecRun \<times> int) stop, 'a) outcome"
type_synonym 'x stepped = "('x, 'x H2MirExecRun) running"

definition return :: "int \<Rightarrow> 'x H2MirExecRun \<Rightarrow> ('x, 'a) running" where
  "return rc run = Err (Returned (run, rc))"

definition H2MirSetReason :: "H2MirInst \<Rightarrow> string \<Rightarrow> 'x H2MirExecRun \<Rightarrow> 'x H2MirExecRun" where
  "H2MirSetReason ins reason run =
     (case setReason (renv run) of
        None \<Rightarrow> run
      | Some f \<Rightarrow> if reason = '''' then run else run\<lparr>rmem := f (rmem run) (istart ins) (iend ins) reason\<rparr>)"

definition fail :: "nat \<Rightarrow> nat \<Rightarrow> nat \<Rightarrow> 'x H2MirExecRun \<Rightarrow> ('x, 'a) running" where
  "fail code start endPos run = return (-1) (run\<lparr>rmem := H2CTFESetDiag (rmem run) code start endPos\<rparr>)"

definition H2CTFEPush :: "H2CTFEValue \<Rightarrow> 'x H2MirExecRun \<Rightarrow> 'x stepped" where
  "H2CTFEPush v run =
     (if length (rstack run) \<ge> rstackCap run then fail 141 0 0 run
      else if (length (rstack run) + 1) * sizeof_H2CTFEValue > rstackBytes run then Stuck
      else Ok (run\<lparr>rstack := v # rstack run\<rparr>))"

text \<open>Every use of \<open>H2CTFEPop\<close> returns 0 when the stack is empty.\<close>

definition H2CTFEPop :: "'x H2MirExecRun \<Rightarrow> (H2CTFEValue \<Rightarrow> 'x H2MirExecRun \<Rightarrow> ('x, 'a) running) \<Rightarrow> ('x, 'a) running" where
  "H2CTFEPop run k =
     (case rstack run of [] \<Rightarrow> return 0 run | v # st \<Rightarrow> k v (run\<lparr>rstack := st\<rparr>))"

text \<open>Allocation of memory and of an array of values; a refusal is a diagnostic and -1.\<close>

definition allocate ::
  "nat \<Rightarrow> nat \<Rightarrow> nat \<Rightarrow> nat \<Rightarrow> 'x H2MirExecRun \<Rightarrow> (nat \<Rightarrow> 'x H2MirExecRun \<Rightarrow> ('x, 'a) running) \<Rightarrow> ('x, 'a) running" where
  "allocate sz align start endPos run k =
     (case H2ArenaAlloc (marena (rmem run)) (u32 sz) align of
        (None, ar) \<Rightarrow> fail 141 start endPos (run\<lparr>rmem := (rmem run)\<lparr>marena := ar\<rparr>\<rparr>)
      | (Some p, ar) \<Rightarrow>
          if sz > u32 sz then Stuck else k p (run\<lparr>rmem := (rmem run)\<lparr>marena := ar\<rparr>\<rparr>))"

definition slotAddr :: "nat option \<Rightarrow> nat \<Rightarrow> nat option" where
  "slotAddr base i = map_option (\<lambda>p. p + sizeof_H2CTFEValue * i) base"

definition readSlot :: "'x H2Mem \<Rightarrow> nat option \<Rightarrow> nat \<Rightarrow> ('e, H2CTFEValue) outcome" where
  "readSlot m base i = (case slotAddr base i of None \<Rightarrow> Stuck | Some p \<Rightarrow> readValue m p)"

text \<open>Pop the arguments of an instruction, in order, into a fresh array.\<close>

definition popArgs ::
  "nat \<Rightarrow> H2MirInst \<Rightarrow> 'x H2MirExecRun \<Rightarrow> (valueArray \<Rightarrow> 'x H2MirExecRun \<Rightarrow> ('x, 'a) running) \<Rightarrow> ('x, 'a) running" where
  "popArgs n ins run k =
     (if n = 0 then k (None, 0) run
      else allocate (sizeof_H2CTFEValue * n) 8 (istart ins) (iend ins) run (\<lambda>p run.
        k (Some p, n) (run\<lparr>rstack := drop n (rstack run),
          rmem := writeValues p (rev (take n (rstack run))) (rmem run)\<rparr>)))"

subsection \<open>Types, hosts and names\<close>

definition invalidLocal :: H2MirLocal where
  "invalidLocal = \<lparr>ltypeRef = UINT32_MAX, lflags = 0, lnameStart = 0, lnameEnd = 0\<rparr>"

definition H2MirGetLocalMeta :: "'x H2MirExecRun \<Rightarrow> nat \<Rightarrow> H2MirLocal" where
  "H2MirGetLocalMeta run slot =
     (case (rprogram run, rfunction run) of
        (Some p, Some f) \<Rightarrow>
          (if slot \<ge> rlocalCount run \<or> localStart f > length (plocals p) \<or> slot \<ge> length (plocals p) - localStart f
           then invalidLocal else plocals p ! (localStart f + slot))
      | _ \<Rightarrow> invalidLocal)"

text \<open>The answers 1, 0 and -1 with the value and the memory.\<close>

definition H2MirCoerceValueForType ::
  "'x H2MirExecRun \<Rightarrow> nat \<Rightarrow> H2CTFEValue \<Rightarrow> int \<times> H2CTFEValue \<times> 'x H2MirExecRun" where
  "H2MirCoerceValueForType run typeRefIndex v =
     (if typeRefIndex = UINT32_MAX then (1, v, run)
      else case coerceValueForType (renv run) of
        None \<Rightarrow> (1, v, run)
      | Some f \<Rightarrow>
          (case rprogram run of
             None \<Rightarrow> (0, v, run)
           | Some p \<Rightarrow>
               if typeRefIndex \<ge> length (ptypes p) then (0, v, run)
               else (let (m, rc, v') = f (rmem run) (ptypes p ! typeRefIndex) v
                     in (if rc \<noteq> 0 then -1 else 1, v', run\<lparr>rmem := m\<rparr>))))"

definition coerced ::
  "nat \<Rightarrow> H2CTFEValue \<Rightarrow> 'x H2MirExecRun \<Rightarrow> (H2CTFEValue \<Rightarrow> 'x H2MirExecRun \<Rightarrow> ('x, 'a) running) \<Rightarrow> ('x, 'a) running" where
  "coerced typeRefIndex v run k =
     (let (rc, v', run') = H2MirCoerceValueForType run typeRefIndex v
      in if rc \<le> 0 then return rc run' else k v' run')"

definition H2MirResolveHostId :: "'x H2MirExecRun \<Rightarrow> H2MirInst \<Rightarrow> nat" where
  "H2MirResolveHostId run ins =
     (case rprogram run of
        None \<Rightarrow> 0
      | Some p \<Rightarrow> if length (phosts p) = 0 \<or> iaux ins \<ge> length (phosts p) then 0 else hostTarget (phosts p ! iaux ins))"

definition H2MirResolveSymbolName :: "'x H2MirExecRun \<Rightarrow> H2MirInst \<Rightarrow> H2MirSymbolKind \<Rightarrow> nat \<times> nat" where
  "H2MirResolveSymbolName run ins expectedKind =
     (case rprogram run of
        None \<Rightarrow> (0, 0)
      | Some p \<Rightarrow>
          (if length (psymbols p) = 0 \<or> iaux ins \<ge> length (psymbols p) then (0, 0)
           else if symKind (psymbols p ! iaux ins) \<noteq> expectedKind then (0, 0)
           else (symNameStart (psymbols p ! iaux ins), symNameEnd (psymbols p ! iaux ins))))"

definition H2MirResolveFieldName :: "'x H2MirExecRun \<Rightarrow> H2MirInst \<Rightarrow> nat \<times> nat" where
  "H2MirResolveFieldName run ins =
     (case rprogram run of
        None \<Rightarrow> (0, 0)
      | Some p \<Rightarrow>
          (if length (pfields p) = 0 \<or> iaux ins \<ge> length (pfields p) then (0, 0)
           else (fieldNameStart (pfields p ! iaux ins), fieldNameEnd (pfields p ! iaux ins))))"

subsection \<open>Function values, constants, references\<close>

abbreviation (input) FUNCTION_REF_TAG_FLAG :: "64 word" where
  "FUNCTION_REF_TAG_FLAG \<equiv> 0x0200000000000000"

abbreviation (input) BYTE_REF_PROXY_TAG_FLAG :: "64 word" where
  "BYTE_REF_PROXY_TAG_FLAG \<equiv> 0x0100000000000000"

definition H2MirValueSetFunctionRef :: "nat \<Rightarrow> H2CTFEValue" where
  "H2MirValueSetFunctionRef functionIndex =
     H2CTFEValueInvalid\<lparr>vkind := H2CTFEValue_TYPE, vtag := FUNCTION_REF_TAG_FLAG OR of_nat functionIndex\<rparr>"

text \<open>The function index and the pointer to the closure data.\<close>

definition H2MirValueIsFunctionValue :: "H2CTFEValue \<Rightarrow> (nat \<times> nat option) option" where
  "H2MirValueIsFunctionValue v =
     (if vkind v \<noteq> H2CTFEValue_TYPE \<or> vtag v AND FUNCTION_REF_TAG_FLAG = 0 then None
      else Some (unat (take_bit 32 (vtag v AND NOT FUNCTION_REF_TAG_FLAG)), sbytes (vs v)))"

definition H2MirValueIsFunctionRef :: "H2CTFEValue \<Rightarrow> nat option" where
  "H2MirValueIsFunctionRef v = map_option fst (H2MirValueIsFunctionValue v)"

definition H2MirValueAsFunctionRef :: "H2CTFEValue \<Rightarrow> nat option" where
  "H2MirValueAsFunctionRef v = H2MirValueIsFunctionRef v"

definition H2MirValueSetByteRefProxy :: "'x H2Mem \<Rightarrow> nat option \<Rightarrow> ('e, H2CTFEValue) outcome" where
  "H2MirValueSetByteRefProxy m target =
     (let v = H2CTFEValueInvalid\<lparr>vkind := H2CTFEValue_INT, vtag := BYTE_REF_PROXY_TAG_FLAG\<rparr>
      in case target of
           None \<Rightarrow> Ok v
         | Some p \<Rightarrow> (case hbytes m p of
             None \<Rightarrow> Stuck
           | Some c \<Rightarrow> Ok (v\<lparr>vi64 := ucast c, vs := \<lparr>sbytes = Some p, slen = 1\<rparr>\<rparr>)))"

definition H2MirValueAsByteRefProxy :: "H2CTFEValue \<Rightarrow> nat option" where
  "H2MirValueAsByteRefProxy v =
     (if vkind v \<noteq> H2CTFEValue_INT \<or> vtag v AND BYTE_REF_PROXY_TAG_FLAG = 0 then None else sbytes (vs v))"

definition H2MirReferenceTarget :: "H2CTFEValue \<Rightarrow> nat option" where
  "H2MirReferenceTarget v = (if vkind v \<noteq> H2CTFEValue_REFERENCE then None else sbytes (vs v))"

definition referenceTo :: "nat \<Rightarrow> H2CTFEValue" where
  "referenceTo p = H2CTFEValueInvalid\<lparr>vkind := H2CTFEValue_REFERENCE, vs := \<lparr>sbytes = Some p, slen = 0\<rparr>\<rparr>"

definition H2MirConstToValue :: "H2MirConst \<Rightarrow> H2CTFEValue option" where
  "H2MirConstToValue c =
     (let v = H2CTFEValueInvalid; str = \<lparr>sbytes = fst (cbytes c), slen = snd (cbytes c)\<rparr>
      in case ckind c of
           H2MirConst_INT \<Rightarrow> Some (v\<lparr>vkind := H2CTFEValue_INT, vi64 := cbits c\<rparr>)
         | H2MirConst_FLOAT \<Rightarrow> Some (v\<lparr>vkind := H2CTFEValue_FLOAT, vf64 := cbits c\<rparr>)
         | H2MirConst_BOOL \<Rightarrow> Some (v\<lparr>vkind := H2CTFEValue_BOOL, vb := boolByte (cbits c \<noteq> 0)\<rparr>)
         | H2MirConst_STRING \<Rightarrow> Some (v\<lparr>vkind := H2CTFEValue_STRING, vs := str\<rparr>)
         | H2MirConst_TYPE \<Rightarrow> Some (v\<lparr>vkind := H2CTFEValue_TYPE, vtag := cbits c, vs := str\<rparr>)
         | H2MirConst_FUNCTION \<Rightarrow> Some (H2MirValueSetFunctionRef (caux c))
         | H2MirConst_NULL \<Rightarrow> Some (v\<lparr>vkind := H2CTFEValue_NULL\<rparr>)
         | _ \<Rightarrow> None)"

subsection \<open>Steps: constants\<close>

definition sourceText :: "'x H2MirExecRun \<Rightarrow> (H2StrView \<Rightarrow> ('x, 'a) running) \<Rightarrow> ('x, 'a) running" where
  "sourceText run k = obind (readView (rmem run) (envSrc (renv run))) k"

definition stepPushConst :: "H2MirInst \<Rightarrow> 'x H2MirExecRun \<Rightarrow> 'x stepped" where
  "stepPushConst ins run =
     (case rprogram run of
        None \<Rightarrow> return 0 run
      | Some p \<Rightarrow>
          if iaux ins \<ge> length (pconsts p) then return 0 run
          else case H2MirConstToValue (pconsts p ! iaux ins) of
            None \<Rightarrow> return 0 run
          | Some v \<Rightarrow> H2CTFEPush v run)"

definition stepPushInt :: "H2MirInst \<Rightarrow> 'x H2MirExecRun \<Rightarrow> 'x stepped" where
  "stepPushInt ins run =
     (if itok ins = tokWord H2Tok_RUNE then
        sourceText run (\<lambda>src. viewBytes src (\<lambda>bs.
          case H2DecodeRuneLiteralValidate bs (istart ins) (iend ins) of
            Stuck \<Rightarrow> Stuck
          | Err e \<Rightarrow> fail (H2RuneLitErrDiagCode (rekind e)) (restart e) (reend e) run
          | Ok r \<Rightarrow> H2CTFEPush (intValue (ucast r)) run))
      else if itok ins = tokWord H2Tok_INVALID then
        H2CTFEPush (intValue (scast (of_nat (iaux ins) :: 32 word))) run
      else
        sourceText run (\<lambda>src. obind (H2CTFEParseIntLiteral src (istart ins) (iend ins)) (\<lambda>r.
          case r of None \<Rightarrow> return 0 run | Some i \<Rightarrow> H2CTFEPush (intValue i) run)))"

definition stepPushFloat :: "H2MirInst \<Rightarrow> 'x H2MirExecRun \<Rightarrow> 'x stepped" where
  "stepPushFloat ins run =
     sourceText run (\<lambda>src. obind (H2CTFEParseFloatLiteral src (istart ins) (iend ins)) (\<lambda>r.
       case r of
         None \<Rightarrow> return 0 run
       | Some x \<Rightarrow> H2CTFEPush (H2CTFEValueInvalid\<lparr>vkind := H2CTFEValue_FLOAT, vf64 := x\<rparr>) run))"

definition stepPushBool :: "H2MirInst \<Rightarrow> 'x H2MirExecRun \<Rightarrow> 'x stepped" where
  "stepPushBool ins run =
     sourceText run (\<lambda>src. obind (H2CTFEParseBoolLiteral src (istart ins) (iend ins)) (\<lambda>r.
       case r of
         None \<Rightarrow> return 0 run
       | Some b \<Rightarrow> H2CTFEPush (H2CTFEValueInvalid\<lparr>vkind := H2CTFEValue_BOOL, vb := b\<rparr>) run))"

definition stepPushString :: "H2MirInst \<Rightarrow> 'x H2MirExecRun \<Rightarrow> 'x stepped" where
  "stepPushString ins run =
     sourceText run (\<lambda>src. viewBytes src (\<lambda>bs.
       case H2DecodeStringLiteralArena (marena (rmem run)) bs (istart ins) (iend ins) of
         Stuck \<Rightarrow> Stuck
       | Err (e, ar) \<Rightarrow>
           fail (H2StringLitErrDiagCode (sekind e)) (sestart e) (seend e) (run\<lparr>rmem := (rmem run)\<lparr>marena := ar\<rparr>\<rparr>)
       | Ok buf \<Rightarrow>
           H2CTFEPush (H2CTFEValueInvalid\<lparr>vkind := H2CTFEValue_STRING,
               vs := \<lparr>sbytes = bufV buf, slen = length (bufBytes buf)\<rparr>\<rparr>)
             (run\<lparr>rmem := storeBuf buf (rmem run)\<rparr>)))"

definition stepPushNull :: "'x H2MirExecRun \<Rightarrow> 'x stepped" where
  "stepPushNull run = H2CTFEPush (H2CTFEValueInvalid\<lparr>vkind := H2CTFEValue_NULL\<rparr>) run"

subsection \<open>Steps: closures, locals, references\<close>

abbreviation (input) H2MirFunctionFlag_VARIADIC :: "32 word" where "H2MirFunctionFlag_VARIADIC \<equiv> 1"
abbreviation (input) H2MirFunctionFlag_FUNCTION_VALUE_ENTRY :: "32 word" where
  "H2MirFunctionFlag_FUNCTION_VALUE_ENTRY \<equiv> 2"

definition makeClosure ::
  "H2MirInst \<Rightarrow> H2MirProgram \<Rightarrow> nat \<Rightarrow> nat option \<Rightarrow> 'x H2MirExecRun \<Rightarrow> 'x stepped" where
  "makeClosure ins p data refs run =
     (let n = unat (itok ins); captured = rev (take n (rstack run));
          run' = run\<lparr>rstack := drop n (rstack run)\<rparr>
      in if list_ex (\<lambda>v. vkind v \<noteq> H2CTFEValue_REFERENCE) captured then return 0 run'
         else
           (let m = (rmem run)\<lparr>hclosures := (hclosures (rmem run))(data := Some (n, refs))\<rparr>;
                m' = (case refs of None \<Rightarrow> m | Some q \<Rightarrow> writeValues q captured m);
                f = H2MirValueSetFunctionRef (caux (pconsts p ! iaux ins))
            in H2CTFEPush (f\<lparr>vs := \<lparr>sbytes = Some data, slen = 0\<rparr>\<rparr>) (run'\<lparr>rmem := m'\<rparr>)))"

definition stepMakeClosure :: "H2MirInst \<Rightarrow> 'x H2MirExecRun \<Rightarrow> 'x stepped" where
  "stepMakeClosure ins run =
     (case rprogram run of
        None \<Rightarrow> Stuck
      | Some p \<Rightarrow>
          (let n = unat (itok ins)
           in if iaux ins \<ge> length (pconsts p) \<or> ckind (pconsts p ! iaux ins) \<noteq> H2MirConst_FUNCTION \<or>
                 n > length (rstack run) then return 0 run
              else allocate 16 8 (istart ins) (iend ins) run (\<lambda>data run.
                if n = 0 then makeClosure ins p data None run
                else allocate (sizeof_H2CTFEValue * n) 8 (istart ins) (iend ins) run (\<lambda>q.
                  makeClosure ins p data (Some q)))))"

definition stepLocalLoad :: "H2MirInst \<Rightarrow> 'x H2MirExecRun \<Rightarrow> 'x stepped" where
  "stepLocalLoad ins run =
     (if iaux ins \<ge> rlocalCount run then return 0 run
      else obind (readSlot (rmem run) (rlocals run) (iaux ins)) (\<lambda>v. H2CTFEPush v run))"

definition stepLocalAddr :: "H2MirInst \<Rightarrow> 'x H2MirExecRun \<Rightarrow> 'x stepped" where
  "stepLocalAddr ins run =
     (if iaux ins \<ge> rlocalCount run then return 0 run
      else case slotAddr (rlocals run) (iaux ins) of
        None \<Rightarrow> Stuck
      | Some p \<Rightarrow> H2CTFEPush (referenceTo p) run)"

text \<open>The reference an entered closure captured: the checks shared by the three capture operations.\<close>

definition capturedRef ::
  "H2MirInst \<Rightarrow> 'x H2MirExecRun \<Rightarrow> (nat option \<Rightarrow> 'x stepped) \<Rightarrow> 'x stepped" where
  "capturedRef ins run k =
     (case rfunction run of
        None \<Rightarrow> return 0 run
      | Some f \<Rightarrow>
          if fflags f AND H2MirFunctionFlag_FUNCTION_VALUE_ENTRY = 0 \<or> paramCount f = 0 \<or>
             iaux ins \<ge> captureCount f then return 0 run
          else obind (readSlot (rmem run) (rlocals run) (paramCount f - 1)) (\<lambda>v.
            case H2MirValueIsFunctionValue v of
              Some (i, Some data) \<Rightarrow>
                (case hclosures (rmem run) data of
                   None \<Rightarrow> Stuck
                 | Some (n, refs) \<Rightarrow> if iaux ins \<ge> n then return 0 run else k refs)
            | _ \<Rightarrow> return 0 run))"

definition stepCaptureAddr :: "H2MirInst \<Rightarrow> 'x H2MirExecRun \<Rightarrow> 'x stepped" where
  "stepCaptureAddr ins run =
     capturedRef ins run (\<lambda>refs. obind (readSlot (rmem run) refs (iaux ins)) (\<lambda>v. H2CTFEPush v run))"

definition stepCaptureLoad :: "H2MirInst \<Rightarrow> 'x H2MirExecRun \<Rightarrow> 'x stepped" where
  "stepCaptureLoad ins run =
     capturedRef ins run (\<lambda>refs. obind (readSlot (rmem run) refs (iaux ins)) (\<lambda>v.
       case H2MirReferenceTarget v of
         None \<Rightarrow> return 0 run
       | Some p \<Rightarrow> obind (readValue (rmem run) p) (\<lambda>x. H2CTFEPush x run)))"

definition stepCaptureStore :: "H2MirInst \<Rightarrow> 'x H2MirExecRun \<Rightarrow> 'x stepped" where
  "stepCaptureStore ins run =
     capturedRef ins run (\<lambda>refs. H2CTFEPop run (\<lambda>value run.
       obind (readSlot (rmem run) refs (iaux ins)) (\<lambda>v.
         case H2MirReferenceTarget v of
           None \<Rightarrow> return 0 run
         | Some p \<Rightarrow> Ok (run\<lparr>rmem := writeValue p value (rmem run)\<rparr>))))"

definition stepAddrOf :: "H2MirInst \<Rightarrow> 'x H2MirExecRun \<Rightarrow> 'x stepped" where
  "stepAddrOf ins run =
     H2CTFEPop run (\<lambda>v run. allocate sizeof_H2CTFEValue 8 (istart ins) (iend ins) run (\<lambda>p run.
       H2CTFEPush (referenceTo p) (run\<lparr>rmem := writeValue p v (rmem run)\<rparr>)))"

definition stepLocalZero :: "H2MirInst \<Rightarrow> 'x H2MirExecRun \<Rightarrow> 'x stepped" where
  "stepLocalZero ins run =
     (case zeroInitLocal (renv run) of
        None \<Rightarrow> return 0 run
      | Some f \<Rightarrow>
          if iaux ins \<ge> rlocalCount run then return 0 run
          else
            (let local = H2MirGetLocalMeta run (iaux ins)
             in if ltypeRef local = UINT32_MAX then return 0 run
                else case rprogram run of
                  None \<Rightarrow> Stuck
                | Some p \<Rightarrow>
                    if ltypeRef local \<ge> length (ptypes p) then return 0 run
                    else (let (m, rc, v, isConst) = f (rmem run) (ptypes p ! ltypeRef local); run = run\<lparr>rmem := m\<rparr>
                          in if rc \<noteq> 0 then return (-1) run
                             else if \<not> isConst then return 0 run
                             else case slotAddr (rlocals run) (iaux ins) of
                               None \<Rightarrow> Stuck
                             | Some q \<Rightarrow> Ok (run\<lparr>rmem := writeValue q v (rmem run)\<rparr>))))"

text \<open>A byte reached through a proxy is read and written in the memory of bytes.\<close>

definition stepDerefLoad :: "'x H2MirExecRun \<Rightarrow> 'x stepped" where
  "stepDerefLoad run =
     H2CTFEPop run (\<lambda>ref run.
       case H2MirReferenceTarget ref of
         None \<Rightarrow> return 0 run
       | Some p \<Rightarrow> obind (readValue (rmem run) p) (\<lambda>t.
           case H2MirValueAsByteRefProxy t of
             None \<Rightarrow> H2CTFEPush t run
           | Some q \<Rightarrow>
               (case hbytes (rmem run) q of
                  None \<Rightarrow> Stuck
                | Some c \<Rightarrow>
                    H2CTFEPush (t\<lparr>vi64 := ucast c, vf64 := 0, vb := 0, vtag := 0,
                      vs := \<lparr>sbytes = None, slen = 0\<rparr>\<rparr>) run)))"

definition stepDerefStore :: "H2MirInst \<Rightarrow> 'x H2MirExecRun \<Rightarrow> 'x stepped" where
  "stepDerefStore ins run =
     H2CTFEPop run (\<lambda>ref run. H2CTFEPop run (\<lambda>v run.
       case H2MirReferenceTarget ref of
         None \<Rightarrow> return 0 run
       | Some p \<Rightarrow> obind (readValue (rmem run) p) (\<lambda>t.
           case H2MirValueAsByteRefProxy t of
             None \<Rightarrow> Ok (run\<lparr>rmem := writeValue p v (rmem run)\<rparr>)
           | Some q \<Rightarrow>
               (case H2CTFEValueToInt64 v of
                  None \<Rightarrow> return 0 (H2MirSetReason ins ''byte reference store value is not supported'' run)
                | Some i \<Rightarrow>
                    if sint i < 0 \<or> sint i > 255
                    then return 0 (H2MirSetReason ins ''byte reference store value is not supported'' run)
                    else Ok (run\<lparr>rmem := writeValue p (t\<lparr>vi64 := i\<rparr>) (writeBytes q [ucast i] (rmem run))\<rparr>)))))"

definition stepLocalStore :: "H2MirInst \<Rightarrow> 'x H2MirExecRun \<Rightarrow> 'x stepped" where
  "stepLocalStore ins run =
     (if iaux ins \<ge> rlocalCount run then return 0 run
      else H2CTFEPop run (\<lambda>v run.
        coerced (ltypeRef (H2MirGetLocalMeta run (iaux ins))) v run (\<lambda>v run.
          case slotAddr (rlocals run) (iaux ins) of
            None \<Rightarrow> Stuck
          | Some p \<Rightarrow> Ok (run\<lparr>rmem := writeValue p v (rmem run)\<rparr>))))"

end
