(* ===== verification/H2MirRun.thy ===== *)
theory H2MirRun
  imports H2MirExec
begin

text \<open>
  The rest of the interpreter of \<open>src/mir_exec.c\<close>: jumps, calls, the operations that ask the
  environment, the loop, and the entry points \<open>H2MirEvalChunk\<close> and \<open>H2MirEvalFunction\<close>. A call of
  a function of the program runs the loop again, so the steps take the call as an argument.
\<close>

subsection \<open>Answers of the environment\<close>

text \<open>
  Most callbacks answer 0 for success, and a value that is not constant ends the run. The others
  answer a negative number for an error and 0 for \<open>not handled\<close>.
\<close>

definition answered ::
  "'x answer \<Rightarrow> ('x H2MirExecRun \<Rightarrow> 'x H2MirExecRun) \<Rightarrow> 'x H2MirExecRun \<Rightarrow> 'x stepped" where
  "answered a notConst run =
     (let (m, rc, v, isConst) = a; run = run\<lparr>rmem := m\<rparr>
      in if rc \<noteq> 0 then return (-1) run
         else if \<not> isConst then return 0 (notConst run)
         else H2CTFEPush v run)"

definition hooked :: "'x answer \<Rightarrow> 'x H2MirExecRun \<Rightarrow> ('x H2MirExecRun \<Rightarrow> 'x stepped) \<Rightarrow> 'x stepped" where
  "hooked a run k =
     (let (m, rc, v, isConst) = a; run = run\<lparr>rmem := m\<rparr>
      in if rc < 0 then return (-1) run
         else if rc > 0 then (if \<not> isConst then return 0 run else H2CTFEPush v run)
         else k run)"

text \<open>The four operations that report a reason when the environment has no answer.\<close>

definition queried :: "('x H2Mem \<Rightarrow> nat \<Rightarrow> 'x answer) option \<Rightarrow> string \<Rightarrow> H2MirInst \<Rightarrow> 'x H2MirExecRun \<Rightarrow> 'x stepped" where
  "queried f reason ins run =
     (case f of
        None \<Rightarrow> return 0 (H2MirSetReason ins reason run)
      | Some f \<Rightarrow>
          (let (m, rc, v, isConst) = f (rmem run) (iaux ins); run = run\<lparr>rmem := m\<rparr>
           in if rc < 0 then return (-1) run
              else if rc = 0 \<or> \<not> isConst then return 0 (H2MirSetReason ins reason run)
              else H2CTFEPush v run))"

definition site :: "H2MirInst \<Rightarrow> 'x H2MirExecRun \<Rightarrow> callSite" where
  "site ins run = (rprogram run, rfunction run, ins)"

subsection \<open>Steps: jumps, names\<close>

definition stepDrop :: "'x H2MirExecRun \<Rightarrow> 'x stepped" where
  "stepDrop run = H2CTFEPop run (\<lambda>v run. Ok run)"

text \<open>The jump counter has 32 bits; it counts only when there is a limit.\<close>

definition jumpTo :: "H2MirInst \<Rightarrow> 'x H2MirExecRun \<Rightarrow> 'x stepped" where
  "jumpTo ins run =
     (if backwardJumpLimit (renv run) \<noteq> 0 \<and> iaux ins < rpc run then
        (let run = run\<lparr>rbackJumps := u32 (rbackJumps run + 1)\<rparr>
         in if rbackJumps run > backwardJumpLimit (renv run)
            then return 0 (H2MirSetReason ins ''for-loop exceeded const-eval iteration limit'' run)
            else Ok (run\<lparr>rpc := iaux ins\<rparr>))
      else Ok (run\<lparr>rpc := iaux ins\<rparr>))"

definition stepJump :: "H2MirInst \<Rightarrow> 'x H2MirExecRun \<Rightarrow> 'x stepped" where
  "stepJump ins run = (if iaux ins \<ge> length (rcode run) then return 0 run else jumpTo ins run)"

definition popBool :: "'x H2MirExecRun \<Rightarrow> (bool \<Rightarrow> 'x H2MirExecRun \<Rightarrow> 'x stepped) \<Rightarrow> 'x stepped" where
  "popBool run k =
     H2CTFEPop run (\<lambda>cond run. obind (H2CTFEEvalCast (castWord H2MirCastTarget_BOOL) cond) (\<lambda>r.
       case r of None \<Rightarrow> return 0 run | Some b \<Rightarrow> k (vb b \<noteq> 0) run))"

definition stepJumpIfFalse :: "H2MirInst \<Rightarrow> 'x H2MirExecRun \<Rightarrow> 'x stepped" where
  "stepJumpIfFalse ins run =
     (if iaux ins \<ge> length (rcode run) then return 0 run
      else popBool run (\<lambda>b run. if b then Ok run else jumpTo ins run))"

definition stepAssert :: "H2MirInst \<Rightarrow> 'x H2MirExecRun \<Rightarrow> 'x stepped" where
  "stepAssert ins run =
     popBool run (\<lambda>b run. if b then Ok run
       else return 0 (H2MirSetReason ins ''assert condition evaluated to false during const evaluation'' run))"

definition stepLoadIdent :: "H2MirInst \<Rightarrow> 'x H2MirExecRun \<Rightarrow> 'x stepped" where
  "stepLoadIdent ins run =
     (case resolveIdent (renv run) of
        None \<Rightarrow> return 0 run
      | Some f \<Rightarrow>
          (let (nameStart, nameEnd) = H2MirResolveSymbolName run ins H2MirSymbol_IDENT
           in answered (f (rmem run) nameStart nameEnd) id run))"

definition stepStoreIdent :: "H2MirInst \<Rightarrow> 'x H2MirExecRun \<Rightarrow> 'x stepped" where
  "stepStoreIdent ins run =
     H2CTFEPop run (\<lambda>value run.
       case assignIdent (renv run) of
         None \<Rightarrow> return 0 run
       | Some f \<Rightarrow>
           (let (nameStart, nameEnd) = H2MirResolveSymbolName run ins H2MirSymbol_IDENT;
                (m, rc, isConst) = f (rmem run) nameStart nameEnd value;
                run = run\<lparr>rmem := m\<rparr>
            in if rc \<noteq> 0 then return (-1) run else if \<not> isConst then return 0 run else Ok run))"

subsection \<open>Steps: calls\<close>

definition H2MirResolvedCallArgCount :: "H2MirInst \<Rightarrow> nat" where
  "H2MirResolvedCallArgCount ins = H2MirCallArgCountFromTok (itok ins)"

definition H2MirResolvedCallDropsReceiverArg0 :: "H2MirInst \<Rightarrow> bool" where
  "H2MirResolvedCallDropsReceiverArg0 ins = H2MirCallTokDropsReceiverArg0 (itok ins)"

definition stepCall :: "H2MirInst \<Rightarrow> 'x H2MirExecRun \<Rightarrow> 'x stepped" where
  "stepCall ins run =
     (let (nameStart, nameEnd) = H2MirResolveSymbolName run ins H2MirSymbol_CALL;
          argCount = H2MirResolvedCallArgCount ins;
          go = (\<lambda>run. case resolveCall (renv run) of
                  None \<Rightarrow> return 0 run
                | Some f \<Rightarrow>
                    if argCount > length (rstack run) then return 0 run
                    else popArgs argCount ins run (\<lambda>args run.
                      answered (f (rmem run) (site ins run) nameStart nameEnd args) id run))
      in if resolveCall (renv run) = None \<and> resolveCallPre (renv run) = None then return 0 run
         else case resolveCallPre (renv run) of
           None \<Rightarrow> go run
         | Some f \<Rightarrow> hooked (f (rmem run) (site ins run) nameStart nameEnd) run go)"

text \<open>The arguments without the receiver: \<open>None\<close> when there is none to drop.\<close>

definition dropReceiver :: "H2MirInst \<Rightarrow> valueArray \<Rightarrow> valueArray option" where
  "dropReceiver ins args =
     (let (p, n) = args
      in if \<not> H2MirResolvedCallDropsReceiverArg0 ins then Some (p, n)
         else if n = 0 then None else Some (slotAddr p 1, n - 1))"

definition stepCallHost :: "H2MirInst \<Rightarrow> 'x H2MirExecRun \<Rightarrow> 'x stepped" where
  "stepCallHost ins run =
     (case hostCall (renv run) of
        None \<Rightarrow> return 0 run
      | Some f \<Rightarrow>
          if H2MirResolvedCallArgCount ins > length (rstack run) then return 0 run
          else popArgs (H2MirResolvedCallArgCount ins) ins run (\<lambda>args run.
            case dropReceiver ins args of
              None \<Rightarrow> return 0 run
            | Some args \<Rightarrow>
                answered (f (rmem run) (H2MirResolveHostId run ins) args)
                  (H2MirSetReason ins ''host call is not supported by evaluator backend'') run))"

text \<open>A call of a function of the program: program, index, arguments, flags, environment, memory.\<close>

type_synonym 'x callFn =
  "H2MirProgram \<Rightarrow> nat \<Rightarrow> valueArray \<Rightarrow> 16 word \<Rightarrow> 'x H2MirExecEnv \<Rightarrow> 'x H2Mem
   \<Rightarrow> (('x H2MirExecRun \<times> int) stop, 'x answer) outcome"

definition adjusted ::
  "H2MirInst \<Rightarrow> nat \<Rightarrow> valueArray \<Rightarrow> 'x H2MirExecRun \<Rightarrow> ('x H2MirExecRun \<Rightarrow> 'x stepped) \<Rightarrow> 'x stepped" where
  "adjusted ins functionIndex args run k =
     (case adjustCallArgs (renv run) of
        None \<Rightarrow> k run
      | Some f \<Rightarrow>
          (let (m, rc) = f (rmem run) (site ins run) functionIndex args; run = run\<lparr>rmem := m\<rparr>
           in if rc < 0 then return (-1) run else if rc > 0 then return 0 run else k run))"

definition callProgramFn ::
  "'x callFn \<Rightarrow> H2MirInst \<Rightarrow> H2MirProgram \<Rightarrow> nat \<Rightarrow> valueArray \<Rightarrow> 'x H2MirExecRun \<Rightarrow> 'x stepped" where
  "callProgramFn callFn ins p functionIndex args run =
     obind (callFn p functionIndex args (itok ins) (renv run) (rmem run)) (\<lambda>a. answered a id run)"

definition stepCallFn :: "'x callFn \<Rightarrow> H2MirInst \<Rightarrow> 'x H2MirExecRun \<Rightarrow> 'x stepped" where
  "stepCallFn callFn ins run =
     (case rprogram run of
        None \<Rightarrow> return 0 run
      | Some p \<Rightarrow>
          if iaux ins \<ge> length (pfuncs p) then return 0 run
          else if H2MirResolvedCallArgCount ins > length (rstack run) then return 0 run
          else popArgs (H2MirResolvedCallArgCount ins) ins run (\<lambda>args run.
            case dropReceiver ins args of
              None \<Rightarrow> return 0 run
            | Some args' \<Rightarrow> adjusted ins (iaux ins) args run (callProgramFn callFn ins p (iaux ins) args')))"

text \<open>The entry point of a function value takes the function value as an extra argument.\<close>

definition closureArgs ::
  "H2MirInst \<Rightarrow> H2MirFunction \<Rightarrow> nat \<Rightarrow> nat option \<Rightarrow> valueArray \<Rightarrow> 'x H2MirExecRun
   \<Rightarrow> (valueArray \<Rightarrow> 'x H2MirExecRun \<Rightarrow> 'x stepped) \<Rightarrow> 'x stepped" where
  "closureArgs ins fn fnIndex data args run k =
     (if fflags fn AND H2MirFunctionFlag_FUNCTION_VALUE_ENTRY = 0 then k args run
      else
        (let (p, n) = args; f = (H2MirValueSetFunctionRef fnIndex)\<lparr>vs := \<lparr>sbytes = data, slen = 0\<rparr>\<rparr>
         in allocate (sizeof_H2CTFEValue * (n + 1)) 8 (istart ins) (iend ins) run (\<lambda>q run.
              obind (readArray (rmem run) p n) (\<lambda>xs.
                k (Some q, n + 1) (run\<lparr>rmem := writeValues q (xs @ [f]) (rmem run)\<rparr>)))))"

definition stepCallIndirect :: "'x callFn \<Rightarrow> H2MirInst \<Rightarrow> 'x H2MirExecRun \<Rightarrow> 'x stepped" where
  "stepCallIndirect callFn ins run =
     (case rprogram run of
        None \<Rightarrow> return 0 (H2MirSetReason ins ''indirect call stack is invalid during const evaluation'' run)
      | Some p \<Rightarrow>
          if H2MirResolvedCallArgCount ins + 1 > length (rstack run)
          then return 0 (H2MirSetReason ins ''indirect call stack is invalid during const evaluation'' run)
          else popArgs (H2MirResolvedCallArgCount ins) ins run (\<lambda>args run. H2CTFEPop run (\<lambda>callee run.
            let go = (\<lambda>run.
                  case H2MirValueIsFunctionValue callee of
                    None \<Rightarrow> return 0 (H2MirSetReason ins ''indirect call target is not a function'' run)
                  | Some (fnIndex, data) \<Rightarrow>
                      if fnIndex \<ge> length (pfuncs p)
                      then return 0 (H2MirSetReason ins ''indirect call target is not a function'' run)
                      else closureArgs ins (pfuncs p ! fnIndex) fnIndex data args run (\<lambda>args run.
                        adjusted ins fnIndex args run (callProgramFn callFn ins p fnIndex args)))
            in case indirectCall (renv run) of
                 None \<Rightarrow> go run
               | Some f \<Rightarrow> hooked (f (rmem run) (site ins run) callee args) run go)))"

subsection \<open>Steps: operators, sequences, aggregates\<close>

definition stepUnary :: "H2MirInst \<Rightarrow> 'x H2MirExecRun \<Rightarrow> 'x stepped" where
  "stepUnary ins run =
     H2CTFEPop run (\<lambda>v run.
       case H2CTFEEvalUnary (itok ins) v of None \<Rightarrow> return 0 run | Some r \<Rightarrow> H2CTFEPush r run)"

definition stepBinary :: "nat \<Rightarrow> H2MirInst \<Rightarrow> 'x H2MirExecRun \<Rightarrow> 'x stepped" where
  "stepBinary fuel ins run =
     H2CTFEPop run (\<lambda>rhs run. H2CTFEPop run (\<lambda>lhs run.
       obind (H2CTFEEvalBinary (evalBinary (renv run)) fuel (rmem run) (itok ins) lhs rhs) (\<lambda>(m, rc, r).
         let run = run\<lparr>rmem := m\<rparr>
         in if rc < 0 then return (-1) run
            else if rc = 0
            then return 0 (H2MirSetReason ins ''binary operation is not supported during const evaluation'' run)
            else H2CTFEPush r run)))"

text \<open>The byte of a string at an index; a string whose bytes are NULL cannot be read.\<close>

definition stringByte :: "'x H2Mem \<Rightarrow> H2CTFEString \<Rightarrow> nat \<Rightarrow> ('e, byte) outcome" where
  "stringByte m s i =
     (case sbytes s of
        None \<Rightarrow> Stuck
      | Some p \<Rightarrow> (case hbytes m (p + i) of None \<Rightarrow> Stuck | Some c \<Rightarrow> Ok c))"

definition stepIndex :: "H2MirInst \<Rightarrow> 'x H2MirExecRun \<Rightarrow> 'x stepped" where
  "stepIndex ins run =
     H2CTFEPop run (\<lambda>idx run. H2CTFEPop run (\<lambda>base run.
       if vkind base = H2CTFEValue_STRING \<and> vkind idx = H2CTFEValue_INT then
         (if sint (vi64 idx) < 0
          then return 0 (H2MirSetReason ins ''index is negative in const evaluation'' run)
          else if unat (vi64 idx) \<ge> slen (vs base)
          then return 0 (H2MirSetReason ins ''index is out of bounds in const evaluation'' run)
          else obind (stringByte (rmem run) (vs base) (u32 (unat (vi64 idx)))) (\<lambda>c.
            H2CTFEPush (intValue (ucast c)) run))
       else case indexValue (renv run) of
         None \<Rightarrow> return 0 run
       | Some f \<Rightarrow>
           answered (f (rmem run) base idx)
             (H2MirSetReason ins ''index is out of bounds or unsupported during const evaluation'') run))"

definition stepSeqLen :: "'x H2MirExecRun \<Rightarrow> 'x stepped" where
  "stepSeqLen run =
     H2CTFEPop run (\<lambda>base run.
       if vkind base = H2CTFEValue_STRING \<or> vkind base = H2CTFEValue_ARRAY \<or> vkind base = H2CTFEValue_NULL
       then H2CTFEPush (intValue (of_nat (slen (vs base)))) run
       else case sequenceLen (renv run) of
         None \<Rightarrow> return 0 run
       | Some f \<Rightarrow> answered (f (rmem run) base) id run)"

definition stepStrCStr :: "'x H2MirExecRun \<Rightarrow> 'x stepped" where
  "stepStrCStr run =
     H2CTFEPop run (\<lambda>base run.
       obind (case H2MirReferenceTarget base of None \<Rightarrow> Ok base | Some p \<Rightarrow> readValue (rmem run) p) (\<lambda>base.
         if vkind base \<noteq> H2CTFEValue_STRING then return 0 run else H2CTFEPush base run))"

definition stepArrayAddr :: "H2MirInst \<Rightarrow> 'x H2MirExecRun \<Rightarrow> 'x stepped" where
  "stepArrayAddr ins run =
     H2CTFEPop run (\<lambda>idx run. H2CTFEPop run (\<lambda>base run.
       case indexAddr (renv run) of
         None \<Rightarrow> return 0 run
       | Some f \<Rightarrow>
           answered (f (rmem run) base idx)
             (H2MirSetReason ins ''array index is out of bounds or unsupported during const evaluation'') run))"

text \<open>A bound of a slice is on the stack when the flags say so.\<close>

definition popBound ::
  "16 word \<Rightarrow> H2MirInst \<Rightarrow> 'x H2MirExecRun \<Rightarrow> (H2CTFEValue option \<Rightarrow> 'x H2MirExecRun \<Rightarrow> 'x stepped) \<Rightarrow> 'x stepped" where
  "popBound flag ins run k =
     (if itok ins AND flag \<noteq> 0 then H2CTFEPop run (\<lambda>v run. k (Some v) run) else k None run)"

definition stepSliceMake :: "H2MirInst \<Rightarrow> 'x H2MirExecRun \<Rightarrow> 'x stepped" where
  "stepSliceMake ins run =
     (case sliceValue (renv run) of
        None \<Rightarrow> return 0 run
      | Some f \<Rightarrow>
          popBound (ucast H2AstFlag_INDEX_HAS_END) ins run (\<lambda>endValue run.
          popBound (ucast H2AstFlag_INDEX_HAS_START) ins run (\<lambda>startValue run.
            H2CTFEPop run (\<lambda>base run.
              answered (f (rmem run) base startValue endValue (itok ins)) id run))))"

definition stepAggMake :: "H2MirInst \<Rightarrow> 'x H2MirExecRun \<Rightarrow> 'x stepped" where
  "stepAggMake ins run =
     (case makeAggregate (renv run) of
        None \<Rightarrow> return 0 run
      | Some f \<Rightarrow> answered (f (rmem run) (iaux ins) (unat (itok ins))) id run)"

definition stepAggZero :: "H2MirInst \<Rightarrow> 'x H2MirExecRun \<Rightarrow> 'x stepped" where
  "stepAggZero ins run =
     (case (rprogram run, zeroInitLocal (renv run)) of
        (Some p, Some f) \<Rightarrow>
          (if iaux ins \<ge> length (ptypes p) then return 0 run
           else answered (f (rmem run) (ptypes p ! iaux ins)) id run)
      | _ \<Rightarrow> return 0 run)"

text \<open>The callback of \<open>stepAggSet\<close> answers the changed aggregate.\<close>

definition stepAggSet :: "H2MirInst \<Rightarrow> 'x H2MirExecRun \<Rightarrow> 'x stepped" where
  "stepAggSet ins run =
     H2CTFEPop run (\<lambda>value run. H2CTFEPop run (\<lambda>base run.
       case aggSetField (renv run) of
         None \<Rightarrow> return 0 run
       | Some f \<Rightarrow>
           (let (nameStart, nameEnd) = H2MirResolveFieldName run ins
            in answered (f (rmem run) base nameStart nameEnd value) id run)))"

definition stepAggField ::
  "('x H2Mem \<Rightarrow> H2CTFEValue \<Rightarrow> nat \<Rightarrow> nat \<Rightarrow> 'x answer) option \<Rightarrow> H2MirInst \<Rightarrow> 'x H2MirExecRun \<Rightarrow> 'x stepped" where
  "stepAggField field ins run =
     H2CTFEPop run (\<lambda>base run.
       case field of
         None \<Rightarrow> return 0 run
       | Some f \<Rightarrow>
           (let (nameStart, nameEnd) = H2MirResolveFieldName run ins
            in answered (f (rmem run) base nameStart nameEnd) id run))"

definition stepAggGet :: "H2MirInst \<Rightarrow> 'x H2MirExecRun \<Rightarrow> 'x stepped" where
  "stepAggGet ins run = stepAggField (aggGetField (renv run)) ins run"

definition stepAggAddr :: "H2MirInst \<Rightarrow> 'x H2MirExecRun \<Rightarrow> 'x stepped" where
  "stepAggAddr ins run = stepAggField (aggAddrField (renv run)) ins run"

definition stepTupleMake :: "H2MirInst \<Rightarrow> 'x H2MirExecRun \<Rightarrow> 'x stepped" where
  "stepTupleMake ins run =
     (case makeTuple (renv run) of
        None \<Rightarrow> return 0 run
      | Some f \<Rightarrow>
          if unat (itok ins) > length (rstack run) then return 0 run
          else popArgs (unat (itok ins)) ins run (\<lambda>elems run.
            answered (f (rmem run) elems (iaux ins)) id run))"

subsection \<open>Steps: iteration, casts, optionals, the context\<close>

abbreviation (input) H2MirIterFlag_HAS_KEY :: "16 word" where "H2MirIterFlag_HAS_KEY \<equiv> 1"
abbreviation (input) H2MirIterFlag_VALUE_DISCARD :: "16 word" where "H2MirIterFlag_VALUE_DISCARD \<equiv> 8"

definition stepIterInit :: "H2MirInst \<Rightarrow> 'x H2MirExecRun \<Rightarrow> 'x stepped" where
  "stepIterInit ins run =
     H2CTFEPop run (\<lambda>source run.
       case iterInit (renv run) of
         None \<Rightarrow> return 0 run
       | Some f \<Rightarrow> answered (f (rmem run) (iaux ins) source (itok ins)) id run)"

definition pushWhen :: "bool \<Rightarrow> H2CTFEValue \<Rightarrow> 'x H2MirExecRun \<Rightarrow> 'x stepped" where
  "pushWhen c v run = (if c then H2CTFEPush v run else Ok run)"

definition stepIterNext :: "H2MirInst \<Rightarrow> 'x H2MirExecRun \<Rightarrow> 'x stepped" where
  "stepIterNext ins run =
     H2CTFEPop run (\<lambda>iter run.
       case iterNext (renv run) of
         None \<Rightarrow> return 0 run
       | Some f \<Rightarrow>
           (let (m, rc, it) = f (rmem run) iter (itok ins); run = run\<lparr>rmem := m\<rparr>;
                hasKey = (itok ins AND H2MirIterFlag_HAS_KEY \<noteq> 0);
                keepsValue = (itok ins AND H2MirIterFlag_VALUE_DISCARD = 0)
            in if rc \<noteq> 0 then return (-1) run
               else if hasItem it \<and> hasKey \<and> \<not> itemKeyIsConst it then return 0 run
               else if hasItem it \<and> keepsValue \<and> \<not> itemValueIsConst it then return 0 run
               else obind (pushWhen (hasItem it \<and> hasKey) (itemKey it) run) (\<lambda>run.
                    obind (pushWhen (hasItem it \<and> keepsValue) (itemValue it) run) (\<lambda>run.
                      H2CTFEPush (boolValue (hasItem it)) run))))"

definition stepCast :: "H2MirInst \<Rightarrow> 'x H2MirExecRun \<Rightarrow> 'x stepped" where
  "stepCast ins run =
     H2CTFEPop run (\<lambda>v run. obind (H2CTFEEvalCast (itok ins) v) (\<lambda>r.
       case r of None \<Rightarrow> return 0 run | Some v \<Rightarrow> coerced (iaux ins) v run H2CTFEPush))"

definition stepCoerce :: "H2MirInst \<Rightarrow> 'x H2MirExecRun \<Rightarrow> 'x stepped" where
  "stepCoerce ins run =
     H2CTFEPop run (\<lambda>v run.
       coerced (iaux ins)
         (if vkind v = H2CTFEValue_AGGREGATE then v\<lparr>vtag := vtag v OR H2CTFEValueTag_AGG_PARTIAL\<rparr> else v)
         run H2CTFEPush)"

definition optionalOf :: "H2CTFEValue \<Rightarrow> byte \<Rightarrow> nat option \<Rightarrow> H2CTFEValue" where
  "optionalOf v b payload =
     v\<lparr>vkind := H2CTFEValue_OPTIONAL, vi64 := 0, vf64 := 0, vb := b, vtag := 0,
       vs := \<lparr>sbytes = payload, slen = 0\<rparr>\<rparr>"

definition stepOptionalWrap :: "H2MirInst \<Rightarrow> 'x H2MirExecRun \<Rightarrow> 'x stepped" where
  "stepOptionalWrap ins run =
     H2CTFEPop run (\<lambda>v run.
       if vkind v = H2CTFEValue_OPTIONAL then H2CTFEPush v run
       else if vkind v = H2CTFEValue_NULL then H2CTFEPush (optionalOf v 0 None) run
       else allocate sizeof_H2CTFEValue 8 (istart ins) (iend ins) run (\<lambda>p run.
         H2CTFEPush (optionalOf v 1 (Some p)) (run\<lparr>rmem := writeValue p v (rmem run)\<rparr>)))"

definition stepOptionalUnwrap :: "H2MirInst \<Rightarrow> 'x H2MirExecRun \<Rightarrow> 'x stepped" where
  "stepOptionalUnwrap ins run =
     H2CTFEPop run (\<lambda>v run.
       let missing = return 0 (H2MirSetReason ins ''unwrap of empty optional in evaluator backend'' run)
       in case H2CTFEOptionalPayload v of
            None \<Rightarrow> if vkind v = H2CTFEValue_NULL then missing else H2CTFEPush v run
          | Some None \<Rightarrow> missing
          | Some (Some p) \<Rightarrow> obind (readValue (rmem run) p) (\<lambda>x. H2CTFEPush x run))"

definition stepReturn :: "H2MirInst \<Rightarrow> 'x H2MirExecRun \<Rightarrow> 'x stepped" where
  "stepReturn ins run =
     (case rstack run of
        [v] \<Rightarrow>
          (case rfunction run of
             None \<Rightarrow> return 0 (run\<lparr>rout := v, risConst := True\<rparr>)
           | Some f \<Rightarrow>
               (let (rc, v', run') = H2MirCoerceValueForType run (ftypeRef f) v
                in if rc \<le> 0 then return rc (run'\<lparr>rout := v'\<rparr>)
                   else return 0 (run'\<lparr>rout := v', risConst := True\<rparr>)))
      | _ \<Rightarrow> return 0 (H2MirSetReason ins ''return stack is invalid during const evaluation'' run))"

definition stepReturnVoid :: "'x H2MirExecRun \<Rightarrow> 'x stepped" where
  "stepReturnVoid run = return 0 (run\<lparr>rout := H2CTFEValueInvalid, risConst := True\<rparr>)"

subsection \<open>The loop\<close>

definition step :: "'x callFn \<Rightarrow> nat \<Rightarrow> H2MirInst \<Rightarrow> 'x H2MirExecRun \<Rightarrow> 'x stepped" where
  "step callFn fuel ins run =
     (case iop ins of
        H2MirOp_PUSH_CONST \<Rightarrow> stepPushConst ins run
      | H2MirOp_PUSH_INT \<Rightarrow> stepPushInt ins run
      | H2MirOp_PUSH_FLOAT \<Rightarrow> stepPushFloat ins run
      | H2MirOp_PUSH_BOOL \<Rightarrow> stepPushBool ins run
      | H2MirOp_PUSH_STRING \<Rightarrow> stepPushString ins run
      | H2MirOp_PUSH_NULL \<Rightarrow> stepPushNull run
      | H2MirOp_MAKE_CLOSURE \<Rightarrow> stepMakeClosure ins run
      | H2MirOp_LOCAL_LOAD \<Rightarrow> stepLocalLoad ins run
      | H2MirOp_LOCAL_ADDR \<Rightarrow> stepLocalAddr ins run
      | H2MirOp_CAPTURE_ADDR \<Rightarrow> stepCaptureAddr ins run
      | H2MirOp_CAPTURE_LOAD \<Rightarrow> stepCaptureLoad ins run
      | H2MirOp_CAPTURE_STORE \<Rightarrow> stepCaptureStore ins run
      | H2MirOp_ADDR_OF \<Rightarrow> stepAddrOf ins run
      | H2MirOp_LOCAL_ZERO \<Rightarrow> stepLocalZero ins run
      | H2MirOp_DEREF_LOAD \<Rightarrow> stepDerefLoad run
      | H2MirOp_DEREF_STORE \<Rightarrow> stepDerefStore ins run
      | H2MirOp_LOCAL_STORE \<Rightarrow> stepLocalStore ins run
      | H2MirOp_DROP \<Rightarrow> stepDrop run
      | H2MirOp_JUMP \<Rightarrow> stepJump ins run
      | H2MirOp_JUMP_IF_FALSE \<Rightarrow> stepJumpIfFalse ins run
      | H2MirOp_ASSERT \<Rightarrow> stepAssert ins run
      | H2MirOp_LOAD_IDENT \<Rightarrow> stepLoadIdent ins run
      | H2MirOp_STORE_IDENT \<Rightarrow> stepStoreIdent ins run
      | H2MirOp_CALL \<Rightarrow> stepCall ins run
      | H2MirOp_CALL_HOST \<Rightarrow> stepCallHost ins run
      | H2MirOp_CALL_FN \<Rightarrow> stepCallFn callFn ins run
      | H2MirOp_CALL_INDIRECT \<Rightarrow> stepCallIndirect callFn ins run
      | H2MirOp_UNARY \<Rightarrow> stepUnary ins run
      | H2MirOp_BINARY \<Rightarrow> stepBinary fuel ins run
      | H2MirOp_INDEX \<Rightarrow> stepIndex ins run
      | H2MirOp_SEQ_LEN \<Rightarrow> stepSeqLen run
      | H2MirOp_STR_CSTR \<Rightarrow> stepStrCStr run
      | H2MirOp_ARRAY_ADDR \<Rightarrow> stepArrayAddr ins run
      | H2MirOp_SLICE_MAKE \<Rightarrow> stepSliceMake ins run
      | H2MirOp_AGG_MAKE \<Rightarrow> stepAggMake ins run
      | H2MirOp_AGG_ZERO \<Rightarrow> stepAggZero ins run
      | H2MirOp_AGG_SET \<Rightarrow> stepAggSet ins run
      | H2MirOp_AGG_GET \<Rightarrow> stepAggGet ins run
      | H2MirOp_AGG_ADDR \<Rightarrow> stepAggAddr ins run
      | H2MirOp_TUPLE_MAKE \<Rightarrow> stepTupleMake ins run
      | H2MirOp_ITER_INIT \<Rightarrow> stepIterInit ins run
      | H2MirOp_ITER_NEXT \<Rightarrow> stepIterNext ins run
      | H2MirOp_CAST \<Rightarrow> stepCast ins run
      | H2MirOp_COERCE \<Rightarrow> stepCoerce ins run
      | H2MirOp_OPTIONAL_WRAP \<Rightarrow> stepOptionalWrap ins run
      | H2MirOp_OPTIONAL_UNWRAP \<Rightarrow> stepOptionalUnwrap ins run
      | H2MirOp_ALLOC_NEW \<Rightarrow>
          queried (allocNew (renv run)) ''alloc expression is not supported during const evaluation'' ins run
      | H2MirOp_CTX_GET \<Rightarrow>
          queried (contextGet (renv run)) ''context access is not supported during const evaluation'' ins run
      | H2MirOp_CTX_ADDR \<Rightarrow>
          queried (contextAddr (renv run)) ''context address is not supported during const evaluation'' ins run
      | H2MirOp_CTX_SET \<Rightarrow>
          queried (evalWithContext (renv run)) ''context overlay is not supported during const evaluation'' ins run
      | H2MirOp_RETURN \<Rightarrow> stepReturn ins run
      | H2MirOp_RETURN_VOID \<Rightarrow> stepReturnVoid run
      | _ \<Rightarrow> return 0 run)"

subsection \<open>Entry\<close>

text \<open>
  The stack has room for one value per instruction and argument. A function gets its locals
  and its arguments as the first of them; a refused argument leaves the rest as they are.
\<close>

definition isHiddenClosureData :: "H2MirFunction \<Rightarrow> nat \<Rightarrow> bool" where
  "isHiddenClosureData f i \<longleftrightarrow>
     fflags f AND H2MirFunctionFlag_FUNCTION_VALUE_ENTRY \<noteq> 0 \<and> paramCount f > 0 \<and> i + 1 = paramCount f"

fun initArgs :: "nat option \<Rightarrow> nat \<Rightarrow> nat \<Rightarrow> 'x H2MirExecRun \<Rightarrow> 'x stepped" where
  "initArgs args 0 i run = Ok run"
| "initArgs args (Suc left) i run =
     obind (readSlot (rmem run) args i) (\<lambda>v.
       case slotAddr (rlocals run) i of
         None \<Rightarrow> Stuck
       | Some p \<Rightarrow>
           (let run = run\<lparr>rmem := writeValue p v (rmem run)\<rparr>; local = H2MirGetLocalMeta run i
            in case (rprogram run, rfunction run) of
                 (Some _, Some f) \<Rightarrow>
                   (if isHiddenClosureData f i \<or> ltypeRef local = UINT32_MAX
                    then initArgs args left (i + 1) run
                    else
                      (let (rc, v', run) = H2MirCoerceValueForType run (ltypeRef local) v;
                           run = run\<lparr>rmem := writeValue p v' (rmem run)\<rparr>
                       in if rc < 0 then return (-1) run
                          else if rc = 0 then Ok run
                          else initArgs args left (i + 1) run))
               | _ \<Rightarrow> initArgs args left (i + 1) run))"

definition H2MirInitRun ::
  "H2MirInst list \<Rightarrow> H2MirProgram option \<Rightarrow> H2MirFunction option \<Rightarrow> nat \<Rightarrow> valueArray
   \<Rightarrow> 'x H2MirExecEnv \<Rightarrow> bool \<Rightarrow> 'x H2Mem \<Rightarrow> 'x stepped" where
  "H2MirInitRun chunk program fn locals args env clearDiag m =
     (let m = (if clearDiag then m\<lparr>hdiag := map_option (\<lambda>d. diagZero) (hdiag m)\<rparr> else m);
          cap = u32 (length chunk + snd args + 1);
          (stack, ar) = H2ArenaAlloc (marena m) (u32 (sizeof_H2CTFEValue * cap)) 8;
          run = \<lparr>rcode = chunk, rpc = 0, rstack = [], rstackCap = cap,
                 rstackBytes = u32 (sizeof_H2CTFEValue * cap), rlocals = None, rlocalCount = locals,
                 rprogram = program, rfunction = fn, renv = env, rbackJumps = 0,
                 rmem = m\<lparr>marena := ar\<rparr>, rout = H2CTFEValueInvalid, risConst = False\<rparr>
      in if stack = None then fail 141 0 0 run
         else if locals = 0 then Ok run
         else allocate (sizeof_H2CTFEValue * locals) 8 0 0 run (\<lambda>p run.
           let run = run\<lparr>rlocals := Some p,
                 rmem := writeValues p (replicate locals H2CTFEValueInvalid) (rmem run)\<rparr>
           in if snd args > locals then Ok run else initArgs (fst args) (snd args) 0 run))"

text \<open>The last argument of a function value that captures nothing may be left out.\<close>

definition entryArgs ::
  "H2MirFunction \<Rightarrow> nat \<Rightarrow> valueArray \<Rightarrow> 'x H2Mem \<Rightarrow> ('x H2Mem \<Rightarrow> ('e, 'a) outcome)
   \<Rightarrow> (valueArray \<Rightarrow> 'x H2Mem \<Rightarrow> ('e, 'a) outcome) \<Rightarrow> ('e, 'a) outcome" where
  "entryArgs fn functionIndex args m refuse k =
     (let n = snd args; sz = sizeof_H2CTFEValue * u32 (n + 1)
      in if fflags fn AND H2MirFunctionFlag_FUNCTION_VALUE_ENTRY \<noteq> 0 \<and> u32 (n + 1) = paramCount fn \<and>
            captureCount fn = 0
         then
           (case H2ArenaAlloc (marena m) (u32 sz) 8 of
              (None, ar) \<Rightarrow> refuse (H2CTFESetDiag (m\<lparr>marena := ar\<rparr>) 141 0 0)
            | (Some q, ar) \<Rightarrow>
                if sz > u32 sz then Stuck
                else obind (readArray m (fst args) n) (\<lambda>xs.
                  k (Some q, u32 (n + 1))
                    (writeValues q (xs @ [H2MirValueSetFunctionRef functionIndex]) (m\<lparr>marena := ar\<rparr>))))
         else k args m)"

text \<open>
  The arguments of a variadic function beyond the fixed ones become one value. \<open>stop\<close> answers a
  return code.
\<close>

definition packArgs ::
  "H2MirProgram \<Rightarrow> H2MirFunction \<Rightarrow> 16 word \<Rightarrow> 'x H2MirExecEnv \<Rightarrow> valueArray \<Rightarrow> 'x H2Mem
   \<Rightarrow> ('x H2Mem \<Rightarrow> int \<Rightarrow> ('e, 'a) outcome)
   \<Rightarrow> (valueArray \<Rightarrow> H2CTFEValue option \<Rightarrow> 'x H2Mem \<Rightarrow> ('e, 'a) outcome) \<Rightarrow> ('e, 'a) outcome" where
  "packArgs p fn callFlags env args m stop k =
     (let n = snd args; fixedCount = paramCount fn - 1
      in if fflags fn AND H2MirFunctionFlag_VARIADIC \<noteq> 0 then
           (if n < fixedCount \<or> paramCount fn = 0 then stop m 0
            else case makeVariadicPack env of
              None \<Rightarrow> stop m 0
            | Some f \<Rightarrow>
                (let l = u32 (localStart fn + paramCount fn - 1); t = ltypeRef (plocals p ! l)
                 in if l \<ge> length (plocals p) \<or> t \<noteq> UINT32_MAX \<and> t \<ge> length (ptypes p) then Stuck
                    else
                      (let (m, rc, v, isConst) =
                             f m p fn (if t = UINT32_MAX then None else Some (ptypes p ! t)) callFlags
                               (slotAddr (fst args) fixedCount, n - fixedCount)
                       in if rc \<noteq> 0 then stop m (-1)
                          else if \<not> isConst then stop m 0
                          else k (fst args, fixedCount) (Some v) m)))
         else if n \<noteq> paramCount fn then stop m 0
         else k args None m)"

definition storePack :: "H2MirFunction \<Rightarrow> H2CTFEValue option \<Rightarrow> 'x H2MirExecRun \<Rightarrow> 'x stepped" where
  "storePack fn pack run =
     (case pack of
        None \<Rightarrow> Ok run
      | Some v \<Rightarrow>
          (case slotAddr (rlocals run) (paramCount fn - 1) of
             None \<Rightarrow> Stuck
           | Some q \<Rightarrow> Ok (run\<lparr>rmem := writeValue q v (rmem run)\<rparr>)))"

type_synonym 'x loop = "'x H2MirExecRun \<Rightarrow> (('x H2MirExecRun \<times> int) stop, 'x H2MirExecRun \<times> int) outcome"

text \<open>The loop between \<open>bindFrame\<close> and \<open>unbindFrame\<close>.\<close>

definition inFrame :: "'x loop \<Rightarrow> H2MirProgram \<Rightarrow> H2MirFunction \<Rightarrow> 'x loop" where
  "inFrame loop p fn run =
     (case bindFrame (renv run) of
        None \<Rightarrow> loop run
      | Some f \<Rightarrow>
          (let (m, rc) = f (rmem run) p fn (rlocals run, rlocalCount run); run = run\<lparr>rmem := m\<rparr>
           in if rc \<noteq> 0 then return (-1) run
              else obind (loop run) (\<lambda>(r, rc).
                Ok (case unbindFrame (renv run) of
                      None \<Rightarrow> (r, rc)
                    | Some g \<Rightarrow> (r\<lparr>rmem := g (rmem r)\<rparr>, rc)))))"

text \<open>What a run answers, with what is done when it has returned.\<close>

definition runAnswer ::
  "('x H2Mem \<Rightarrow> 'x H2Mem) \<Rightarrow> (('x H2MirExecRun \<times> int) stop, 'x H2MirExecRun \<times> int) outcome
   \<Rightarrow> (('x H2MirExecRun \<times> int) stop, 'x answer) outcome" where
  "runAnswer leave r =
     (let ans = (\<lambda>(run, rc). Ok (leave (rmem run), rc, rout run, risConst run))
      in case r of
           Ok x \<Rightarrow> ans x
         | Err (Returned x) \<Rightarrow> ans x
         | Err OutOfFuel \<Rightarrow> Err OutOfFuel
         | Stuck \<Rightarrow> Stuck)"

text \<open>
  \<open>out\<close> is what the out pointers hold before the call: a call that returns before its run is set
  up leaves them. The function is entered after its arguments are checked, and left on every
  path from there.
\<close>

definition H2MirEvalFunctionInternal ::
  "'x loop \<Rightarrow> bool \<Rightarrow> bool \<Rightarrow> H2CTFEValue \<times> bool \<Rightarrow> 'x callFn" where
  "H2MirEvalFunctionInternal loop validateProgram clearDiag out p functionIndex args callFlags env m =
     (let stop = (\<lambda>m rc. Ok (m, rc, fst out, snd out)); fn = pfuncs p ! functionIndex
      in if functionIndex \<ge> length (pfuncs p) then stop (H2CTFESetDiag m 4 0 0) (-1)
         else
           (let (valid, diag) = (if validateProgram then H2MirValidateProgram (Some p) (hdiag m) else (True, hdiag m));
                m = m\<lparr>hdiag := diag\<rparr>
            in if \<not> valid then stop m (-1)
               else if instStart fn > length (pinsts p) \<or> instLen fn > length (pinsts p) - instStart fn
               then stop (H2CTFESetDiag m 4 0 0) (-1)
               else if localCount fn < paramCount fn then stop m 0
               else entryArgs fn functionIndex args m (\<lambda>m. stop m (-1)) (\<lambda>args m.
                 packArgs p fn callFlags env args m stop (\<lambda>args pack m.
                   let env = (if fsourceRef fn < length (psources p)
                              then env\<lparr>envSrc := ssrc (psources p ! fsourceRef fn)\<rparr> else env);
                       (m, rc) = (case enterFunction env of
                                    None \<Rightarrow> (m, 0) | Some f \<Rightarrow> f m functionIndex (fsourceRef fn));
                       leave = (case (enterFunction env, leaveFunction env) of
                                  (Some _, Some g) \<Rightarrow> g | _ \<Rightarrow> id)
                   in if rc \<noteq> 0 then stop m (-1)
                      else runAnswer leave
                        (obind (H2MirInitRun (take (instLen fn) (drop (instStart fn) (pinsts p))) (Some p) (Some fn)
                            (localCount fn) args env clearDiag m) (\<lambda>run.
                          obind (storePack fn pack run) (inFrame loop p fn)))))))"

primrec H2MirRunLoop :: "nat \<Rightarrow> 'x loop" where
  "H2MirRunLoop 0 run = Err OutOfFuel"
| "H2MirRunLoop (Suc fuel) run =
     (if rpc run \<ge> length (rcode run) then Ok (run, 0)
      else
        (case step (H2MirEvalFunctionInternal (H2MirRunLoop fuel) False False (H2CTFEValueInvalid, False)) fuel
                (rcode run ! rpc run) (run\<lparr>rpc := rpc run + 1\<rparr>) of
           Ok run' \<Rightarrow> H2MirRunLoop fuel run'
         | Err (Returned r) \<Rightarrow> Ok r
         | Err OutOfFuel \<Rightarrow> Err OutOfFuel
         | Stuck \<Rightarrow> Stuck))"

definition H2MirEvalChunk ::
  "nat \<Rightarrow> H2MirInst list \<Rightarrow> 'x H2MirExecEnv \<Rightarrow> 'x H2Mem \<Rightarrow> (('x H2MirExecRun \<times> int) stop, 'x answer) outcome" where
  "H2MirEvalChunk fuel chunk env m =
     runAnswer id (obind (H2MirInitRun chunk None None 0 (None, 0) env True m) (H2MirRunLoop fuel))"

definition H2MirEvalFunction ::
  "nat \<Rightarrow> H2CTFEValue \<times> bool \<Rightarrow> H2MirProgram \<Rightarrow> nat \<Rightarrow> valueArray \<Rightarrow> 'x H2MirExecEnv \<Rightarrow> 'x H2Mem
   \<Rightarrow> (('x H2MirExecRun \<times> int) stop, 'x answer) outcome" where
  "H2MirEvalFunction fuel out p functionIndex args env m =
     H2MirEvalFunctionInternal (H2MirRunLoop fuel) True True out p functionIndex args 0 env m"

end
