(* ===== verification/H2MirLower.thy ===== *)
theory H2MirLower
  imports H2MirRun
begin

text \<open>
  Lowering of expression code to programs (\<open>src/mir_lower.c\<close>) and the evaluation of constant
  expressions (\<open>src/ctfe.c\<close>). The builder and the lowering allocate from the same arena, as
  \<open>H2MirLowerExprAsFunction\<close> sets them up: the arena of the builder is loaded from the memory
  before each operation of the builder and stored back after it. \<open>Err (Returned s)\<close> is the
  answer -1. The source is a view by address. The private literal parsers of \<open>mir_lower.c\<close> are
  the same code as those of \<open>mir_exec.c\<close>, so their models are shared. NULL arguments are not
  modelled, except a NULL source.
\<close>

subsection \<open>State\<close>

type_synonym 'x lowerState = "H2MirProgramBuilder \<times> 'x H2Mem"

type_synonym ('x, 'a) lowered = "('x lowerState stop, 'a \<times> 'x lowerState) outcome"

definition refuse :: "'x lowerState \<Rightarrow> ('x, 'a) lowered" where
  "refuse st = Err (Returned st)"

definition H2MirLowerSetDiag :: "nat \<Rightarrow> nat \<Rightarrow> nat \<Rightarrow> 'x lowerState \<Rightarrow> 'x lowerState" where
  "H2MirLowerSetDiag code start endPos st = (fst st, H2CTFESetDiag (snd st) code start endPos)"

definition lowerDiagReset :: "nat \<Rightarrow> 'x lowerState \<Rightarrow> 'x lowerState" where
  "lowerDiagReset code st = (fst st, (snd st)\<lparr>hdiag := map_option (\<lambda>d. H2DiagReset d code) (hdiag (snd st))\<rparr>)"

text \<open>An operation of the builder; \<open>onErr\<close> sets the diagnostic of a refusal.\<close>

definition storeArena :: "H2MirProgramBuilder \<Rightarrow> 'x H2Mem \<Rightarrow> 'x lowerState" where
  "storeArena b m = (b, case barena b of None \<Rightarrow> m | Some ar \<Rightarrow> m\<lparr>marena := ar\<rparr>)"

definition building ::
  "(H2MirProgramBuilder \<Rightarrow> builderResult) \<Rightarrow> ('x lowerState \<Rightarrow> 'x lowerState) \<Rightarrow> 'x lowerState \<Rightarrow> ('x, nat) lowered" where
  "building oper onErr st =
     (let (b, m) = st
      in case oper (b\<lparr>barena := Some (marena m)\<rparr>) of
           Stuck \<Rightarrow> Stuck
         | Err b' \<Rightarrow> refuse (onErr (storeArena b' m))
         | Ok (i, b') \<Rightarrow> Ok (i, storeArena b' m))"

subsection \<open>Rewriting instructions\<close>

definition constOf :: "H2MirConstKind \<Rightarrow> 64 word \<Rightarrow> H2MirConst" where
  "constOf k bits = \<lparr>ckind = k, caux = 0, cbits = bits, cbytes = (None, 0)\<rparr>"

text \<open>The constant of a literal; \<open>None\<close> when the instruction stays as it is.\<close>

definition literalInt :: "viewRef \<Rightarrow> H2MirInst \<Rightarrow> 'x lowerState \<Rightarrow> ('x, H2MirConst option) lowered" where
  "literalInt src ins st =
     (if itok ins = tokWord H2Tok_RUNE then
        obind (readView (snd st) src) (\<lambda>v. viewBytes v (\<lambda>bs.
          case H2DecodeRuneLiteralValidate bs (istart ins) (iend ins) of
            Stuck \<Rightarrow> Stuck
          | Err e \<Rightarrow> refuse (H2MirLowerSetDiag (H2RuneLitErrDiagCode (rekind e)) (restart e) (reend e) st)
          | Ok r \<Rightarrow> Ok (Some (constOf H2MirConst_INT (ucast r)), st)))
      else if itok ins = tokWord H2Tok_INVALID then
        Ok (Some (constOf H2MirConst_INT (scast (of_nat (iaux ins) :: 32 word))), st)
      else
        obind (readView (snd st) src) (\<lambda>v. obind (H2CTFEParseIntLiteral v (istart ins) (iend ins)) (\<lambda>r.
          Ok (map_option (constOf H2MirConst_INT) r, st))))"

definition literalString :: "viewRef \<Rightarrow> H2MirInst \<Rightarrow> 'x lowerState \<Rightarrow> ('x, H2MirConst option) lowered" where
  "literalString src ins st =
     (let (b, m) = st
      in obind (readView m src) (\<lambda>v. viewBytes v (\<lambda>bs.
           case H2DecodeStringLiteralArena (marena m) bs (istart ins) (iend ins) of
             Stuck \<Rightarrow> Stuck
           | Err (e, ar) \<Rightarrow>
               refuse (H2MirLowerSetDiag (H2StringLitErrDiagCode (sekind e)) (sestart e) (seend e)
                 (b, m\<lparr>marena := ar\<rparr>))
           | Ok buf \<Rightarrow>
               Ok (Some \<lparr>ckind = H2MirConst_STRING, caux = 0, cbits = 0,
                         cbytes = (bufV buf, length (bufBytes buf))\<rparr>, (b, storeBuf buf m)))))"

definition literalConst :: "viewRef \<Rightarrow> H2MirInst \<Rightarrow> 'x lowerState \<Rightarrow> ('x, H2MirConst option) lowered" where
  "literalConst src ins st =
     (case iop ins of
        H2MirOp_PUSH_INT \<Rightarrow> literalInt src ins st
      | H2MirOp_PUSH_FLOAT \<Rightarrow>
          obind (readView (snd st) src) (\<lambda>v. obind (H2CTFEParseFloatLiteral v (istart ins) (iend ins)) (\<lambda>r.
            Ok (map_option (constOf H2MirConst_FLOAT) r, st)))
      | H2MirOp_PUSH_BOOL \<Rightarrow>
          obind (readView (snd st) src) (\<lambda>v. obind (H2CTFEParseBoolLiteral v (istart ins) (iend ins)) (\<lambda>r.
            Ok (map_option (\<lambda>x. constOf H2MirConst_BOOL (ucast x)) r, st)))
      | H2MirOp_PUSH_STRING \<Rightarrow> literalString src ins st
      | H2MirOp_PUSH_NULL \<Rightarrow> Ok (Some (constOf H2MirConst_NULL 0), st)
      | _ \<Rightarrow> Ok (None, st))"

definition H2MirLowerRewriteConstInst :: "viewRef \<Rightarrow> H2MirInst \<Rightarrow> 'x lowerState \<Rightarrow> ('x, H2MirInst) lowered" where
  "H2MirLowerRewriteConstInst src ins st =
     obind (literalConst src ins st) (\<lambda>(c, st).
       case c of
         None \<Rightarrow> Ok (ins, st)
       | Some c \<Rightarrow>
           obind (building (\<lambda>b. H2MirProgramBuilderAddConst b c) (H2MirLowerSetDiag 141 (istart ins) (iend ins)) st)
             (\<lambda>(i, st). Ok (ins\<lparr>iop := H2MirOp_PUSH_CONST, itok := 0, iaux := i\<rparr>, st)))"

text \<open>
  The tables are searched from the front for an equal entry (\<open>existing\<close>); else the entry is added.
\<close>

fun findIndex :: "('a \<Rightarrow> bool) \<Rightarrow> 'a list \<Rightarrow> nat option" where
  "findIndex existing [] = None"
| "findIndex existing (x # xs) = (if existing x then Some 0 else map_option Suc (findIndex existing xs))"

definition H2MirLowerInternSymbol ::
  "H2MirSymbolKind \<Rightarrow> nat \<Rightarrow> nat \<Rightarrow> 32 word \<Rightarrow> nat \<Rightarrow> 'x lowerState \<Rightarrow> ('x, nat) lowered" where
  "H2MirLowerInternSymbol kind nameStart nameEnd flags target st =
     (let s = \<lparr>symNameStart = nameStart, symNameEnd = nameEnd, symKind = kind, symFlags = flags, symTarget = target\<rparr>
      in case findIndex ((=) s) (aelems (bsymbols (fst st))) of
           Some i \<Rightarrow> Ok (i, st)
         | None \<Rightarrow>
             building (\<lambda>b. H2MirProgramBuilderAddSymbol b s) (H2MirLowerSetDiag 141 nameStart nameEnd) st)"

definition H2MirLowerRewriteSymbolInst :: "H2MirInst \<Rightarrow> 'x lowerState \<Rightarrow> ('x, H2MirInst) lowered" where
  "H2MirLowerRewriteSymbolInst ins st =
     (let done = (\<lambda>(i, st). Ok (ins\<lparr>iaux := i\<rparr>, st)); aux = of_nat (iaux ins)
      in if iop ins = H2MirOp_LOAD_IDENT \<or> iop ins = H2MirOp_STORE_IDENT then
           obind (H2MirLowerInternSymbol H2MirSymbol_IDENT (istart ins) (iend ins) 0 (iaux ins) st) done
         else if iop ins = H2MirOp_CALL then
           obind (H2MirLowerInternSymbol H2MirSymbol_CALL (istart ins) (iend ins) (H2MirRawCallAuxFlags aux)
             (unat (H2MirRawCallAuxNode aux)) st) done
         else Ok (ins, st))"

definition H2MirLowerInternType :: "nat \<Rightarrow> nat \<Rightarrow> 32 word \<Rightarrow> 'x lowerState \<Rightarrow> ('x, nat) lowered" where
  "H2MirLowerInternType node sourceRef flags st =
     (case findIndex (\<lambda>t. tastNode t = node \<and> tsourceRef t = sourceRef \<and> tflags t = flags)
             (aelems (btypes (fst st))) of
        Some i \<Rightarrow> Ok (i, st)
      | None \<Rightarrow>
          building
            (\<lambda>b. H2MirProgramBuilderAddType b \<lparr>tastNode = node, tsourceRef = sourceRef, tflags = flags, taux = 0\<rparr>)
            (H2MirLowerSetDiag 141 0 0) st)"

definition H2MirLowerFindSourceRef :: "H2MirProgramBuilder \<Rightarrow> viewRef \<Rightarrow> nat" where
  "H2MirLowerFindSourceRef b src =
     (if fst src = None then 0
      else case findIndex (\<lambda>s. ssrc s = src) (aelems (bsources b)) of Some i \<Rightarrow> i | None \<Rightarrow> 0)"

definition H2MirLowerRewriteTypeInst :: "viewRef \<Rightarrow> H2MirInst \<Rightarrow> 'x lowerState \<Rightarrow> ('x, H2MirInst) lowered" where
  "H2MirLowerRewriteTypeInst src ins st =
     (if iop ins \<noteq> H2MirOp_CAST then Ok (ins, st)
      else obind (H2MirLowerInternType (iaux ins) (H2MirLowerFindSourceRef (fst st) src) 0 st)
             (\<lambda>(i, st). Ok (ins\<lparr>iaux := i\<rparr>, st)))"

definition hostTargetNum :: "H2MirHostTarget \<Rightarrow> nat" where
  "hostTargetNum t = (case t of
     H2MirHostTarget_INVALID \<Rightarrow> 0 | H2MirHostTarget_PLATFORM_EXIT \<Rightarrow> 1 | H2MirHostTarget_DEALLOC \<Rightarrow> 2
   | H2MirHostTarget_CONCAT \<Rightarrow> 3 | H2MirHostTarget_COPY \<Rightarrow> 4)"

definition H2MirLowerInternHost ::
  "nat \<Rightarrow> nat \<Rightarrow> H2MirHostKind \<Rightarrow> 32 word \<Rightarrow> nat \<Rightarrow> 'x lowerState \<Rightarrow> ('x, nat) lowered" where
  "H2MirLowerInternHost nameStart nameEnd kind flags target st =
     (let h = \<lparr>hostNameStart = nameStart, hostNameEnd = nameEnd, hostKind = kind, hostFlags = flags, hostTarget = target\<rparr>
      in case findIndex ((=) h) (aelems (bhosts (fst st))) of
           Some i \<Rightarrow> Ok (i, st)
         | None \<Rightarrow> building (\<lambda>b. H2MirProgramBuilderAddHost b h) (H2MirLowerSetDiag 141 nameStart nameEnd) st)"

text \<open>Is the span of the instruction this name? The length is compared first.\<close>

definition spelled :: "'x H2Mem \<Rightarrow> viewRef \<Rightarrow> H2MirInst \<Rightarrow> string \<Rightarrow> ('e, bool) outcome" where
  "spelled m src ins name =
     (if iend ins \<noteq> u32 (istart ins + length name) then Ok False
      else obind (readView m src) (\<lambda>v. obind (readSpan v (istart ins) (length name)) (\<lambda>s. Ok (s = cstr name))))"

definition hostOf :: "'x H2Mem \<Rightarrow> viewRef \<Rightarrow> H2MirInst \<Rightarrow> ('e, H2MirHostTarget) outcome" where
  "hostOf m src ins =
     obind (spelled m src ins ''copy'') (\<lambda>copy. if copy then Ok H2MirHostTarget_COPY else
     obind (spelled m src ins ''concat'') (\<lambda>concat. if concat then Ok H2MirHostTarget_CONCAT else
     obind (spelled m src ins ''dealloc'') (\<lambda>dealloc. Ok (if dealloc then H2MirHostTarget_DEALLOC
       else H2MirHostTarget_INVALID))))"

definition H2MirLowerRewriteHostInst :: "viewRef \<Rightarrow> H2MirInst \<Rightarrow> 'x lowerState \<Rightarrow> ('x, H2MirInst) lowered" where
  "H2MirLowerRewriteHostInst src ins st =
     (let syms = aelems (bsymbols (fst st))
      in if iop ins \<noteq> H2MirOp_CALL \<or> iaux ins \<ge> length syms then Ok (ins, st)
         else obind (hostOf (snd st) src ins) (\<lambda>t.
           if t = H2MirHostTarget_INVALID then Ok (ins, st)
           else if symKind (syms ! iaux ins) \<noteq> H2MirSymbol_CALL \<or> symFlags (syms ! iaux ins) \<noteq> 0 then Ok (ins, st)
           else obind (H2MirLowerInternHost (istart ins) (iend ins) H2MirHost_GENERIC 0 (hostTargetNum t) st)
             (\<lambda>(i, st). Ok (ins\<lparr>iop := H2MirOp_CALL_HOST, iaux := i\<rparr>, st))))"

definition H2MirLowerInternField :: "nat \<Rightarrow> nat \<Rightarrow> 'x lowerState \<Rightarrow> ('x, nat) lowered" where
  "H2MirLowerInternField nameStart nameEnd st =
     (let f = \<lparr>fieldNameStart = nameStart, fieldNameEnd = nameEnd, fieldSourceRef = 0, ownerTypeRef = UINT32_MAX,
               fieldTypeRef = UINT32_MAX\<rparr>
      in case findIndex ((=) f) (aelems (bfields (fst st))) of
           Some i \<Rightarrow> Ok (i, st)
         | None \<Rightarrow> building (\<lambda>b. H2MirProgramBuilderAddField b f) (H2MirLowerSetDiag 141 nameStart nameEnd) st)"

definition H2MirLowerRewriteFieldInst :: "H2MirInst \<Rightarrow> 'x lowerState \<Rightarrow> ('x, H2MirInst) lowered" where
  "H2MirLowerRewriteFieldInst ins st =
     (if iop ins \<noteq> H2MirOp_AGG_GET \<and> iop ins \<noteq> H2MirOp_AGG_ADDR then Ok (ins, st)
      else obind (H2MirLowerInternField (istart ins) (iend ins) st) (\<lambda>(i, st). Ok (ins\<lparr>iaux := i\<rparr>, st)))"

text \<open>The rewrites one after the other; each sees the instruction the one before it left.\<close>

definition H2MirLowerAppendInst :: "viewRef \<Rightarrow> H2MirInst \<Rightarrow> 'x lowerState \<Rightarrow> ('x, nat) lowered" where
  "H2MirLowerAppendInst src ins st =
     obind (H2MirLowerRewriteConstInst src ins st) (\<lambda>(i1, st).
     obind (H2MirLowerRewriteSymbolInst i1 st) (\<lambda>(i2, st).
     obind (H2MirLowerRewriteTypeInst src i2 st) (\<lambda>(i3, st).
     obind (H2MirLowerRewriteHostInst src i3 st) (\<lambda>(i4, st).
     obind (H2MirLowerRewriteFieldInst i4 st) (\<lambda>(i5, st).
       building (\<lambda>b. H2MirProgramBuilderAppendInst b i5) (H2MirLowerSetDiag 141 (istart i5) (iend i5)) st)))))"

fun lowerCode :: "viewRef \<Rightarrow> H2MirInst list \<Rightarrow> 'x lowerState \<Rightarrow> ('x, nat) lowered" where
  "lowerCode src [] st = Ok (0, st)"
| "lowerCode src (i # is) st = obind (H2MirLowerAppendInst src i st) (\<lambda>(k, st). lowerCode src is st)"

subsection \<open>Expressions as functions\<close>

definition exprFunction :: "nat \<Rightarrow> nat \<Rightarrow> H2MirFunction" where
  "exprFunction sourceRef typeRef =
     \<lparr>instStart = 0, instLen = 0, fsourceRef = sourceRef, localStart = 0, localCount = 0, paramCount = 0,
      tempCount = 0, ftypeRef = typeRef, fnameStart = 0, fnameEnd = 0, fastNode = UINT32_MAX, fflags = 0,
      captureStart = 0, captureCount = 0\<rparr>"

text \<open>The type of the result, when a node is given for it; the node is read for the diagnostic only.\<close>

definition resultType :: "H2Ast \<Rightarrow> int \<Rightarrow> nat \<Rightarrow> 'x lowerState \<Rightarrow> ('x, nat) lowered" where
  "resultType ast resultTypeNode sourceRef st =
     (if resultTypeNode < 0 then Ok (UINT32_MAX, st)
      else building
        (\<lambda>b. H2MirProgramBuilderAddType b \<lparr>tastNode = nat resultTypeNode, tsourceRef = sourceRef, tflags = 0, taux = 0\<rparr>)
        (case astNodes ast of
           Some ns \<Rightarrow> H2MirLowerSetDiag 141 (nstart (ns ! nat resultTypeNode)) (nend (ns ! nat resultTypeNode))
         | None \<Rightarrow> id) st)"

text \<open>
  The index of the new function and whether the expression is supported; \<open>UINT32_MAX\<close> when it is
  not. Fuel is for the expression builder.
\<close>

definition H2MirLowerAppendExprAsFunction ::
  "nat \<Rightarrow> H2Ast \<Rightarrow> viewRef \<Rightarrow> int \<Rightarrow> int \<Rightarrow> 'x lowerState \<Rightarrow> ('x, nat \<times> bool) lowered" where
  "H2MirLowerAppendExprAsFunction fuel ast src nodeId resultTypeNode st =
     (let (b, m) = st
      in obind (readView m src) (\<lambda>text.
         case H2MirBuildExpr fuel (marena m) ast text nodeId (hdiag m) of
           None \<Rightarrow> Err OutOfFuel
         | Some Stuck \<Rightarrow> Stuck
         | Some (Err _) \<Rightarrow> Stuck
         | Some (Ok out) \<Rightarrow>
             (let st = (b, m\<lparr>marena := outArena out, hdiag := outDiag out\<rparr>)
              in if \<not> outOk out then refuse st
                 else case outChunk out of
                   None \<Rightarrow> Ok ((UINT32_MAX, False), st)
                 | Some (v, code) \<Rightarrow>
                     obind (building (\<lambda>b. H2MirProgramBuilderAddSource b \<lparr>ssrc = src\<rparr>) (lowerDiagReset 141) st)
                       (\<lambda>(sourceIndex, st).
                     obind (resultType ast resultTypeNode sourceIndex st) (\<lambda>(typeRef, st).
                     obind (building (\<lambda>b. H2MirProgramBuilderBeginFunction b (exprFunction sourceIndex typeRef))
                         (lowerDiagReset 141) st) (\<lambda>(functionIndex, st).
                     obind (lowerCode src code st) (\<lambda>(k, st).
                     obind (building H2MirProgramBuilderEndFunction (lowerDiagReset 4) st) (\<lambda>(k, st).
                       Ok ((functionIndex, True), st)))))))))"

text \<open>The program, and whether the expression is supported.\<close>

definition emptyProgram :: H2MirProgram where
  "emptyProgram = \<lparr>pinsts = [], pconsts = [], psources = [], pfuncs = [], plocals = [], pfields = [], ptypes = [],
     phosts = [], psymbols = [], pcaptures = []\<rparr>"

definition H2MirLowerExprAsFunction ::
  "nat \<Rightarrow> H2Ast \<Rightarrow> viewRef \<Rightarrow> int \<Rightarrow> 'x H2Mem \<Rightarrow> ('x, H2MirProgram \<times> bool) lowered" where
  "H2MirLowerExprAsFunction fuel ast src nodeId m =
     obind (H2MirLowerAppendExprAsFunction fuel ast src nodeId (-1) (H2MirProgramBuilderInit (Some (marena m)), m))
       (\<lambda>((functionIndex, supported), st).
         if \<not> supported \<or> functionIndex = UINT32_MAX then Ok ((emptyProgram, supported), st)
         else Ok ((H2MirProgramBuilderFinish (fst st), supported), st))"

subsection \<open>Evaluation of constant expressions\<close>

record 'x ctfeHooks =
  ctfeIdent :: "('x H2Mem \<Rightarrow> nat \<Rightarrow> nat \<Rightarrow> 'x answer) option"
  ctfeCall :: "('x H2Mem \<Rightarrow> nat \<Rightarrow> nat \<Rightarrow> valueArray \<Rightarrow> 'x answer) option"
  ctfeTuple :: "('x H2Mem \<Rightarrow> valueArray \<Rightarrow> nat \<Rightarrow> 'x answer) option"
  ctfeIndex :: "('x H2Mem \<Rightarrow> H2CTFEValue \<Rightarrow> H2CTFEValue \<Rightarrow> 'x answer) option"
  ctfeGetField :: "('x H2Mem \<Rightarrow> H2CTFEValue \<Rightarrow> nat \<Rightarrow> nat \<Rightarrow> 'x answer) option"
  ctfeAddrField :: "('x H2Mem \<Rightarrow> H2CTFEValue \<Rightarrow> nat \<Rightarrow> nat \<Rightarrow> 'x answer) option"

definition emptyEnv :: "'x H2MirExecEnv" where
  "emptyEnv = \<lparr>envSrc = (None, 0), resolveIdent = None, assignIdent = None, resolveCallPre = None, resolveCall = None,
     adjustCallArgs = None, indirectCall = None, hostCall = None, zeroInitLocal = None, coerceValueForType = None,
     indexValue = None, indexAddr = None, sliceValue = None, sequenceLen = None, iterInit = None, iterNext = None,
     aggGetField = None, aggAddrField = None, aggSetField = None, makeAggregate = None, makeTuple = None,
     makeVariadicPack = None, evalBinary = None, allocNew = None, contextGet = None, contextAddr = None,
     evalWithContext = None, enterFunction = None, leaveFunction = None, bindFrame = None, unbindFrame = None,
     setReason = None, backwardJumpLimit = 0\<rparr>"

text \<open>The two adapters pass the callbacks on; that of calls leaves out the site of the call.\<close>

definition H2CTFEMirResolveIdentAdapter :: "'x ctfeHooks \<Rightarrow> ('x H2Mem \<Rightarrow> nat \<Rightarrow> nat \<Rightarrow> 'x answer) option" where
  "H2CTFEMirResolveIdentAdapter hooks = ctfeIdent hooks"

definition H2CTFEMirResolveCallAdapter ::
  "'x ctfeHooks \<Rightarrow> ('x H2Mem \<Rightarrow> callSite \<Rightarrow> nat \<Rightarrow> nat \<Rightarrow> valueArray \<Rightarrow> 'x answer) option" where
  "H2CTFEMirResolveCallAdapter hooks = map_option (\<lambda>f m site. f m) (ctfeCall hooks)"

definition ctfeEnv :: "viewRef \<Rightarrow> 'x ctfeHooks \<Rightarrow> 'x H2MirExecEnv" where
  "ctfeEnv src hooks = emptyEnv\<lparr>envSrc := src, resolveIdent := H2CTFEMirResolveIdentAdapter hooks,
     resolveCall := H2CTFEMirResolveCallAdapter hooks, makeTuple := ctfeTuple hooks, indexValue := ctfeIndex hooks,
     aggGetField := ctfeGetField hooks, aggAddrField := ctfeAddrField hooks\<rparr>"

text \<open>\<open>H2DiagPhase_CONSTEVAL\<close> is set first, but the expression builder clears the diagnostic again.\<close>

definition H2CTFEEvalExprEx ::
  "nat \<Rightarrow> nat \<Rightarrow> H2Ast \<Rightarrow> viewRef \<Rightarrow> int \<Rightarrow> 'x ctfeHooks \<Rightarrow> H2CTFEValue \<Rightarrow> 'x H2Mem
   \<Rightarrow> (('x H2MirExecRun \<times> int) stop, 'x answer) outcome" where
  "H2CTFEEvalExprEx buildFuel fuel ast src nodeId hooks out m =
     (let m = m\<lparr>hdiag := map_option (\<lambda>d. diagZero\<lparr>dphase := H2DiagPhase_CONSTEVAL\<rparr>) (hdiag m)\<rparr>
      in case H2MirLowerExprAsFunction buildFuel ast src nodeId m of
           Stuck \<Rightarrow> Stuck
         | Err OutOfFuel \<Rightarrow> Err OutOfFuel
         | Err (Returned st) \<Rightarrow> Ok (snd st, -1, out, False)
         | Ok ((program, supported), st) \<Rightarrow>
             (if \<not> supported then Ok (snd st, 0, out, False)
              else
                (let env = ctfeEnv src hooks;
                     env = (if \<not> H2MirProgramNeedsDynamicResolution (Some program)
                            then H2MirExecEnvDisableDynamicResolution env else env)
                 in H2MirEvalFunction fuel (out, False) program 0 (None, 0) env (snd st))))"

definition H2CTFEEvalExpr ::
  "nat \<Rightarrow> nat \<Rightarrow> H2Ast \<Rightarrow> viewRef \<Rightarrow> int \<Rightarrow> ('x H2Mem \<Rightarrow> nat \<Rightarrow> nat \<Rightarrow> 'x answer) option
   \<Rightarrow> ('x H2Mem \<Rightarrow> nat \<Rightarrow> nat \<Rightarrow> valueArray \<Rightarrow> 'x answer) option \<Rightarrow> H2CTFEValue \<Rightarrow> 'x H2Mem
   \<Rightarrow> (('x H2MirExecRun \<times> int) stop, 'x answer) outcome" where
  "H2CTFEEvalExpr buildFuel fuel ast src nodeId ident call out m =
     H2CTFEEvalExprEx buildFuel fuel ast src nodeId
       \<lparr>ctfeIdent = ident, ctfeCall = call, ctfeTuple = None, ctfeIndex = None, ctfeGetField = None,
        ctfeAddrField = None\<rparr> out m"

end
