(* ===== verification/H2MirLowerThms.thy ===== *)
theory H2MirLowerThms
  imports H2MirLower H2MirThms H2MirExprThms
begin

text \<open>
  Lowering, seen through the abstract program of the builder: each instruction of the
  expression becomes one instruction of the function, and what it refers to is in the tables.
  The judgement \<open>lowers\<close> carries the invariant of the builder through the sequencing; with a limit
  on what the arena serves it says that the code does not fail.
\<close>

subsection \<open>The judgement\<close>

text \<open>An arena that serves \<open>k\<close> requests of at most \<open>B\<close> bytes, one after the other.\<close>

primrec serves :: "nat \<Rightarrow> nat \<Rightarrow> H2Arena \<Rightarrow> bool" where
  "serves B 0 ar = True"
| "serves B (Suc k) ar =
     (\<forall>n\<le>B. \<forall>al\<in>{4, 8}. \<exists>p ar'. H2ArenaAlloc ar n al = (Some p, ar') \<and> serves B k ar')"

lemma serves_request:
  assumes "serves B (Suc k) ar" "n \<le> B" "al \<in> {4, 8}"
  obtains p ar' where "H2ArenaAlloc ar n al = (Some p, ar')" "serves B k ar'"
proof -
  from assms(1) have "\<forall>n\<le>B. \<forall>al\<in>{4, 8}. \<exists>p ar'. H2ArenaAlloc ar n al = (Some p, ar') \<and> serves B k ar'"
    unfolding serves.simps(2) .
  from this [rule_format, OF assms(2,3)] show ?thesis using that by (elim exE conjE)
qed

lemma serves_Suc: "serves B (Suc k) ar \<Longrightarrow> serves B k ar"
proof (induction k arbitrary: ar)
  case (Suc k)
  show ?case
    unfolding serves.simps(2) [of B k]
  proof (intro allI impI ballI)
    fix n and al :: nat
    assume "n \<le> B" "al \<in> {4, 8}"
    then show "\<exists>p ar'. H2ArenaAlloc ar n al = (Some p, ar') \<and> serves B k ar'"
      using serves_request [OF Suc.prems, of n al] Suc.IH by metis
  qed
qed simp

lemma serves_mono: "serves B k ar \<Longrightarrow> j \<le> k \<Longrightarrow> serves B j ar"
proof (induction k)
  case (Suc k)
  show ?case
  proof (cases "j = Suc k")
    case True
    with Suc.prems(1) show ?thesis by (simp only:)
  next
    case False
    with Suc.prems(2) have "j \<le> k" by simp
    with Suc.IH [OF serves_Suc [OF Suc.prems(1)]] show ?thesis .
  qed
qed simp

text \<open>
  Room for \<open>n\<close> operations of the builder. With a limit the arena serves a request for each; without
  one nothing is said of it.
\<close>

definition lowerInv :: "nat option \<Rightarrow> nat \<Rightarrow> 'x lowerState \<Rightarrow> bool" where
  "lowerInv lim n st \<longleftrightarrow> builderOk (fst st) \<and> builderRoom (fst st) n \<and>
     (\<forall>B. lim = Some B \<longrightarrow> 112 * (builderSize (fst st) + n + 8) \<le> B \<and> serves B n (marena (snd st)))"

definition keepsMem :: "'x H2Mem \<Rightarrow> 'x H2Mem \<Rightarrow> bool" where
  "keepsMem m m' \<longleftrightarrow> (\<exists>ar. m' = m\<lparr>marena := ar\<rparr>)"

text \<open>The tables grow at their ends; the functions stay.\<close>

definition tablesGrow :: "mirSpec \<Rightarrow> mirSpec \<Rightarrow> bool" where
  "tablesGrow a a' \<longleftrightarrow>
     sopen a' = sopen a \<and> ssources a' = ssources a \<and>
     (\<exists>xs. sconsts a' = sconsts a @ xs) \<and> (\<exists>xs. ssymbols a' = ssymbols a @ xs) \<and> (\<exists>xs. stypes a' = stypes a @ xs) \<and>
     (\<exists>xs. shosts a' = shosts a @ xs) \<and> (\<exists>xs. sfields a' = sfields a @ xs)"

abbreviation specOf :: "'x lowerState \<Rightarrow> mirSpec" where
  "specOf st \<equiv> absMir (fst st)"

text \<open>With a limit the code does not fail, and leaves the memory but for the arena.\<close>

definition lowers ::
  "nat option \<Rightarrow> nat \<Rightarrow> 'x lowerState \<Rightarrow> ('a \<Rightarrow> 'x lowerState \<Rightarrow> bool) \<Rightarrow> ('x, 'a) lowered \<Rightarrow> bool" where
  "lowers lim n st Q r \<longleftrightarrow>
     (case r of
        Ok (x, st') \<Rightarrow> lowerInv lim n st' \<and> (lim \<noteq> None \<longrightarrow> keepsMem (snd st) (snd st')) \<and>
          tablesGrow (specOf st) (specOf st') \<and> Q x st'
      | _ \<Rightarrow> lim = None)"

lemma keepsMem_refl [simp]: "keepsMem m m"
  unfolding keepsMem_def by (rule exI [of _ "marena m"]) simp

lemma keepsMem_trans: "keepsMem m m' \<Longrightarrow> keepsMem m' m'' \<Longrightarrow> keepsMem m m''"
  unfolding keepsMem_def by auto

lemma tablesGrow_refl [simp]: "tablesGrow a a"
  by (simp add: tablesGrow_def)

lemma tablesGrow_trans: "tablesGrow a a' \<Longrightarrow> tablesGrow a' a'' \<Longrightarrow> tablesGrow a a''"
  by (fastforce simp: tablesGrow_def)

lemma lowers_Ok:
  "lowerInv lim n st \<Longrightarrow> Q x st \<Longrightarrow> lowers lim n st Q (Ok (x, st))"
  by (simp add: lowers_def)

lemma lowers_bind:
  assumes "lowers lim n st Q r"
    "\<And>x st'. lowerInv lim n st' \<Longrightarrow> (lim \<noteq> None \<Longrightarrow> keepsMem (snd st) (snd st')) \<Longrightarrow>
       tablesGrow (specOf st) (specOf st') \<Longrightarrow> Q x st' \<Longrightarrow> lowers lim k st' R (f (x, st'))"
  shows "lowers lim k st R (obind r f)"
proof (cases r)
  case (Ok p)
  obtain x st' where p: "p = (x, st')" by (cases p)
  with assms(1) Ok have a: "lowerInv lim n st'" "lim \<noteq> None \<Longrightarrow> keepsMem (snd st) (snd st')"
    "tablesGrow (specOf st) (specOf st')" "Q x st'"
    by (simp_all add: lowers_def)
  from assms(2) [OF a] a Ok p show ?thesis
    by (auto simp: lowers_def split: outcome.splits intro: keepsMem_trans tablesGrow_trans)
qed (use assms(1) in \<open>auto simp: lowers_def\<close>)

lemma lowerInv_mono: "lowerInv lim n st \<Longrightarrow> k \<le> n \<Longrightarrow> lowerInv lim k st"
  by (auto simp: lowerInv_def builderRoom_def intro: serves_mono)

lemma lowers_weaken:
  assumes "lowers lim n st Q r" "k \<le> n" "\<And>x st'. Q x st' \<Longrightarrow> tablesGrow (specOf st) (specOf st') \<Longrightarrow> R x st'"
  shows "lowers lim k st R r"
  using assms lowerInv_mono by (auto simp: lowers_def split: outcome.splits)

text \<open>One operation of the builder.\<close>

lemma absMir_arena [simp]: "absMir (b\<lparr>barena := ar\<rparr>) = absMir b"
  by (simp add: absMir_def)

lemma builderOk_arena [simp]: "builderOk (b\<lparr>barena := ar\<rparr>) \<longleftrightarrow> builderOk b"
  by (simp add: builderOk_def)

lemma builderSize_arena [simp]: "builderSize (b\<lparr>barena := ar\<rparr>) = builderSize b"
  by (simp add: builderSize_def)

lemma builderRoom_arena [simp]: "builderRoom (b\<lparr>barena := ar\<rparr>) n \<longleftrightarrow> builderRoom b n"
  by (simp add: builderRoom_def)

text \<open>The arena after an operation still serves the rest.\<close>

lemma memStep_arena:
  assumes "memStep (b\<lparr>barena := Some ar\<rparr>) b'" "112 * (builderSize b + 8) \<le> B" "serves B (Suc n) ar"
  shows "\<exists>ar'. barena b' = Some ar' \<and> serves B n ar'"
proof -
  have req: "serves B n a'" if "H2ArenaAlloc ar k 8 = (r, a')" "k \<le> 112 * (builderSize b + 8)" for k r a'
    by (rule serves_request [OF assms(3), of k 8]) (use that assms(2) in auto)
  from assms(1) show ?thesis
    unfolding memStep_def using req serves_Suc [OF assms(3)] by auto
qed

lemma building_cases:
  assumes "lowerInv lim (Suc n) st" "oper = (\<lambda>b. mirStep b x)" "lim = None \<or> specStep (specOf st) x \<noteq> None"
  obtains
    (Ok) i st' where "building oper onErr st = Ok (i, st')" "lowerInv lim n st'" "keepsMem (snd st) (snd st')"
      "specStep (specOf st) x = Some (i, specOf st')"
  | (Err) st' where "building oper onErr st = Err (Returned st')" "lim = None"
proof -
  obtain b m where st: "st = (b, m)" by (cases st)
  let ?b = "b\<lparr>barena := Some (marena m)\<rparr>"
  from assms(1) st have pre: "builderOk ?b" "builderRoom ?b (Suc n)" by (simp_all add: lowerInv_def)
  have sv: "112 * (builderSize b + 8) \<le> B \<and> 112 * (Suc (builderSize b) + n + 8) \<le> B \<and> serves B (Suc n) (marena m)"
    if "lim = Some B" for B
    using assms(1) st that by (simp add: lowerInv_def)
  note sim = step_simulated [OF pre, of x, unfolded simStep_def]
  show ?thesis
  proof (cases "mirStep ?b x")
    case (Ok r)
    then obtain i b' where r: "mirStep ?b x = Ok (i, b')" by (cases r) simp
    with sim have s: "builderOk b'" "builderSize b' \<le> Suc (builderSize b)" "memStep ?b b'"
      "specStep (absMir b) x = Some (i, absMir b')"
      by simp_all
    have ar: "\<exists>ar'. barena b' = Some ar' \<and> serves B n ar'" if "lim = Some B" for B
      using memStep_arena [OF s(3)] sv [OF that] by blast
    have "lowerInv lim n (storeArena b' m)"
      unfolding lowerInv_def
    proof (intro conjI allI impI)
      show "builderOk (fst (storeArena b' m))" "builderRoom (fst (storeArena b' m)) n"
        using s(1,2) pre(2) by (simp_all add: storeArena_def builderRoom_def)
      fix B assume B: "lim = Some B"
      show "112 * (builderSize (fst (storeArena b' m)) + n + 8) \<le> B"
        using sv [OF B] s(2) by (simp add: storeArena_def)
      show "serves B n (marena (snd (storeArena b' m)))" using ar [OF B] by (auto simp: storeArena_def)
    qed
    moreover have "keepsMem m (snd (storeArena b' m))"
      by (cases "barena b'") (auto simp: storeArena_def keepsMem_def)
    ultimately show ?thesis
      using r s(4) by (intro that(1) [of i "storeArena b' m"]) (simp_all add: building_def st assms(2), simp add: storeArena_def)
  next
    case (Err b')
    have "lim = None"
    proof (rule ccontr)
      assume "lim \<noteq> None"
      then obtain B where B: "lim = Some B" by auto
      with assms(3) st have "specStep (absMir ?b) x \<noteq> None" by simp
      with sim Err obtain k where k: "k \<le> 112 * (builderSize b + 8)" "fst (H2ArenaAlloc (marena m) k 8) = None"
        by (auto simp: noMemory_def simp del: absMir_arena)
      show False
        by (rule serves_request [of B n "marena m" k 8]) (use sv [OF B] k in auto)
    qed
    with Err show ?thesis by (intro that(2)) (auto simp: building_def st assms(2) refuse_def)
  qed (use sim in simp)
qed

lemma lowers_building:
  assumes "lowerInv lim (Suc n) st" "oper = (\<lambda>b. mirStep b x)" "lim = None \<or> specStep (specOf st) x \<noteq> None"
    "\<And>i st'. specStep (specOf st) x = Some (i, specOf st') \<Longrightarrow> tablesGrow (specOf st) (specOf st') \<and> Q i st'"
  shows "lowers lim n st Q (building oper onErr st)"
  by (cases rule: building_cases [OF assms(1,2,3), of onErr]) (use assms(4) in \<open>simp_all add: lowers_def\<close>)

subsection \<open>Looking up and adding\<close>

lemma findIndex_Some: "findIndex P xs = Some i \<Longrightarrow> i < length xs \<and> P (xs ! i)"
  by (induction xs arbitrary: i) (auto split: if_splits)

lemma absMir_tables [simp]:
  "ssymbols (absMir b) = aelems (bsymbols b)" "stypes (absMir b) = aelems (btypes b)"
  "shosts (absMir b) = aelems (bhosts b)" "sfields (absMir b) = aelems (bfields b)"
  "sconsts (absMir b) = aelems (bconsts b)" "ssources (absMir b) = aelems (bsources b)" "sopen (absMir b) = hasOpenFunc b"
  by (simp_all add: absMir_def)

lemma tables_add:
  "tablesGrow a (a\<lparr>sconsts := sconsts a @ [c]\<rparr>)" "tablesGrow a (a\<lparr>ssymbols := ssymbols a @ [s]\<rparr>)"
  "tablesGrow a (a\<lparr>stypes := stypes a @ [t]\<rparr>)" "tablesGrow a (a\<lparr>shosts := shosts a @ [h]\<rparr>)"
  "tablesGrow a (a\<lparr>sfields := sfields a @ [f]\<rparr>)" "tablesGrow a (a\<lparr>sfns := fs\<rparr>)"
  by (simp_all add: tablesGrow_def)

text \<open>The functions stay and the entry \<open>x\<close> is at index \<open>i\<close> of a table.\<close>

definition entryAt :: "(mirSpec \<Rightarrow> 'b list) \<Rightarrow> ('b \<Rightarrow> bool) \<Rightarrow> mirSpec \<Rightarrow> nat \<Rightarrow> 'x lowerState \<Rightarrow> bool" where
  "entryAt table P a i st' \<longleftrightarrow>
     sfns (specOf st') = sfns a \<and> i < length (table (specOf st')) \<and> P (table (specOf st') ! i)"

lemma lowers_add:
  assumes "lowerInv lim (Suc n) st" "oper = (\<lambda>b. mirStep b x)" "specStep (specOf st) x \<noteq> None"
    "\<And>i a. specStep (specOf st) x = Some (i, a) \<Longrightarrow>
      tablesGrow (specOf st) a \<and> sfns a = sfns (specOf st) \<and> i < length (table a) \<and> P (table a ! i)"
  shows "lowers lim n st (entryAt table P (specOf st)) (building oper onErr st)"
  by (rule lowers_building [OF assms(1,2)]) (use assms(3,4) in \<open>auto simp: entryAt_def\<close>)

lemma lowers_addConst:
  "lowerInv lim (Suc n) st \<Longrightarrow>
   lowers lim n st (entryAt sconsts ((=) c) (specOf st)) (building (\<lambda>b. H2MirProgramBuilderAddConst b c) (H2MirLowerSetDiag 141 s e) st)"
  by (rule lowers_add [where x = "OpConst c"]) (auto simp: tables_add simp del: absMir_tables)

lemmas intern_defs = H2MirLowerInternSymbol_def H2MirLowerInternType_def H2MirLowerInternHost_def H2MirLowerInternField_def

lemma lowers_symbol:
  assumes "lowerInv lim (Suc n) st"
  shows "lowers lim n st
    (entryAt ssymbols ((=) \<lparr>symNameStart = s, symNameEnd = e, symKind = k, symFlags = fl, symTarget = t\<rparr>) (specOf st))
    (H2MirLowerInternSymbol k s e fl t st)"
proof (cases "findIndex ((=) \<lparr>symNameStart = s, symNameEnd = e, symKind = k, symFlags = fl, symTarget = t\<rparr>)
    (aelems (bsymbols (fst st)))")
  case None
  then show ?thesis
    unfolding intern_defs Let_def None option.case
    by (intro lowers_add [where x = "OpSymbol \<lparr>symNameStart = s, symNameEnd = e, symKind = k, symFlags = fl, symTarget = t\<rparr>"] assms)
      (auto simp: tables_add simp del: absMir_tables)
next
  case (Some i)
  with findIndex_Some [OF Some] lowerInv_mono [OF assms, of n] show ?thesis
    by (simp add: intern_defs lowers_Ok entryAt_def)
qed

lemma lowers_type:
  assumes "lowerInv lim (Suc n) st"
  shows "lowers lim n st (entryAt stypes (\<lambda>t. True) (specOf st)) (H2MirLowerInternType nd sr fl st)"
proof (cases "findIndex (\<lambda>t. tastNode t = nd \<and> tsourceRef t = sr \<and> tflags t = fl) (aelems (btypes (fst st)))")
  case None
  then show ?thesis
    unfolding intern_defs Let_def None option.case
    by (intro lowers_add [where x = "OpType \<lparr>tastNode = nd, tsourceRef = sr, tflags = fl, taux = 0\<rparr>"] assms)
      (auto simp: tables_add simp del: absMir_tables)
next
  case (Some i)
  with findIndex_Some [OF Some] lowerInv_mono [OF assms, of n] show ?thesis
    by (simp add: intern_defs lowers_Ok entryAt_def)
qed

lemma lowers_host:
  assumes "lowerInv lim (Suc n) st"
  shows "lowers lim n st (entryAt shosts (\<lambda>t. True) (specOf st)) (H2MirLowerInternHost s e k fl t st)"
proof (cases "findIndex ((=) \<lparr>hostNameStart = s, hostNameEnd = e, hostKind = k, hostFlags = fl, hostTarget = t\<rparr>)
    (aelems (bhosts (fst st)))")
  case None
  then show ?thesis
    unfolding intern_defs Let_def None option.case
    by (intro lowers_add [where x = "OpHost \<lparr>hostNameStart = s, hostNameEnd = e, hostKind = k, hostFlags = fl, hostTarget = t\<rparr>"] assms)
      (auto simp: tables_add simp del: absMir_tables)
next
  case (Some i)
  with findIndex_Some [OF Some] lowerInv_mono [OF assms, of n] show ?thesis
    by (simp add: intern_defs lowers_Ok entryAt_def)
qed

lemma lowers_field:
  assumes "lowerInv lim (Suc n) st"
  shows "lowers lim n st
    (entryAt sfields ((=) \<lparr>fieldNameStart = s, fieldNameEnd = e, fieldSourceRef = 0, ownerTypeRef = UINT32_MAX, fieldTypeRef = UINT32_MAX\<rparr>)
      (specOf st)) (H2MirLowerInternField s e st)"
proof (cases "findIndex ((=) \<lparr>fieldNameStart = s, fieldNameEnd = e, fieldSourceRef = 0, ownerTypeRef = UINT32_MAX, fieldTypeRef = UINT32_MAX\<rparr>)
    (aelems (bfields (fst st)))")
  case None
  then show ?thesis
    unfolding intern_defs Let_def None option.case
    by (intro lowers_add [where x = "OpField \<lparr>fieldNameStart = s, fieldNameEnd = e, fieldSourceRef = 0, ownerTypeRef = UINT32_MAX, fieldTypeRef = UINT32_MAX\<rparr>"] assms)
      (auto simp: tables_add simp del: absMir_tables)
next
  case (Some i)
  with findIndex_Some [OF Some] lowerInv_mono [OF assms, of n] show ?thesis
    by (simp add: intern_defs lowers_Ok entryAt_def)
qed

subsection \<open>One instruction\<close>

text \<open>
  The lowered form \<open>j\<close> of an instruction \<open>i\<close> whose literal is the constant \<open>c\<close>: what it refers to is
  in the tables and says what the instruction said.
\<close>

definition identSymbol :: "H2MirInst \<Rightarrow> H2MirSymbolRef" where
  "identSymbol i = \<lparr>symNameStart = istart i, symNameEnd = iend i, symKind = H2MirSymbol_IDENT, symFlags = 0,
     symTarget = iaux i\<rparr>"

definition fieldOf :: "H2MirInst \<Rightarrow> H2MirField" where
  "fieldOf i = \<lparr>fieldNameStart = istart i, fieldNameEnd = iend i, fieldSourceRef = 0, ownerTypeRef = UINT32_MAX,
     fieldTypeRef = UINT32_MAX\<rparr>"

definition inTable :: "'b list \<Rightarrow> nat \<Rightarrow> 'b \<Rightarrow> bool" where
  "inTable xs k x \<longleftrightarrow> k < length xs \<and> xs ! k = x"

definition loweredAs :: "mirSpec \<Rightarrow> H2MirConst option \<Rightarrow> H2MirInst \<Rightarrow> H2MirInst \<Rightarrow> bool" where
  "loweredAs a c i j \<longleftrightarrow>
     (case c of
        Some x \<Rightarrow> (\<exists>k. j = i\<lparr>iop := H2MirOp_PUSH_CONST, itok := 0, iaux := k\<rparr> \<and> inTable (sconsts a) k x)
      | None \<Rightarrow>
          if iop i = H2MirOp_LOAD_IDENT \<or> iop i = H2MirOp_STORE_IDENT
          then \<exists>k. j = i\<lparr>iaux := k\<rparr> \<and> inTable (ssymbols a) k (identSymbol i)
          else if iop i = H2MirOp_CALL
          then \<exists>k. j = i\<lparr>iaux := k\<rparr> \<and> k < length (ssymbols a) \<or>
               j = i\<lparr>iop := H2MirOp_CALL_HOST, iaux := k\<rparr> \<and> k < length (shosts a)
          else if iop i = H2MirOp_CAST then \<exists>k. j = i\<lparr>iaux := k\<rparr> \<and> k < length (stypes a)
          else if iop i = H2MirOp_AGG_GET \<or> iop i = H2MirOp_AGG_ADDR
          then \<exists>k. j = i\<lparr>iaux := k\<rparr> \<and> inTable (sfields a) k (fieldOf i)
          else j = i)"

lemma inTable_append: "inTable xs k x \<Longrightarrow> inTable (xs @ ys) k x"
  by (simp add: inTable_def nth_append)

lemma loweredAs_mono: "loweredAs a c i j \<Longrightarrow> tablesGrow a a' \<Longrightarrow> loweredAs a' c i j"
  by (auto simp: loweredAs_def tablesGrow_def intro: inTable_append split: option.splits if_splits)

definition rewriteConst :: "H2MirConst option \<Rightarrow> H2MirInst \<Rightarrow> 'x lowerState \<Rightarrow> ('x, H2MirInst) lowered" where
  "rewriteConst c ins st =
     (case c of
        None \<Rightarrow> Ok (ins, st)
      | Some c \<Rightarrow>
          obind (building (\<lambda>b. H2MirProgramBuilderAddConst b c) (H2MirLowerSetDiag 141 (istart ins) (iend ins)) st)
            (\<lambda>(i, st). Ok (ins\<lparr>iop := H2MirOp_PUSH_CONST, itok := 0, iaux := i\<rparr>, st)))"

text \<open>The sequence of rewrites keeps the functions; \<open>rewritten\<close> says what a rewrite did.\<close>

definition rewritten :: "mirSpec \<Rightarrow> (mirSpec \<Rightarrow> H2MirInst \<Rightarrow> bool) \<Rightarrow> H2MirInst \<Rightarrow> 'x lowerState \<Rightarrow> bool" where
  "rewritten a P j st' \<longleftrightarrow> sfns (specOf st') = sfns a \<and> P (specOf st') j"

lemma rewritten_Ok: "lowerInv lim n st \<Longrightarrow> P (specOf st) i \<Longrightarrow> lowers lim n st (rewritten (specOf st) P) (Ok (i, st))"
  by (rule lowers_Ok) (simp_all add: rewritten_def)

text \<open>After an entry is found or added, the instruction gets its index.\<close>

lemma rewritten_entry:
  assumes "lowers lim n st (entryAt table R (specOf st)) r"
    "\<And>a k. k < length (table a) \<Longrightarrow> R (table a ! k) \<Longrightarrow> P a (g k)"
  shows "lowers lim n st (rewritten (specOf st) P) (obind r (\<lambda>(k, st). Ok (g k, st)))"
proof (rule lowers_bind [OF assms(1)])
  fix k st'
  assume "lowerInv lim n st'" "entryAt table R (specOf st) k st'"
  then show "lowers lim n st' (rewritten (specOf st) P) (case (k, st') of (k, st) \<Rightarrow> Ok (g k, st))"
    using assms(2) by (auto simp: rewritten_def entryAt_def intro!: lowers_Ok)
qed

lemma lowers_rewriteConst:
  "lowerInv lim (Suc n) st \<Longrightarrow>
   lowers lim n st (rewritten (specOf st) (\<lambda>a j. if c = None then j = i else
     \<exists>k. j = i\<lparr>iop := H2MirOp_PUSH_CONST, itok := 0, iaux := k\<rparr> \<and> inTable (sconsts a) k (the c))) (rewriteConst c i st)"
  by (cases c)
    (auto simp: rewriteConst_def inTable_def intro!: rewritten_Ok rewritten_entry [OF lowers_addConst] intro: lowerInv_mono)

lemma lowers_rewriteSymbol:
  "lowerInv lim (Suc n) st \<Longrightarrow>
   lowers lim n st (rewritten (specOf st) (\<lambda>a j.
     if iop i = H2MirOp_LOAD_IDENT \<or> iop i = H2MirOp_STORE_IDENT
     then \<exists>k. j = i\<lparr>iaux := k\<rparr> \<and> inTable (ssymbols a) k (identSymbol i)
     else if iop i = H2MirOp_CALL then \<exists>k. j = i\<lparr>iaux := k\<rparr> \<and> k < length (ssymbols a) else j = i))
     (H2MirLowerRewriteSymbolInst i st)"
  unfolding H2MirLowerRewriteSymbolInst_def Let_def
  by (auto simp: inTable_def identSymbol_def intro!: rewritten_Ok rewritten_entry [OF lowers_symbol] intro: lowerInv_mono)

lemma lowers_rewriteType:
  "lowerInv lim (Suc n) st \<Longrightarrow>
   lowers lim n st (rewritten (specOf st) (\<lambda>a j.
     if iop i = H2MirOp_CAST then \<exists>k. j = i\<lparr>iaux := k\<rparr> \<and> k < length (stypes a) else j = i))
     (H2MirLowerRewriteTypeInst src i st)"
  unfolding H2MirLowerRewriteTypeInst_def
  by (auto intro!: rewritten_Ok rewritten_entry [OF lowers_type] intro: lowerInv_mono)

lemma lowers_rewriteField:
  "lowerInv lim (Suc n) st \<Longrightarrow>
   lowers lim n st (rewritten (specOf st) (\<lambda>a j.
     if iop i = H2MirOp_AGG_GET \<or> iop i = H2MirOp_AGG_ADDR
     then \<exists>k. j = i\<lparr>iaux := k\<rparr> \<and> inTable (sfields a) k (fieldOf i) else j = i))
     (H2MirLowerRewriteFieldInst i st)"
  unfolding H2MirLowerRewriteFieldInst_def
  by (auto simp: inTable_def fieldOf_def intro!: rewritten_Ok rewritten_entry [OF lowers_field] intro: lowerInv_mono)

lemma lowers_loose: "(\<And>x st'. r = Ok (x, st') \<Longrightarrow> lowers None n st Q (Ok (x, st'))) \<Longrightarrow> lowers None n st Q r"
  by (cases r) (auto simp: lowers_def split: stop.splits)

lemma lowers_rewriteHost:
  assumes "lowerInv lim (Suc n) st" "lim \<noteq> None \<Longrightarrow> iop i \<noteq> H2MirOp_CALL"
  shows "lowers lim n st (rewritten (specOf st) (\<lambda>a j.
     j = i \<or> iop i = H2MirOp_CALL \<and> (\<exists>k. j = i\<lparr>iop := H2MirOp_CALL_HOST, iaux := k\<rparr> \<and> k < length (shosts a))))
     (H2MirLowerRewriteHostInst src i st)"
proof (cases "iop i = H2MirOp_CALL \<and> iaux i < length (aelems (bsymbols (fst st)))")
  case False
  then show ?thesis
    using lowerInv_mono [OF assms(1), of n] by (auto simp: H2MirLowerRewriteHostInst_def Let_def intro!: rewritten_Ok)
next
  case True
  with assms(2) have lim: "lim = None" by blast
  show ?thesis
  proof (cases "hostOf (snd st) src i :: ('a lowerState stop, H2MirHostTarget) outcome")
    case (Ok t)
    then show ?thesis
      using True lowerInv_mono [OF assms(1), of n]
      by (auto simp: H2MirLowerRewriteHostInst_def Let_def not_le intro!: rewritten_Ok rewritten_entry [OF lowers_host] assms(1))
  qed (use True lim in \<open>auto simp: H2MirLowerRewriteHostInst_def Let_def not_le lowers_def split: stop.splits\<close>)
qed

definition appendRest :: "viewRef \<Rightarrow> H2MirConst option \<Rightarrow> H2MirInst \<Rightarrow> 'x lowerState \<Rightarrow> ('x, nat) lowered" where
  "appendRest src c i st =
     obind (rewriteConst c i st) (\<lambda>(i1, st).
     obind (H2MirLowerRewriteSymbolInst i1 st) (\<lambda>(i2, st).
     obind (H2MirLowerRewriteTypeInst src i2 st) (\<lambda>(i3, st).
     obind (H2MirLowerRewriteHostInst src i3 st) (\<lambda>(i4, st).
     obind (H2MirLowerRewriteFieldInst i4 st) (\<lambda>(i5, st).
       building (\<lambda>b. H2MirProgramBuilderAppendInst b i5) (H2MirLowerSetDiag 141 (istart i5) (iend i5)) st)))))"

lemma obind_assoc: "obind (obind r f) g = obind r (\<lambda>x. obind (f x) g)"
  by (cases r) simp_all

lemma appendInst_split:
  "H2MirLowerAppendInst src i st = obind (literalConst src i st) (\<lambda>(c, st). appendRest src c i st)"
  unfolding H2MirLowerAppendInst_def H2MirLowerRewriteConstInst_def appendRest_def rewriteConst_def obind_assoc
  by (rule arg_cong [of _ _ "obind _"]) (auto simp: fun_eq_iff obind_assoc split: option.splits)

text \<open>The instruction is appended to the code of the open function.\<close>

definition appended :: "mirSpec \<Rightarrow> H2MirConst option \<Rightarrow> H2MirInst \<Rightarrow> 'x lowerState \<Rightarrow> bool" where
  "appended a c i st' \<longleftrightarrow>
     (\<exists>j. loweredAs (specOf st') c i j \<and> sfns (specOf st') = onLast (\<lambda>f. f\<lparr>fcode := fcode f @ [j]\<rparr>) (sfns a))"

lemma lowers_push:
  assumes "lowerInv lim (Suc n) st" "lim \<noteq> None \<Longrightarrow> sopen (specOf st)" "loweredAs (specOf st) c i j" "sfns (specOf st) = sfns a"
  shows "lowers lim n st (\<lambda>k. appended a c i)
    (building (\<lambda>b. H2MirProgramBuilderAppendInst b j) (H2MirLowerSetDiag 141 s e) st)"
proof (rule lowers_building [where x = "OpInst j", OF assms(1)])
  fix k st'
  assume "specStep (specOf st) (OpInst j) = Some (k, specOf st')"
  then have a: "specOf st' = (specOf st)\<lparr>sfns := onLast (\<lambda>f. f\<lparr>fcode := fcode f @ [j]\<rparr>) (sfns (specOf st))\<rparr>"
    by (simp split: if_splits)
  have "tablesGrow (specOf st) (specOf st')" unfolding a by (rule tables_add)
  moreover have "sfns (specOf st') = onLast (\<lambda>f. f\<lparr>fcode := fcode f @ [j]\<rparr>) (sfns a)"
    unfolding a using assms(4) by simp
  ultimately show "tablesGrow (specOf st) (specOf st') \<and> appended a c i st'"
    using loweredAs_mono [OF assms(3)] unfolding appended_def by blast
qed (cases lim; use assms(2) in \<open>simp add: fun_eq_iff del: absMir_tables\<close>)+

lemma lowers_appendRest:
  assumes inv: "lowerInv lim (n + 6) st" and call: "lim \<noteq> None \<Longrightarrow> c = None \<Longrightarrow> iop i \<noteq> H2MirOp_CALL"
    and isOpen: "lim \<noteq> None \<Longrightarrow> sopen (specOf st)"
  shows "lowers lim n st (\<lambda>k. appended (specOf st) c i) (appendRest src c i st)"
  unfolding appendRest_def
proof (rule lowers_bind [OF lowers_rewriteConst [where n = "n + 5"]], goal_cases)
  case 1
  show ?case by (rule lowerInv_mono [OF inv]) simp
next
  case (2 i1 s1)
  note r1 = 2(4) [unfolded rewritten_def] and g1 = 2(3)
  show ?case unfolding prod.case
  proof (rule lowers_bind [OF lowers_rewriteSymbol [where n = "n + 4"]], goal_cases)
    case 1
    show ?case by (rule lowerInv_mono [OF 2(1)]) simp
  next
    case (2 i2 s2)
    note r2 = 2(4) [unfolded rewritten_def] and g2 = 2(3)
    show ?case unfolding prod.case
    proof (rule lowers_bind [OF lowers_rewriteType [where n = "n + 3"]], goal_cases)
      case 1
      show ?case by (rule lowerInv_mono [OF 2(1)]) simp
    next
      case (2 i3 s3)
      note r3 = 2(4) [unfolded rewritten_def] and g3 = 2(3) tablesGrow_trans [OF g2 2(3)]
      have ops: "iop i3 = iop i2" "iop i2 = iop i1" "iop i1 = (if c = None then iop i else H2MirOp_PUSH_CONST)"
        using r1 r2 r3 by (auto split: if_splits)
      show ?case unfolding prod.case
      proof (rule lowers_bind [OF lowers_rewriteHost [where n = "n + 2"]], goal_cases)
        case 1
        show ?case by (rule lowerInv_mono [OF 2(1)]) simp
      next
        case 2
        then show ?case using call ops by (auto split: if_splits)
      next
        case (3 i4 s4)
        note r4 = 3(4) [unfolded rewritten_def] and g4 = 3(3) g3 [THEN tablesGrow_trans, OF 3(3)]
        show ?case unfolding prod.case
        proof (rule lowers_bind [OF lowers_rewriteField [where n = "n + 1"]], goal_cases)
          case 1
          show ?case by (rule lowerInv_mono [OF 3(1)]) simp
        next
          case (2 i5 s5)
          note r5 = 2(4) [unfolded rewritten_def] and g5 = g4 [THEN tablesGrow_trans, OF 2(3)]
          have "loweredAs (specOf s5) c i i5"
          proof (cases c)
            case (Some x)
            with r1 r2 r3 r4 r5 have "loweredAs (specOf s1) c i i5"
              by (auto simp: loweredAs_def split: if_splits)
            then show ?thesis by (rule loweredAs_mono [OF _ g5(3)])
          next
            case None
            then have i1: "i1 = i" using r1 by simp
            consider (ident) "iop i = H2MirOp_LOAD_IDENT \<or> iop i = H2MirOp_STORE_IDENT" | (call) "iop i = H2MirOp_CALL"
              | (cast) "iop i = H2MirOp_CAST" | (field) "iop i = H2MirOp_AGG_GET \<or> iop i = H2MirOp_AGG_ADDR"
              | (plain) "iop i \<notin> {H2MirOp_LOAD_IDENT, H2MirOp_STORE_IDENT, H2MirOp_CALL, H2MirOp_CAST, H2MirOp_AGG_GET, H2MirOp_AGG_ADDR}"
              by auto
            then show ?thesis
            proof cases
              case ident
              with None i1 r2 r3 r4 r5 have "loweredAs (specOf s2) c i i5" by (auto simp: loweredAs_def)
              then show ?thesis by (rule loweredAs_mono [OF _ g5(2)])
            next
              case call
              with i1 r2 obtain k where k: "i2 = i\<lparr>iaux := k\<rparr>" "k < length (ssymbols (specOf s2))" by auto
              with call r3 have "i3 = i2" by auto
              with k call r4 r5 have i5: "i5 = i4" by auto
              from k call None have L2: "loweredAs (specOf s2) c i i2" by (auto simp: loweredAs_def)
              show ?thesis
              proof (cases "i4 = i3")
                case True
                with \<open>i3 = i2\<close> i5 show ?thesis using loweredAs_mono [OF L2 g5(2)] by simp
              next
                case False
                with k \<open>i3 = i2\<close> r4 call None have "loweredAs (specOf s4) c i i4" by (auto simp: loweredAs_def)
                then show ?thesis unfolding i5 by (rule loweredAs_mono [OF _ 2(3)])
              qed
            next
              case cast
              with None i1 r2 r3 r4 r5 have "loweredAs (specOf s3) c i i5" by (auto simp: loweredAs_def)
              then show ?thesis by (rule loweredAs_mono [OF _ g5(1)])
            next
              case field
              with None i1 r2 r3 r4 r5 show ?thesis by (auto simp: loweredAs_def)
            next
              case plain
              with None i1 r2 r3 r4 r5 show ?thesis by (auto simp: loweredAs_def)
            qed
          qed
          moreover have "sopen (specOf s5)" if "lim \<noteq> None"
            using isOpen [OF that] g1 g2 g4 2(3) g3(1) by (simp add: tablesGrow_def del: absMir_tables)
          ultimately show ?case unfolding prod.case
            by (intro lowers_push) (use 2 r1 r2 r3 r4 r5 in simp_all)
        qed
      qed
    qed
  qed
qed

subsection \<open>The code of an expression\<close>

text \<open>Literals do not touch the builder.\<close>

definition keepsBuilder :: "H2MirProgramBuilder \<Rightarrow> ('x, 'a) lowered \<Rightarrow> bool" where
  "keepsBuilder b r \<longleftrightarrow> (\<forall>x st. r = Ok (x, st) \<longrightarrow> fst st = b)"

lemma keepsBuilder_simps [simp]:
  "keepsBuilder b (Ok (x, st)) \<longleftrightarrow> fst st = b" "keepsBuilder b (refuse st)" "keepsBuilder b Stuck"
  by (cases st; auto simp: keepsBuilder_def refuse_def)+

lemma keepsBuilder_obind: "(\<And>x. keepsBuilder b (k x)) \<Longrightarrow> keepsBuilder b (obind r k)"
  by (cases r) (simp_all add: keepsBuilder_def)

lemma keepsBuilder_bytes: "(\<And>bs. keepsBuilder b (k bs)) \<Longrightarrow> keepsBuilder b (viewBytes v k)"
  by (cases v) simp_all

lemma literalConst_keeps: "keepsBuilder (fst st) (literalConst src i st)"
proof -
  have "keepsBuilder (fst st) (literalInt src i st)"
    unfolding literalInt_def
    by (auto intro!: keepsBuilder_obind keepsBuilder_bytes split: outcome.split)
  moreover have "keepsBuilder (fst st) (literalString src i st)"
    unfolding literalString_def
    by (cases st) (auto intro!: keepsBuilder_obind keepsBuilder_bytes split: outcome.split)
  ultimately show ?thesis
    by (cases "iop i") (auto simp: literalConst_def intro!: keepsBuilder_obind)
qed

text \<open>The constants of the literals: given by \<open>lit\<close> when there is a limit, for any state of the arena.\<close>

definition literals :: "nat option \<Rightarrow> (H2MirInst \<Rightarrow> H2MirConst option) \<Rightarrow> viewRef \<Rightarrow> 'x H2Mem \<Rightarrow> H2MirInst \<Rightarrow> bool" where
  "literals lim lit src m i \<longleftrightarrow>
     (lim \<noteq> None \<longrightarrow> iop i \<noteq> H2MirOp_CALL \<and>
       (\<forall>b m'. keepsMem m m' \<longrightarrow> literalConst src i (b, m') = Ok (lit i, (b, m'))))"

definition codeAppended ::
  "nat option \<Rightarrow> (H2MirInst \<Rightarrow> H2MirConst option) \<Rightarrow> mirSpec \<Rightarrow> H2MirInst list \<Rightarrow> 'x lowerState \<Rightarrow> bool" where
  "codeAppended lim lit a is st' \<longleftrightarrow>
     (\<exists>js. list_all2 (\<lambda>i j. \<exists>c. (lim \<noteq> None \<longrightarrow> c = lit i) \<and> loweredAs (specOf st') c i j) is js \<and>
       sfns (specOf st') = onLast (\<lambda>f. f\<lparr>fcode := fcode f @ js\<rparr>) (sfns a))"

lemma onLast_onLast: "onLast f (onLast g xs) = onLast (\<lambda>x. f (g x)) xs"
  by (simp add: onLast_def)

lemma lowers_inst:
  assumes "lowerInv lim (n + 6) st" "literals lim lit src (snd st) i" "lim \<noteq> None \<Longrightarrow> sopen (specOf st)"
  shows "lowers lim n st (\<lambda>k st'. \<exists>c. (lim \<noteq> None \<longrightarrow> c = lit i) \<and> appended (specOf st) c i st') (H2MirLowerAppendInst src i st)"
  unfolding appendInst_split
proof (rule lowers_bind [where n = "n + 6" and Q = "\<lambda>c st'. specOf st' = specOf st \<and> (lim \<noteq> None \<longrightarrow> c = lit i)"])
  show "lowers lim (n + 6) st (\<lambda>c st'. specOf st' = specOf st \<and> (lim \<noteq> None \<longrightarrow> c = lit i)) (literalConst src i st)"
  proof (cases lim)
    case None
    show ?thesis
      using literalConst_keeps [of st src i] assms(1) None
      by (auto simp: lowers_def lowerInv_def keepsBuilder_def split: outcome.split)
  next
    case (Some B)
    with assms(2) have "literalConst src i st = Ok (lit i, st)"
      by (cases st) (simp add: literals_def)
    with assms(1) show ?thesis by (simp add: lowers_def)
  qed
next
  fix c st'
  assume st': "lowerInv lim (n + 6) st'" "specOf st' = specOf st \<and> (lim \<noteq> None \<longrightarrow> c = lit i)"
  have "lowers lim n st' (\<lambda>k. appended (specOf st') c i) (appendRest src c i st')"
    by (rule lowers_appendRest [OF st'(1)]) (use assms(2,3) st'(2) in \<open>simp_all add: literals_def\<close>)
  then show "lowers lim n st' (\<lambda>k st''. \<exists>c. (lim \<noteq> None \<longrightarrow> c = lit i) \<and> appended (specOf st) c i st'')
      (case (c, st') of (c, st) \<Rightarrow> appendRest src c i st)"
    unfolding prod.case by (rule lowers_weaken) (use st'(2) in auto)
qed

lemma literals_keeps: "literals lim lit src m i \<Longrightarrow> (lim \<noteq> None \<Longrightarrow> keepsMem m m') \<Longrightarrow> literals lim lit src m' i"
  unfolding literals_def using keepsMem_trans by blast

lemma lowers_code:
  "lowerInv lim (n + 6 * length is) st \<Longrightarrow> (\<And>i. i \<in> set is \<Longrightarrow> literals lim lit src (snd st) i) \<Longrightarrow>
   (lim \<noteq> None \<Longrightarrow> sopen (specOf st)) \<Longrightarrow> sfns (specOf st) \<noteq> [] \<Longrightarrow>
   lowers lim n st (\<lambda>k. codeAppended lim lit (specOf st) is) (lowerCode src is st)"
proof (induction "is" arbitrary: st)
  case Nil
  have "sfns (specOf st) = onLast (\<lambda>f. f\<lparr>fcode := fcode f @ []\<rparr>) (sfns (specOf st))"
    using Nil.prems(4) by (simp add: onLast_def)
  with Nil.prems(1) show ?case by (auto simp: codeAppended_def intro!: lowers_Ok)
next
  case (Cons i "is")
  have inv: "lowerInv lim (n + 6 * length is + 6) st" by (rule lowerInv_mono [OF Cons.prems(1)]) simp
  show ?case
    unfolding lowerCode.simps
  proof (rule lowers_bind [OF lowers_inst [OF inv Cons.prems(2) Cons.prems(3)]])
    show "i \<in> set (i # is)" by simp
  next
    fix k st'
    assume st': "lowerInv lim (n + 6 * length is) st'" "lim \<noteq> None \<Longrightarrow> keepsMem (snd st) (snd st')"
      "tablesGrow (specOf st) (specOf st')" "\<exists>c. (lim \<noteq> None \<longrightarrow> c = lit i) \<and> appended (specOf st) c i st'"
    from st'(4) obtain c j where c: "lim \<noteq> None \<longrightarrow> c = lit i" "loweredAs (specOf st') c i j"
      "sfns (specOf st') = onLast (\<lambda>f. f\<lparr>fcode := fcode f @ [j]\<rparr>) (sfns (specOf st))"
      unfolding appended_def by blast
    have "lowers lim n st' (\<lambda>k. codeAppended lim lit (specOf st') is) (lowerCode src is st')"
    proof (rule Cons.IH [OF st'(1)])
      show "literals lim lit src (snd st') i'" if "i' \<in> set is" for i'
        by (rule literals_keeps [OF Cons.prems(2) st'(2)]) (use that in simp)
      show "sopen (specOf st')" if "lim \<noteq> None"
        using Cons.prems(3) [OF that] st'(3) by (simp add: tablesGrow_def del: absMir_tables)
      show "sfns (specOf st') \<noteq> []" unfolding c(3) onLast_def by simp
    qed
    then show "lowers lim n st' (\<lambda>k. codeAppended lim lit (specOf st) (i # is)) (case (k, st') of (k, st) \<Rightarrow> lowerCode src is st)"
      unfolding prod.case
    proof (rule lowers_weaken)
      fix k' st''
      assume q: "codeAppended lim lit (specOf st') is st''" "tablesGrow (specOf st') (specOf st'')"
      then obtain js where js: "list_all2 (\<lambda>i j. \<exists>c. (lim \<noteq> None \<longrightarrow> c = lit i) \<and> loweredAs (specOf st'') c i j) is js"
        "sfns (specOf st'') = onLast (\<lambda>f. f\<lparr>fcode := fcode f @ js\<rparr>) (sfns (specOf st'))"
        unfolding codeAppended_def by blast
      have "sfns (specOf st'') = onLast (\<lambda>f. f\<lparr>fcode := fcode f @ j # js\<rparr>) (sfns (specOf st))"
        unfolding js(2) c(3) onLast_onLast by simp
      moreover have "loweredAs (specOf st'') c i j" by (rule loweredAs_mono [OF c(2) q(2)])
      ultimately show "codeAppended lim lit (specOf st) (i # is) st''"
        unfolding codeAppended_def using js(1) c(1) by (intro exI [of _ "j # js"]) auto
    qed simp
  qed
qed

end
