(* ===== verification/H2MirLowered.thy ===== *)
theory H2MirLowered
  imports H2MirLowerThms H2CtfeThms
begin

text \<open>
  What \<open>H2MirLowerExprAsFunction\<close> answers: one function whose code is the lowered code of the
  expression, in a program that the validation accepts.
\<close>

subsection \<open>The function of an expression\<close>

text \<open>With a limit there is an answer, and it satisfies \<open>Q\<close>.\<close>

definition yields :: "nat option \<Rightarrow> ('a \<Rightarrow> 'x lowerState \<Rightarrow> bool) \<Rightarrow> ('x, 'a) lowered \<Rightarrow> bool" where
  "yields lim Q r \<longleftrightarrow> (case r of Ok (x, st) \<Rightarrow> Q x st | _ \<Rightarrow> lim = None)"

lemma yields_Ok [simp]: "yields lim Q (Ok (x, st)) \<longleftrightarrow> Q x st"
  by (simp add: yields_def)

lemma yields_bind:
  "yields lim P r \<Longrightarrow> (\<And>x st. P x st \<Longrightarrow> yields lim Q (k (x, st))) \<Longrightarrow> yields lim Q (obind r k)"
  by (cases r) (auto simp: yields_def)

lemma yields_lowers:
  "lowers lim n st Q r \<Longrightarrow>
   yields lim (\<lambda>x st'. lowerInv lim n st' \<and> (lim \<noteq> None \<longrightarrow> keepsMem (snd st) (snd st')) \<and>
     tablesGrow (specOf st) (specOf st') \<and> Q x st') r"
  by (auto simp: yields_def lowers_def split: outcome.splits)

lemma yields_building:
  assumes "lowerInv lim (Suc n) st" "oper = (\<lambda>b. mirStep b x)" "specStep (specOf st) x \<noteq> None"
  shows "yields lim (\<lambda>i st'. lowerInv lim n st' \<and> keepsMem (snd st) (snd st') \<and> specStep (specOf st) x = Some (i, specOf st'))
    (building oper onErr st)"
  by (cases rule: building_cases [OF assms(1,2), of onErr]) (use assms(3) in \<open>simp_all add: yields_def\<close>)

text \<open>The function \<open>f\<close> has the code \<open>js\<close>, no parameters and no locals.\<close>

definition exprProgram :: "H2MirProgram \<Rightarrow> viewRef \<Rightarrow> H2MirFunction \<Rightarrow> bool" where
  "exprProgram p src f \<longleftrightarrow>
     pfuncs p = [f] \<and> psources p = [\<lparr>ssrc = src\<rparr>] \<and> plocals p = [] \<and>
     f = (exprFunction 0 UINT32_MAX)\<lparr>instLen := length (pinsts p)\<rparr>"

text \<open>The code of the program is the lowered code of the expression.\<close>

definition exprLowered ::
  "nat option \<Rightarrow> (H2MirInst \<Rightarrow> H2MirConst option) \<Rightarrow> viewRef \<Rightarrow> H2MirInst list \<Rightarrow> H2MirProgramBuilder \<Rightarrow> bool" where
  "exprLowered lim lit src is b \<longleftrightarrow>
     (\<exists>f. exprProgram (H2MirProgramBuilderFinish b) src f) \<and>
     list_all2 (\<lambda>i j. \<exists>c. (lim \<noteq> None \<longrightarrow> c = lit i) \<and> loweredAs (absMir b) c i j) is (aelems (binsts b))"

lemma exprProgram_abs:
  assumes "builderOk b" "sfns (absMir b) = [\<lparr>fhead = header (exprFunction 0 UINT32_MAX), fcode = js, flocals = []\<rparr>]"
    "ssources (absMir b) = [\<lparr>ssrc = src\<rparr>]"
  shows "\<exists>f. exprProgram (H2MirProgramBuilderFinish b) src f" "aelems (binsts b) = js"
proof -
  from assms(2) obtain f where f: "aelems (bfuncs b) = [f]"
    "absFn (aelems (binsts b)) (aelems (blocals b)) f = \<lparr>fhead = header (exprFunction 0 UINT32_MAX), fcode = js, flocals = []\<rparr>"
    by (auto simp: absMir_def)
  from assms(1) f(1) have l: "instStart f = 0" "localStart f = 0" "instLen f = length (aelems (binsts b))"
    "localCount f = length (aelems (blocals b))"
    by (simp_all add: builderOk_def)
  from f(2) l have js: "aelems (binsts b) = js" "aelems (blocals b) = []" and h: "header f = header (exprFunction 0 UINT32_MAX)"
    by (simp_all add: absFn_def)
  from h l js have "f = (exprFunction 0 UINT32_MAX)\<lparr>instLen := length js\<rparr>"
    by (cases f) (simp add: header_def exprFunction_def)
  with f(1) js assms(3) show "\<exists>f. exprProgram (H2MirProgramBuilderFinish b) src f" "aelems (binsts b) = js"
    by (simp_all add: exprProgram_def H2MirProgramBuilderFinish_def)
qed

lemma emptySpec_steps:
  "specStep emptySpec (OpSource s) = Some (0, emptySpec\<lparr>ssources := [s]\<rparr>)"
  "specStep (emptySpec\<lparr>ssources := [s]\<rparr>) (OpBegin f) =
     Some (0, emptySpec\<lparr>ssources := [s], sfns := [\<lparr>fhead = header f, fcode = [], flocals = []\<rparr>], sopen := True\<rparr>)"
  by (simp_all add: emptySpec_def)

lemma loweredAs_closed: "loweredAs (a\<lparr>sopen := x\<rparr>) = loweredAs a"
  by (simp add: fun_eq_iff loweredAs_def split: option.split)

text \<open>The part of \<open>H2MirLowerAppendExprAsFunction\<close> after the code is built, from an empty builder.\<close>

lemma append_function:
  assumes "lowerInv lim (6 * length is + 3 + r) st" "specOf st = emptySpec"
    "\<And>i. i \<in> set is \<Longrightarrow> literals lim lit src (snd st) i"
  shows "yields lim (\<lambda>(fi, supported) st'. fi = 0 \<and> supported \<and> lowerInv lim r st' \<and>
      (lim \<noteq> None \<longrightarrow> keepsMem (snd st) (snd st')) \<and> exprLowered lim lit src is (fst st'))
    (obind (building (\<lambda>b. H2MirProgramBuilderAddSource b \<lparr>ssrc = src\<rparr>) (lowerDiagReset 141) st) (\<lambda>(sourceIndex, st).
     obind (resultType ast (-1) sourceIndex st) (\<lambda>(typeRef, st).
     obind (building (\<lambda>b. H2MirProgramBuilderBeginFunction b (exprFunction sourceIndex typeRef)) (lowerDiagReset 141) st)
       (\<lambda>(functionIndex, st).
     obind (lowerCode src is st) (\<lambda>(k, st).
     obind (building H2MirProgramBuilderEndFunction (lowerDiagReset 4) st) (\<lambda>(k, st).
       Ok ((functionIndex, True), st)))))))"
proof (rule yields_bind [OF yields_building [where n = "6 * length is + 2 + r" and x = "OpSource \<lparr>ssrc = src\<rparr>"]], goal_cases)
  case 1
  show ?case by (rule lowerInv_mono [OF assms(1)]) simp
next
  case (4 si s1)
  then have s1: "si = 0" "specOf s1 = emptySpec\<lparr>ssources := [\<lparr>ssrc = src\<rparr>]\<rparr>" "lowerInv lim (6 * length is + 2 + r) s1"
    "keepsMem (snd st) (snd s1)"
    unfolding assms(2) emptySpec_steps by simp_all
  have t: "resultType ast (-1) 0 s1 = Ok (UINT32_MAX, s1)" by (simp add: resultType_def)
  let ?f = "\<lparr>fhead = header (exprFunction 0 UINT32_MAX), fcode = [], flocals = []\<rparr>"
  show ?case
    unfolding prod.case t obind.simps s1(1)
  proof (rule yields_bind [OF yields_building [where n = "6 * length is + 1 + r" and x = "OpBegin (exprFunction 0 UINT32_MAX)"]], goal_cases)
    case 1
    show ?case by (rule lowerInv_mono [OF s1(3)]) simp
  next
    case (4 fi s2)
    then have s2: "fi = 0" "specOf s2 = emptySpec\<lparr>ssources := [\<lparr>ssrc = src\<rparr>], sfns := [?f], sopen := True\<rparr>"
      "lowerInv lim (6 * length is + 1 + r) s2" "keepsMem (snd st) (snd s2)"
      unfolding s1(2) emptySpec_steps using keepsMem_trans [OF s1(4)] by simp_all
    have code: "lowers lim (Suc r) s2 (\<lambda>k. codeAppended lim lit (specOf s2) is) (lowerCode src is s2)"
    proof (rule lowers_code)
      show "lowerInv lim (Suc r + 6 * length is) s2" by (rule lowerInv_mono [OF s2(3)]) simp
      show "literals lim lit src (snd s2) i" if "i \<in> set is" for i
        by (rule literals_keeps [OF assms(3) [OF that] s2(4)])
      show "sopen (specOf s2)" "sfns (specOf s2) \<noteq> []" unfolding s2(2) by simp_all
    qed
    show ?case
      unfolding prod.case
    proof (rule yields_bind [OF yields_lowers [OF code]])
      fix k s3
      assume a3: "lowerInv lim (Suc r) s3 \<and> (lim \<noteq> None \<longrightarrow> keepsMem (snd s2) (snd s3)) \<and> tablesGrow (specOf s2) (specOf s3) \<and>
        codeAppended lim lit (specOf s2) is s3"
      then obtain js where js: "list_all2 (\<lambda>i j. \<exists>c. (lim \<noteq> None \<longrightarrow> c = lit i) \<and> loweredAs (specOf s3) c i j) is js"
        "sfns (specOf s3) = onLast (\<lambda>f. f\<lparr>fcode := fcode f @ js\<rparr>) (sfns (specOf s2))"
        unfolding codeAppended_def by blast
      have s3: "sopen (specOf s3)" "ssources (specOf s3) = [\<lparr>ssrc = src\<rparr>]"
        "sfns (specOf s3) = [\<lparr>fhead = header (exprFunction 0 UINT32_MAX), fcode = js, flocals = []\<rparr>]"
        using a3 js(2) unfolding s2(2) by (simp_all add: tablesGrow_def onLast_def del: absMir_tables)
      show "yields lim (\<lambda>(fi, supported) st'. fi = 0 \<and> supported \<and> lowerInv lim r st' \<and>
          (lim \<noteq> None \<longrightarrow> keepsMem (snd st) (snd st')) \<and> exprLowered lim lit src is (fst st'))
        (case (k, s3) of (k, st) \<Rightarrow> obind (building H2MirProgramBuilderEndFunction (lowerDiagReset 4) st) (\<lambda>(k, st).
          Ok ((fi, True), st)))"
        unfolding prod.case
      proof (rule yields_bind [OF yields_building [where n = r and x = OpEnd]], goal_cases)
        case 1
        then show ?case using a3 by simp
      next
        case (4 k' s4)
        then have s4: "lowerInv lim r s4" "keepsMem (snd s3) (snd s4)" "specOf s4 = (specOf s3)\<lparr>sopen := False\<rparr>"
          using s3(1) by (simp_all del: absMir_tables)
        have "loweredAs (specOf s4) = loweredAs (specOf s3)"
          unfolding s4(3) by (rule loweredAs_closed)
        moreover have "builderOk (fst s4)" using s4(1) by (simp add: lowerInv_def)
        note p = exprProgram_abs [OF this, of js src]
        have "exprLowered lim lit src is (fst s4)"
          unfolding exprLowered_def using p calculation js(1) s3 unfolding s4(3) by (simp del: absMir_tables)
        moreover have "keepsMem (snd st) (snd s4)" if "lim \<noteq> None"
          using keepsMem_trans [OF s2(4) keepsMem_trans [OF _ s4(2)]] a3 that by blast
        ultimately show ?case
          using s4(1) s2(1) by (simp del: absMir_tables)
      next
        case 3
        have "specStep (specOf s3) OpEnd = Some (0, (specOf s3)\<lparr>sopen := False\<rparr>)"
          using s3(1) by (simp del: absMir_tables)
        then show ?case by (simp only: option.simps not_False_eq_True)
      qed (simp add: fun_eq_iff)
    qed
  qed (simp_all only: s1(2) emptySpec_steps mirStep.simps option.simps not_False_eq_True)
qed (simp_all only: assms(2) emptySpec_steps mirStep.simps option.simps not_False_eq_True)

subsection \<open>Programs\<close>

text \<open>Before the lowering proper: the state after the code is built.\<close>

definition builtState :: "'x H2Mem \<Rightarrow> buildOut \<Rightarrow> 'x lowerState" where
  "builtState m out =
     (H2MirProgramBuilderInit (Some (marena m)), m\<lparr>marena := outArena out, hdiag := outDiag out\<rparr>)"

lemma init_size: "builderSize (H2MirProgramBuilderInit a) = 0"
  by (simp add: builderSize_def H2MirProgramBuilderInit_def noArray_def)

lemma lowerInv_init:
  assumes "n \<le> mirMaxLen" "\<And>B. lim = Some B \<Longrightarrow> 112 * (n + 8) \<le> B \<and> serves B n (outArena out)"
  shows "lowerInv lim n (builtState m out)"
  using assms by (simp add: lowerInv_def builtState_def init_ok init_size builderRoom_def)

lemma readView_type:
  assumes "readView m src = (Ok v :: ('e, _) outcome)"
  shows "readView m src = (Ok v :: ('f, _) outcome)"
proof -
  have "(readBytes m p n :: ('e, _) outcome) = Ok bs \<Longrightarrow> (readBytes m p n :: ('f, _) outcome) = Ok bs" for p n bs
    by (auto simp: readBytes_def split: option.splits if_splits)
  then show ?thesis
    using assms
    by (cases src; cases "fst src"; cases "readBytes m (fst src) (snd src) :: ('e, _) outcome") (auto simp: readView_def)
qed

lemma readView_built: "readView (snd (builtState m out)) src = readView m src"
  by (cases src; cases "fst src") (auto simp: builtState_def readView_def readBytes_def)

lemma lower_function:
  assumes "readView m src = Ok text" "H2MirBuildExpr fuel (marena m) ast text nodeId (hdiag m) = Some (Ok out)"
    "outOk out" "outChunk out = Some (v, is)" "lowerInv lim (6 * length is + 3 + r) (builtState m out)"
    "\<And>i. i \<in> set is \<Longrightarrow> literals lim lit src (snd (builtState m out)) i"
  shows "yields lim (\<lambda>(p, supported) st. supported \<and> p = H2MirProgramBuilderFinish (fst st) \<and> lowerInv lim r st \<and>
      (lim \<noteq> None \<longrightarrow> keepsMem (snd (builtState m out)) (snd st)) \<and> exprLowered lim lit src is (fst st))
    (H2MirLowerExprAsFunction fuel ast src nodeId m)"
proof -
  have spec: "specOf (builtState m out) = emptySpec" by (simp add: builtState_def init_ok)
  have run: "yields lim (\<lambda>(fi, supported) st'. fi = 0 \<and> supported \<and> lowerInv lim r st' \<and>
      (lim \<noteq> None \<longrightarrow> keepsMem (snd (builtState m out)) (snd st')) \<and> exprLowered lim lit src is (fst st'))
    (H2MirLowerAppendExprAsFunction fuel ast src nodeId (-1) (H2MirProgramBuilderInit (Some (marena m)), m))"
    unfolding H2MirLowerAppendExprAsFunction_def
    using append_function [OF assms(5) spec assms(6), where ast = ast] assms(2-4)
    by (simp add: builtState_def Let_def readView_type [OF assms(1)])
  show ?thesis
    unfolding H2MirLowerExprAsFunction_def
    by (rule yields_bind [OF run]) (auto split: prod.split)
qed

text \<open>The answers of the lowering that are not programs of an expression.\<close>

lemma lower_supported:
  assumes "H2MirLowerExprAsFunction fuel ast src nodeId m = Ok ((p, True), st)" "readView m src = Ok text"
    "H2MirBuildExpr fuel (marena m) ast text nodeId (hdiag m) = Some (Ok out)"
  shows "outOk out \<and> (\<exists>v is. outChunk out = Some (v, is))"
  using assms(1,3)
  by (auto simp: readView_type [OF assms(2)] H2MirLowerExprAsFunction_def H2MirLowerAppendExprAsFunction_def refuse_def Let_def
    split: if_splits option.splits)

subsection \<open>Arenas with room\<close>

text \<open>A current block with room for \<open>k\<close> requests and their alignment serves them.\<close>

definition blockRoom :: "nat \<Rightarrow> H2Arena \<Rightarrow> bool" where
  "blockRoom n ar \<longleftrightarrow>
     (case acurrent ar of
        None \<Rightarrow> False
      | Some c \<Rightarrow> c < length (ablocks ar) \<and> bmem (ablocks ar ! c) \<noteq> None \<and>
          blen (ablocks ar ! c) + n \<le> bcap (ablocks ar ! c) \<and> bcap (ablocks ar ! c) \<le> UINT32_MAX)"

lemma alloc_blockRoom:
  assumes "blockRoom (n + 8 + r) ar" "al \<in> {4, 8}"
  shows "\<exists>p ar'. H2ArenaAlloc ar n al = (Some p, ar') \<and> blockRoom r ar'"
proof -
  obtain c m where c: "acurrent ar = Some c" "c < length (ablocks ar)" "bmem (ablocks ar ! c) = Some m"
    "blen (ablocks ar ! c) + (n + 8 + r) \<le> bcap (ablocks ar ! c)" "bcap (ablocks ar ! c) \<le> UINT32_MAX"
    using assms(1) by (auto simp: blockRoom_def split: option.splits)
  let ?b = "ablocks ar ! c"
  have al: "al AND (al - 1) = 0" "0 < al" "al \<le> 8" "al \<le> UINT32_MAX" using assms(2) by auto
  have "blen ?b \<le> UINT32_MAX" using c(4,5) by simp
  note a = alignUp64_bounds [OF this al(4,2,1)]
  have t: "H2ArenaTryAllocInBlock ?b n al = Some (m + alignUp64 (blen ?b) al, ?b\<lparr>blen := alignUp64 (blen ?b) al + n\<rparr>)"
    using a(2) c(3,4) al(3) by (simp add: H2ArenaTryAllocInBlock_def Let_def)
  have d: "drop c (ablocks ar) = ?b # drop (Suc c) (ablocks ar)" using c(2) by (rule Cons_nth_drop_Suc [symmetric])
  let ?ar = "ar\<lparr>ablocks := (ablocks ar)[c := ?b\<lparr>blen := alignUp64 (blen ?b) al + n\<rparr>], acurrent := Some c\<rparr>"
  have "H2ArenaAlloc ar n al = (Some (m + alignUp64 (blen ?b) al), ?ar)"
    using al(1,2) c(1,2) t by (auto simp: H2ArenaAlloc_def Let_def d)
  moreover have "blockRoom r ?ar" using c a(2) al(3) by (simp add: blockRoom_def)
  ultimately show ?thesis by blast
qed

lemma blockRoom_mono: "blockRoom n ar \<Longrightarrow> k \<le> n \<Longrightarrow> blockRoom k ar"
  by (auto simp: blockRoom_def split: option.splits)

lemma serves_block: "blockRoom (k * (B + 8)) ar \<Longrightarrow> serves B k ar"
proof (induction k arbitrary: ar)
  case (Suc k)
  show ?case
    unfolding serves.simps(2)
  proof (intro allI impI ballI)
    fix n and al :: nat
    assume n: "n \<le> B" and al: "al \<in> {4, 8}"
    have "blockRoom (n + 8 + k * (B + 8)) ar" by (rule blockRoom_mono [OF Suc.prems]) (use n in simp)
    from alloc_blockRoom [OF this al] Suc.IH show "\<exists>p ar'. H2ArenaAlloc ar n al = (Some p, ar') \<and> serves B k ar'" by blast
  qed
qed simp

subsection \<open>Literals of numbers and truth values\<close>

text \<open>What these literals denote.\<close>

definition intText :: "byte list \<Rightarrow> 64 word option" where
  "intText text =
     (case intLiteral text of None \<Rightarrow> None | Some n \<Rightarrow> if n \<le> INT64_MAX then Some (of_nat n) else None)"

definition boolText :: "byte list \<Rightarrow> bool option" where
  "boolText text = (if text = cstr ''true'' then Some True else if text = cstr ''false'' then Some False else None)"

definition spanText :: "byte list \<Rightarrow> nat \<Rightarrow> nat \<Rightarrow> byte list" where
  "spanText bs s e = take (e - s) (drop s bs)"

lemma parse_int:
  assumes "s \<le> e" "e \<le> length bs"
  shows "H2CTFEParseIntLiteral (View bs) s e = Ok (if s < e then intText (spanText bs s e) else None)"
  using assms by (simp add: int_literal_value intText_def spanText_def)

lemma parse_bool:
  assumes "s \<le> e" "e \<le> length bs"
  shows "H2CTFEParseBoolLiteral (View bs) s e = Ok (map_option boolByte (boolText (spanText bs s e)))"
proof -
  have l: "length (spanText bs s e) = e - s" using assms by (simp add: spanText_def)
  have c: "length (cstr ''true'') = 4" "length (cstr ''false'') = 5" by (simp_all add: cstr_def)
  consider "e - s = 4" | "e - s = 5" | "e - s \<noteq> 4" "e - s \<noteq> 5" by blast
  then show ?thesis
  proof cases
    case 1
    then have "spanText bs s e \<noteq> cstr ''false''" using l c by auto
    with 1 assms show ?thesis
      by (auto simp: H2CTFEParseBoolLiteral_def boolText_def spanText_def boolByte_def)
  next
    case 2
    then have "spanText bs s e \<noteq> cstr ''true''" using l c by auto
    with 2 assms show ?thesis
      by (auto simp: H2CTFEParseBoolLiteral_def boolText_def spanText_def boolByte_def)
  next
    case 3
    then have "spanText bs s e \<noteq> cstr ''true''" "spanText bs s e \<noteq> cstr ''false''" using l c by auto
    with 3 show ?thesis by (auto simp: H2CTFEParseBoolLiteral_def boolText_def)
  qed
qed

text \<open>The instructions of expressions of integers, truth values, names and operators.\<close>

definition scalarInst :: "byte list \<Rightarrow> H2MirInst \<Rightarrow> bool" where
  "scalarInst bs i \<longleftrightarrow>
     iop i \<in> {H2MirOp_LOAD_IDENT, H2MirOp_UNARY, H2MirOp_BINARY, H2MirOp_RETURN} \<or>
     istart i \<le> iend i \<and> iend i \<le> length bs \<and>
     (iop i = H2MirOp_PUSH_INT \<and> itok i = tokWord H2Tok_INT \<or> iop i = H2MirOp_PUSH_BOOL)"

definition scalarConst :: "byte list \<Rightarrow> H2MirInst \<Rightarrow> H2MirConst option" where
  "scalarConst bs i =
     (let text = spanText bs (istart i) (iend i)
      in if iop i = H2MirOp_PUSH_INT then map_option (constOf H2MirConst_INT) (if istart i < iend i then intText text else None)
         else if iop i = H2MirOp_PUSH_BOOL then map_option (\<lambda>b. constOf H2MirConst_BOOL (if b then 1 else 0)) (boolText text)
         else None)"

lemma readView_keeps: "keepsMem m m' \<Longrightarrow> readView m' src = readView m src"
  by (cases src; cases "fst src") (auto simp: keepsMem_def readView_def readBytes_def)

lemma scalar_literals:
  assumes "scalarInst bs i" "readView m src = (Ok (View bs) :: ('e, _) outcome)"
  shows "literals lim (scalarConst bs) src m i"
proof -
  have "literalConst src i (b, m') = Ok (scalarConst bs i, (b, m'))" if "keepsMem m m'" for b and m' :: "'a H2Mem"
  proof -
    have v: "readView m' src = Ok (View bs)"
      unfolding readView_keeps [OF that] by (rule readView_type [OF assms(2)])
    show ?thesis
      using assms(1)
      by (auto simp: literalConst_def literalInt_def scalarInst_def scalarConst_def v parse_int parse_bool
        Let_def option.map_comp comp_def boolByte_def intro!: option.map_cong)
  qed
  moreover have "iop i \<noteq> H2MirOp_CALL" using assms(1) by (auto simp: scalarInst_def)
  ultimately show ?thesis by (simp add: literals_def)
qed

lemma exprDepth_pops: "exprDepth is d = Some e \<Longrightarrow> i \<in> set is \<Longrightarrow> exprPops i \<noteq> None"
  by (induction "is" arbitrary: d) (auto split: option.splits if_splits)

text \<open>A lowered instruction of an expression refers to what the tables have.\<close>

lemma loweredAs_operand:
  assumes "loweredAs (absMir b) c i j" "exprPops i \<noteq> None \<or> iop i = H2MirOp_RETURN"
  shows "operandOk (H2MirProgramBuilderFinish b) fn j"
proof (cases c)
  case (Some x)
  with assms(1) show ?thesis
    by (auto simp: loweredAs_def inTable_def operandOk_def operandLimit_def H2MirProgramBuilderFinish_def)
next
  case None
  note defs = loweredAs_def inTable_def operandOk_def operandLimit_def H2MirProgramBuilderFinish_def
  from assms None show ?thesis
    by (cases "iop i") (auto simp: defs exprPops_def)
qed

lemma loweredAs_span: "loweredAs a c i j \<Longrightarrow> istart j = istart i \<and> iend j = iend i"
  by (auto simp: loweredAs_def split: option.splits if_splits)

lemma loweredAs_return: "loweredAs a None i j \<Longrightarrow> iop i = H2MirOp_RETURN \<Longrightarrow> j = i"
  by (simp add: loweredAs_def)

lemma exprProgram_valid:
  assumes "exprProgram p src f" "\<forall>j\<in>set (pinsts p). operandOk p f j"
  shows "H2MirValidateProgram (Some p) diag = (True, map_option (\<lambda>d. diagZero) diag)" "codeOf p f = pinsts p"
proof -
  have f: "pfuncs p = [f]" "instStart f = 0" "instLen f = length (pinsts p)" "localStart f = 0" "localCount f = 0"
    "paramCount f = 0" "fsourceRef f = 0" "psources p = [\<lparr>ssrc = src\<rparr>]"
    using assms(1) by (auto simp: exprProgram_def exprFunction_def)
  show c: "codeOf p f = pinsts p" by (simp add: codeOf_def f)
  have "functionOk p f" using assms(2) by (simp add: functionOk_def f c)
  then have "validateLoop p [f] = None"
    using validateLoop_iff [where p = p and fs = "[f]"] by (auto split: option.splits)
  then show "H2MirValidateProgram (Some p) diag = (True, map_option (\<lambda>d. diagZero) diag)"
    by (simp add: H2MirValidateProgram_def Let_def f)
qed

lemma spans_eq:
  assumes "list_all2 (\<lambda>i j. \<exists>c. loweredAs a c i j) is js"
  shows "map (\<lambda>i. (istart i, iend i)) js = map (\<lambda>i. (istart i, iend i)) is"
  using assms by (induction rule: list_all2_induct) (auto dest: loweredAs_span)

text \<open>C8: Whatever the expression, a program that the lowering answers passes the validation that the
  interpreter makes before it runs a program: it is one function that owns all instructions, and every
  operand refers to an entry of its table. There is one instruction for each instruction of the built
  code, and it keeps its span.\<close>
theorem mir_lower_valid:
  assumes "exprInput nodes bs nodeId t" "size t < fuel" "astNodes ast = Some nodes" "length nodes \<le> 5000000"
    "readView m src = Ok (View bs)" "H2MirLowerExprAsFunction fuel ast src nodeId m = Ok ((p, True), st)"
  shows "H2MirValidateProgram (Some p) diag = (True, map_option (\<lambda>d. diagZero) diag) \<and>
    (\<exists>f. pfuncs p = [f] \<and> codeOf p f = pinsts p) \<and>
    (\<exists>out v code. H2MirBuildExpr fuel (marena m) ast (View bs) nodeId (hdiag m) = Some (Ok out) \<and>
       outChunk out = Some (v, code) \<and> map (\<lambda>i. (istart i, iend i)) (pinsts p) = map (\<lambda>i. (istart i, iend i)) code)"
proof -
  obtain out where out: "H2MirBuildExpr fuel (marena m) ast (View bs) nodeId (hdiag m) = Some (Ok out)"
    "exprAnswer (map_option (\<lambda>d. diagZero) (hdiag m)) out"
    "\<And>v code. outChunk out = Some (v, code) \<Longrightarrow> length code \<le> length nodes + 1"
    using buildExpr_answer [OF assms(1-3), of "marena m" "hdiag m"] by blast
  obtain v code where code: "outOk out" "outChunk out = Some (v, code)"
    using lower_supported [OF assms(6,5) out(1)] by blast
  obtain "is" s e where ops: "code = is @ [\<lparr>iop = H2MirOp_RETURN, itok = tokWord H2Tok_EOF, iaux = 0, istart = s, iend = e\<rparr>]"
    "exprDepth is 0 = Some 1"
    using out(2) code by (auto simp: exprAnswer_def)
  have "lowerInv None (6 * length code + 3 + 0) (builtState m out)"
    by (rule lowerInv_init) (use out(3) [OF code(2)] assms(4) in \<open>simp_all add: mirMaxLen_def\<close>)
  from lower_function [OF assms(5) out(1) code this, of "\<lambda>i. None"] assms(6)
  have low: "p = H2MirProgramBuilderFinish (fst st)" "exprLowered None (\<lambda>i. None) src code (fst st)"
    by (simp_all add: yields_def literals_def)
  then obtain f where f: "exprProgram p src f" by (auto simp: exprLowered_def)
  have all: "list_all2 (\<lambda>i j. \<exists>c. loweredAs (absMir (fst st)) c i j) code (pinsts p)"
    using low(2) by (simp add: exprLowered_def low(1) H2MirProgramBuilderFinish_def)
  have "operandOk p f j" if "j \<in> set (pinsts p)" for j
  proof -
    from that all obtain i c where i: "i \<in> set code" "loweredAs (absMir (fst st)) c i j"
      unfolding list_all2_conv_all_nth in_set_conv_nth by metis
    from i(1) exprDepth_pops [OF ops(2), of i] have "exprPops i \<noteq> None \<or> iop i = H2MirOp_RETURN"
      unfolding ops(1) by auto
    from loweredAs_operand [OF i(2) this] show ?thesis unfolding low(1) .
  qed
  then have ok: "\<forall>j\<in>set (pinsts p). operandOk p f j" by blast
  have "pfuncs p = [f]" using f by (simp add: exprProgram_def)
  with exprProgram_valid [OF f ok] out(1) code(2) spans_eq [OF all] show ?thesis by blast
qed

text \<open>The expression \<open>-a + 2\<close> in memory, with an arena of 200000 bytes.\<close>

definition exSource :: "byte list" where
  "exSource = cstr ''-a + 2''"

definition exExprMem :: "unit H2Mem" where
  "exExprMem = \<lparr>marena = H2ArenaInit 4096 200000, hbytes = storeAll 1 Map.empty 64 exSource, hvals = Map.empty,
     hclosures = Map.empty, hdiag = Some diagZero, hext = ()\<rparr>"

lemma exExpr_view: "readView exExprMem (Some 64, 6) = (Ok (View exSource) :: (unit, _) outcome)"
proof -
  have "loadAll 1 (storeAll 1 Map.empty 64 exSource) 64 6 = Some exSource" by code_simp
  then show ?thesis by (simp add: exExprMem_def readView_def readBytes_def)
qed

lemma exExpr_built:
  "\<exists>out v code. H2MirBuildExpr 6 (marena exExprMem) exExprAst (View exSource) 0 (hdiag exExprMem) = Some (Ok out) \<and> outOk out \<and>
     outChunk out = Some (v, code) \<and> length code = 5 \<and> list_all (scalarInst exSource) code \<and>
     blockRoom 180000 (outArena out)"
proof -
  have "case H2MirBuildExpr 6 (H2ArenaInit 4096 200000) exExprAst (View exSource) 0 (Some diagZero) of
      Some (Ok out) \<Rightarrow> outOk out \<and> blockRoom 180000 (outArena out) \<and>
        (case outChunk out of Some (v, code) \<Rightarrow> length code = 5 \<and> list_all (scalarInst exSource) code | None \<Rightarrow> False)
    | _ \<Rightarrow> False"
    by code_simp
  then show ?thesis by (auto simp: exExprMem_def split: option.splits outcome.splits)
qed

lemma exExpr_lowered:
  "\<exists>p st. H2MirLowerExprAsFunction 6 exExprAst (Some 64, 6) 0 exExprMem = Ok ((p, True), st)"
proof -
  obtain out v code where out: "H2MirBuildExpr 6 (marena exExprMem) exExprAst (View exSource) 0 (hdiag exExprMem) = Some (Ok out)"
    "outOk out" "outChunk out = Some (v, code)" "length code = 5" "list_all (scalarInst exSource) code"
    "blockRoom 180000 (outArena out)"
    using exExpr_built by blast
  have view: "readView (snd (builtState exExprMem out)) (Some 64, 6) = Ok (View exSource)"
    unfolding readView_built by (rule readView_type [OF exExpr_view])
  have "blockRoom (33 * (4592 + 8)) (outArena out)" by (rule blockRoom_mono [OF out(6)]) simp
  from serves_block [OF this] have sv: "serves 4592 33 (outArena out)" .
  have len: "6 * length code + 3 + 0 = 33" using out(4) by simp
  have inv: "lowerInv (Some 4592) (6 * length code + 3 + 0) (builtState exExprMem out)"
    unfolding len by (rule lowerInv_init) (use sv in \<open>auto simp: mirMaxLen_def simp del: serves.simps\<close>)
  have lits: "literals (Some 4592) (scalarConst exSource) (Some 64, 6) (snd (builtState exExprMem out)) i" if "i \<in> set code" for i
    by (rule scalar_literals [OF _ view]) (use out(5) that in \<open>auto simp: list_all_iff\<close>)
  from lower_function [OF exExpr_view out(1-3) inv lits] show ?thesis
    by (auto simp: yields_def split: outcome.splits)
qed

lemma mir_lower_valid_witness:
  "\<exists>p st. H2MirLowerExprAsFunction 6 exExprAst (Some 64, 6) 0 exExprMem = Ok ((p, True), st) \<and>
     H2MirValidateProgram (Some p) None = (True, None)"
proof -
  obtain p st where p: "H2MirLowerExprAsFunction 6 exExprAst (Some 64, 6) 0 exExprMem = Ok ((p, True), st)"
    using exExpr_lowered by blast
  have "H2MirValidateProgram (Some p) None = (True, map_option (\<lambda>d. diagZero) None)"
    using mir_lower_valid [OF exExpr_input [folded exSource_def] exExpr_shape _ _ exExpr_view p, of None]
    by (simp add: exExprAst_def exExpr_def)
  with p show ?thesis by auto
qed

end
