(* ===== verification/H2CtfeExpr.thy ===== *)
theory H2CtfeExpr
  imports H2MirLowered
begin

text \<open>
  Constant expressions of integers, truth values, names and operators: the pipeline of
  \<open>H2CTFEEvalExpr\<close> (build, lower, run) computes what the expression means.
\<close>

subsection \<open>Meaning\<close>

type_synonym scalar = "64 word + bool"

definition scalarValue :: "scalar \<Rightarrow> H2CTFEValue" where
  "scalarValue v = (case v of Inl a \<Rightarrow> intValue a | Inr b \<Rightarrow> boolValue b)"

definition unaryMeaning :: "H2TokenKind \<Rightarrow> scalar \<Rightarrow> scalar option" where
  "unaryMeaning t v =
     (case v of
        Inl a \<Rightarrow>
          if t = H2Tok_ADD then Some (Inl a)
          else if t = H2Tok_SUB \<and> fits64 (- sint a) then Some (Inl (word_of_int (- sint a)))
          else None
      | Inr b \<Rightarrow> if t = H2Tok_NOT then Some (Inr (\<not> b)) else None)"

definition boolMeaning :: "H2TokenKind \<Rightarrow> bool \<Rightarrow> bool \<Rightarrow> bool option" where
  "boolMeaning t a b =
     (if t = H2Tok_LOGICAL_AND then Some (a \<and> b)
      else if t = H2Tok_LOGICAL_OR then Some (a \<or> b)
      else if t = H2Tok_EQ then Some (a = b)
      else if t = H2Tok_NEQ then Some (a \<noteq> b)
      else None)"

definition binaryMeaning :: "H2TokenKind \<Rightarrow> scalar \<Rightarrow> scalar \<Rightarrow> scalar option" where
  "binaryMeaning t u v =
     (case (u, v) of
        (Inl a, Inl b) \<Rightarrow> map_option (map_sum word_of_int id) (intMeaning t (sint a) (sint b))
      | (Inr a, Inr b) \<Rightarrow> map_option Inr (boolMeaning t a b)
      | _ \<Rightarrow> None)"

text \<open>The value of a node from those of its operands; \<open>names\<close> gives the values of names by their span.\<close>

type_synonym naming = "nat \<Rightarrow> nat \<Rightarrow> scalar option"

definition nodeMeaning :: "naming \<Rightarrow> byte list \<Rightarrow> H2AstNode \<Rightarrow> scalar list \<Rightarrow> scalar option" where
  "nodeMeaning names bs n vals =
     (let text = spanText bs (dataStart n) (dataEnd n)
      in if nkind n = H2Ast_INT then (if dataStart n < dataEnd n then map_option Inl (intText text) else None)
         else if nkind n = H2Ast_BOOL then map_option Inr (boolText text)
         else if nkind n = H2Ast_IDENT then names (dataStart n) (dataEnd n)
         else if nkind n = H2Ast_UNARY then unaryMeaning (nop n) (vals ! 0)
         else if nkind n = H2Ast_BINARY then binaryMeaning (nop n) (vals ! 0) (vals ! 1)
         else None)"

text \<open>The values of a chain of siblings; there is none when one of them has none.\<close>

fun exprValues :: "naming \<Rightarrow> byte list \<Rightarrow> H2AstNode list \<Rightarrow> int \<Rightarrow> shape \<Rightarrow> scalar list option" where
  "exprValues names bs nodes c End = Some []"
| "exprValues names bs nodes c (Link kids sibs) =
     (case exprValues names bs nodes (firstChild (nodes ! nat c)) kids of
        None \<Rightarrow> None
      | Some args \<Rightarrow>
          (case nodeMeaning names bs (nodes ! nat c) args of
             None \<Rightarrow> None
           | Some v \<Rightarrow> map_option ((#) v) (exprValues names bs nodes (nextSibling (nodes ! nat c)) sibs)))"

definition scalarKinds :: "H2AstKind set" where
  "scalarKinds = {H2Ast_INT, H2Ast_BOOL, H2Ast_IDENT, H2Ast_UNARY, H2Ast_BINARY}"

fun scalarExpr :: "H2AstNode list \<Rightarrow> int \<Rightarrow> shape \<Rightarrow> bool" where
  "scalarExpr nodes c End = True"
| "scalarExpr nodes c (Link kids sibs) \<longleftrightarrow>
     nkind (nodes ! nat c) \<in> scalarKinds \<and> scalarExpr nodes (firstChild (nodes ! nat c)) kids \<and>
     scalarExpr nodes (nextSibling (nodes ! nat c)) sibs"

lemma exprValues_length: "exprValues names bs nodes c t = Some vals \<Longrightarrow> length vals = chainLen t"
  by (induction t arbitrary: c vals) (auto split: option.splits)

subsection \<open>Operators on values\<close>

lemma scalarValue_simps [simp]:
  "scalarValue (Inl a) = intValue a" "scalarValue (Inr b) = boolValue b"
  by (simp_all add: scalarValue_def)

lemma unary_scalar: "H2CTFEEvalUnary (tokWord t) (scalarValue v) = map_option scalarValue (unaryMeaning t v)"
proof (cases v)
  case (Inl a)
  have "fits64 (- sint a) \<longleftrightarrow> sint a \<noteq> - 9223372036854775808"
    using sint_range [of a] by (auto simp: fits64_def)
  with Inl show ?thesis by (auto simp: H2CTFEEvalUnary_def unaryMeaning_def)
next
  case (Inr b)
  then show ?thesis by (auto simp: H2CTFEEvalUnary_def unaryMeaning_def boolValue_def boolByte_def)
qed

lemma bool_op: "evalBoolOp (tokWord t) (boolByte a) (boolByte b) = map_option boolValue (boolMeaning t a b)"
  by (auto simp: evalBoolOp_def boolMeaning_def Let_def boolByte_def)

lemma meant_scalar: "meant r = map_option scalarValue (map_option (map_sum word_of_int id) r)"
  by (auto simp: meant_def split: option.splits sum.splits)

lemma binary_scalar:
  "H2CTFEEvalBinary None (Suc fuel) m (tokWord t) (scalarValue u) (scalarValue v) =
     Ok (case binaryMeaning t u v of None \<Rightarrow> (m, 0, H2CTFEValueInvalid) | Some w \<Rightarrow> (m, 1, scalarValue w))"
proof (cases u; cases v)
  fix a b assume "u = Inl a" "v = Inl b"
  then show ?thesis
    by (simp add: Let_def answerOp_def evalIntOp_meaning meant_scalar binaryMeaning_def split: option.splits)
next
  fix a b assume "u = Inr a" "v = Inr b"
  then show ?thesis
    by (simp add: Let_def answerOp_def bool_op binaryMeaning_def split: option.splits)
next
  fix a b assume "u = Inl a" "v = Inr b"
  then show ?thesis
    by (simp add: Let_def tryHook_def H2CTFEValueToF64_def binaryMeaning_def evalNullEq_def)
next
  fix a b assume "u = Inr a" "v = Inl b"
  then show ?thesis
    by (simp add: Let_def tryHook_def H2CTFEValueToF64_def binaryMeaning_def evalNullEq_def)
qed

subsection \<open>Running\<close>

text \<open>The lowered form of an instruction, in the tables of the program.\<close>

definition lowInst :: "H2MirProgram \<Rightarrow> byte list \<Rightarrow> H2MirInst \<Rightarrow> H2MirInst \<Rightarrow> bool" where
  "lowInst p bs i j \<longleftrightarrow>
     (case scalarConst bs i of
        Some x \<Rightarrow> \<exists>k. j = i\<lparr>iop := H2MirOp_PUSH_CONST, itok := 0, iaux := k\<rparr> \<and> inTable (pconsts p) k x
      | None \<Rightarrow>
          if iop i = H2MirOp_LOAD_IDENT then \<exists>k. j = i\<lparr>iaux := k\<rparr> \<and> inTable (psymbols p) k (identSymbol i) else j = i)"

lemma lowInst_lowered:
  assumes "loweredAs (absMir b) (scalarConst bs i) i j" "scalarInst bs i"
  shows "lowInst (H2MirProgramBuilderFinish b) bs i j"
  using assms
  by (auto simp: loweredAs_def lowInst_def scalarInst_def H2MirProgramBuilderFinish_def split: option.splits)

text \<open>A resolver of names that answers what \<open>names\<close> says.\<close>

definition answersNames :: "naming \<Rightarrow> ('x H2Mem \<Rightarrow> nat \<Rightarrow> nat \<Rightarrow> 'x answer) \<Rightarrow> bool" where
  "answersNames names f \<longleftrightarrow>
     (\<forall>m s e. f m s e =
        (case names s e of Some v \<Rightarrow> (m, 0, scalarValue v, True) | None \<Rightarrow> (m, 0, H2CTFEValueInvalid, False)))"

definition exprRun :: "H2MirProgram \<Rightarrow> byte list \<Rightarrow> naming \<Rightarrow> 'x H2MirExecRun \<Rightarrow> bool" where
  "exprRun p bs names run \<longleftrightarrow>
     rprogram run = Some p \<and> rstackBytes run = 88 * rstackCap run \<and>
     readView (rmem run) (envSrc (renv run)) = (Ok (View bs) :: (unit, _) outcome) \<and>
     evalBinary (renv run) = None \<and> setReason (renv run) = None \<and>
     (\<forall>j\<in>set (rcode run). iop j = H2MirOp_LOAD_IDENT \<longrightarrow> (\<exists>f. resolveIdent (renv run) = Some f \<and> answersNames names f))"

lemma exprRun_view: "exprRun p bs names run \<Longrightarrow> readView (rmem run) (envSrc (renv run)) = Ok (View bs)"
  unfolding exprRun_def using readView_type by blast

lemma exprRun_update [simp]:
  "exprRun p bs names (run\<lparr>rpc := pc\<rparr>) = exprRun p bs names run"
  "exprRun p bs names (run\<lparr>rstack := st\<rparr>) = exprRun p bs names run"
  by (simp_all add: exprRun_def)

definition stepsTo :: "'x H2MirExecRun \<Rightarrow> H2CTFEValue list \<Rightarrow> scalar option \<Rightarrow> 'x stepped \<Rightarrow> bool" where
  "stepsTo run st v r \<longleftrightarrow>
     (case v of
        Some v \<Rightarrow> r = Ok (run\<lparr>rstack := scalarValue v # st\<rparr>)
      | None \<Rightarrow> \<exists>st'. r = return 0 (run\<lparr>rstack := st'\<rparr>))"

lemma push_scalar:
  assumes "exprRun p bs names run" "length (rstack run) < rstackCap run"
  shows "H2CTFEPush v run = Ok (run\<lparr>rstack := v # rstack run\<rparr>)"
  using assms by (simp add: H2CTFEPush_def exprRun_def)

lemma stepsTo_None: "r = return 0 run \<Longrightarrow> stepsTo run st None r"
  unfolding stepsTo_def by (auto intro!: exI [of _ "rstack run"])

lemma const_value: "H2MirConstToValue (constOf H2MirConst_INT x) = Some (intValue x)"
  "H2MirConstToValue (constOf H2MirConst_BOOL (if b then 1 else 0)) = Some (boolValue b)"
  by (simp_all add: H2MirConstToValue_def constOf_def intValue_def boolValue_def boolByte_def)

lemma step_leaf:
  assumes run: "exprRun p bs names run" "length (rstack run) < rstackCap run" and j: "lowInst p bs (nodeInst nodes c 0) j"
    and kind: "nkind (nodes ! nat c) \<in> {H2Ast_INT, H2Ast_BOOL, H2Ast_IDENT}" and span: "spanIn bs (nodes ! nat c)"
    and code: "j \<in> set (rcode run)"
  shows "stepsTo run (rstack run) (nodeMeaning names bs (nodes ! nat c) []) (step callFn (Suc fuel) j run)"
proof -
  let ?n = "nodes ! nat c"
  let ?text = "spanText bs (dataStart ?n) (dataEnd ?n)"
  have s: "dataStart ?n \<le> dataEnd ?n" "dataEnd ?n \<le> length bs" using span by (simp_all add: spanIn_def)
  have p: "rprogram run = Some p" using run(1) by (simp add: exprRun_def)
  note push = push_scalar [OF run]
  note view = exprRun_view [OF run(1)]
  have const: "step callFn (Suc fuel) j run = Ok (run\<lparr>rstack := v # rstack run\<rparr>)"
    if "iop j = H2MirOp_PUSH_CONST" "inTable (pconsts p) (iaux j) x" "H2MirConstToValue x = Some v" for x v
    using that p by (simp add: step_def stepPushConst_def inTable_def push)
  consider (int) "nkind ?n = H2Ast_INT" | (bool) "nkind ?n = H2Ast_BOOL" | (ident) "nkind ?n = H2Ast_IDENT"
    using kind by blast
  then show ?thesis
  proof cases
    case int
    let ?v = "if dataStart ?n < dataEnd ?n then intText ?text else None"
    have i: "scalarConst bs (nodeInst nodes c 0) = map_option (constOf H2MirConst_INT) ?v"
      "iop (nodeInst nodes c 0) = H2MirOp_PUSH_INT" "itok (nodeInst nodes c 0) = tokWord H2Tok_INT"
      "istart (nodeInst nodes c 0) = dataStart ?n" "iend (nodeInst nodes c 0) = dataEnd ?n"
      using int by (simp_all add: nodeInst_def Let_def scalarConst_def)
    have m: "nodeMeaning names bs ?n [] = map_option Inl ?v" using int by (simp add: nodeMeaning_def Let_def)
    show ?thesis
    proof (cases ?v)
      case None
      then have "j = nodeInst nodes c 0" using j i by (simp add: lowInst_def)
      then have "step callFn (Suc fuel) j run = return 0 run"
        using i None by (simp add: step_def stepPushInt_def sourceText_def view parse_int [OF s])
      with m None show ?thesis by (simp add: stepsTo_None)
    next
      case (Some x)
      with j i obtain k where "j = (nodeInst nodes c 0)\<lparr>iop := H2MirOp_PUSH_CONST, itok := 0, iaux := k\<rparr>"
        "inTable (pconsts p) k (constOf H2MirConst_INT x)"
        by (auto simp: lowInst_def)
      then have "step callFn (Suc fuel) j run = Ok (run\<lparr>rstack := intValue x # rstack run\<rparr>)"
        by (intro const [OF _ _ const_value(1)]) simp_all
      with m Some show ?thesis by (simp add: stepsTo_def)
    qed
  next
    case bool
    have i: "scalarConst bs (nodeInst nodes c 0) = map_option (\<lambda>b. constOf H2MirConst_BOOL (if b then 1 else 0)) (boolText ?text)"
      "iop (nodeInst nodes c 0) = H2MirOp_PUSH_BOOL"
      "istart (nodeInst nodes c 0) = dataStart ?n" "iend (nodeInst nodes c 0) = dataEnd ?n"
      using bool by (simp_all add: nodeInst_def Let_def scalarConst_def)
    have m: "nodeMeaning names bs ?n [] = map_option Inr (boolText ?text)" using bool by (simp add: nodeMeaning_def Let_def)
    show ?thesis
    proof (cases "boolText ?text")
      case None
      then have "j = nodeInst nodes c 0" using j i by (simp add: lowInst_def)
      then have "step callFn (Suc fuel) j run = return 0 run"
        using i None by (simp add: step_def stepPushBool_def sourceText_def view parse_bool [OF s])
      with m None show ?thesis by (simp add: stepsTo_None)
    next
      case (Some x)
      with j i obtain k where "j = (nodeInst nodes c 0)\<lparr>iop := H2MirOp_PUSH_CONST, itok := 0, iaux := k\<rparr>"
        "inTable (pconsts p) k (constOf H2MirConst_BOOL (if x then 1 else 0))"
        by (auto simp: lowInst_def)
      then have "step callFn (Suc fuel) j run = Ok (run\<lparr>rstack := boolValue x # rstack run\<rparr>)"
        by (intro const [OF _ _ const_value(2)]) simp_all
      with m Some show ?thesis by (simp add: stepsTo_def)
    qed
  next
    case ident
    have i: "scalarConst bs (nodeInst nodes c 0) = None" "iop (nodeInst nodes c 0) = H2MirOp_LOAD_IDENT"
      "istart (nodeInst nodes c 0) = dataStart ?n" "iend (nodeInst nodes c 0) = dataEnd ?n"
      using ident by (simp_all add: nodeInst_def Let_def scalarConst_def)
    have m: "nodeMeaning names bs ?n [] = names (dataStart ?n) (dataEnd ?n)" using ident by (simp add: nodeMeaning_def Let_def)
    from j i obtain k where k: "iop j = H2MirOp_LOAD_IDENT" "iaux j = k" "inTable (psymbols p) k (identSymbol (nodeInst nodes c 0))"
      by (auto simp: lowInst_def)
    from run(1) code k(1) obtain f where f: "resolveIdent (renv run) = Some f" "answersNames names f"
      unfolding exprRun_def by blast
    have "H2MirResolveSymbolName run j H2MirSymbol_IDENT = (dataStart ?n, dataEnd ?n)"
      using k(2,3) p i by (auto simp: H2MirResolveSymbolName_def inTable_def identSymbol_def)
    then have "step callFn (Suc fuel) j run = answered (f (rmem run) (dataStart ?n) (dataEnd ?n)) id run"
      using k(1) f(1) by (simp add: step_def stepLoadIdent_def)
    then show ?thesis
      using f(2) m by (cases "names (dataStart ?n) (dataEnd ?n)")
        (simp_all add: answersNames_def answered_def push stepsTo_None, simp add: stepsTo_def)
  qed
qed

lemma step_operator:
  assumes run: "exprRun p bs names run" "length st < rstackCap run" and j: "lowInst p bs (nodeInst nodes c (length vals)) j"
    and kind: "nkind (nodes ! nat c) \<in> {H2Ast_UNARY, H2Ast_BINARY}" and args: "operandsOk (nodes ! nat c) (length vals)"
    and stack: "rstack run = rev (map scalarValue vals) @ st"
  shows "stepsTo run st (nodeMeaning names bs (nodes ! nat c) vals) (step callFn (Suc fuel) j run)"
proof -
  let ?n = "nodes ! nat c"
  have push: "H2CTFEPush v (run\<lparr>rstack := st\<rparr>) = Ok (run\<lparr>rstack := v # st\<rparr>)" for v
    using push_scalar [of p bs names "run\<lparr>rstack := st\<rparr>" v] run by simp
  have none: "scalarConst bs (nodeInst nodes c (length vals)) = None"
    "iop (nodeInst nodes c (length vals)) \<noteq> H2MirOp_LOAD_IDENT"
    using kind by (auto simp: nodeInst_def Let_def scalarConst_def)
  then have j: "j = nodeInst nodes c (length vals)" using j by (simp add: lowInst_def)
  have env: "evalBinary (renv run) = None" "setReason (renv run) = None" using run(1) by (simp_all add: exprRun_def)
  consider (unary) "nkind ?n = H2Ast_UNARY" | (binary) "nkind ?n = H2Ast_BINARY" using kind by blast
  then show ?thesis
  proof cases
    case unary
    have i: "iop j = H2MirOp_UNARY" "itok j = tokWord (nop ?n)" using unary by (simp_all add: j nodeInst_def Let_def)
    from args unary have "length vals = 1" by (simp add: operandsOk_def)
    then obtain v where v: "vals = [v]" by (cases vals) auto
    have m: "nodeMeaning names bs ?n vals = unaryMeaning (nop ?n) v" using unary v by (simp add: nodeMeaning_def Let_def)
    show ?thesis
      using i v stack m push
      by (cases "unaryMeaning (nop ?n) v")
        (auto simp: step_def stepUnary_def H2CTFEPop_def unary_scalar stepsTo_def)
  next
    case binary
    have i: "iop j = H2MirOp_BINARY" "itok j = tokWord (nop ?n)" using binary by (simp_all add: j nodeInst_def Let_def)
    from args binary have "length vals = 2" by (simp add: operandsOk_def)
    then obtain u v where v: "vals = [u, v]" by (cases vals; cases "tl vals") auto
    have m: "nodeMeaning names bs ?n vals = binaryMeaning (nop ?n) u v" using binary v by (simp add: nodeMeaning_def Let_def)
    show ?thesis
      using i v stack m push env
      by (cases "binaryMeaning (nop ?n) u v")
        (auto simp: step_def stepBinary_def H2CTFEPop_def binary_scalar stepsTo_def H2MirSetReason_def
          simp del: H2CTFEEvalBinary.simps)
  qed
qed

text \<open>The value of a node is on the stack after its instruction, or the run ends with no value.\<close>

lemma step_node:
  assumes "exprRun p bs names run" "length st < rstackCap run" "lowInst p bs (nodeInst nodes c (length vals)) j"
    "nkind (nodes ! nat c) \<in> scalarKinds" "operandsOk (nodes ! nat c) (length vals)"
    "rstack run = rev (map scalarValue vals) @ st" "spanIn bs (nodes ! nat c)" "j \<in> set (rcode run)"
  shows "stepsTo run st (nodeMeaning names bs (nodes ! nat c) vals) (step callFn (Suc fuel) j run)"
proof (cases "nkind (nodes ! nat c) \<in> {H2Ast_UNARY, H2Ast_BINARY}")
  case True
  then show ?thesis using step_operator [OF assms(1-3) _ assms(5,6)] by blast
next
  case False
  with assms(4) have kind: "nkind (nodes ! nat c) \<in> {H2Ast_INT, H2Ast_BOOL, H2Ast_IDENT}" by (auto simp: scalarKinds_def)
  with assms(5) have "vals = []" by (auto simp: operandsOk_def)
  with step_leaf [OF assms(1) _ _ kind assms(7,8)] assms(2,3,6) show ?thesis by simp
qed

definition runsTo :: "nat \<Rightarrow> 'x H2MirExecRun \<Rightarrow> nat \<Rightarrow> H2CTFEValue list \<Rightarrow> scalar list option
    \<Rightarrow> (('x H2MirExecRun \<times> int) stop, 'x H2MirExecRun \<times> int) outcome \<Rightarrow> bool" where
  "runsTo fuel run n st vals r \<longleftrightarrow>
     (case vals of
        Some vals \<Rightarrow> r = H2MirRunLoop fuel (run\<lparr>rpc := rpc run + n, rstack := rev (map scalarValue vals) @ st\<rparr>)
      | None \<Rightarrow> \<exists>pc st'. r = Ok (run\<lparr>rpc := pc, rstack := st'\<rparr>, 0))"

lemma loop_step:
  assumes "rpc run < length (rcode run)"
    "stepsTo (run\<lparr>rpc := rpc run + 1\<rparr>) st v
      (step (H2MirEvalFunctionInternal (H2MirRunLoop (Suc fuel)) False False (H2CTFEValueInvalid, False)) (Suc fuel)
        (rcode run ! rpc run) (run\<lparr>rpc := rpc run + 1\<rparr>))"
  shows "runsTo (Suc fuel) run 1 st (map_option (\<lambda>v. [v]) v) (H2MirRunLoop (Suc (Suc fuel)) run)"
  using assms(2)
proof (cases v)
  case None
  with assms(2) obtain st' where "step (H2MirEvalFunctionInternal (H2MirRunLoop (Suc fuel)) False False (H2CTFEValueInvalid, False))
      (Suc fuel) (rcode run ! rpc run) (run\<lparr>rpc := rpc run + 1\<rparr>) = return 0 (run\<lparr>rpc := rpc run + 1, rstack := st'\<rparr>)"
    by (auto simp: stepsTo_def)
  then have "H2MirRunLoop (Suc (Suc fuel)) run = Ok (run\<lparr>rpc := rpc run + 1, rstack := st'\<rparr>, 0)"
    using assms(1) unfolding H2MirRunLoop.simps(2) [of "Suc fuel"] by (simp add: return_def del: H2MirRunLoop.simps)
  then show ?thesis unfolding None runsTo_def option.case option.map by blast
next
  case (Some x)
  with assms(2) have "step (H2MirEvalFunctionInternal (H2MirRunLoop (Suc fuel)) False False (H2CTFEValueInvalid, False))
      (Suc fuel) (rcode run ! rpc run) (run\<lparr>rpc := rpc run + 1\<rparr>) = Ok (run\<lparr>rpc := rpc run + 1, rstack := scalarValue x # st\<rparr>)"
    by (simp add: stepsTo_def)
  then show ?thesis
    using assms(1) unfolding H2MirRunLoop.simps(2) [of "Suc fuel"] Some runsTo_def by (simp del: H2MirRunLoop.simps)
qed

text \<open>The nodes of a chain are in the array; what comes after its last node does not matter.\<close>

fun inside :: "H2AstNode list \<Rightarrow> int \<Rightarrow> shape \<Rightarrow> bool" where
  "inside nodes c End = True"
| "inside nodes c (Link kids sibs) \<longleftrightarrow> 0 \<le> c \<and> c < int (length nodes) \<and>
     inside nodes (firstChild (nodes ! nat c)) kids \<and> inside nodes (nextSibling (nodes ! nat c)) sibs"

lemma linked_inside: "linked nodes c t \<Longrightarrow> inside nodes c t"
  by (induction t arbitrary: c) simp_all

lemma run_chain:
  "inside nodes c t \<Longrightarrow> operatorsOnly nodes c t \<Longrightarrow> scalarExpr nodes c t \<Longrightarrow> (\<forall>n\<in>set nodes. spanIn bs n) \<Longrightarrow>
   list_all2 (lowInst p bs) (postorder nodes c t) js \<Longrightarrow> rcode run = pre @ js @ post \<Longrightarrow> rpc run = length pre \<Longrightarrow>
   exprRun p bs names run \<Longrightarrow> length (rstack run) + size t \<le> rstackCap run \<Longrightarrow>
   runsTo (Suc fuel) run (size t) (rstack run) (exprValues names bs nodes c t) (H2MirRunLoop (size t + Suc fuel) run)"
proof (induction t arbitrary: c js run pre post fuel)
  case End
  then show ?case by (simp add: runsTo_def)
next
  case (Link kids sibs)
  let ?n = "nodes ! nat c" and ?c = "firstChild (nodes ! nat c)" and ?s = "nextSibling (nodes ! nat c)"
  from Link.prems(5) obtain ks j ss where js: "js = ks @ [j] @ ss" "list_all2 (lowInst p bs) (postorder nodes ?c kids) ks"
    "lowInst p bs (nodeInst nodes c (chainLen kids)) j" "list_all2 (lowInst p bs) (postorder nodes ?s sibs) ss"
    by (auto simp: list_all2_append1 list_all2_Cons1)
  have len: "length ks = size kids" using list_all2_lengthD [OF js(2)] by simp
  have "nat c < length nodes" using Link.prems(1) by (simp add: nat_less_iff)
  then have span: "spanIn bs ?n" using Link.prems(4) nth_mem by blast
  have k: "runsTo (Suc (Suc (size sibs + fuel))) run (size kids) (rstack run) (exprValues names bs nodes ?c kids)
      (H2MirRunLoop (size kids + Suc (Suc (size sibs + fuel))) run)"
    by (rule Link.IH(1) [where pre = pre and post = "[j] @ ss @ post"])
      (use Link.prems js in \<open>simp_all\<close>)
  have total: "size (Link kids sibs) + Suc fuel = size kids + Suc (Suc (size sibs + fuel))" by simp
  show ?case
  proof (cases "exprValues names bs nodes ?c kids")
    case None
    with k show ?thesis unfolding total by (simp add: runsTo_def)
  next
    case (Some args)
    let ?run1 = "run\<lparr>rpc := rpc run + size kids, rstack := rev (map scalarValue args) @ rstack run\<rparr>"
    note l = exprValues_length [OF Some]
    have at: "rpc ?run1 < length (rcode ?run1)" "rcode ?run1 ! rpc ?run1 = j"
      using Link.prems(6,7) js(1) len by (simp_all add: nth_append)
    have "stepsTo (?run1\<lparr>rpc := rpc ?run1 + 1\<rparr>) (rstack run) (nodeMeaning names bs ?n args)
        (step (H2MirEvalFunctionInternal (H2MirRunLoop (Suc (size sibs + fuel))) False False (H2CTFEValueInvalid, False))
          (Suc (size sibs + fuel)) (rcode ?run1 ! rpc ?run1) (?run1\<lparr>rpc := rpc ?run1 + 1\<rparr>))"
      unfolding at(2)
      by (rule step_node) (use Link.prems js l span in simp_all)
    from loop_step [OF at(1) this] have n: "runsTo (Suc (size sibs + fuel)) ?run1 1 (rstack run)
        (map_option (\<lambda>v. [v]) (nodeMeaning names bs ?n args)) (H2MirRunLoop (Suc (Suc (size sibs + fuel))) ?run1)" .
    have k': "H2MirRunLoop (size kids + Suc (Suc (size sibs + fuel))) run = H2MirRunLoop (Suc (Suc (size sibs + fuel))) ?run1"
      using k Some by (simp add: runsTo_def del: H2MirRunLoop.simps)
    show ?thesis
    proof (cases "nodeMeaning names bs ?n args")
      case None
      with n Some show ?thesis unfolding total k' by (auto simp: runsTo_def simp del: H2MirRunLoop.simps)
    next
      case (Some v)
      let ?run2 = "run\<lparr>rpc := rpc run + size kids + 1, rstack := scalarValue v # rstack run\<rparr>"
      have n': "H2MirRunLoop (Suc (Suc (size sibs + fuel))) ?run1 = H2MirRunLoop (size sibs + Suc fuel) ?run2"
        using n Some by (simp add: runsTo_def del: H2MirRunLoop.simps)
      have "runsTo (Suc fuel) ?run2 (size sibs) (rstack ?run2) (exprValues names bs nodes ?s sibs)
          (H2MirRunLoop (size sibs + Suc fuel) ?run2)"
        by (rule Link.IH(2) [where pre = "pre @ ks @ [j]" and post = post])
          (use Link.prems js len in simp_all)
      then show ?thesis
        unfolding total k' n' using \<open>exprValues names bs nodes ?c kids = Some args\<close> Some
        by (cases "exprValues names bs nodes ?s sibs")
          (auto simp: runsTo_def add_ac simp del: H2MirRunLoop.simps)
    qed
  qed
qed

subsection \<open>The function of the expression\<close>

lemma step_return:
  assumes "iop j = H2MirOp_RETURN" "rstack run = [v]" "rfunction run = Some f" "ftypeRef f = UINT32_MAX"
  shows "step callFn fuel j run = return 0 (run\<lparr>rout := v, risConst := True\<rparr>)"
  using assms by (simp add: step_def stepReturn_def H2MirCoerceValueForType_def)

text \<open>What a run leaves: the value, or none.\<close>

definition answerOf :: "scalar list option \<Rightarrow> H2CTFEValue \<times> bool" where
  "answerOf vals = (case vals of Some (v # _) \<Rightarrow> (scalarValue v, True) | _ \<Rightarrow> (H2CTFEValueInvalid, False))"

lemma run_root:
  assumes "linked nodes c (Link kids sibs)" "operatorsOnly nodes c (Link kids End)" "scalarExpr nodes c (Link kids End)"
    "\<forall>n\<in>set nodes. spanIn bs n" "list_all2 (lowInst p bs) (postorder nodes c (Link kids End)) js"
    "rcode run = js @ [r]" "rpc run = 0" "exprRun p bs names run" "rstack run = []" "size kids + 1 \<le> rstackCap run"
    "iop r = H2MirOp_RETURN" "rfunction run = Some f" "ftypeRef f = UINT32_MAX" "rout run = H2CTFEValueInvalid" "\<not> risConst run"
    "size kids + 2 \<le> fuel"
  shows "\<exists>run'. H2MirRunLoop fuel run = Ok (run', 0) \<and> rmem run' = rmem run \<and>
    (rout run', risConst run') = answerOf (exprValues names bs nodes c (Link kids End))"
proof -
  define t where "t = Link kids End"
  have size: "size t = size kids + 1" by (simp add: t_def)
  obtain g where g: "fuel = size t + Suc g" using assms(16) size by (metis add.assoc add_2_eq_Suc' le_Suc_ex add_Suc_right add_Suc Suc_eq_plus1)
  have ins: "inside nodes c t" using linked_inside [OF assms(1)] by (simp add: t_def)
  have R: "runsTo (Suc g) run (size t) (rstack run) (exprValues names bs nodes c t) (H2MirRunLoop (size t + Suc g) run)"
    by (rule run_chain [OF ins assms(2,3) [folded t_def] assms(4) assms(5) [folded t_def], where pre = "[]" and post = "[r]"])
      (use assms size in simp_all)
  show ?thesis
  proof (cases "exprValues names bs nodes c t")
    case None
    with R obtain pc st where "H2MirRunLoop fuel run = Ok (run\<lparr>rpc := pc, rstack := st\<rparr>, 0)"
      unfolding g by (auto simp: runsTo_def)
    with None assms(14,15) show ?thesis unfolding t_def by (simp add: answerOf_def)
  next
    case (Some vals)
    then obtain v where v: "vals = [v]" unfolding t_def by (auto split: option.splits)
    let ?run = "run\<lparr>rpc := size t, rstack := [scalarValue v]\<rparr>"
    have len: "length js = size t" using list_all2_lengthD [OF assms(5)] by (simp add: t_def)
    have "H2MirRunLoop fuel run = H2MirRunLoop (Suc g) ?run"
      using R Some v assms(7,9) unfolding g by (simp add: runsTo_def del: H2MirRunLoop.simps)
    also have "\<dots> = Ok (?run\<lparr>rpc := size t + 1, rout := scalarValue v, risConst := True\<rparr>, 0)"
      using assms(6,11-13) len by (simp add: nth_append step_return return_def)
    finally show ?thesis using Some v unfolding t_def by (simp add: answerOf_def)
  qed
qed

text \<open>The whole call of the function, in an environment with no other callbacks.\<close>

lemma eval_function:
  assumes "exprProgram p src f" "\<And>diag. H2MirValidateProgram (Some p) diag = (True, map_option (\<lambda>d. diagZero) diag)"
    "pinsts p = js @ [r]" "iop r = H2MirOp_RETURN" "size kids + 1 = length js" "size kids \<le> 10000000"
    "linked nodes c (Link kids sibs)" "operatorsOnly nodes c (Link kids End)" "scalarExpr nodes c (Link kids End)"
    "\<forall>n\<in>set nodes. spanIn bs n" "list_all2 (lowInst p bs) (postorder nodes c (Link kids End)) js"
    "readView m src = (Ok (View bs) :: (unit, _) outcome)"
    "env = emptyEnv\<lparr>envSrc := src, resolveIdent := ident, resolveCall := call\<rparr>"
    "\<forall>j\<in>set (pinsts p). iop j = H2MirOp_LOAD_IDENT \<longrightarrow> (\<exists>f. ident = Some f \<and> answersNames names f)"
    "H2ArenaAlloc (marena m) (88 * (size kids + 3)) 8 = (Some v, ar)" "size kids + 2 \<le> fuel"
  shows "H2MirEvalFunction fuel out p 0 (None, 0) env m =
    Ok (m\<lparr>marena := ar, hdiag := map_option (\<lambda>d. diagZero) (hdiag m)\<rparr>, 0,
      answerOf (exprValues names bs nodes c (Link kids End)))"
proof -
  have f: "pfuncs p = [f]" "instStart f = 0" "instLen f = length (pinsts p)" "localCount f = 0" "paramCount f = 0"
    "fflags f = 0" "fsourceRef f = 0" "psources p = [\<lparr>ssrc = src\<rparr>]" "ftypeRef f = UINT32_MAX"
    using assms(1) by (auto simp: exprProgram_def exprFunction_def)
  let ?m = "m\<lparr>hdiag := map_option (\<lambda>d. diagZero) (hdiag m), marena := ar\<rparr>"
  let ?run = "\<lparr>rcode = pinsts p, rpc = 0, rstack = [], rstackCap = size kids + 3, rstackBytes = 88 * (size kids + 3),
    rlocals = None, rlocalCount = 0, rprogram = Some p, rfunction = Some f, renv = env, rbackJumps = 0, rmem = ?m,
    rout = H2CTFEValueInvalid, risConst = False\<rparr>"
  have len: "length (pinsts p) = size kids + 2" using assms(3,5) by simp
  have u: "u32 (size kids + 3) = size kids + 3" "u32 (88 * (size kids + 3)) = 88 * (size kids + 3)"
    using assms(6) by (auto intro: u32_id)
  have cap: "u32 (Suc (length (pinsts p))) = size kids + 3" using u(1) len by (simp add: add_ac numeral_3_eq_3)
  have init: "H2MirInitRun (pinsts p) (Some p) (Some f) 0 (None, 0) env True
      (m\<lparr>hdiag := map_option (\<lambda>d. diagZero) (hdiag m)\<rparr>) = Ok ?run"
    using assms(15) u by (simp add: H2MirInitRun_def Let_def cap option.map_comp comp_def)
  have "readView ?m src = (readView m src :: (unit, _) outcome)"
    by (cases src; cases "fst src") (auto simp: readView_def readBytes_def)
  then have ok: "exprRun p bs names ?run"
    using assms(12-14) by (simp add: exprRun_def emptyEnv_def)
  have "\<exists>run'. H2MirRunLoop fuel ?run = Ok (run', 0) \<and> rmem run' = rmem ?run \<and>
      (rout run', risConst run') = answerOf (exprValues names bs nodes c (Link kids End))"
    by (rule run_root [OF assms(7-11), where r = r and f = f]) (use assms ok f in simp_all)
  then obtain run' where run': "H2MirRunLoop fuel ?run = Ok (run', 0)" "rmem run' = ?m"
    "(rout run', risConst run') = answerOf (exprValues names bs nodes c (Link kids End))" by auto
  have env: "env\<lparr>envSrc := src\<rparr> = env" "enterFunction env = None" "bindFrame env = None" "makeVariadicPack env = None"
    unfolding assms(13) by (simp_all add: emptyEnv_def)
  have "?m = m\<lparr>marena := ar, hdiag := map_option (\<lambda>d. diagZero) (hdiag m)\<rparr>" by simp
  then show ?thesis
    using run' env init
    by (simp add: H2MirEvalFunction_def H2MirEvalFunctionInternal_def Let_def assms(2) f entryArgs_def packArgs_def
      storePack_def inFrame_def runAnswer_def del: H2MirRunLoop.simps exprValues.simps)
qed

subsection \<open>The pipeline\<close>

text \<open>The built code of such an expression: the postorder and a return.\<close>

definition returnInst :: "H2AstNode \<Rightarrow> H2MirInst" where
  "returnInst n = \<lparr>iop = H2MirOp_RETURN, itok = tokWord H2Tok_EOF, iaux = 0, istart = nstart n, iend = nend n\<rparr>"

lemma scalar_postorder:
  "inside nodes c t \<Longrightarrow> scalarExpr nodes c t \<Longrightarrow> (\<forall>n\<in>set nodes. spanIn bs n) \<Longrightarrow> i \<in> set (postorder nodes c t) \<Longrightarrow>
   scalarInst bs i"
proof (induction t arbitrary: c)
  case (Link kids sibs)
  let ?n = "nodes ! nat c"
  have "nat c < length nodes" using Link.prems(1) by (simp add: nat_less_iff)
  then have "spanIn bs ?n" using Link.prems(3) nth_mem by blast
  then have "scalarInst bs (nodeInst nodes c k)" for k
    using Link.prems(2) by (auto simp: scalarKinds_def scalarInst_def nodeInst_def Let_def spanIn_def)
  with Link show ?case by auto
qed simp

lemma lowInst_code:
  assumes "exprLowered (Some B) (scalarConst bs) src is b" "\<And>i. i \<in> set is \<Longrightarrow> scalarInst bs i"
  shows "list_all2 (lowInst (H2MirProgramBuilderFinish b) bs) is (pinsts (H2MirProgramBuilderFinish b))"
proof -
  have "list_all2 (\<lambda>i j. loweredAs (absMir b) (scalarConst bs i) i j) is (aelems (binsts b))"
    using assms(1) by (auto simp: exprLowered_def elim: list_all2_mono)
  then show ?thesis
    unfolding H2MirProgramBuilderFinish_def H2MirProgram.simps list_all2_conv_all_nth
    using lowInst_lowered [unfolded H2MirProgramBuilderFinish_def] assms(2) nth_mem by metis
qed

lemma lowered_operands:
  assumes "exprLowered lim lit src is b" "\<And>i. i \<in> set is \<Longrightarrow> exprPops i \<noteq> None \<or> iop i = H2MirOp_RETURN"
  shows "\<forall>j\<in>set (pinsts (H2MirProgramBuilderFinish b)). operandOk (H2MirProgramBuilderFinish b) fn j"
proof
  fix j
  assume "j \<in> set (pinsts (H2MirProgramBuilderFinish b))"
  then have "j \<in> set (aelems (binsts b))" by (simp add: H2MirProgramBuilderFinish_def)
  with assms(1) obtain i c where "i \<in> set is" "loweredAs (absMir b) c i j"
    unfolding exprLowered_def list_all2_conv_all_nth in_set_conv_nth by metis
  with loweredAs_operand assms(2) show "operandOk (H2MirProgramBuilderFinish b) fn j" by blast
qed

lemma lowInst_load: "lowInst p bs i j \<Longrightarrow> scalarInst bs i \<Longrightarrow> iop j = H2MirOp_LOAD_IDENT \<Longrightarrow> iop i = H2MirOp_LOAD_IDENT"
  by (auto simp: lowInst_def split: option.splits if_splits)

text \<open>The lowering of such an expression succeeds when the arena serves its requests.\<close>

definition exprCode :: "H2AstNode list \<Rightarrow> int \<Rightarrow> shape \<Rightarrow> H2MirInst list" where
  "exprCode nodes i kids = postorder nodes i (Link kids End) @ [returnInst (nodes ! nat i)]"

lemma exprCode_scalar:
  assumes "linked nodes c (Link kids sibs)" "scalarExpr nodes c (Link kids End)" "\<forall>n\<in>set nodes. spanIn bs n" "i \<in> set (exprCode nodes c kids)"
  shows "scalarInst bs i"
proof -
  have "inside nodes c (Link kids End)" using linked_inside [OF assms(1)] by simp
  from assms(4) scalar_postorder [OF this assms(2,3), of i] show ?thesis
    by (auto simp: scalarInst_def returnInst_def exprCode_def)
qed

lemma lower_expr:
  assumes "exprInput nodes bs nodeId (Link kids sibs)" "operatorsOnly nodes nodeId (Link kids End)"
    "scalarExpr nodes nodeId (Link kids End)" "astNodes ast = Some nodes" "length nodes \<le> 5000000"
    "readView m src = (Ok (View bs) :: (unit, _) outcome)"
    "serves (700 * (length nodes + 4)) (6 * length nodes + 11) (marena m)" "size kids + 2 \<le> fuel"
  shows "\<exists>b ar. let m' = m\<lparr>marena := ar, hdiag := map_option (\<lambda>d. diagZero) (hdiag m)\<rparr> in
    H2MirLowerExprAsFunction fuel ast src nodeId m = Ok ((H2MirProgramBuilderFinish b, True), (b, m')) \<and>
    serves (700 * (length nodes + 4)) 1 ar \<and>
    exprLowered (Some (700 * (length nodes + 4))) (scalarConst bs) src (exprCode nodes nodeId kids) b"
proof -
  let ?N = "length nodes" and ?B = "700 * (length nodes + 4)" and ?code = "exprCode nodes nodeId kids"
  let ?d = "map_option (\<lambda>d. diagZero) (hdiag m)"
  have in1: "linked nodes nodeId (Link kids sibs)" "\<forall>n\<in>set nodes. spanIn bs n" "size kids + 1 \<le> ?N"
    using assms(1) by (simp_all add: exprInput_def)
  have len: "length ?code = size kids + 2" by (simp add: exprCode_def)
  have K: "6 * ?N + 11 = Suc (6 * ?N + 10)" by simp
  obtain v0 ar0 where a0: "H2ArenaAlloc (marena m) ((?N * 4 + 8) * 20) 4 = (Some v0, ar0)" "serves ?B (6 * ?N + 10) ar0"
    by (rule serves_request [OF assms(7) [unfolded K], of "(?N * 4 + 8) * 20" 4]) simp_all
  define out where "out = \<lparr>outOk = True, outArena = ar0, outChunk = Some (v0, ?code), outDiag = ?d\<rparr>"
  have built: "H2MirBuildExpr fuel (marena m) ast (View bs) nodeId (hdiag m) = Some (Ok out)"
    unfolding out_def returnInst_def exprCode_def
    by (rule buildExpr_postorder [OF assms(1,2) _ assms(4)]) (use assms(8) a0(1) in simp_all)
  have scal: "scalarInst bs i" if "i \<in> set ?code" for i
    by (rule exprCode_scalar [OF in1(1) assms(3) in1(2) that])
  have r: "6 * length ?code + 3 + 1 \<le> 6 * ?N + 10" "6 * ?N + 10 \<le> mirMaxLen"
    using in1(3) assms(5) by (simp_all add: mirMaxLen_def len)
  have inv: "lowerInv (Some ?B) (6 * length ?code + 3 + 1) (builtState m out)"
    by (rule lowerInv_init) (use r serves_mono [OF a0(2) r(1)] in \<open>simp_all add: out_def\<close>)
  have lits: "literals (Some ?B) (scalarConst bs) src (snd (builtState m out)) i" if "i \<in> set ?code" for i
    by (rule scalar_literals [OF scal [OF that]], unfold readView_built) (rule readView_type [OF assms(6)])
  have "yields (Some ?B) (\<lambda>(p, supported) st. supported \<and> p = H2MirProgramBuilderFinish (fst st) \<and> lowerInv (Some ?B) 1 st \<and>
      (Some ?B \<noteq> None \<longrightarrow> keepsMem (snd (builtState m out)) (snd st)) \<and>
      exprLowered (Some ?B) (scalarConst bs) src ?code (fst st))
    (H2MirLowerExprAsFunction fuel ast src nodeId m)"
    by (rule lower_function [OF assms(6) built _ _ inv lits]) (simp_all add: out_def)
  then obtain b m1 where low: "H2MirLowerExprAsFunction fuel ast src nodeId m = Ok ((H2MirProgramBuilderFinish b, True), (b, m1))"
    "lowerInv (Some ?B) 1 (b, m1)" "keepsMem (snd (builtState m out)) m1"
    "exprLowered (Some ?B) (scalarConst bs) src ?code b"
    by (auto simp: yields_def split: outcome.splits)
  from low(3) have "m1 = m\<lparr>marena := marena m1, hdiag := ?d\<rparr>"
    by (auto simp: keepsMem_def builtState_def out_def)
  moreover have "serves ?B 1 (marena m1)" using low(2) by (simp add: lowerInv_def)
  ultimately show ?thesis using low(1,4) unfolding Let_def by metis
qed

text \<open>The lowered program: valid, with the lowered postorder before its return.\<close>

lemma lowered_program:
  assumes "exprLowered (Some B) (scalarConst bs) src (exprCode nodes c kids) b" "\<And>i. i \<in> set (exprCode nodes c kids) \<Longrightarrow> scalarInst bs i"
    "p = H2MirProgramBuilderFinish b"
  obtains f js where "exprProgram p src f" "pinsts p = js @ [returnInst (nodes ! nat c)]"
    "list_all2 (lowInst p bs) (postorder nodes c (Link kids End)) js"
    "\<forall>diag. H2MirValidateProgram (Some p) diag = (True, map_option (\<lambda>d. diagZero) diag)"
proof -
  obtain f where f: "exprProgram p src f" using assms(1,3) by (auto simp: exprLowered_def)
  have "list_all2 (lowInst p bs) (exprCode nodes c kids) (pinsts p)"
    unfolding assms(3) by (rule lowInst_code [OF assms(1,2)])
  then obtain js r where js: "pinsts p = js @ [r]" "list_all2 (lowInst p bs) (postorder nodes c (Link kids End)) js"
    "lowInst p bs (returnInst (nodes ! nat c)) r"
    by (auto simp: exprCode_def list_all2_append1 list_all2_Cons1 simp del: postorder.simps)
  have "r = returnInst (nodes ! nat c)" using js(3) by (simp add: lowInst_def returnInst_def scalarConst_def Let_def)
  moreover have "exprPops i \<noteq> None \<or> iop i = H2MirOp_RETURN" if "i \<in> set (exprCode nodes c kids)" for i
    using assms(2) [OF that] by (auto simp: scalarInst_def exprPops_def)
  from lowered_operands [OF assms(1) this] have "\<forall>j\<in>set (pinsts p). operandOk p f j" unfolding assms(3) by blast
  ultimately show ?thesis using that [OF f _ js(2)] js(1) exprProgram_valid(1) [OF f] by simp
qed

text \<open>C1: Constant evaluation is correct from the tree to the value. For a linked expression of integer and
  boolean literals, names and operators, \<open>H2CTFEEvalExpr\<close> builds, lowers and runs the code and answers
  the value that the expression has by its meaning on 64-bit integers and truth values, with the names
  as the resolver gives them; it answers that the expression is not constant exactly when it has no
  such value (overflow, division by zero, a literal out of range, operands of different types). It
  does not fail when the arena serves its requests, whose number and size are linear in the
  number of nodes, and it leaves the memory but for the arena and the cleared diagnostic.\<close>
theorem ctfe_expr_value:
  assumes "exprInput nodes bs nodeId (Link kids sibs)" "operatorsOnly nodes nodeId (Link kids End)"
    "scalarExpr nodes nodeId (Link kids End)" "astNodes ast = Some nodes" "length nodes \<le> 5000000"
    "readView m src = (Ok (View bs) :: (unit, _) outcome)" "answersNames names ident"
    "serves (700 * (length nodes + 4)) (6 * length nodes + 11) (marena m)"
    "size kids + 2 \<le> buildFuel" "size kids + 2 \<le> fuel"
  shows "\<exists>ar. H2CTFEEvalExpr buildFuel fuel ast src nodeId (Some ident) call out m =
    Ok (m\<lparr>marena := ar, hdiag := map_option (\<lambda>d. diagZero) (hdiag m)\<rparr>, 0,
      answerOf (exprValues names bs nodes nodeId (Link kids End)))"
proof -
  let ?d = "map_option (\<lambda>d. diagZero) (hdiag m)"
  let ?m0 = "m\<lparr>hdiag := map_option (\<lambda>d. diagZero\<lparr>dphase := H2DiagPhase_CONSTEVAL\<rparr>) (hdiag m)\<rparr>"
  have in1: "linked nodes nodeId (Link kids sibs)" "\<forall>n\<in>set nodes. spanIn bs n" "size kids + 1 \<le> length nodes"
    using assms(1) by (simp_all add: exprInput_def)
  have view: "readView ?m0 src = (Ok (View bs) :: (unit, _) outcome)"
    "readView (m\<lparr>marena := ar, hdiag := ?d\<rparr>) src = (Ok (View bs) :: (unit, _) outcome)" for ar
    using assms(6) by (cases src; cases "fst src"; auto simp: readView_def readBytes_def)+
  have "marena ?m0 = marena m" by simp
  with lower_expr [OF assms(1-5) view(1) _ assms(9)] assms(8) obtain b ar where
    low: "H2MirLowerExprAsFunction buildFuel ast src nodeId ?m0 =
      Ok ((H2MirProgramBuilderFinish b, True), (b, m\<lparr>marena := ar, hdiag := ?d\<rparr>))"
    "serves (700 * (length nodes + 4)) (Suc 0) ar"
    "exprLowered (Some (700 * (length nodes + 4))) (scalarConst bs) src (exprCode nodes nodeId kids) b"
    by (auto simp: option.map_comp comp_def Let_def)
  define p where "p = H2MirProgramBuilderFinish b"
  obtain f js where prog: "exprProgram p src f" "pinsts p = js @ [returnInst (nodes ! nat nodeId)]"
    "list_all2 (lowInst p bs) (postorder nodes nodeId (Link kids End)) js"
    "\<forall>diag. H2MirValidateProgram (Some p) diag = (True, map_option (\<lambda>d. diagZero) diag)"
    by (rule lowered_program [OF low(3) exprCode_scalar [OF in1(1) assms(3) in1(2)] p_def])
  define disable where "disable = (\<not> H2MirProgramNeedsDynamicResolution (Some p))"
  define env where "env = emptyEnv\<lparr>envSrc := src, resolveIdent := (if disable then None else Some ident),
    resolveCall := (if disable then None else map_option (\<lambda>f m site. f m) call)\<rparr>"
  have names: "\<forall>j\<in>set (pinsts p). iop j = H2MirOp_LOAD_IDENT \<longrightarrow>
      (\<exists>f. (if disable then None else Some ident) = Some f \<and> answersNames names f)"
    using assms(7) by (auto simp: disable_def H2MirProgramNeedsDynamicResolution_def needsLoop_iff unresolved_def)
  obtain v2 ar2 where a2: "H2ArenaAlloc ar (88 * (size kids + 3)) 8 = (Some v2, ar2)"
    by (rule serves_request [OF low(2), of "88 * (size kids + 3)" 8]) (use in1(3) in simp_all)
  have "H2MirEvalFunction fuel (out, False) p 0 (None, 0) env (m\<lparr>marena := ar, hdiag := ?d\<rparr>) =
      Ok (m\<lparr>marena := ar2, hdiag := ?d\<rparr>, 0, answerOf (exprValues names bs nodes nodeId (Link kids End)))"
    using eval_function [OF prog(1) prog(4) [rule_format] prog(2) _ _ _ in1(1) assms(2,3) in1(2) prog(3) view(2) env_def names _ assms(10), where v = v2 and ar = ar2]
      list_all2_lengthD [OF prog(3)] in1(3) assms(5) a2
    by (simp add: returnInst_def option.map_comp comp_def del: exprValues.simps)
  moreover have "H2CTFEEvalExpr buildFuel fuel ast src nodeId (Some ident) call out m =
      H2MirEvalFunction fuel (out, False) p 0 (None, 0) env (m\<lparr>marena := ar, hdiag := ?d\<rparr>)"
    using low(1)
    by (simp add: H2CTFEEvalExpr_def H2CTFEEvalExprEx_def Let_def p_def [symmetric] ctfeEnv_def env_def disable_def
      H2CTFEMirResolveIdentAdapter_def H2CTFEMirResolveCallAdapter_def H2MirExecEnvDisableDynamicResolution_def emptyEnv_def)
  ultimately show ?thesis by auto
qed

text \<open>\<open>-a + 2\<close> with \<open>a = 5\<close> is \<open>-3\<close>.\<close>

definition exNames :: naming where
  "exNames s e = (if s = 1 \<and> e = 2 then Some (Inl 5) else None)"

definition exIdent :: "unit H2Mem \<Rightarrow> nat \<Rightarrow> nat \<Rightarrow> unit answer" where
  "exIdent m s e = (case exNames s e of Some v \<Rightarrow> (m, 0, scalarValue v, True) | None \<Rightarrow> (m, 0, H2CTFEValueInvalid, False))"

lemma ctfe_expr_value_witness:
  "\<exists>m'. H2CTFEEvalExpr 6 6 exExprAst (Some 64, 6) 0 (Some exIdent) None H2CTFEValueInvalid exExprMem =
     Ok (m', 0, intValue (-3), True)"
proof -
  let ?kids = "Link (Link End End) (Link End End)"
  have sv: "serves (700 * (length exExpr + 4)) (6 * length exExpr + 11) (marena exExprMem)"
    by (rule serves_block) (simp add: blockRoom_def exExprMem_def exExpr_def H2ArenaInit_def H2ArenaInitEx_def H2ArenaInitBlock_def)
  have o: "operatorsOnly exExpr 0 (Link ?kids End)" "scalarExpr exExpr 0 (Link ?kids End)" by code_simp+
  have n: "answersNames exNames exIdent" by (simp add: answersNames_def exIdent_def)
  have "exprValues exNames exSource exExpr 0 (Link ?kids End) = Some [Inl (-3)]" by code_simp
  then have "answerOf (exprValues exNames exSource exExpr 0 (Link ?kids End)) = (intValue (-3), True)"
    by (simp add: answerOf_def del: exprValues.simps)
  with ctfe_expr_value [OF exExpr_input [folded exSource_def] o _ _ exExpr_view n sv, of exExprAst 6 6 None H2CTFEValueInvalid]
  show ?thesis by (auto simp: exExprAst_def exExpr_def simp del: exprValues.simps)
qed

end
