(* ===== verification/H2MirRunThms.thy ===== *)
theory H2MirRunThms
  imports H2MirLower
begin

text \<open>
  The loop of the interpreter, whatever the code and the callbacks: the stack stays inside its
  array, and with a limit on backward jumps the loop ends.
\<close>

named_theorems keeping \<open>steps that change only the stack and the memory\<close>

subsection \<open>What a step changes\<close>

definition others :: "'x H2MirExecRun \<Rightarrow> _" where
  "others run = (rcode run, rpc run, rstackCap run, rstackBytes run, rlocals run, rlocalCount run, rprogram run,
     rfunction run, renv run, rbackJumps run, rout run, risConst run)"

definition kept :: "'x H2MirExecRun \<Rightarrow> 'x H2MirExecRun \<Rightarrow> bool" where
  "kept a b \<longleftrightarrow> others b = others a \<and>
     (length (rstack a) \<le> rstackCap a \<longrightarrow> length (rstack b) \<le> rstackCap a)"

definition keeps :: "'x H2MirExecRun \<Rightarrow> ('x, 'x H2MirExecRun) running \<Rightarrow> bool" where
  "keeps a r \<longleftrightarrow> (\<forall>b. r = Ok b \<longrightarrow> kept a b)"

lemma others_simps [simp]:
  "others (run\<lparr>rmem := m\<rparr>) = others run" "others (run\<lparr>rstack := st\<rparr>) = others run"
  by (simp_all add: others_def)

lemma kept_refl [keeping]: "kept a a"
  by (simp add: kept_def)

lemma kept_rmem [keeping]: "kept a run \<Longrightarrow> kept a (run\<lparr>rmem := m\<rparr>)"
  by (simp add: kept_def)

lemma kept_stack: "kept a run \<Longrightarrow> length st \<le> length (rstack run) \<Longrightarrow> kept a (run\<lparr>rstack := st\<rparr>)"
  by (auto simp: kept_def)

lemma kept_drop [keeping]: "kept a run \<Longrightarrow> kept a (run\<lparr>rstack := drop n (rstack run)\<rparr>)"
  by (rule kept_stack) simp_all

lemma kept_drop_rmem [keeping]: "kept a run \<Longrightarrow> kept a (run\<lparr>rstack := drop n (rstack run), rmem := m\<rparr>)"
  using kept_rmem [OF kept_drop, of a run m n] by simp

lemma keeps_Ok [keeping]: "kept a run \<Longrightarrow> keeps a (Ok run)"
  by (simp add: keeps_def)

lemma keeps_return [keeping]: "keeps a (return rc run)"
  by (simp add: keeps_def return_def)

lemma keeps_Stuck [keeping]: "keeps a Stuck"
  by (simp add: keeps_def)

lemma keeps_fail [keeping]: "keeps a (fail code s e run)"
  by (simp add: fail_def keeps_return)

lemma keeps_push [keeping]: "kept a run \<Longrightarrow> keeps a (H2CTFEPush v run)"
  by (auto simp: keeps_def H2CTFEPush_def kept_def others_def fail_def return_def split: if_splits)

lemma keeps_pop [keeping]:
  assumes "kept a run" "\<And>v run'. kept a run' \<Longrightarrow> keeps a (k v run')"
  shows "keeps a (H2CTFEPop run k)"
  unfolding H2CTFEPop_def by (auto split: list.split intro!: keeping assms kept_stack)

lemma keeps_obind [keeping]: "(\<And>x. keeps a (k x)) \<Longrightarrow> keeps a (obind r k)"
  by (cases r) (simp_all add: keeps_def)

lemma keeps_bind: "keeps a r \<Longrightarrow> (\<And>x. kept a x \<Longrightarrow> keeps a (k x)) \<Longrightarrow> keeps a (obind r k)"
  by (cases r) (simp_all add: keeps_def)

lemma keeps_allocate [keeping]:
  assumes "kept a run" "\<And>p run'. kept a run' \<Longrightarrow> keeps a (k p run')"
  shows "keeps a (allocate n al s e run k)"
  by (auto simp: allocate_def split: option.split prod.split intro!: keeping assms)

lemma keeps_popArgs [keeping]:
  assumes "kept a run" "\<And>x run'. kept a run' \<Longrightarrow> keeps a (k x run')"
  shows "keeps a (popArgs n ins run k)"
  by (auto simp: popArgs_def intro!: keeping assms)

lemma keeps_answered [keeping]: "kept a run \<Longrightarrow> keeps a (answered x f run)"
  by (auto simp: answered_def Let_def split: prod.split intro!: keeping)

lemma keeps_hooked [keeping]:
  assumes "kept a run" "\<And>run'. kept a run' \<Longrightarrow> keeps a (k run')"
  shows "keeps a (hooked x run k)"
  by (auto simp: hooked_def Let_def split: prod.split intro!: keeping assms)

lemma keeps_queried [keeping]: "kept a run \<Longrightarrow> keeps a (queried f reason ins run)"
  by (auto simp: queried_def Let_def split: prod.split option.split intro!: keeping)

lemma coerce_kept: "kept a run \<Longrightarrow> H2MirCoerceValueForType run t v = (rc, v', run') \<Longrightarrow> kept a run'"
  by (auto simp: H2MirCoerceValueForType_def split: if_splits option.splits prod.splits intro!: keeping)

lemma keeps_coerced [keeping]:
  assumes "kept a run" "\<And>v run'. kept a run' \<Longrightarrow> keeps a (k v run')"
  shows "keeps a (coerced t v run k)"
  by (auto simp: coerced_def split: prod.split intro!: keeping assms intro: coerce_kept)

lemma keeps_captured [keeping]:
  assumes "kept a run" "\<And>refs. keeps a (k refs)"
  shows "keeps a (capturedRef ins run k)"
  by (auto simp: capturedRef_def split: option.split intro!: keeping assms)

lemma keeps_popBound [keeping]:
  assumes "kept a run" "\<And>v run'. kept a run' \<Longrightarrow> keeps a (k v run')"
  shows "keeps a (popBound flag ins run k)"
  by (auto simp: popBound_def intro!: keeping assms)

lemma keeps_popBool [keeping]:
  assumes "kept a run" "\<And>v run'. kept a run' \<Longrightarrow> keeps a (k v run')"
  shows "keeps a (popBool run k)"
  by (auto simp: popBool_def split: option.split intro!: keeping assms)

lemma keeps_adjusted [keeping]:
  assumes "kept a run" "\<And>run'. kept a run' \<Longrightarrow> keeps a (k run')"
  shows "keeps a (adjusted ins i args run k)"
  by (auto simp: adjusted_def Let_def split: option.split prod.split intro!: keeping assms)

lemma keeps_callProgramFn [keeping]: "kept a run \<Longrightarrow> keeps a (callProgramFn callFn ins p i args run)"
  by (auto simp: callProgramFn_def intro!: keeping)

lemma keeps_closureArgs [keeping]:
  assumes "kept a run" "\<And>x run'. kept a run' \<Longrightarrow> keeps a (k x run')"
  shows "keeps a (closureArgs ins fn i data args run k)"
  by (auto simp: closureArgs_def Let_def split: prod.split intro!: keeping assms)

lemma keeps_viewBytes [keeping]: "(\<And>bs. keeps a (k bs)) \<Longrightarrow> keeps a (viewBytes v k)"
  by (cases v) (simp_all add: keeping)

lemma keeps_makeClosure [keeping]: "kept a run \<Longrightarrow> keeps a (makeClosure ins p data refs run)"
  by (auto simp: makeClosure_def Let_def split: option.split intro!: keeping)

lemma keeps_pushWhen [keeping]: "kept a run \<Longrightarrow> keeps a (pushWhen c v run)"
  by (auto simp: pushWhen_def intro!: keeping)

text \<open>Every operation but the two jumps.\<close>

lemma keeps_call: "keeps run (stepCall ins run)"
  by (auto simp: stepCall_def Let_def split: prod.split option.split intro!: keeping)

lemma keeps_callIndirect: "keeps run (stepCallIndirect callFn ins run)"
  by (auto simp: stepCallIndirect_def Let_def split: prod.split option.split intro!: keeping)

lemma keeps_callFn: "keeps run (stepCallFn callFn ins run)"
  by (auto simp: stepCallFn_def Let_def split: prod.split option.split intro!: keeping)

lemma keeps_callHost: "keeps run (stepCallHost ins run)"
  by (auto simp: stepCallHost_def Let_def split: prod.split option.split intro!: keeping)

lemma keeps_iterNext: "keeps run (stepIterNext ins run)"
proof -
  have push: "keeps a (obind (pushWhen c v r) (\<lambda>r. obind (pushWhen d w r) (H2CTFEPush x)))"
    if "kept a r" for a r :: "'a H2MirExecRun" and c d v w x
    by (intro keeps_bind [OF keeps_pushWhen] keeps_push that)
  show ?thesis
    by (auto simp: stepIterNext_def Let_def split: prod.split option.split intro!: keeps_pop keeps_return push kept_rmem kept_refl)
qed

lemmas keeps_calls = keeps_call keeps_callIndirect keeps_callFn keeps_callHost keeps_iterNext

lemma keeps_constants:
  "keeps run (stepPushConst ins run)" "keeps run (stepPushInt ins run)" "keeps run (stepPushFloat ins run)"
  "keeps run (stepPushBool ins run)" "keeps run (stepPushString ins run)" "keeps run (stepPushNull run)"
  "keeps run (stepMakeClosure ins run)"
  by (auto simp: stepPushConst_def stepPushInt_def stepPushFloat_def stepPushBool_def stepPushString_def
    stepPushNull_def stepMakeClosure_def sourceText_def Let_def split: option.split outcome.split prod.split intro!: keeping)

lemma keeps_slots:
  "keeps run (stepLocalLoad ins run)" "keeps run (stepLocalAddr ins run)" "keeps run (stepCaptureAddr ins run)"
  "keeps run (stepCaptureLoad ins run)" "keeps run (stepCaptureStore ins run)" "keeps run (stepAddrOf ins run)"
  "keeps run (stepLocalZero ins run)" "keeps run (stepLocalStore ins run)"
  by (auto simp: stepLocalLoad_def stepLocalAddr_def stepCaptureAddr_def stepCaptureLoad_def stepCaptureStore_def
    stepAddrOf_def stepLocalZero_def stepLocalStore_def Let_def split: option.split prod.split intro!: keeping)

lemma keeps_derefs: "keeps run (stepDerefLoad run)" "keeps run (stepDerefStore ins run)"
  by (auto simp: stepDerefLoad_def stepDerefStore_def Let_def split: option.split intro!: keeping)

lemma keeps_names:
  "keeps run (stepDrop run)" "keeps run (stepAssert ins run)" "keeps run (stepLoadIdent ins run)"
  "keeps run (stepStoreIdent ins run)" "keeps run (stepUnary ins run)" "keeps run (stepBinary fuel ins run)"
  by (auto simp: stepDrop_def stepAssert_def stepLoadIdent_def stepStoreIdent_def stepUnary_def stepBinary_def Let_def
    split: option.split prod.split intro!: keeping)

lemma keeps_sequences:
  "keeps run (stepIndex ins run)" "keeps run (stepSeqLen run)" "keeps run (stepStrCStr run)"
  "keeps run (stepArrayAddr ins run)" "keeps run (stepSliceMake ins run)" "keeps run (stepTupleMake ins run)"
  by (auto simp: stepIndex_def stepSeqLen_def stepStrCStr_def stepArrayAddr_def stepSliceMake_def stepTupleMake_def Let_def
    split: option.split intro!: keeping)

lemma keeps_aggregates:
  "keeps run (stepAggMake ins run)" "keeps run (stepAggZero ins run)" "keeps run (stepAggSet ins run)"
  "keeps run (stepAggGet ins run)" "keeps run (stepAggAddr ins run)" "keeps run (stepIterInit ins run)"
  by (auto simp: stepAggMake_def stepAggZero_def stepAggSet_def stepAggGet_def stepAggAddr_def stepAggField_def
    stepIterInit_def Let_def split: option.split prod.split intro!: keeping)

lemma keeps_conversions:
  "keeps run (stepCast ins run)" "keeps run (stepCoerce ins run)" "keeps run (stepOptionalWrap ins run)"
  "keeps run (stepOptionalUnwrap ins run)" "keeps run (stepReturn ins run)" "keeps run (stepReturnVoid run)"
  by (auto simp: stepCast_def stepCoerce_def stepOptionalWrap_def stepOptionalUnwrap_def stepReturn_def stepReturnVoid_def
    Let_def split: option.split list.split prod.split intro!: keeping)

text \<open>A jump goes to an instruction of the code; a backward jump is counted when there is a limit.\<close>

definition jumped :: "nat \<Rightarrow> 'x H2MirExecRun \<Rightarrow> 'x H2MirExecRun \<Rightarrow> bool" where
  "jumped target a b \<longleftrightarrow>
     target < length (rcode a) \<and>
     (if backwardJumpLimit (renv a) \<noteq> 0 \<and> target < rpc a
      then u32 (rbackJumps a + 1) \<le> backwardJumpLimit (renv a) \<and>
        b = a\<lparr>rbackJumps := u32 (rbackJumps a + 1), rpc := target\<rparr>
      else b = a\<lparr>rpc := target\<rparr>)"

lemma jumpTo_jumped:
  assumes "jumpTo ins run = Ok b" "iaux ins < length (rcode run)"
  shows "jumped (iaux ins) run b"
proof (cases "backwardJumpLimit (renv run) \<noteq> 0 \<and> iaux ins < rpc run")
  case True
  then have "jumpTo ins run =
      (if u32 (rbackJumps run + 1) > backwardJumpLimit (renv run)
       then return 0 (H2MirSetReason ins ''for-loop exceeded const-eval iteration limit''
         (run\<lparr>rbackJumps := u32 (rbackJumps run + 1)\<rparr>))
       else Ok (run\<lparr>rbackJumps := u32 (rbackJumps run + 1), rpc := iaux ins\<rparr>))"
    by (simp add: jumpTo_def Let_def)
  with assms True show ?thesis
    by (cases "u32 (rbackJumps run + 1) > backwardJumpLimit (renv run)") (simp_all add: jumped_def return_def)
next
  case False
  then have "jumpTo ins run = Ok (run\<lparr>rpc := iaux ins\<rparr>)" unfolding jumpTo_def by (rule if_not_P)
  with assms have "b = run\<lparr>rpc := iaux ins\<rparr>" by simp
  with assms(2) False show ?thesis unfolding jumped_def by (simp only: if_not_P simp_thms)
qed

lemma popBool_Ok: "popBool run k = Ok b \<Longrightarrow> \<exists>c t. kept run c \<and> k t c = Ok b"
proof -
  assume p: "popBool run k = Ok b"
  then obtain v st where v: "rstack run = v # st" by (auto simp: popBool_def H2CTFEPop_def return_def split: list.splits)
  have "kept run (run\<lparr>rstack := st\<rparr>)" by (rule kept_stack [OF kept_refl]) (simp add: v)
  moreover have "\<exists>t. k t (run\<lparr>rstack := st\<rparr>) = Ok b"
    using p v
    by (cases "H2CTFEEvalCast (castWord H2MirCastTarget_BOOL) v :: (('a H2MirExecRun \<times> int) stop, _) outcome")
      (auto simp: popBool_def H2CTFEPop_def return_def split: option.splits)
  ultimately show ?thesis by blast
qed

lemma step_cases:
  assumes "step callFn fuel ins run = Ok b"
  obtains (kept) "kept run b" | (jumped) c where "kept run c" "jumped (iaux ins) c b"
proof (cases "iop ins = H2MirOp_JUMP \<or> iop ins = H2MirOp_JUMP_IF_FALSE")
  case False
  have "keeps run (step callFn fuel ins run)"
    unfolding step_def using False
    by (cases "iop ins"; simp only: H2MirOp.case simp_thms; intro keeps_calls keeps_constants keeps_slots keeps_derefs
      keeps_names keeps_sequences keeps_aggregates keeps_conversions keeps_queried kept_refl keeps_return)
  with assms that(1) show ?thesis by (simp add: keeps_def)
next
  case True
  show ?thesis
  proof (cases "iop ins = H2MirOp_JUMP")
    case True
    then have "jumped (iaux ins) run b"
      using assms jumpTo_jumped [of ins run b] by (simp add: step_def stepJump_def return_def split: if_splits)
    with that(2) kept_refl show ?thesis by blast
  next
    case False
    with True assms have b: "iaux ins < length (rcode run)" "popBool run (\<lambda>b run. if b then Ok run else jumpTo ins run) = Ok b"
      by (simp_all add: step_def stepJumpIfFalse_def return_def split: if_splits)
    from popBool_Ok [OF b(2)] obtain c t where c: "kept run c" "(if t then Ok c else jumpTo ins c) = Ok b" by blast
    have "rcode c = rcode run" using c(1) by (simp add: kept_def others_def)
    with c b(1) that jumpTo_jumped [of ins c b] show ?thesis by (auto split: if_splits)
  qed
qed

subsection \<open>Runs\<close>

text \<open>One pass of the loop that goes on; the answers of calls and callbacks are arbitrary.\<close>

inductive runStep :: "'x H2MirExecRun \<Rightarrow> 'x H2MirExecRun \<Rightarrow> bool" where
  "rpc a < length (rcode a) \<Longrightarrow> step callFn fuel (rcode a ! rpc a) (a\<lparr>rpc := rpc a + 1\<rparr>) = Ok b \<Longrightarrow> runStep a b"

text \<open>What stays in a run, and how far it is: a backward jump counts for the whole code.\<close>

definition frame :: "'x H2MirExecRun \<Rightarrow> _" where
  "frame run = (rcode run, renv run, rstackCap run, rstackBytes run, rprogram run, rfunction run, rlocals run)"

definition progress :: "'x H2MirExecRun \<Rightarrow> nat" where
  "progress run = rbackJumps run * length (rcode run) + rpc run"

lemma runStep_frame:
  assumes "runStep a b"
  shows "frame b = frame a" "length (rstack a) \<le> rstackCap a \<Longrightarrow> length (rstack b) \<le> rstackCap b"
proof -
  from assms obtain callFn fuel where st: "step callFn fuel (rcode a ! rpc a) (a\<lparr>rpc := rpc a + 1\<rparr>) = Ok b"
    unfolding runStep.simps by blast
  have "frame b = frame a \<and> (length (rstack a) \<le> rstackCap a \<longrightarrow> length (rstack b) \<le> rstackCap b)"
  proof (cases rule: step_cases [OF st])
    case 1
    then show ?thesis by (auto simp: kept_def others_def frame_def)
  next
    case (2 c)
    then show ?thesis by (auto simp: kept_def others_def frame_def jumped_def split: if_splits)
  qed
  then show "frame b = frame a" "length (rstack a) \<le> rstackCap a \<Longrightarrow> length (rstack b) \<le> rstackCap b" by blast+
qed

definition within :: "'x H2MirExecRun \<Rightarrow> bool" where
  "within run \<longleftrightarrow> rbackJumps run \<le> backwardJumpLimit (renv run) \<and> rpc run \<le> length (rcode run)"

lemma runStep_progress:
  assumes "runStep a b" "within a" "0 < backwardJumpLimit (renv a)" "backwardJumpLimit (renv a) < UINT32_MAX"
  shows "within b" "progress a < progress b"
proof -
  from assms(1) obtain callFn fuel where st: "rpc a < length (rcode a)"
    "step callFn fuel (rcode a ! rpc a) (a\<lparr>rpc := rpc a + 1\<rparr>) = Ok b"
    unfolding runStep.simps by blast
  have u: "u32 (rbackJumps a + 1) = rbackJumps a + 1"
    using assms(2,4) by (intro u32_id) (simp add: within_def)
  have "within b \<and> progress a < progress b"
  proof (cases rule: step_cases [OF st(2)])
    case 1
    with st(1) assms(2) show ?thesis by (simp add: kept_def others_def within_def progress_def)
  next
    case (2 c)
    let ?t = "iaux (rcode a ! rpc a)"
    have c: "rcode c = rcode a" "renv c = renv a" "rbackJumps c = rbackJumps a" "rpc c = rpc a + 1"
      using 2(1) by (simp_all add: kept_def others_def)
    have t: "?t < length (rcode a)" using 2(2) c(1) by (simp add: jumped_def)
    show ?thesis
    proof (cases "?t < rpc a + 1")
      case True
      then have "u32 (rbackJumps a + 1) \<le> backwardJumpLimit (renv a)" "b = c\<lparr>rbackJumps := u32 (rbackJumps a + 1), rpc := ?t\<rparr>"
        using 2(2) assms(3) c by (simp_all add: jumped_def)
      with u c t st(1) show ?thesis by (simp add: within_def progress_def)
    next
      case False
      then have "b = c\<lparr>rpc := ?t\<rparr>" using 2(2) c by (simp add: jumped_def)
      with False c t assms(2) show ?thesis by (simp add: within_def progress_def)
    qed
  qed
  then show "within b" "progress a < progress b" by blast+
qed

lemma within_bound: "within a \<Longrightarrow> progress a \<le> (backwardJumpLimit (renv a) + 1) * length (rcode a)"
  unfolding within_def progress_def distrib_right by (intro add_mono mult_le_mono1) simp_all

lemma run_progress:
  assumes "(runStep ^^ k) a b" "within a" "0 < backwardJumpLimit (renv a)" "backwardJumpLimit (renv a) < UINT32_MAX"
  shows "within b \<and> frame b = frame a \<and> progress a + k \<le> progress b"
  using assms(1)
proof (induction k arbitrary: b)
  case 0
  with assms(2) show ?case by simp
next
  case (Suc k)
  then obtain c where c: "(runStep ^^ k) a c" "runStep c b" by auto
  from Suc.IH [OF c(1)] have ih: "within c" "frame c = frame a" "progress a + k \<le> progress c" by simp_all
  then have "renv c = renv a" by (simp add: frame_def)
  with runStep_progress [OF c(2) ih(1)] runStep_frame(1) [OF c(2)] ih assms(3,4) show ?case by simp
qed

text \<open>With fuel for what is left, the loop runs out of fuel only inside a step.\<close>

lemma loop_fuel:
  assumes "H2MirRunLoop fuel a = Err OutOfFuel" "within a" "0 < backwardJumpLimit (renv a)"
    "backwardJumpLimit (renv a) < UINT32_MAX" "(backwardJumpLimit (renv a) + 1) * length (rcode a) < progress a + fuel"
  shows "\<exists>b f. runStep\<^sup>*\<^sup>* a b \<and> rpc b < length (rcode b) \<and>
    step (H2MirEvalFunctionInternal (H2MirRunLoop f) False False (H2CTFEValueInvalid, False)) f
      (rcode b ! rpc b) (b\<lparr>rpc := rpc b + 1\<rparr>) = Err OutOfFuel"
  using assms
proof (induction fuel arbitrary: a)
  case 0
  then show ?case using within_bound [OF 0(2)] by simp
next
  case (Suc fuel)
  let ?step = "step (H2MirEvalFunctionInternal (H2MirRunLoop fuel) False False (H2CTFEValueInvalid, False)) fuel
    (rcode a ! rpc a) (a\<lparr>rpc := rpc a + 1\<rparr>)"
  have pc: "rpc a < length (rcode a)" using Suc.prems(1) by (simp split: if_splits)
  show ?case
  proof (cases ?step)
    case (Ok b)
    then have s: "runStep a b" using pc by (rule runStep.intros [rotated])
    have e: "renv b = renv a" "rcode b = rcode a" using runStep_frame(1) [OF s] by (simp_all add: frame_def)
    have "H2MirRunLoop fuel b = Err OutOfFuel" using Suc.prems(1) pc Ok by simp
    from Suc.IH [OF this] runStep_progress [OF s Suc.prems(2-4)] Suc.prems(3-5) e
    obtain c f where "runStep\<^sup>*\<^sup>* b c" "rpc c < length (rcode c)"
      "step (H2MirEvalFunctionInternal (H2MirRunLoop f) False False (H2CTFEValueInvalid, False)) f
        (rcode c ! rpc c) (c\<lparr>rpc := rpc c + 1\<rparr>) = Err OutOfFuel"
      by (auto simp del: H2MirRunLoop.simps)
    with s show ?thesis by (meson converse_rtranclp_into_rtranclp)
  next
    case (Err e)
    then have "?step = Err OutOfFuel" using Suc.prems(1) pc by (cases e) simp_all
    with pc show ?thesis by blast
  next
    case Stuck
    with Suc.prems(1) pc show ?thesis by simp
  qed
qed

text \<open>C9: Under a limit of backward jumps every run of the interpreter ends, whatever the code, the
  callbacks and the called functions answer: from the start of a function it makes at most
  (limit + 1) times as many steps as there are instructions, and with that much fuel the loop
  of the model can only run out of fuel inside a step, that is in a called function or in an
  operator on nested optionals.\<close>
theorem mir_run_terminates:
  assumes "0 < backwardJumpLimit (renv run)" "backwardJumpLimit (renv run) < UINT32_MAX" "rbackJumps run = 0" "rpc run = 0"
  shows "(\<forall>k run'. (runStep ^^ k) run run' \<longrightarrow> k \<le> (backwardJumpLimit (renv run) + 1) * length (rcode run)) \<and>
    (H2MirRunLoop fuel run = Err OutOfFuel \<longrightarrow> (backwardJumpLimit (renv run) + 1) * length (rcode run) < fuel \<longrightarrow>
      (\<exists>b f. runStep\<^sup>*\<^sup>* run b \<and> rpc b < length (rcode b) \<and>
        step (H2MirEvalFunctionInternal (H2MirRunLoop f) False False (H2CTFEValueInvalid, False)) f
          (rcode b ! rpc b) (b\<lparr>rpc := rpc b + 1\<rparr>) = Err OutOfFuel))"
proof -
  have w: "within run" "progress run = 0" using assms(3,4) by (simp_all add: within_def progress_def)
  have "k \<le> (backwardJumpLimit (renv run) + 1) * length (rcode run)" if "(runStep ^^ k) run run'" for k run'
  proof -
    from run_progress [OF that w(1) assms(1,2)] have r: "within run'" "frame run' = frame run" "k \<le> progress run'" by simp_all
    then have "renv run' = renv run" "rcode run' = rcode run" by (simp_all add: frame_def)
    with within_bound [OF r(1)] r(3) show ?thesis by simp
  qed
  with loop_fuel [OF _ w(1) assms(1,2)] w(2) show ?thesis by simp
qed

subsection \<open>The stack\<close>

lemma initArgs_keeps: "kept a run \<Longrightarrow> keeps a (initArgs args n i run)"
proof (induction n arbitrary: i run)
  case (Suc n)
  have "keeps a (initArgs args (Suc n) i run)"
    unfolding initArgs.simps
  proof (intro keeps_obind)
    fix v
    show "keeps a (case slotAddr (rlocals run) i of None \<Rightarrow> Stuck
       | Some p \<Rightarrow>
           (let run = run\<lparr>rmem := writeValue p v (rmem run)\<rparr>; local = H2MirGetLocalMeta run i
            in case (rprogram run, rfunction run) of
                 (Some _, Some f) \<Rightarrow>
                   (if isHiddenClosureData f i \<or> ltypeRef local = UINT32_MAX
                    then initArgs args n (i + 1) run
                    else
                      (let (rc, v', run) = H2MirCoerceValueForType run (ltypeRef local) v;
                           run = run\<lparr>rmem := writeValue p v' (rmem run)\<rparr>
                       in if rc < 0 then return (-1) run
                          else if rc = 0 then Ok run
                          else initArgs args n (i + 1) run))
               | _ \<Rightarrow> initArgs args n (i + 1) run))"
    proof (cases "slotAddr (rlocals run) i")
      case (Some p)
      let ?r = "run\<lparr>rmem := writeValue p v (rmem run)\<rparr>"
      have r: "kept a ?r" by (rule kept_rmem [OF Suc.prems])
      obtain rc v' c where c: "H2MirCoerceValueForType ?r (ltypeRef (H2MirGetLocalMeta ?r i)) v = (rc, v', c)"
        by (metis prod_cases3)
      from coerce_kept [OF r c] have "kept a (c\<lparr>rmem := writeValue p v' (rmem c)\<rparr>)" by (rule kept_rmem)
      with Suc.IH r show ?thesis
        unfolding Some Let_def option.case c prod.case
        by (simp add: keeps_return keeps_Ok split: option.split)
    qed (simp add: keeps_Stuck)
  qed
  then show ?case .
qed (simp add: keeping)

lemma initRun_stack:
  assumes "H2MirInitRun chunk program fn locals args env clearDiag m = Ok run"
  shows "length (rstack run) \<le> rstackCap run \<and> rstackCap run = u32 (length chunk + snd args + 1) \<and>
    rstackBytes run = u32 (88 * rstackCap run)"
proof -
  let ?cap = "u32 (length chunk + snd args + 1)"
  let ?m = "if clearDiag then m\<lparr>hdiag := map_option (\<lambda>d. diagZero) (hdiag m)\<rparr> else m"
  obtain stack ar where ar: "H2ArenaAlloc (marena ?m) (u32 (sizeof_H2CTFEValue * ?cap)) 8 = (stack, ar)" by fastforce
  define a where "a = \<lparr>rcode = chunk, rpc = 0, rstack = [], rstackCap = ?cap,
                 rstackBytes = u32 (sizeof_H2CTFEValue * ?cap), rlocals = None, rlocalCount = locals,
                 rprogram = program, rfunction = fn, renv = env, rbackJumps = 0,
                 rmem = ?m\<lparr>marena := ar\<rparr>, rout = H2CTFEValueInvalid, risConst = False\<rparr>"
  have "\<exists>l. kept (a\<lparr>rlocals := l\<rparr>) run"
  proof (cases "locals = 0")
    case True
    with assms have "run = a" using ar by (auto simp: H2MirInitRun_def Let_def fail_def return_def a_def split: if_splits)
    then show ?thesis using kept_refl [of a] by (intro exI [of _ "rlocals a"]) simp
  next
    case False
    with assms have "allocate (sizeof_H2CTFEValue * locals) 8 0 0 a (\<lambda>p run.
           let run = run\<lparr>rlocals := Some p,
                 rmem := writeValues p (replicate locals H2CTFEValueInvalid) (rmem run)\<rparr>
           in if snd args > locals then Ok run else initArgs (fst args) (snd args) 0 run) = Ok run"
      using ar by (auto simp: H2MirInitRun_def Let_def fail_def return_def a_def split: if_splits)
    then obtain p m' n where b: "(if snd args > locals then Ok (a\<lparr>rmem := m', rlocals := Some p, rmem := n\<rparr>)
        else initArgs (fst args) (snd args) 0 (a\<lparr>rmem := m', rlocals := Some p, rmem := n\<rparr>)) = Ok run"
      by (auto simp: allocate_def fail_def return_def Let_def split: option.splits prod.splits if_split_asm)
    let ?b = "a\<lparr>rmem := m', rlocals := Some p, rmem := n\<rparr>"
    have "kept (a\<lparr>rlocals := Some p\<rparr>) ?b" using kept_rmem [OF kept_refl, of "a\<lparr>rlocals := Some p\<rparr>" n] by simp
    with b initArgs_keeps [of "a\<lparr>rlocals := Some p\<rparr>" ?b "fst args" "snd args" 0] show ?thesis
      by (auto simp: keeps_def split: if_splits)
  qed
  then obtain l where "kept (a\<lparr>rlocals := l\<rparr>) run" ..
  then show ?thesis by (simp add: kept_def others_def a_def)
qed

lemma runs_frame:
  assumes "runStep\<^sup>*\<^sup>* a b"
  shows "frame b = frame a \<and> (length (rstack a) \<le> rstackCap a \<longrightarrow> length (rstack b) \<le> rstackCap b)"
  using assms by induction (simp_all add: runStep_frame)


text \<open>A loop of one jump, under a limit of one backward jump.\<close>

definition exLoop :: "H2MirInst list" where
  "exLoop = [\<lparr>iop = H2MirOp_JUMP, itok = 0, iaux = 0, istart = 0, iend = 1\<rparr>]"

definition exLoopMem :: "unit H2Mem" where
  "exLoopMem = \<lparr>marena = H2ArenaInit 4096 65536, hbytes = Map.empty, hvals = Map.empty, hclosures = Map.empty,
     hdiag = None, hext = ()\<rparr>"

lemma exLoop_init:
  obtains run where "H2MirInitRun exLoop None None 0 (None, 0) (emptyEnv\<lparr>backwardJumpLimit := 1\<rparr>) True exLoopMem = Ok run"
    "rcode run = exLoop" "renv run = emptyEnv\<lparr>backwardJumpLimit := 1\<rparr>" "rbackJumps run = 0" "rpc run = 0"
proof -
  have "fst (H2ArenaAlloc (H2ArenaInit 4096 65536) (u32 (88 * u32 (length exLoop + 0 + 1))) 8) \<noteq> None" by code_simp
  then have "\<exists>run. H2MirInitRun exLoop None None 0 (None, 0) (emptyEnv\<lparr>backwardJumpLimit := 1\<rparr>) True exLoopMem = Ok run \<and>
      rcode run = exLoop \<and> renv run = emptyEnv\<lparr>backwardJumpLimit := 1\<rparr> \<and> rbackJumps run = 0 \<and> rpc run = 0"
    by (auto simp: H2MirInitRun_def Let_def exLoopMem_def split: prod.split)
  with that show thesis by blast
qed

lemma mir_run_terminates_witness:
  "\<exists>run. H2MirInitRun exLoop None None 0 (None, 0) (emptyEnv\<lparr>backwardJumpLimit := 1\<rparr>) True exLoopMem = Ok run \<and>
     \<not> (\<exists>run'. (runStep ^^ 3) run run')"
proof -
  obtain run where r: "H2MirInitRun exLoop None None 0 (None, 0) (emptyEnv\<lparr>backwardJumpLimit := 1\<rparr>) True exLoopMem = Ok run"
    "rcode run = exLoop" "renv run = emptyEnv\<lparr>backwardJumpLimit := 1\<rparr>" "rbackJumps run = 0" "rpc run = 0"
    by (rule exLoop_init)
  have e: "backwardJumpLimit (renv run) = 1" "length (rcode run) = 1" by (simp_all add: r emptyEnv_def exLoop_def)
  have "\<forall>k run'. (runStep ^^ k) run run' \<longrightarrow> k \<le> (backwardJumpLimit (renv run) + 1) * length (rcode run)"
    using mir_run_terminates [of run 0, THEN conjunct1] r(4,5) e(1) by simp
  then have "(runStep ^^ 3) run run' \<Longrightarrow> (3::nat) \<le> 2" for run' using e by fastforce
  with r(1) show ?thesis by (intro exI [of _ run]) auto
qed


end
