(* ===== verification/Spec2Isabelle.thy ===== *)
theory Spec2Isabelle
  imports H2Literals H2LexerThms H2ImportPath H2Fmt H2AstDump H2MirThms H2MirExprThms H2CtfeThms H2CtfeExpr H2MirRunThms
begin

text \<open>
  A verification of the front end and the constant evaluator of the HopHop compiler. The C code
  is under \<open>src/\<close> of the repository. It is modelled from the first byte of a source file to the
  value of a constant expression, with the parser and the type checker left out:

  \<^item> an arena hands out the memory of every other part (\<open>libhop.c\<close>);
  \<^item> the lexer turns a source into an array of tokens in the arena, and the literal decoder reads
    the text of string and rune tokens (\<open>libhop.c\<close>, \<open>string_lit.c\<close>);
  \<^item> the parser builds a syntax tree of nodes in an array, linked by indices; the tree is dumped as
    text (\<open>libhop.c\<close>) or compiled to the instructions of a stack machine (\<open>mir.c\<close>);
  \<^item> the lowering moves such code into a program with tables of constants, symbols, fields, hosts and
    types (\<open>mir_lower.c\<close>), through the program builder of \<open>mir.c\<close>, which also validates programs;
  \<^item> the interpreter runs programs on the values of the constant evaluator, asking its
    environment about names, calls and aggregates (\<open>mir_exec.c\<close>); \<open>ctfe.c\<close> puts the three together;
  \<^item> import paths are normalized (\<open>libhop.c\<close>) and format strings parsed (\<open>fmt_parse.c\<close>) on their own.

  \<^bold>\<open>Theories.\<close> Each component has a theory with its state and operations, in the order of the code,
  and one or more with what is proved about it.

  \<^item> \<open>H2Prelude\<close>: bytes, 32-bit arithmetic on natural numbers (\<open>u32\<close> is the wrap-around), stores, and
    the type \<open>outcome\<close> of every fallible routine: \<open>Ok\<close>, \<open>Err\<close> for an error of the C code, \<open>Stuck\<close> for
    what C leaves undefined (an access out of bounds). That something is not \<open>Stuck\<close> is memory safety.
  \<^item> \<open>H2Syntax\<close>: the enumerations, the tokens and the nodes of \<open>libhop.h\<close>.
  \<^item> \<open>H2Arena\<close>: \<open>H2ArenaInit\<close> to \<open>H2ArenaAlloc\<close>, \<open>H2ArenaReset\<close>, \<open>H2ArenaDispose\<close>. The locale
    \<open>bump_memory\<close> states what a client relies on (memory handed out is fresh and stays so) and is
    interpreted on the allocator.
  \<^item> \<open>H2StringLit\<close>, \<open>H2Utf8\<close>, \<open>H2StringLitSpec\<close>, \<open>H2ByteSink\<close>, \<open>H2Literals\<close>: the decoders of
    \<open>string_lit.c\<close>, UTF-8 and the meaning of a literal stated apart from the code, and the locale
    \<open>byte_sink\<close> of the emit callbacks, interpreted on the four sinks of the code.
  \<^item> \<open>H2Diag\<close>: diagnostics. \<open>H2Lexer\<close>, \<open>H2LexerSpec\<close>, \<open>H2LexerThms\<close>: the lexer, the machine its loop
    runs, and its properties.
  \<^item> \<open>H2ImportPath\<close>, \<open>H2Fmt\<close>, \<open>H2AstDump\<close>: import paths, format strings, the dump of a tree.
  \<^item> \<open>H2Mir\<close>, \<open>H2MirBuilder\<close>, \<open>H2MirCheck\<close>: the data of \<open>mir.h\<close>, the program builder with its ten growing
    arrays, validation and the search for unresolved names. \<open>H2MirBuilderSpec\<close> has the abstract
    builder (a list of functions that own their code) and the locale \<open>refinement\<close>, interpreted on
    the two; \<open>H2MirThms\<close> the properties.
  \<^item> \<open>H2MirExpr\<close>, \<open>H2MirExprCases\<close>, \<open>H2MirExprThms\<close>: \<open>H2MirBuildExpr\<close> and its stack discipline.
  \<^item> \<open>H2Double\<close>, \<open>H2Ctfe\<close>, \<open>H2CtfeThms\<close>: binary64 arithmetic, the values of \<open>ctfe.h\<close>, literals and operators.
  \<^item> \<open>H2MirExec\<close>, \<open>H2MirRun\<close>, \<open>H2MirRunThms\<close>: the interpreter, one definition for each instruction of the
    loop of \<open>H2MirRunLoop\<close>, and what holds of every run.
  \<^item> \<open>H2MirLower\<close>, \<open>H2MirLowerThms\<close>, \<open>H2MirLowered\<close>, \<open>H2CtfeExpr\<close>: \<open>mir_lower.c\<close> and \<open>ctfe.c\<close>, the lowered
    program, and the value of a constant expression.
\<close>

text \<open>
  \<^bold>\<open>State.\<close> A C structure is a record with the fields of the code; an array with a length and a
  capacity is a list and the two numbers. A pointer is an address (a natural number), \<open>None\<close> for NULL.
  Sources are byte lists and a token or a node has a span in them, as in the code. The arena is
  explicit: an operation that allocates takes and returns it. The interpreter works on a memory
  (\<open>H2Mem\<close>) of bytes, values and closures by address, because values refer to one another.
  Callbacks are arguments of the model (\<open>ctfeHooks\<close>, the fields of \<open>H2MirExecEnv\<close>); they may change
  the memory.

  \<^bold>\<open>What is shown.\<close> The arena: allocations are disjoint, in bounds, aligned, and freed once. Literals:
  the three decoders agree with the meaning of the literal and with one another. The lexer: it
  stays in its source and its array, loses no text, and inserts semicolons exactly by the rule of
  the language; its string tokens decode. The builder refines a list of functions, keeps its
  arrays apart and partitions the code; validation accepts exactly the programs whose references
  are in range. Expression code is the postorder of the tree, leaves one value, and is produced
  for every linked tree. Lowered programs pass validation. The interpreter stays in its operand
  stack and ends under a limit on backward jumps. Together: the value that \<open>H2CTFEEvalExpr\<close> answers
  for a scalar expression is the value of the expression.

  What a property compares the code with does not use the code's own tests and tables. The escapes and
  digits of literals (\<open>escapeTable\<close>, \<open>hexValue\<close>, \<open>octalValue\<close>, \<open>baseDigit\<close>), the tokens that end
  a statement (\<open>statementEnders\<close>), the text allowed between tokens (the relations \<open>trivia\<close> and
  \<open>closes\<close>), the faults and characters of import paths (\<open>importPathFault\<close>) and the letters of
  format placeholders (\<open>holeKind\<close>) are written out from the language's documentation, and the
  lemmas named \<open>..._code\<close> relate them to the code.

  \<^bold>\<open>Bounds and fuel.\<close> \<open>lexMaxLen\<close> (357913939 bytes) is the source length up to which the size of the
  token array fits in 32 bits; \<open>mirMaxLen\<close> (2 to the power 25 entries) the length up to which the size of a
  grown array of the builder does; 53687089 nodes is the same limit for the expression builder, and
  5000000 nodes keep all arrays of a lowered expression below it. The dump of a tree takes fuel
  2 n + 2 for n nodes, the expression builder fuel above the size of the tree (at most
  the number of nodes, and one): both run along child and sibling links and would
  not end on a cycle. The interpreter takes fuel for its loop and for
  nested calls; \<open>mir_run_terminates\<close> gives the fuel that is enough, (limit + 1) times the
  number of instructions and one, and \<open>ctfe_expr_value\<close> shows that the size of the tree is enough for an
  expression. \<open>serves\<close> says that the arena will honour the requests of a computation; \<open>ctfe_expr_value\<close>
  needs it for 6 n + 11 requests of at most 700 (n + 4) bytes, for n nodes.

  \<^bold>\<open>Not modelled.\<close> The recursive descent parser (\<open>parse.c\<close>), whose trees appear here as any array of
  nodes whose links form a tree; the type checker (\<open>typecheck/\<close>), the evaluator of statements
  (\<open>evaluator.c\<close>), the lowering of statements and packages (\<open>mir_lower_stmt.c\<close>, \<open>mir_lower_pkg.c\<close>,
  \<open>hop_mir.c\<close>), which rest on it, and the code generators, whose meaning is that of C and of
  WebAssembly; the source formatter (\<open>format.c\<close>) and the printer of programs (\<open>mir_print.c\<close>), which write
  text for people; the driver and the layer of the operating system, which are input and output.
  NULL arguments that the entry points reject at once are modelled where they are reached by
  a caller of the repository, and of diagnostics the message texts are left out.
\<close>

end
